(* ===== verification/Prelude.thy ===== *)
theory Prelude
  imports
    Main
    "HOL-Library.AList"
    "HOL-Library.Monad_Syntax"
    "HOL-Library.Char_ord"
    "HOL-Library.List_Lexorder"
    "HOL-Library.Multiset"
    "HOL-Library.Word"
begin

text \<open>
  The prelude of the development: the Go fragments every component uses.
  \<^item> A Go map is an association list with distinct keys (\<open>gomap\<close>): \<open>map_of m k\<close> is the
    lookup, \<open>AList.update\<close> the assignment, \<open>AList.delete\<close> the built-in \<open>delete\<close>,
    \<open>getd\<close> the lookup that yields the zero value of a missing key, \<open>mutate\<close> a write through
    a pointer stored in the map.
  \<^item> A computation that may panic on a nil pointer has type \<open>'a option\<close>, \<open>None\<close> being the
    panic; \<open>foldO\<close>, \<open>mapO\<close>, \<open>filterO\<close> are the loops of such computations, and \<open>ok m Q\<close> says
    that \<open>m\<close> does not panic and its result satisfies \<open>Q\<close>.
  \<^item> \<open>wrap64\<close> is the wrap-around of Go's 64-bit \<open>int\<close> and \<open>time.Duration\<close>.
\<close>

named_theorems wp \<open>rules that decompose \<open>ok\<close> goals\<close>

section \<open>Go maps\<close>

type_synonym ('k, 'v) gomap = "('k \<times> 'v) list"

definition getd :: "'v \<Rightarrow> ('k, 'v) gomap \<Rightarrow> 'k \<Rightarrow> 'v" where
  "getd d m k = (case map_of m k of None \<Rightarrow> d | Some v \<Rightarrow> v)"

definition mapvals :: "('k \<Rightarrow> 'v \<Rightarrow> 'v) \<Rightarrow> ('k, 'v) gomap \<Rightarrow> ('k, 'v) gomap" where
  "mapvals f m = map (\<lambda>(k, v). (k, f k v)) m"

definition mutate :: "'k \<Rightarrow> ('v \<Rightarrow> 'v) \<Rightarrow> ('k, 'v) gomap \<Rightarrow> ('k, 'v) gomap" where
  "mutate k f m = mapvals (\<lambda>k' v. if k' = k then f v else v) m"

abbreviation keys :: "('k, 'v) gomap \<Rightarrow> 'k list" where
  "keys m \<equiv> map fst m"

definition countv :: "('v \<Rightarrow> bool) \<Rightarrow> ('k, 'v) gomap \<Rightarrow> nat" where
  "countv P m = length (filter (\<lambda>kv. P (snd kv)) m)"

declare option.map_ident [simp]

lemma map_of_mapvals [simp]: "map_of (mapvals f m) k = map_option (f k) (map_of m k)"
  by (induction m) (auto simp: mapvals_def)

lemma keys_mapvals [simp]: "keys (mapvals f m) = keys m"
  by (induction m) (auto simp: mapvals_def)

lemma map_of_mutate [simp]:
  "map_of (mutate k f m) k' = (if k' = k then map_option f (map_of m k') else map_of m k')"
  by (simp add: mutate_def)

lemma keys_mutate [simp]: "keys (mutate k f m) = keys m"
  by (simp add: mutate_def)

lemma map_of_update [simp]: "map_of (AList.update k v m) k' = (if k' = k then Some v else map_of m k')"
  by (simp add: AList.update_conv')

lemma map_of_delete_if [simp]: "map_of (AList.delete k m) k' = (if k' = k then None else map_of m k')"
  by (simp add: AList.delete_conv')

lemma distinct_keys_update [intro, simp]: "distinct (keys m) \<Longrightarrow> distinct (keys (AList.update k v m))"
  by (rule AList.distinct_update)

lemma distinct_keys_delete [intro, simp]: "distinct (keys m) \<Longrightarrow> distinct (keys (AList.delete k m))"
  by (rule AList.distinct_delete)

lemma set_keys_update [simp]: "set (keys (AList.update k v m)) = insert k (set (keys m))"
  by (simp add: AList.dom_update)

lemma getd_update [simp]: "getd d (AList.update k v m) k' = (if k' = k then v else getd d m k')"
  by (simp add: getd_def)

lemma getd_Nil [simp]: "getd d [] k = d"
  by (simp add: getd_def)

lemma map_of_in_keys: "map_of m k = Some v \<Longrightarrow> k \<in> set (keys m)"
  by (auto dest: map_of_SomeD intro: rev_image_eqI)

lemma map_of_None_keys: "map_of m k = None \<longleftrightarrow> k \<notin> set (keys m)"
  by (simp add: map_of_eq_None_iff)

lemma update_new_append: "k \<notin> set (keys m) \<Longrightarrow> AList.update k v m = m @ [(k, v)]"
  by (induction m) auto

text \<open>Counting the values of a map is a cardinality, hence independent of the iteration order.\<close>

lemma countv_card:
  assumes "distinct (keys m)"
  shows "countv P m = card {k. \<exists>v. map_of m k = Some v \<and> P v}"
proof -
  let ?fs = "filter (\<lambda>kv. P (snd kv)) m"
  have inj: "inj_on fst (set ?fs)"
    using assms by (auto simp: distinct_map inj_on_def)
  have d: "distinct ?fs"
    using assms by (auto simp: distinct_map)
  have "fst ` set ?fs = {k. \<exists>v. map_of m k = Some v \<and> P v}"
    using assms by (force simp: map_of_eq_Some_iff image_iff)
  then show ?thesis
    using card_image [OF inj] distinct_card [OF d] by (simp add: countv_def)
qed

lemma finite_map_of: "finite {k. \<exists>v. map_of m k = Some v \<and> P v}"
  by (rule finite_subset [of _ "set (keys m)"]) (auto dest: map_of_in_keys simp del: set_map)

lemma countv_mono:
  assumes "distinct (keys m)" "distinct (keys m')"
    and "\<And>k v. map_of m k = Some v \<Longrightarrow> P v \<Longrightarrow> \<exists>v'. map_of m' k = Some v' \<and> Q v'"
  shows "countv P m \<le> countv Q m'"
  unfolding countv_card [OF assms(1)] countv_card [OF assms(2)]
  by (rule card_mono [OF finite_map_of]) (use assms(3) in blast)

lemma countv_cong:
  assumes "distinct (keys m)" "distinct (keys m')"
    and "\<And>k. (\<exists>v. map_of m k = Some v \<and> P v) \<longleftrightarrow> (\<exists>v. map_of m' k = Some v \<and> Q v)"
  shows "countv P m = countv Q m'"
  unfolding countv_card [OF assms(1)] countv_card [OF assms(2)] using assms(3) by simp

lemma countv_update_new:
  "k \<notin> set (keys m) \<Longrightarrow> countv P (AList.update k v m) = countv P m + (if P v then 1 else 0)"
  by (simp add: update_new_append countv_def)

lemma map_of_perm:
  assumes "distinct (keys m)" "mset e = mset m"
  shows "map_of e = map_of m"
proof
  fix k
  have "distinct (map fst e)"
    using assms by (metis mset_eq_imp_distinct_iff mset_map)
  moreover have "set e = set m"
    using assms(2) by (metis set_mset_mset)
  ultimately have "map_of e k = Some v \<longleftrightarrow> map_of m k = Some v" for v
    using assms(1) by (simp add: map_of_eq_Some_iff)
  then show "map_of e k = map_of m k"
    by (metis option.exhaust)
qed

section \<open>Computations that may panic\<close>

definition ok :: "'a option \<Rightarrow> ('a \<Rightarrow> bool) \<Rightarrow> bool" where
  "ok m Q \<longleftrightarrow> (\<exists>x. m = Some x \<and> Q x)"

primrec foldO :: "('a \<Rightarrow> 's \<Rightarrow> 's option) \<Rightarrow> 'a list \<Rightarrow> 's \<Rightarrow> 's option" where
  "foldO f [] s = Some s"
| "foldO f (x # xs) s = Option.bind (f x s) (foldO f xs)"

primrec mapO :: "('a \<Rightarrow> 'b option) \<Rightarrow> 'a list \<Rightarrow> 'b list option" where
  "mapO f [] = Some []"
| "mapO f (x # xs) = do { y \<leftarrow> f x; ys \<leftarrow> mapO f xs; Some (y # ys) }"

primrec filterO :: "('a \<Rightarrow> bool option) \<Rightarrow> 'a list \<Rightarrow> 'a list option" where
  "filterO f [] = Some []"
| "filterO f (x # xs) = do { b \<leftarrow> f x; ys \<leftarrow> filterO f xs; Some (if b then x # ys else ys) }"

lemma okI: "m = Some x \<Longrightarrow> Q x \<Longrightarrow> ok m Q"
  by (simp add: ok_def)

lemma okE: "ok m Q \<Longrightarrow> (\<And>x. m = Some x \<Longrightarrow> Q x \<Longrightarrow> R) \<Longrightarrow> R"
  by (auto simp: ok_def)

lemma ok_Some [wp, simp]: "ok (Some x) Q \<longleftrightarrow> Q x"
  by (simp add: ok_def)

lemma ok_None [simp]: "\<not> ok None Q"
  by (simp add: ok_def)

lemma ok_bind_iff [wp]: "ok (Option.bind m f) Q \<longleftrightarrow> ok m (\<lambda>x. ok (f x) Q)"
  by (cases m) (auto simp: ok_def)

lemma ok_if [wp]: "ok (if b then m else m') Q \<longleftrightarrow> (if b then ok m Q else ok m' Q)"
  by simp

lemma ok_conseq: "ok m P \<Longrightarrow> (\<And>x. m = Some x \<Longrightarrow> P x \<Longrightarrow> Q x) \<Longrightarrow> ok m Q"
  by (auto simp: ok_def)

lemma ok_conj: "ok m P \<Longrightarrow> ok m Q \<Longrightarrow> ok m (\<lambda>x. P x \<and> Q x)"
  by (auto simp: ok_def)

lemma ok_foldO:
  assumes "\<And>x s. x \<in> set xs \<Longrightarrow> I s \<Longrightarrow> ok (f x s) I" and "I s"
  shows "ok (foldO f xs s) I"
  using assms
proof (induction xs arbitrary: s)
  case Nil
  then show ?case by simp
next
  case (Cons x xs)
  then obtain s' where "f x s = Some s'" "I s'"
    by (meson list.set_intros(1) okE)
  with Cons show ?case by simp
qed

lemma foldO_append: "foldO f (xs @ ys) s = Option.bind (foldO f xs s) (foldO f ys)"
  by (induction xs arbitrary: s) (auto split: Option.bind_split)

lemma mapO_Some_iff:
  "mapO f xs = Some ys \<longleftrightarrow> length ys = length xs \<and> (\<forall>i < length xs. f (xs ! i) = Some (ys ! i))"
proof (induction xs arbitrary: ys)
  case Nil
  then show ?case by auto
next
  case (Cons x xs)
  show ?case
    by (cases ys) (auto simp: Cons.IH bind_eq_Some_conv less_Suc_eq_0_disj)
qed

lemma mapO_total: "(\<And>x. x \<in> set xs \<Longrightarrow> f x = Some (g x)) \<Longrightarrow> mapO f xs = Some (map g xs)"
  by (induction xs) auto

lemma filterO_total: "(\<And>x. x \<in> set xs \<Longrightarrow> f x = Some (P x)) \<Longrightarrow> filterO f xs = Some (filter P xs)"
  by (induction xs) auto

lemma ok_mapO: "(\<And>x. x \<in> set xs \<Longrightarrow> \<exists>y. f x = Some y) \<Longrightarrow> \<exists>ys. mapO f xs = Some ys"
  by (induction xs) force+

lemma mapO_set: "mapO f xs = Some ys \<Longrightarrow> y \<in> set ys \<longleftrightarrow> (\<exists>x \<in> set xs. f x = Some y)"
  by (induction xs arbitrary: ys) (auto simp: bind_eq_Some_conv)

section \<open>Integers and time\<close>

definition wrap64 :: "int \<Rightarrow> int" where
  "wrap64 n = (n + 2 ^ 63) mod 2 ^ 64 - 2 ^ 63"

lemma wrap64_id: "- (2 ^ 63) \<le> n \<Longrightarrow> n < 2 ^ 63 \<Longrightarrow> wrap64 n = n"
  by (simp add: wrap64_def)

lemma wrap64_range: "- (2 ^ 63) \<le> wrap64 n \<and> wrap64 n < 2 ^ 63"
proof -
  have "0 \<le> (n + 2 ^ 63) mod 2 ^ 64 \<and> (n + 2 ^ 63) mod 2 ^ 64 < (2 ^ 64 :: int)"
    by simp
  then show ?thesis by (simp add: wrap64_def)
qed

lemma wrap64_add_left: "wrap64 (wrap64 a + b) = wrap64 (a + b)"
proof -
  have "(wrap64 a + b) + 2 ^ 63 = (a + 2 ^ 63) mod 2 ^ 64 + b"
    by (simp add: wrap64_def)
  moreover have "((a + 2 ^ 63) mod 2 ^ 64 + b) mod 2 ^ 64 = ((a + b) + 2 ^ 63) mod (2 ^ 64 :: int)"
    by (simp only: mod_add_left_eq) (simp only: ac_simps)
  ultimately show ?thesis by (simp only: wrap64_def)
qed

type_synonym time = int       \<comment> \<open>nanoseconds since Go's zero time, which is 0\<close>
type_synonym duration = int   \<comment> \<open>nanoseconds\<close>

definition timeSub :: "time \<Rightarrow> time \<Rightarrow> duration" where
  \<comment> \<open>Go's \<open>Time.Sub\<close> saturates at the bounds of a 64-bit duration.\<close>
  "timeSub t u = max (- (2 ^ 63)) (min (2 ^ 63 - 1) (t - u))"

definition Second :: duration where "Second = 1000000000"
definition Minute :: duration where "Minute = 60 * Second"
definition Hour :: duration where "Hour = 60 * Minute"

definition durTimes :: "int \<Rightarrow> duration \<Rightarrow> duration" where
  \<comment> \<open>\<open>time.Duration(n) * unit\<close> on 64-bit integers.\<close>
  "durTimes n d = wrap64 (n * d)"

lemma timeSub_ge: "d \<le> 2 ^ 63 - 1 \<Longrightarrow> - (2 ^ 63) < d \<Longrightarrow> d \<le> timeSub t u \<longleftrightarrow> d \<le> t - u"
  by (auto simp: timeSub_def)

section \<open>Lists\<close>

lemma find_Some_iff_split:
  "find P xs = Some x \<longleftrightarrow> (\<exists>ys zs. xs = ys @ x # zs \<and> P x \<and> (\<forall>y \<in> set ys. \<not> P y))"
proof (induction xs)
  case Nil
  then show ?case by simp
next
  case (Cons a xs)
  show ?case
  proof (cases "P a")
    case True
    then show ?thesis by (auto simp: Cons_eq_append_conv)
  next
    case False
    then have "find P (a # xs) = find P xs" by simp
    with False show ?thesis
      unfolding Cons.IH \<open>find P (a # xs) = find P xs\<close>
      by (auto simp: Cons_eq_append_conv)
        (metis list.set_intros(1) set_ConsD append_Cons)+
  qed
qed

lemma sort_eq_if_mset: "mset xs = mset ys \<Longrightarrow> sort xs = sort (ys :: 'a :: linorder list)"
  by (metis mset_sort properties_for_sort sorted_sort)

lemma map_rotate_mod:
  "map (\<lambda>i. xs ! ((k + i) mod length xs)) [0..<length xs] = rotate k xs"
  by (rule nth_equalityI) (auto simp: nth_rotate add.commute)

end
