(* ===== verification/GoStrings.thy ===== *)
theory GoStrings
  imports Prelude
begin

text \<open>
  The functions of Go's \<open>strings\<close>, \<open>path\<close>, \<open>strconv\<close> and \<open>fmt\<close> packages that the program calls,
  on byte strings (\<open>string\<close> is a list of bytes, as a Go string is). \<open>ToLower\<close> lowers the ASCII
  letters, which are the only letters \<open>RepositoryPattern\<close> admits.
\<close>

definition HasPrefix :: "string \<Rightarrow> string \<Rightarrow> bool" where
  "HasPrefix s p \<longleftrightarrow> take (length p) s = p"

definition TrimPrefix :: "string \<Rightarrow> string \<Rightarrow> string" where
  "TrimPrefix s p = (if HasPrefix s p then drop (length p) s else s)"

fun Contains :: "string \<Rightarrow> string \<Rightarrow> bool" where
  "Contains [] sub \<longleftrightarrow> sub = []"
| "Contains (c # s) sub \<longleftrightarrow> HasPrefix (c # s) sub \<or> Contains s sub"

definition ContainsAny :: "string \<Rightarrow> string \<Rightarrow> bool" where
  "ContainsAny s chars \<longleftrightarrow> (\<exists>c \<in> set s. c \<in> set chars)"

definition ReplaceByte :: "string \<Rightarrow> char \<Rightarrow> char \<Rightarrow> string" where
  \<comment> \<open>\<open>strings.ReplaceAll\<close> with one-byte arguments\<close>
  "ReplaceByte s old new = map (\<lambda>c. if c = old then new else c) s"

definition lowerChar :: "char \<Rightarrow> char" where
  "lowerChar c = (if (CHR ''A'' \<le> c \<and> c \<le> CHR ''Z'') then char_of (of_char c + (32 :: nat)) else c)"

definition ToLower :: "string \<Rightarrow> string" where
  "ToLower s = map lowerChar s"

text \<open>\<open>strings.Split\<close> with a one-byte separator.\<close>

fun Split :: "string \<Rightarrow> char \<Rightarrow> string list" where
  "Split [] sep = [[]]"
| "Split (c # s) sep =
     (if c = sep then [] # Split s sep
      else (case Split s sep of [] \<Rightarrow> [[c]] | w # ws \<Rightarrow> (c # w) # ws))"

fun Join :: "string list \<Rightarrow> string \<Rightarrow> string" where
  "Join [] sep = []"
| "Join [w] sep = w"
| "Join (w # v # ws) sep = w @ sep @ Join (v # ws) sep"

definition TrimByte :: "string \<Rightarrow> char \<Rightarrow> string" where
  \<comment> \<open>\<open>strings.Trim\<close> with a one-byte cutset\<close>
  "TrimByte s c = rev (dropWhile (\<lambda>x. x = c) (rev (dropWhile (\<lambda>x. x = c) s)))"

section \<open>Decimal numerals\<close>

definition digit :: "nat \<Rightarrow> char" where
  "digit n = char_of (48 + n)"

fun utoa :: "nat \<Rightarrow> string" where
  "utoa n = (if n < 10 then [digit n] else utoa (n div 10) @ [digit (n mod 10)])"

declare utoa.simps [simp del]

definition itoa :: "int \<Rightarrow> string" where
  "itoa n = (if n < 0 then CHR ''-'' # utoa (nat (- n)) else utoa (nat n))"

section \<open>Paths\<close>

text \<open>
  \<open>path.Clean\<close>: the components are pushed on a stack (kept reversed); \<open>..\<close> pops a component that
  is not itself \<open>..\<close>, is dropped at the root, and stays in front of a relative path.
\<close>

fun cleanParts :: "bool \<Rightarrow> string list \<Rightarrow> string list \<Rightarrow> string list" where
  "cleanParts rooted stack [] = rev stack"
| "cleanParts rooted stack (w # ws) =
     (if w = [] \<or> w = ''.'' then cleanParts rooted stack ws
      else if w = ''..'' then
        (case stack of
           [] \<Rightarrow> if rooted then cleanParts rooted [] ws else cleanParts rooted [''..''] ws
         | w' # rest \<Rightarrow> if w' = ''..'' then cleanParts rooted (''..'' # stack) ws
                        else cleanParts rooted rest ws)
      else cleanParts rooted (w # stack) ws)"

definition Clean :: "string \<Rightarrow> string" where
  "Clean p =
     (let rooted = HasPrefix p ''/'';
          body = Join (cleanParts rooted [] (Split p (CHR ''/''))) ''/''
      in if rooted then CHR ''/'' # body else if body = [] then ''.'' else body)"

section \<open>Lemmas\<close>

lemma HasPrefix_iff: "HasPrefix s p \<longleftrightarrow> (\<exists>t. s = p @ t)"
  by (metis HasPrefix_def append_eq_conv_conj append_take_drop_id)

lemma HasPrefix_append [simp]: "HasPrefix (p @ t) p"
  by (simp add: HasPrefix_def)

lemma TrimPrefix_append [simp]: "TrimPrefix (p @ t) p = t"
  by (simp add: TrimPrefix_def)

lemma of_char_digit: "n < 10 \<Longrightarrow> of_char (digit n) = 48 + n"
  by (simp add: digit_def)

lemma digit_inj: "m < 10 \<Longrightarrow> n < 10 \<Longrightarrow> digit m = digit n \<longleftrightarrow> m = n"
  by (metis of_char_digit add_left_cancel)

lemma utoa_nonempty [simp]: "utoa n \<noteq> []"
  by (subst utoa.simps) simp

definition isDigit :: "char \<Rightarrow> bool" where
  "isDigit c \<longleftrightarrow> (48 :: nat) \<le> of_char c \<and> of_char c \<le> (57 :: nat)"

lemma isDigit_digit: "n < 10 \<Longrightarrow> isDigit (digit n)"
  by (simp add: isDigit_def of_char_digit)

lemma utoa_digits: "c \<in> set (utoa n) \<Longrightarrow> isDigit c"
proof (induction n rule: utoa.induct)
  case (1 n)
  then show ?case
    by (subst (asm) utoa.simps) (auto split: if_splits intro: isDigit_digit)
qed

lemma utoa_inj: "utoa m = utoa n \<Longrightarrow> m = n"
proof (induction m arbitrary: n rule: utoa.induct)
  case (1 m)
  have m: "utoa m = (if m < 10 then [digit m] else utoa (m div 10) @ [digit (m mod 10)])"
    by (rule utoa.simps)
  have n: "utoa n = (if n < 10 then [digit n] else utoa (n div 10) @ [digit (n mod 10)])"
    by (rule utoa.simps)
  show ?case
  proof (cases "m < 10"; cases "n < 10")
    assume "m < 10" "n < 10"
    with "1.prems" m n show ?thesis by (simp add: digit_inj)
  next
    assume "\<not> m < 10" "\<not> n < 10"
    with "1.prems" m n have "utoa (m div 10) = utoa (n div 10)" "digit (m mod 10) = digit (n mod 10)"
      by simp_all
    then have "m div 10 = n div 10" "m mod 10 = n mod 10"
      using "1.IH" \<open>\<not> m < 10\<close> by (simp_all add: digit_inj)
    then show ?thesis by (metis div_mult_mod_eq)
  qed (use "1.prems" m n utoa_nonempty in \<open>metis append_is_Nil_conv append_eq_Cons_conv neq_Nil_conv\<close>)+
qed

lemma itoa_inj: "itoa m = itoa n \<longleftrightarrow> m = n"
proof
  have dash: "\<not> isDigit (CHR ''-'')"
    by (simp add: isDigit_def)
  have no_dash: "utoa k \<noteq> CHR ''-'' # s" for k s
    using utoa_digits [of "CHR ''-''" k] dash by (metis list.set_intros(1))
  assume "itoa m = itoa n"
  then show "m = n"
    using no_dash no_dash [symmetric]
    by (auto simp: itoa_def split: if_splits dest!: utoa_inj)
qed simp

lemma itoa_no_hash: "CHR ''#'' \<notin> set (itoa n)"
proof -
  have "\<not> isDigit (CHR ''#'')"
    by (simp add: isDigit_def)
  then show ?thesis
    using utoa_digits by (auto simp: itoa_def)
qed

lemma append_sep_inj:
  assumes "a @ sep # b = c @ sep # d" "sep \<notin> set b" "sep \<notin> set d"
  shows "a = c \<and> b = d"
proof -
  have suffix: "takeWhile (\<lambda>x. x \<noteq> sep) (rev (u @ sep # v)) = rev v" if "sep \<notin> set v" for u v
    using that by (subst takeWhile_tail [symmetric]) (auto simp: takeWhile_append2 takeWhile_tail)
  have "rev b = rev d"
    using suffix [of b a] suffix [of d c] assms by metis
  with assms(1) show ?thesis by simp
qed

lemma Split_nonempty [simp]: "Split s sep \<noteq> []"
  by (induction s) (auto split: list.splits)

lemma Split_no_sep: "sep \<notin> set s \<Longrightarrow> Split s sep = [s]"
  by (induction s) auto

lemma Join_Split: "Join (Split s sep) [sep] = s"
proof (induction s)
  case Nil
  then show ?case by simp
next
  case (Cons c s)
  obtain w ws where w: "Split s sep = w # ws"
    by (meson Split_nonempty neq_Nil_conv)
  show ?case
    using Cons.IH w by (cases ws) auto
qed

lemma Split_components: "w \<in> set (Split s sep) \<Longrightarrow> sep \<notin> set w"
  by (induction s arbitrary: w) (auto split: list.splits if_splits)

lemma Contains_iff: "Contains s sub \<longleftrightarrow> (\<exists>a b. s = a @ sub @ b)"
proof (induction s)
  case Nil
  then show ?case by auto
next
  case (Cons c s)
  show ?case
  proof
    assume "Contains (c # s) sub"
    then consider "HasPrefix (c # s) sub" | "Contains s sub" by auto
    then show "\<exists>a b. c # s = a @ sub @ b"
    proof cases
      case 1
      then show ?thesis by (metis HasPrefix_iff append_Nil)
    next
      case 2
      then show ?thesis using Cons.IH by (metis append_Cons)
    qed
  next
    assume "\<exists>a b. c # s = a @ sub @ b"
    then obtain a b where ab: "c # s = a @ sub @ b" by blast
    show "Contains (c # s) sub"
    proof (cases a)
      case Nil
      with ab have "HasPrefix (c # s) sub" by simp
      then show ?thesis by simp
    next
      case (Cons x a')
      with ab Cons.IH show ?thesis by auto
    qed
  qed
qed

end
