(* ===== verification/Domain.thy ===== *)
theory Domain
  imports GoStrings
begin

text \<open>
  The data of \<open>internal/domain/types.go\<close>: one record per struct, with the struct's fields in their
  order and a prefix that tells the records apart. A pointer field that may be nil is an
  \<open>option\<close>; a \<open>time.Time\<close> is a number of nanoseconds whose zero value is 0. \<open>State\<close> is Go's
  string enumeration; \<open>StateUnset\<close> is its zero value, the empty string.
\<close>

datatype State =
    StateQueued | StateLeased | StateRunning | StateSucceeded | StateFailed | StateLost
  | StateCancelled | StateActive | StateDeleting | StatePending | StateDeleted | StateUnset

record Resources =
  res_CPU :: int
  res_Memory :: int

record Environment =
  env_TTLMinutes :: int
  env_Exposure :: string
  env_Image :: string
  env_Port :: int
  env_HealthPath :: string

record Buildkit =
  bk_Context :: string
  bk_Dockerfile :: string
  bk_Destination :: string

record JobSpec =
  spec_Type :: string
  spec_Image :: string
  spec_Command :: "string list"
  spec_Needs :: "string list"
  spec_Priority :: int
  spec_Capabilities :: "string list"
  spec_Trusted :: bool
  spec_Resources :: Resources
  spec_Environment :: "Environment option"
  spec_TimeoutSeconds :: int
  spec_MaxAttempts :: int
  spec_Buildkit :: "Buildkit option"

record PipelineSpec =
  ps_Version :: int
  ps_Jobs :: "(string, JobSpec) gomap"

record Pipeline =
  pl_ID :: string
  pl_Tenant :: string
  pl_Repo :: string
  pl_CommitSHA :: string
  pl_Trigger :: string
  pl_PRNumber :: int
  pl_Status :: State
  pl_CreatedAt :: time
  pl_JobIDs :: "string list"
  pl_SourceRepo :: string
  pl_Fork :: bool
  pl_Generation :: int
  pl_ConfigDigest :: string
  pl_InstallationID :: int
  pl_CheckRunID :: int
  pl_CheckState :: State

record Job =
  job_ID :: string
  job_PipelineID :: string
  job_Tenant :: string
  job_Name :: string
  job_Spec :: JobSpec
  job_Status :: State
  job_QueueReason :: string
  job_CreatedAt :: time
  job_Sequence :: "64 word"
  job_AttemptIDs :: "string list"

record Artefact =
  art_Name :: string
  art_Digest :: string
  art_Size :: int
  art_Key :: string

record Attempt =
  att_ID :: string
  att_JobID :: string
  att_Number :: int
  att_WorkerID :: string
  att_LeaseToken :: string
  att_LeaseExpires :: time
  att_Status :: State
  att_CreatedAt :: time
  att_StartedAt :: time
  att_CompletedAt :: time
  att_ResultMessage :: string
  att_ResultDigest :: string
  att_LogKey :: string
  att_Artefacts :: "Artefact list"

record AttemptLease =
  lease_Attempt :: Attempt
  lease_LeaseToken :: string
  lease_Job :: Job
  lease_Pipeline :: Pipeline
  lease_Deadline :: time

record Worker =
  wk_ID :: string
  wk_Pool :: string
  wk_Capabilities :: "(string, bool) gomap"
  wk_Capacity :: int
  wk_Trusted :: bool
  wk_Resources :: Resources
  wk_Heartbeat :: time

record Preview =
  pv_Repo :: string
  pv_PRNumber :: int
  pv_Namespace :: string
  pv_URL :: string
  pv_Generation :: int
  pv_Desired :: State
  pv_Actual :: State
  pv_ExpiresAt :: time
  pv_UpdatedAt :: time
  pv_Tenant :: string
  pv_PipelineID :: string
  pv_Image :: string
  pv_Port :: int
  pv_HealthPath :: string
  pv_LastError :: string
  pv_Exposure :: string

record PipelineView =
  view_Pipeline :: Pipeline
  view_Jobs :: "Job list"
  view_Attempts :: "Attempt list"

section \<open>Zero values\<close>

definition zeroJobSpec :: JobSpec where
  "zeroJobSpec = \<lparr>spec_Type = [], spec_Image = [], spec_Command = [], spec_Needs = [],
     spec_Priority = 0, spec_Capabilities = [], spec_Trusted = False,
     spec_Resources = \<lparr>res_CPU = 0, res_Memory = 0\<rparr>, spec_Environment = None,
     spec_TimeoutSeconds = 0, spec_MaxAttempts = 0, spec_Buildkit = None\<rparr>"

definition zeroPipeline :: Pipeline where
  "zeroPipeline = \<lparr>pl_ID = [], pl_Tenant = [], pl_Repo = [], pl_CommitSHA = [], pl_Trigger = [],
     pl_PRNumber = 0, pl_Status = StateUnset, pl_CreatedAt = 0, pl_JobIDs = [], pl_SourceRepo = [],
     pl_Fork = False, pl_Generation = 0, pl_ConfigDigest = [], pl_InstallationID = 0,
     pl_CheckRunID = 0, pl_CheckState = StateUnset\<rparr>"

definition zeroPipelineView :: PipelineView where
  "zeroPipelineView = \<lparr>view_Pipeline = zeroPipeline, view_Jobs = [], view_Attempts = []\<rparr>"

section \<open>Lifecycle predicates (\<open>active\<close> and \<open>terminal\<close> of \<open>internal/control/store.go\<close>)\<close>

definition active :: "State \<Rightarrow> bool" where
  "active state \<longleftrightarrow> state = StateLeased \<or> state = StateRunning"

definition terminal :: "State \<Rightarrow> bool" where
  "terminal state \<longleftrightarrow> state = StateSucceeded \<or> state = StateFailed \<or> state = StateCancelled
     \<or> state = StateLost"

lemma active_simps [simp]:
  "active StateLeased" "active StateRunning" "\<not> active StateQueued" "\<not> active StateSucceeded"
  "\<not> active StateFailed" "\<not> active StateCancelled" "\<not> active StateLost"
  by (simp_all add: active_def)

lemma terminal_simps [simp]:
  "terminal StateSucceeded" "terminal StateFailed" "terminal StateCancelled" "terminal StateLost"
  "\<not> terminal StateQueued" "\<not> terminal StateLeased" "\<not> terminal StateRunning"
  by (simp_all add: terminal_def)

lemma active_not_terminal: "active s \<Longrightarrow> \<not> terminal s"
  by (auto simp: active_def)

end
