(* ===== verification/Planner.thy ===== *)
theory Planner
  imports Domain
begin

text \<open>
  \<open>internal/planner/planner.go\<close>: \<open>Validate\<close> checks a pipeline specification and returns a
  topological order of its jobs (Kahn's algorithm with a sorted ready queue). The two loops over
  the Go map \<open>spec.Jobs\<close> visit its entries in an unspecified order: \<open>ValidateWith e1 e2\<close> takes
  the two visiting orders as arguments, \<open>Validate\<close> uses the order of the association list, and
  \<open>Validate_order_independent\<close> shows that the choice never changes an accepted result.
\<close>

section \<open>The code\<close>

datatype planError =
    BadVersion int
  | NoJobs
  | EmptyName
  | BadPriority string
  | NegativeResources string
  | SelfDependency string
  | UnknownDependency string string
  | RepeatedDependency string string
  | DependencyCycle

definition minPriority :: int where "minPriority = - 10"
definition maxPriority :: int where "maxPriority = 10"

definition checkJob :: "string \<Rightarrow> JobSpec \<Rightarrow> planError option" where
  "checkJob name job =
     (if name = [] then Some EmptyName
      else if spec_Priority job < minPriority \<or> spec_Priority job > maxPriority
        then Some (BadPriority name)
      else if res_CPU (spec_Resources job) < 0 \<or> res_Memory (spec_Resources job) < 0
        then Some (NegativeResources name)
      else None)"

fun checkJobs :: "(string \<times> JobSpec) list \<Rightarrow> planError option" where
  "checkJobs [] = None"
| "checkJobs ((name, job) # es) =
     (case checkJob name job of Some e \<Rightarrow> Some e | None \<Rightarrow> checkJobs es)"

type_synonym indegrees = "(string, int) gomap"
type_synonym dependents = "(string, string list) gomap"

fun scanNeeds ::
  "(string, JobSpec) gomap \<Rightarrow> string \<Rightarrow> string list \<Rightarrow> string list \<Rightarrow> indegrees \<times> dependents
   \<Rightarrow> planError + indegrees \<times> dependents" where
  "scanNeeds jobs name seen [] g = Inr g"
| "scanNeeds jobs name seen (dependency # ds) (indegree, deps) =
     (if dependency = name then Inl (SelfDependency name)
      else if map_of jobs dependency = None then Inl (UnknownDependency name dependency)
      else if dependency \<in> set seen then Inl (RepeatedDependency name dependency)
      else scanNeeds jobs name (dependency # seen) ds
             (AList.update name (getd 0 indegree name + 1) indegree,
              AList.update dependency (getd [] deps dependency @ [name]) deps))"

fun scanJobs ::
  "(string, JobSpec) gomap \<Rightarrow> (string \<times> JobSpec) list \<Rightarrow> indegrees \<times> dependents
   \<Rightarrow> planError + indegrees \<times> dependents" where
  "scanJobs jobs [] g = Inr g"
| "scanJobs jobs ((name, job) # es) g =
     (case scanNeeds jobs name [] (spec_Needs job) g of
        Inl e \<Rightarrow> Inl e
      | Inr g' \<Rightarrow> scanJobs jobs es g')"

fun relax :: "string list \<Rightarrow> indegrees \<times> string list \<Rightarrow> indegrees \<times> string list" where
  "relax [] (indegree, ready) = (indegree, ready)"
| "relax (dependent # ds) (indegree, ready) =
     (let n = getd 0 indegree dependent - 1;
          indegree' = AList.update dependent n indegree
      in if n = 0 then relax ds (indegree', sort (ready @ [dependent]))
         else relax ds (indegree', ready))"

definition waiting :: "indegrees \<Rightarrow> nat" where
  "waiting indegree = card {k. 0 < getd 0 indegree k}"

lemma finite_waiting: "finite {k. 0 < getd 0 (indegree :: indegrees) k}"
  by (rule finite_subset [of _ "set (keys indegree)"])
    (auto simp: getd_def split: option.splits dest: map_of_in_keys simp del: set_map)

lemma relax_measure:
  "relax ds (indegree, ready) = (indegree', ready') \<Longrightarrow>
     length ready' + waiting indegree' \<le> length ready + waiting indegree"
proof (induction ds arbitrary: indegree ready)
  case Nil
  then show ?case by simp
next
  case (Cons d ds)
  define n where "n = getd 0 indegree d - 1"
  define ind where "ind = AList.update d n indegree"
  have sub: "{k. 0 < getd 0 ind k} \<subseteq> {k. 0 < getd 0 indegree k}"
    by (auto simp: ind_def n_def)
  then have le: "waiting ind \<le> waiting indegree"
    unfolding waiting_def by (rule card_mono [OF finite_waiting])
  show ?case
  proof (cases "n = 0")
    case True
    then have "d \<in> {k. 0 < getd 0 indegree k} - {k. 0 < getd 0 ind k}"
      by (simp add: ind_def n_def)
    with sub have "{k. 0 < getd 0 ind k} \<subset> {k. 0 < getd 0 indegree k}"
      by blast
    then have "waiting ind < waiting indegree"
      unfolding waiting_def by (rule psubset_card_mono [OF finite_waiting])
    with Cons.IH [of ind "sort (ready @ [d])"] Cons.prems True show ?thesis
      by (simp add: Let_def ind_def n_def)
  next
    case False
    with Cons.IH [of ind ready] Cons.prems le show ?thesis
      by (simp add: Let_def ind_def n_def)
  qed
qed

function kahn :: "dependents \<Rightarrow> indegrees \<Rightarrow> string list \<Rightarrow> string list \<Rightarrow> string list" where
  "kahn deps indegree [] order = order"
| "kahn deps indegree (name # ready) order =
     (let (indegree', ready') = relax (sort (getd [] deps name)) (indegree, ready)
      in kahn deps indegree' ready' (order @ [name]))"
  by pat_completeness auto
termination
proof (relation "measure (\<lambda>(deps, indegree, ready, order). length ready + waiting indegree)")
  fix deps indegree name ready order x y ready'
  assume "x = relax (sort (getd [] (deps :: dependents) name)) (indegree, ready)"
    and "(y, ready') = x"
  then have "length ready' + waiting y \<le> length ready + waiting indegree"
    by (metis relax_measure)
  then show "((deps, y, ready', order @ [name]), deps, indegree, name # ready, order)
      \<in> measure (\<lambda>(deps, indegree, ready, order). length ready + waiting indegree)"
    by simp
qed simp

declare kahn.simps(2) [simp del]

definition ValidateWith ::
  "(string \<times> JobSpec) list \<Rightarrow> (string \<times> JobSpec) list \<Rightarrow> PipelineSpec \<Rightarrow> planError + string list" where
  "ValidateWith e1 e2 spec =
     (if ps_Version spec \<noteq> 1 then Inl (BadVersion (ps_Version spec))
      else if ps_Jobs spec = [] then Inl NoJobs
      else case checkJobs e1 of
        Some e \<Rightarrow> Inl e
      | None \<Rightarrow>
          (case scanJobs (ps_Jobs spec) e2 (map (\<lambda>(name, _). (name, 0)) e1, []) of
             Inl e \<Rightarrow> Inl e
           | Inr (indegree, deps) \<Rightarrow>
               (let names = sort (map fst e1);
                    ready = filter (\<lambda>name. getd 0 indegree name = 0) names;
                    order = kahn deps indegree ready []
                in if length order \<noteq> length names then Inl DependencyCycle else Inr order)))"

definition Validate :: "PipelineSpec \<Rightarrow> planError + string list" where
  "Validate spec = ValidateWith (ps_Jobs spec) (ps_Jobs spec) spec"

section \<open>The dependency graph of a specification\<close>

definition needsOf :: "(string, JobSpec) gomap \<Rightarrow> string \<Rightarrow> string list" where
  "needsOf jobs name = (case map_of jobs name of None \<Rightarrow> [] | Some j \<Rightarrow> spec_Needs j)"

definition dependsOn :: "PipelineSpec \<Rightarrow> (string \<times> string) set" where
  "dependsOn spec = {(d, n). d \<in> set (needsOf (ps_Jobs spec) n)}"

definition goodNeeds :: "(string, JobSpec) gomap \<Rightarrow> string \<Rightarrow> string list \<Rightarrow> bool" where
  "goodNeeds jobs name ds \<longleftrightarrow> distinct ds \<and> name \<notin> set ds \<and> set ds \<subseteq> set (keys jobs)"

definition wellFormedSpec :: "PipelineSpec \<Rightarrow> bool" where
  "wellFormedSpec spec \<longleftrightarrow> ps_Version spec = 1 \<and> ps_Jobs spec \<noteq> [] \<and>
     (\<forall>(name, job) \<in> set (ps_Jobs spec).
        checkJob name job = None \<and> goodNeeds (ps_Jobs spec) name (spec_Needs job))"

text \<open>
  The abstract specification of the planner's result: an enumeration of all the jobs in which
  every job comes after its dependencies and is the least of the jobs that were available.
\<close>

definition greedyOrder :: "string set \<Rightarrow> (string \<Rightarrow> string list) \<Rightarrow> string list \<Rightarrow> bool" where
  "greedyOrder N needs order \<longleftrightarrow>
     (\<forall>xs n ys. order = xs @ n # ys \<longrightarrow>
        set (needs n) \<subseteq> set xs \<and>
        (\<forall>m \<in> N - set xs. set (needs m) \<subseteq> set xs \<longrightarrow> n \<le> m))"

definition planOf :: "PipelineSpec \<Rightarrow> string list \<Rightarrow> bool" where
  "planOf spec order \<longleftrightarrow> distinct order \<and> set order = set (keys (ps_Jobs spec)) \<and>
     greedyOrder (set (keys (ps_Jobs spec))) (needsOf (ps_Jobs spec)) order"

lemma checkJobs_None: "checkJobs es = None \<longleftrightarrow> (\<forall>(n, j) \<in> set es. checkJob n j = None)"
  by (induction es rule: checkJobs.induct) (auto split: option.splits)

lemma scanNeeds_Inr:
  "scanNeeds jobs name seen ds (indegree, deps) = Inr (indegree', deps') \<Longrightarrow>
     goodNeeds jobs name ds \<and> set ds \<inter> set seen = {} \<and>
     (\<forall>k. getd 0 indegree' k = getd 0 indegree k + (if k = name then int (length ds) else 0)) \<and>
     (\<forall>d. getd [] deps' d = getd [] deps d @ (if d \<in> set ds then [name] else []))"
proof (induction ds arbitrary: seen indegree deps)
  case Nil
  then show ?case by (simp add: goodNeeds_def)
next
  case (Cons d ds)
  from Cons.prems have d: "d \<noteq> name" "d \<in> set (keys jobs)" "d \<notin> set seen"
    by (auto split: if_splits simp: map_of_None_keys simp del: set_map)
  with Cons.prems have "scanNeeds jobs name (d # seen) ds
      (AList.update name (getd 0 indegree name + 1) indegree,
       AList.update d (getd [] deps d @ [name]) deps) = Inr (indegree', deps')"
    by (simp add: map_of_None_keys del: set_map)
  from Cons.IH [OF this] d show ?case
    by (auto simp: goodNeeds_def simp del: set_map)
qed

lemma scanNeeds_total:
  "goodNeeds jobs name ds \<Longrightarrow> set ds \<inter> set seen = {} \<Longrightarrow>
     \<exists>g'. scanNeeds jobs name seen ds g = Inr g'"
proof (induction ds arbitrary: seen g)
  case Nil
  then show ?case by simp
next
  case (Cons d ds)
  obtain ind deps where g: "g = (ind, deps)" by (cases g)
  from Cons.prems have "goodNeeds jobs name ds" "set ds \<inter> set (d # seen) = {}"
    "d \<noteq> name" "map_of jobs d \<noteq> None" "d \<notin> set seen"
    by (auto simp: goodNeeds_def map_of_None_keys simp del: set_map)
  with Cons.IH [of "d # seen"] show ?case by (simp add: g)
qed

lemma scanJobs_Inr:
  "scanJobs jobs es (indegree, deps) = Inr (indegree', deps') \<Longrightarrow> distinct (map fst es) \<Longrightarrow>
     (\<forall>(n, j) \<in> set es. goodNeeds jobs n (spec_Needs j)) \<and>
     (\<forall>k. getd 0 indegree' k = getd 0 indegree k + int (length (needsOf es k))) \<and>
     (\<forall>d. getd [] deps' d =
        getd [] deps d @ map fst (filter (\<lambda>nj. d \<in> set (spec_Needs (snd nj))) es))"
proof (induction es arbitrary: indegree deps)
  case Nil
  then show ?case by (simp add: needsOf_def)
next
  case (Cons e es)
  obtain n j where e: "e = (n, j)" by (cases e)
  from Cons.prems(1) obtain ind1 deps1 where
    1: "scanNeeds jobs n [] (spec_Needs j) (indegree, deps) = Inr (ind1, deps1)" and
    2: "scanJobs jobs es (ind1, deps1) = Inr (indegree', deps')"
    by (auto simp: e split: sum.splits)
  have n: "n \<notin> fst ` set es" and d: "distinct (map fst es)"
    using Cons.prems(2) by (simp_all add: e)
  have "map_of es n = None"
    using n by (simp add: map_of_eq_None_iff)
  then have none: "needsOf es n = []"
    by (simp add: needsOf_def)
  show ?case
    using scanNeeds_Inr [OF 1] Cons.IH [OF 2 d] none by (auto simp: e needsOf_def)
qed

lemma scanJobs_total:
  "(\<forall>(n, j) \<in> set es. goodNeeds jobs n (spec_Needs j)) \<Longrightarrow> \<exists>g'. scanJobs jobs es g = Inr g'"
proof (induction es arbitrary: g)
  case Nil
  then show ?case by simp
next
  case (Cons e es)
  obtain n j where e: "e = (n, j)" by (cases e)
  obtain g' where "scanNeeds jobs n [] (spec_Needs j) g = Inr g'"
    using scanNeeds_total [of jobs n "spec_Needs j" "[]" g] Cons.prems e by auto
  with Cons show ?case by (simp add: e)
qed

section \<open>Kahn's algorithm\<close>

lemma relax_spec:
  "relax ds (indegree, ready) = (indegree', ready') \<Longrightarrow> distinct ds \<Longrightarrow>
     (\<forall>k. getd 0 indegree' k = getd 0 indegree k - (if k \<in> set ds then 1 else 0)) \<and>
     mset ready' = mset ready + mset (filter (\<lambda>d. getd 0 indegree d = 1) ds) \<and>
     (sorted ready \<longrightarrow> sorted ready')"
proof (induction ds arbitrary: indegree ready)
  case Nil
  then show ?case by simp
next
  case (Cons d ds)
  define n where "n = getd 0 indegree d - 1"
  define ind where "ind = AList.update d n indegree"
  have ind: "getd 0 ind k = (if k = d then n else getd 0 indegree k)" for k
    by (simp add: ind_def)
  have same: "filter (\<lambda>d. getd 0 ind d = 1) ds = filter (\<lambda>d. getd 0 indegree d = 1) ds"
    using Cons.prems(2) by (auto intro!: filter_cong simp: ind)
  show ?case
  proof (cases "n = 0")
    case True
    with Cons.prems have "relax ds (ind, sort (ready @ [d])) = (indegree', ready')"
      by (simp add: Let_def ind_def n_def)
    from Cons.IH [OF this] Cons.prems(2) True show ?thesis
      unfolding same by (auto simp: ind n_def simp del: mset_filter)
  next
    case False
    with Cons.prems have "relax ds (ind, ready) = (indegree', ready')"
      by (simp add: Let_def ind_def n_def)
    from Cons.IH [OF this] Cons.prems(2) False show ?thesis
      unfolding same by (auto simp: ind n_def simp del: mset_filter)
  qed
qed

definition graphOf :: "string set \<Rightarrow> (string \<Rightarrow> string list) \<Rightarrow> dependents \<Rightarrow> bool" where
  "graphOf N needs deps \<longleftrightarrow> (\<forall>n. distinct (needs n)) \<and>
     (\<forall>d. distinct (getd [] deps d) \<and> set (getd [] deps d) = {n \<in> N. d \<in> set (needs n)})"

definition kahnInv ::
  "string set \<Rightarrow> (string \<Rightarrow> string list) \<Rightarrow> indegrees \<Rightarrow> string list \<Rightarrow> string list \<Rightarrow> bool" where
  "kahnInv N needs indegree ready order \<longleftrightarrow>
     distinct (order @ ready) \<and> set (order @ ready) \<subseteq> N \<and> sorted ready \<and>
     (\<forall>n \<in> N. getd 0 indegree n = int (length (filter (\<lambda>d. d \<notin> set order) (needs n)))) \<and>
     (\<forall>n \<in> N. n \<in> set (order @ ready) \<longleftrightarrow> set (needs n) \<subseteq> set order) \<and>
     greedyOrder N needs order"

lemma unmet_step:
  assumes "distinct ds" "name \<notin> set order"
  shows "int (length (filter (\<lambda>d. d \<notin> set (order @ [name])) ds)) =
    int (length (filter (\<lambda>d. d \<notin> set order) ds)) - (if name \<in> set ds then 1 else 0)"
  using assms(1)
proof (induction ds)
  case Nil
  then show ?case by simp
next
  case (Cons d ds)
  then show ?case using assms(2) by auto
qed

lemma unmet_one:
  assumes "distinct ds" "name \<in> set ds" "name \<notin> set order"
  shows "int (length (filter (\<lambda>d. d \<notin> set order) ds)) = 1 \<longleftrightarrow> set ds \<subseteq> set (order @ [name])"
proof -
  have "int (length (filter (\<lambda>d. d \<notin> set order) ds)) = 1 \<longleftrightarrow>
      int (length (filter (\<lambda>d. d \<notin> set (order @ [name])) ds)) = 0"
    using unmet_step [OF assms(1,3)] assms(2) by simp
  also have "\<dots> \<longleftrightarrow> set ds \<subseteq> set (order @ [name])"
    by (auto simp: filter_empty_conv)
  finally show ?thesis .
qed

lemma greedyOrder_snoc:
  assumes "greedyOrder N needs order" "set (needs n) \<subseteq> set order"
    and "\<And>m. m \<in> N \<Longrightarrow> m \<notin> set order \<Longrightarrow> set (needs m) \<subseteq> set order \<Longrightarrow> n \<le> m"
  shows "greedyOrder N needs (order @ [n])"
  unfolding greedyOrder_def
proof (intro allI impI)
  fix xs k ys
  assume split: "order @ [n] = xs @ k # ys"
  show "set (needs k) \<subseteq> set xs \<and> (\<forall>m \<in> N - set xs. set (needs m) \<subseteq> set xs \<longrightarrow> k \<le> m)"
  proof (cases ys rule: rev_cases)
    case Nil
    with split have "xs = order" "k = n" by simp_all
    with assms(2,3) show ?thesis by blast
  next
    case (snoc zs z)
    with split have "order = xs @ k # zs" by simp
    with assms(1) show ?thesis unfolding greedyOrder_def by blast
  qed
qed

lemma kahnInv_step:
  assumes g: "graphOf N needs deps" and inv: "kahnInv N needs indegree (name # ready) order"
    and relax: "relax (sort (getd [] deps name)) (indegree, ready) = (indegree', ready')"
  shows "kahnInv N needs indegree' ready' (order @ [name])"
proof -
  let ?ds = "sort (getd [] deps name)"
  have ds: "distinct ?ds" "set ?ds = {n \<in> N. name \<in> set (needs n)}"
    and dn: "\<And>n. distinct (needs n)"
    using g by (auto simp: graphOf_def)
  have I: "distinct (order @ name # ready)" "set (order @ name # ready) \<subseteq> N" "sorted (name # ready)"
    "\<And>n. n \<in> N \<Longrightarrow> getd 0 indegree n = int (length (filter (\<lambda>d. d \<notin> set order) (needs n)))"
    "\<And>n. n \<in> N \<Longrightarrow> n \<in> set (order @ name # ready) \<longleftrightarrow> set (needs n) \<subseteq> set order"
    "greedyOrder N needs order"
    using inv by (auto simp: kahnInv_def)
  have name: "name \<in> N" "name \<notin> set order" "set (needs name) \<subseteq> set order"
    using I(1,2,5) by auto
  note R = relax_spec [OF relax ds(1)]
  have deg: "getd 0 indegree' n = int (length (filter (\<lambda>d. d \<notin> set (order @ [name])) (needs n)))"
    if "n \<in> N" for n
    using R I(4) [OF that] unmet_step [OF dn name(2), of n] ds(2) that by simp
  have new: "set (filter (\<lambda>d. getd 0 indegree d = 1) ?ds) =
      {n \<in> N. name \<in> set (needs n) \<and> set (needs n) \<subseteq> set (order @ [name])}"
    using I(4) unmet_one [OF dn _ name(2)] ds(2) by auto
  have ready': "set ready' = set ready \<union>
      {n \<in> N. name \<in> set (needs n) \<and> set (needs n) \<subseteq> set (order @ [name])}"
    using R new by (metis set_mset_mset set_mset_union)
  have old: "name \<notin> set (needs n)" if "n \<in> set (order @ name # ready)" for n
    using I(2,5) that name(2) by (metis subsetD)
  have "distinct ((order @ [name]) @ ready')"
  proof -
    have "distinct (ready @ filter (\<lambda>d. getd 0 indegree d = 1) ?ds)"
      using I(1) ds new old by auto
    then have "distinct ready'"
      using R by (metis mset_append mset_eq_imp_distinct_iff)
    then show ?thesis using I(1) ready' old by auto
  qed
  moreover have "set ((order @ [name]) @ ready') \<subseteq> N"
    using I(2) ready' by auto
  moreover have "sorted ready'"
    using R I(3) by simp
  moreover have "n \<in> set ((order @ [name]) @ ready') \<longleftrightarrow> set (needs n) \<subseteq> set (order @ [name])"
    if "n \<in> N" for n
    using I(5) [OF that] ready' that old [of n] by auto
  moreover have "greedyOrder N needs (order @ [name])"
    using I(3,5) by (intro greedyOrder_snoc [OF I(6) name(3)]) auto
  ultimately show ?thesis
    unfolding kahnInv_def using deg by blast
qed

lemma kahnInv_kahn:
  assumes "graphOf N needs deps"
  shows "kahnInv N needs indegree ready order \<Longrightarrow>
    \<exists>indegree'. kahnInv N needs indegree' [] (kahn deps indegree ready order)"
  using assms
proof (induction deps indegree ready order rule: kahn.induct)
  case (1 deps indegree order)
  then show ?case by auto
next
  case (2 deps indegree name ready order)
  obtain ind' ready' where r: "relax (sort (getd [] deps name)) (indegree, ready) = (ind', ready')"
    by fastforce
  from kahnInv_step [OF 2(3,2) r] have "kahnInv N needs ind' ready' (order @ [name])" .
  with 2(1) [OF r [symmetric] refl] 2(3) show ?case
    by (simp add: kahn.simps(2) r)
qed

lemma greedyOrder_unique:
  assumes "greedyOrder N needs xs" "distinct xs" "set xs = N"
    and "greedyOrder N needs ys" "distinct ys" "set ys = N"
  shows "xs = ys"
proof -
  have len: "length xs = length ys"
    using assms by (metis distinct_card)
  have "k \<le> length xs \<Longrightarrow> take k xs = take k ys" for k
  proof (induction k)
    case 0
    then show ?case by simp
  next
    case (Suc k)
    then have k: "k < length xs" "k < length ys" and eq: "take k xs = take k ys"
      using len by auto
    have sx: "xs = take k xs @ xs ! k # drop (Suc k) xs"
      and sy: "ys = take k ys @ ys ! k # drop (Suc k) ys"
      using k by (simp_all add: id_take_nth_drop)
    have nx: "xs ! k \<in> N - set (take k xs)" and ny: "ys ! k \<in> N - set (take k xs)"
      using assms k eq sx sy by (metis DiffI distinct_append IntI empty_iff list.set_intros(1) nth_mem)+
    have "xs ! k \<le> ys ! k" and "ys ! k \<le> xs ! k"
      using assms(1,4) sx sy nx ny eq unfolding greedyOrder_def by metis+
    then have "xs ! k = ys ! k" by simp
    with eq k show ?case by (simp add: take_Suc_conv_app_nth)
  qed
  from this [of "length xs"] len show ?thesis by simp
qed

lemma greedyOrder_acyclic:
  assumes "greedyOrder N needs order" "distinct order" "set order = N"
    and "\<And>n. n \<notin> N \<Longrightarrow> needs n = []"
  shows "acyclic {(d, n). d \<in> set (needs n)}"
proof -
  define pos where "pos n = length (takeWhile (\<lambda>x. x \<noteq> n) order)" for n
  have "{(d, n). d \<in> set (needs n)} \<subseteq> measure pos"
  proof clarify
    fix d n assume d: "d \<in> set (needs n)"
    then have "n \<in> set order" using assms(3,4) by fastforce
    then obtain xs ys where s: "order = xs @ n # ys" by (meson split_list)
    then have "d \<in> set xs" using assms(1) d unfolding greedyOrder_def by blast
    then obtain us vs where u: "xs = us @ d # vs" "d \<notin> set us"
      by (meson split_list_first)
    have "n \<notin> set xs" using assms(2) s by auto
    then have "pos n = length xs" "pos d = length us"
      using s u by (auto simp: pos_def takeWhile_tail takeWhile_append)
    with u show "(d, n) \<in> measure pos" by simp
  qed
  then show ?thesis
    by (meson wf_acyclic wf_measure wf_subset)
qed

section \<open>What \<open>Validate\<close> computes\<close>

lemma needsOf_outside: "n \<notin> set (keys jobs) \<Longrightarrow> needsOf jobs n = []"
  unfolding needsOf_def map_of_None_keys [symmetric] by simp

lemma needsOf_entry: "distinct (keys jobs) \<Longrightarrow> (n, j) \<in> set jobs \<Longrightarrow> needsOf jobs n = spec_Needs j"
  by (simp add: needsOf_def)

lemma needsOf_cases:
  obtains "needsOf jobs n = []" | j where "(n, j) \<in> set jobs" "needsOf jobs n = spec_Needs j"
  by (cases "map_of jobs n") (auto simp: needsOf_def dest: map_of_SomeD)

lemma wellFormedSpec_needs:
  assumes "wellFormedSpec spec"
  shows "distinct (needsOf (ps_Jobs spec) n) \<and>
    set (needsOf (ps_Jobs spec) n) \<subseteq> set (keys (ps_Jobs spec))"
  by (rule needsOf_cases [of "ps_Jobs spec" n])
    (use assms in \<open>auto simp: wellFormedSpec_def goodNeeds_def simp del: set_map\<close>)

lemma planOf_unique: "planOf spec xs \<Longrightarrow> planOf spec ys \<Longrightarrow> xs = ys"
  unfolding planOf_def by (blast intro: greedyOrder_unique)

lemma planOf_acyclic: "planOf spec order \<Longrightarrow> acyclic (dependsOn spec)"
  unfolding planOf_def dependsOn_def
  by (rule greedyOrder_acyclic) (auto intro: needsOf_outside simp del: set_map)

lemma kahnInv_final:
  assumes inv: "kahnInv (set (keys (ps_Jobs spec))) (needsOf (ps_Jobs spec)) indegree [] order"
    and len: "length order = length (ps_Jobs spec)" and d: "distinct (keys (ps_Jobs spec))"
  shows "planOf spec order"
proof -
  have o: "distinct order" "set order \<subseteq> set (keys (ps_Jobs spec))"
    and g: "greedyOrder (set (keys (ps_Jobs spec))) (needsOf (ps_Jobs spec)) order"
    using inv unfolding kahnInv_def append_Nil2 by blast+
  have "card (set (keys (ps_Jobs spec))) = length (ps_Jobs spec)"
    using distinct_card [OF d] by simp
  moreover have "card (set order) = length order"
    by (rule distinct_card [OF o(1)])
  ultimately have "set order = set (keys (ps_Jobs spec))"
    using card_subset_eq [OF finite_set o(2)] len by simp
  with o(1) g show ?thesis unfolding planOf_def by blast
qed

lemma finite_dependsOn:
  assumes "wellFormedSpec spec"
  shows "finite (dependsOn spec)"
proof -
  have "dependsOn spec \<subseteq> set (keys (ps_Jobs spec)) \<times> set (keys (ps_Jobs spec))"
    using wellFormedSpec_needs [OF assms] needsOf_outside by (force simp: dependsOn_def)
  then show ?thesis by (rule finite_subset) simp
qed

lemma kahnInv_acyclic:
  assumes inv: "kahnInv (set (keys (ps_Jobs spec))) (needsOf (ps_Jobs spec)) indegree [] order"
    and ac: "acyclic (dependsOn spec)" and wf: "wellFormedSpec spec"
  shows "set order = set (keys (ps_Jobs spec))"
proof (rule ccontr)
  let ?N = "set (keys (ps_Jobs spec))"
  assume "set order \<noteq> ?N"
  then obtain n0 where n0: "n0 \<in> ?N - set order"
    using inv unfolding kahnInv_def append_Nil2 by blast
  have "wf (dependsOn spec)"
    using ac finite_dependsOn [OF wf] by (simp add: finite_acyclic_wf)
  then obtain z where z: "z \<in> ?N - set order" "\<And>y. (y, z) \<in> dependsOn spec \<Longrightarrow> y \<notin> ?N - set order"
    using n0 by (metis wfE_min)
  then have "set (needsOf (ps_Jobs spec) z) \<subseteq> set order"
    using wellFormedSpec_needs [OF wf, of z] by (auto simp: dependsOn_def simp del: set_map)
  with inv z(1) show False
    unfolding kahnInv_def append_Nil2 by blast
qed

lemma getd_zeros: "getd 0 (map (\<lambda>(name, _). (name, 0)) es) k = (0 :: int)"
  by (induction es) (auto simp: getd_def split: if_splits)

text \<open>The queue the main loop starts from satisfies the loop invariant.\<close>

lemma scanJobs_graph:
  assumes d: "distinct (keys (ps_Jobs spec))" and e2: "mset e2 = mset (ps_Jobs spec)"
    and wf: "wellFormedSpec spec"
    and s: "scanJobs (ps_Jobs spec) e2 (map (\<lambda>(name, _). (name, 0)) e1, []) = Inr (indegree, deps)"
  shows "graphOf (set (keys (ps_Jobs spec))) (needsOf (ps_Jobs spec)) deps"
    and "getd 0 indegree n = int (length (needsOf (ps_Jobs spec) n))"
proof -
  let ?N = "set (keys (ps_Jobs spec))" and ?needs = "needsOf (ps_Jobs spec)"
  have sets: "set e2 = set (ps_Jobs spec)" and d2: "distinct (map fst e2)"
    using e2 d by (metis set_mset_mset, metis mset_eq_imp_distinct_iff mset_map)
  have same: "needsOf e2 = ?needs"
    using map_of_perm [OF d e2] by (simp add: needsOf_def fun_eq_iff)
  note S = scanJobs_Inr [OF s d2, unfolded same]
  show "getd 0 indegree n = int (length (?needs n))"
    using S by (simp add: getd_zeros)
  have "distinct (getd [] deps m) \<and> set (getd [] deps m) = {n \<in> ?N. m \<in> set (?needs n)}" for m
  proof -
    have "getd [] deps m = map fst (filter (\<lambda>nj. m \<in> set (spec_Needs (snd nj))) e2)"
      using S by simp
    moreover have "distinct (map fst (filter (\<lambda>nj. m \<in> set (spec_Needs (snd nj))) e2))"
      using d2 by (rule distinct_map_filter)
    moreover have "n \<in> fst ` {nj \<in> set e2. m \<in> set (spec_Needs (snd nj))} \<longleftrightarrow>
        n \<in> ?N \<and> m \<in> set (?needs n)" for n
      using needsOf_entry [OF d] sets by force
    ultimately show ?thesis by auto
  qed
  then show "graphOf ?N ?needs deps"
    using wellFormedSpec_needs [OF wf] unfolding graphOf_def by blast
qed

lemma kahn_planOf:
  assumes d: "distinct (keys (ps_Jobs spec))" and wf: "wellFormedSpec spec"
    and e1: "mset e1 = mset (ps_Jobs spec)" and e2: "mset e2 = mset (ps_Jobs spec)"
    and s: "scanJobs (ps_Jobs spec) e2 (map (\<lambda>(name, _). (name, 0)) e1, []) = Inr (indegree, deps)"
    and k: "order = kahn deps indegree (filter (\<lambda>name. getd 0 indegree name = 0) (sort (map fst e1))) []"
  shows "planOf spec order \<longleftrightarrow> length order = length (ps_Jobs spec)"
    and "acyclic (dependsOn spec) \<longrightarrow> planOf spec order"
proof -
  let ?N = "set (keys (ps_Jobs spec))" and ?needs = "needsOf (ps_Jobs spec)"
  have names: "set (map fst e1) = ?N" "distinct (map fst e1)"
    using e1 d by (metis set_mset_mset mset_map, metis mset_eq_imp_distinct_iff mset_map)
  have "kahnInv ?N ?needs indegree (filter (\<lambda>name. getd 0 indegree name = 0) (sort (map fst e1))) []"
    using names scanJobs_graph(2) [OF d e2 wf s]
    by (auto simp: kahnInv_def greedyOrder_def sorted_filter [where f = id, simplified] simp del: set_map)
  from kahnInv_kahn [OF scanJobs_graph(1) [OF d e2 wf s] this] k obtain ind'
    where inv: "kahnInv ?N ?needs ind' [] order"
    by blast
  have card: "card ?N = length (ps_Jobs spec)"
    using distinct_card [OF d] by simp
  show iff: "planOf spec order \<longleftrightarrow> length order = length (ps_Jobs spec)"
    using kahnInv_final [OF inv _ d] card by (metis distinct_card planOf_def)
  show "acyclic (dependsOn spec) \<longrightarrow> planOf spec order"
    using kahnInv_acyclic [OF inv _ wf] inv card iff
    unfolding kahnInv_def append_Nil2 by (metis distinct_card)
qed

lemma ValidateWith_iff:
  assumes d: "distinct (keys (ps_Jobs spec))"
    and e1: "mset e1 = mset (ps_Jobs spec)" and e2: "mset e2 = mset (ps_Jobs spec)"
  shows "ValidateWith e1 e2 spec = Inr order \<longleftrightarrow> wellFormedSpec spec \<and> planOf spec order"
proof -
  let ?z = "(map (\<lambda>(name, _). (name, 0)) e1, [])"
  have sets: "set e1 = set (ps_Jobs spec)" "set e2 = set (ps_Jobs spec)"
    and len: "length (map fst e1) = length (ps_Jobs spec)" and d2: "distinct (map fst e2)"
    using e1 e2 d by (metis set_mset_mset, metis set_mset_mset, metis size_mset length_map,
        metis mset_eq_imp_distinct_iff mset_map)
  have wf: "wellFormedSpec spec \<longleftrightarrow> ps_Version spec = 1 \<and> ps_Jobs spec \<noteq> [] \<and>
      checkJobs e1 = None \<and> (\<exists>g. scanJobs (ps_Jobs spec) e2 ?z = Inr g)"
    using scanJobs_total [of e2 "ps_Jobs spec" ?z] scanJobs_Inr [OF _ d2] sets
    unfolding wellFormedSpec_def checkJobs_None by fastforce
  show ?thesis
  proof (cases "wellFormedSpec spec")
    case True
    then obtain ind deps where s: "scanJobs (ps_Jobs spec) e2 ?z = Inr (ind, deps)"
      using wf by auto
    define ord' where
      "ord' = kahn deps ind (filter (\<lambda>name. getd 0 ind name = 0) (sort (map fst e1))) []"
    note K = kahn_planOf [OF d True e1 e2 s ord'_def]
    have "ValidateWith e1 e2 spec = (if length ord' \<noteq> length (ps_Jobs spec) then Inl DependencyCycle else Inr ord')"
      using True wf s len by (simp add: ValidateWith_def ord'_def Let_def)
    then show ?thesis
      using K True planOf_unique planOf_acyclic by (auto split: if_splits)
  next
    case False
    then show ?thesis
      using wf by (auto simp: ValidateWith_def split: option.splits sum.splits if_splits)
  qed
qed

lemma Validate_iff:
  "distinct (keys (ps_Jobs spec)) \<Longrightarrow>
     Validate spec = Inr order \<longleftrightarrow> wellFormedSpec spec \<and> planOf spec order"
  unfolding Validate_def by (rule ValidateWith_iff) auto

lemma scanNeeds_not_cycle: "scanNeeds jobs name seen ds g \<noteq> Inl DependencyCycle"
  by (induction jobs name seen ds g rule: scanNeeds.induct) auto

lemma scanJobs_not_cycle: "scanJobs jobs es g \<noteq> Inl DependencyCycle"
  by (induction jobs es g rule: scanJobs.induct) (auto split: sum.splits simp: scanNeeds_not_cycle)

lemma checkJobs_not_cycle: "checkJobs es \<noteq> Some DependencyCycle"
  by (induction es rule: checkJobs.induct) (auto simp: checkJob_def split: option.splits)

lemma Validate_scan:
  assumes d: "distinct (keys (ps_Jobs spec))"
  shows "wellFormedSpec spec \<longleftrightarrow> ps_Version spec = 1 \<and> ps_Jobs spec \<noteq> [] \<and>
    checkJobs (ps_Jobs spec) = None \<and> (\<exists>g. scanJobs (ps_Jobs spec) (ps_Jobs spec)
      (map (\<lambda>(name, _). (name, 0)) (ps_Jobs spec), []) = Inr g)"
  using scanJobs_total [of "ps_Jobs spec"] scanJobs_Inr [OF _ d]
  unfolding wellFormedSpec_def checkJobs_None by fastforce

lemma Validate_wellFormed:
  "distinct (keys (ps_Jobs spec)) \<Longrightarrow> wellFormedSpec spec \<Longrightarrow>
     (\<exists>order. Validate spec = Inr order) \<or> Validate spec = Inl DependencyCycle"
  using Validate_scan [of spec]
  by (auto simp: Validate_def ValidateWith_def Let_def split: option.splits sum.splits)

lemma Validate_cycle:
  "distinct (keys (ps_Jobs spec)) \<Longrightarrow> Validate spec = Inl DependencyCycle \<Longrightarrow> wellFormedSpec spec"
  using Validate_scan [of spec] checkJobs_not_cycle scanJobs_not_cycle
  by (auto simp: Validate_def ValidateWith_def Let_def split: option.splits sum.splits if_splits)

lemma planOf_exists:
  assumes d: "distinct (keys (ps_Jobs spec))" and wf: "wellFormedSpec spec"
    and ac: "acyclic (dependsOn spec)"
  shows "\<exists>order. planOf spec order"
proof -
  obtain g where "scanJobs (ps_Jobs spec) (ps_Jobs spec)
      (map (\<lambda>(name, _). (name, 0)) (ps_Jobs spec), []) = Inr g"
    using scanJobs_total wf unfolding wellFormedSpec_def by blast
  then obtain ind deps where "scanJobs (ps_Jobs spec) (ps_Jobs spec)
      (map (\<lambda>(name, _). (name, 0)) (ps_Jobs spec), []) = Inr (ind, deps)"
    by (cases g) auto
  from kahn_planOf(2) [OF d wf refl refl this refl] ac show ?thesis by blast
qed

section \<open>Properties\<close>

text \<open>
  C30: an accepted specification yields a plan: every job exactly once, every job after all of its
  dependencies, and among the jobs that are available at a position the least name comes first.
\<close>

theorem Validate_topological:
  assumes "distinct (keys (ps_Jobs spec))" and "Validate spec = Inr order"
  shows "distinct order \<and> set order = set (keys (ps_Jobs spec)) \<and>
    (\<forall>xs n ys. order = xs @ n # ys \<longrightarrow>
       set (needsOf (ps_Jobs spec) n) \<subseteq> set xs \<and>
       (\<forall>m \<in> set (keys (ps_Jobs spec)) - set xs.
          set (needsOf (ps_Jobs spec) m) \<subseteq> set xs \<longrightarrow> n \<le> m))"
  using Validate_iff [OF assms(1)] assms(2) unfolding planOf_def greedyOrder_def by blast

lemmas plan_eval = Validate_def ValidateWith_def checkJob_def minPriority_def maxPriority_def
  kahn.simps(2) getd_def

text \<open>A diamond: \<open>d\<close> needs \<open>b\<close> and \<open>c\<close>, which need \<open>a\<close>; the map lists it out of order.\<close>

definition diamondSpec :: PipelineSpec where
  "diamondSpec = \<lparr>ps_Version = 1, ps_Jobs =
     [(''d'', zeroJobSpec\<lparr>spec_Needs := [''c'', ''b'']\<rparr>), (''b'', zeroJobSpec\<lparr>spec_Needs := [''a'']\<rparr>),
      (''a'', zeroJobSpec), (''c'', zeroJobSpec\<lparr>spec_Needs := [''a'']\<rparr>)]\<rparr>"

lemma diamondSpec_distinct: "distinct (keys (ps_Jobs diamondSpec))"
  by (simp add: diamondSpec_def)

lemma diamondSpec_valid: "Validate diamondSpec = Inr [''a'', ''b'', ''c'', ''d'']"
  by (simp add: diamondSpec_def zeroJobSpec_def plan_eval)

theorem Validate_topological_witness:
  "set (needsOf (ps_Jobs diamondSpec) ''d'') \<subseteq> set [''a'', ''b'', ''c'']"
proof -
  have split: "[''a'', ''b'', ''c'', ''d''] = [''a'', ''b'', ''c''] @ ''d'' # []" by simp
  note plan = Validate_topological [OF diamondSpec_distinct diamondSpec_valid]
  show ?thesis
    by (rule conjunct1 [OF mp [OF spec [OF spec [OF spec [OF conjunct2 [OF conjunct2 [OF plan]]]]] split]])
qed

text \<open>
  C36: \<open>Validate\<close> accepts exactly the well-formed specifications (version, job names, priorities,
  resources, known and unrepeated dependencies) whose dependency graph is acyclic, and a well-formed
  specification with a cycle is reported as a cycle.
\<close>

theorem Validate_accepts_iff:
  assumes d: "distinct (keys (ps_Jobs spec))"
  shows "((\<exists>order. Validate spec = Inr order) \<longleftrightarrow> wellFormedSpec spec \<and> acyclic (dependsOn spec)) \<and>
    (Validate spec = Inl DependencyCycle \<longleftrightarrow> wellFormedSpec spec \<and> \<not> acyclic (dependsOn spec))"
proof -
  have acc: "(\<exists>order. Validate spec = Inr order) \<longleftrightarrow> wellFormedSpec spec \<and> acyclic (dependsOn spec)"
    using Validate_iff [OF d] planOf_exists [OF d] planOf_acyclic by blast
  moreover have "wellFormedSpec spec \<Longrightarrow> (\<exists>order. Validate spec = Inr order) \<or> Validate spec = Inl DependencyCycle"
    using Validate_wellFormed [OF d] by blast
  moreover have "Validate spec = Inl DependencyCycle \<Longrightarrow> wellFormedSpec spec"
    using Validate_cycle [OF d] by blast
  ultimately show ?thesis by auto
qed

theorem Validate_accepts_iff_witness:
  "distinct (keys (ps_Jobs diamondSpec)) \<and> wellFormedSpec diamondSpec \<and> acyclic (dependsOn diamondSpec)"
  using Validate_accepts_iff [OF diamondSpec_distinct] diamondSpec_distinct diamondSpec_valid by blast

text \<open>
  C37: the order in which Go visits the map entries never matters for acceptance or for the plan:
  any two visiting orders of the two loops give the result of \<open>Validate\<close>, or both an error.
\<close>

theorem Validate_order_independent:
  assumes "distinct (keys (ps_Jobs spec))"
    and "mset e1 = mset (ps_Jobs spec)" and "mset e2 = mset (ps_Jobs spec)"
  shows "(\<exists>order. ValidateWith e1 e2 spec = Inr order \<and> Validate spec = Inr order) \<or>
    (\<exists>e e'. ValidateWith e1 e2 spec = Inl e \<and> Validate spec = Inl e')"
proof (cases "\<exists>order. Validate spec = Inr order")
  case True
  then show ?thesis
    using ValidateWith_iff [OF assms] Validate_iff [OF assms(1)] by blast
next
  case False
  then have "\<nexists>order. ValidateWith e1 e2 spec = Inr order"
    using ValidateWith_iff [OF assms] Validate_iff [OF assms(1)] by blast
  with False show ?thesis
    by (metis Inr_Inl_False sum.exhaust)
qed

theorem Validate_order_independent_witness:
  "(\<exists>order. ValidateWith (rev (ps_Jobs diamondSpec)) (tl (ps_Jobs diamondSpec) @ [hd (ps_Jobs diamondSpec)]) diamondSpec = Inr order \<and>
      Validate diamondSpec = Inr order) \<or>
    (\<exists>e e'. ValidateWith (rev (ps_Jobs diamondSpec)) (tl (ps_Jobs diamondSpec) @ [hd (ps_Jobs diamondSpec)]) diamondSpec = Inl e \<and>
      Validate diamondSpec = Inl e')"
  by (rule Validate_order_independent) (simp_all add: diamondSpec_def)

end
