(* ===== verification/Sha256.thy ===== *)
theory Sha256
  imports GoStrings
begin

text \<open>
  The standard-library hashing the program relies on: SHA-256 (FIPS 180-4) on byte strings,
  HMAC-SHA256 (RFC 2104) and lower-case hexadecimal coding. A digest is a list of 32 bytes.
\<close>

unbundle bit_operations_syntax

type_synonym u8 = "8 word"
type_synonym u32 = "32 word"

definition bytes :: "string \<Rightarrow> u8 list" where
  "bytes s = map (\<lambda>c. word_of_nat (of_char c)) s"

section \<open>SHA-256\<close>

definition unpack8 :: "int \<Rightarrow> u32 list" where
  \<comment> \<open>the eight 32-bit words of a 256-bit number, the most significant first\<close>
  "unpack8 n = map (\<lambda>i. word_of_int (n div 2 ^ (32 * i))) [7, 6, 5, 4, 3, 2, 1, 0]"

text \<open>The 64 round constants, eight to a row.\<close>

definition roundConstants :: "u32 list" where
  "roundConstants = concat (map unpack8
   [0x428a2f9871374491b5c0fbcfe9b5dba53956c25b59f111f1923f82a4ab1c5ed5,
    0xd807aa9812835b01243185be550c7dc372be5d7480deb1fe9bdc06a7c19bf174,
    0xe49b69c1efbe47860fc19dc6240ca1cc2de92c6f4a7484aa5cb0a9dc76f988da,
    0x983e5152a831c66db00327c8bf597fc7c6e00bf3d5a7914706ca635114292967,
    0x27b70a852e1b21384d2c6dfc53380d13650a7354766a0abb81c2c92e92722c85,
    0xa2bfe8a1a81a664bc24b8b70c76c51a3d192e819d6990624f40e3585106aa070,
    0x19a4c1161e376c082748774c34b0bcb5391c0cb34ed8aa4a5b9cca4f682e6ff3,
    0x748f82ee78a5636f84c878148cc7020890befffaa4506cebbef9a3f7c67178f2])"

type_synonym hashState = "u32 \<times> u32 \<times> u32 \<times> u32 \<times> u32 \<times> u32 \<times> u32 \<times> u32"

definition initialHash :: hashState where
  "initialHash = (0x6a09e667, 0xbb67ae85, 0x3c6ef372, 0xa54ff53a,
                  0x510e527f, 0x9b05688c, 0x1f83d9ab, 0x5be0cd19)"

definition smallSigma0 :: "u32 \<Rightarrow> u32" where
  "smallSigma0 x = word_rotr 7 x XOR word_rotr 18 x XOR drop_bit 3 x"

definition smallSigma1 :: "u32 \<Rightarrow> u32" where
  "smallSigma1 x = word_rotr 17 x XOR word_rotr 19 x XOR drop_bit 10 x"

definition bigSigma0 :: "u32 \<Rightarrow> u32" where
  "bigSigma0 x = word_rotr 2 x XOR word_rotr 13 x XOR word_rotr 22 x"

definition bigSigma1 :: "u32 \<Rightarrow> u32" where
  "bigSigma1 x = word_rotr 6 x XOR word_rotr 11 x XOR word_rotr 25 x"

text \<open>The message schedule, kept newest first while it is extended.\<close>

primrec extendSchedule :: "nat \<Rightarrow> u32 list \<Rightarrow> u32 list" where
  "extendSchedule 0 ws = rev ws"
| "extendSchedule (Suc n) ws =
     extendSchedule n
       ((smallSigma1 (ws ! 1) + ws ! 6 + smallSigma0 (ws ! 14) + ws ! 15) # ws)"

fun shaRound :: "hashState \<Rightarrow> u32 \<times> u32 \<Rightarrow> hashState" where
  "shaRound (a, b, c, d, e, f, g, h) (k, w) =
     (let t1 = h + bigSigma1 e + ((e AND f) XOR (NOT e AND g)) + k + w;
          t2 = bigSigma0 a + ((a AND b) XOR (a AND c) XOR (b AND c))
      in (t1 + t2, a, b, c, d + t1, e, f, g))"

fun addState :: "hashState \<Rightarrow> hashState \<Rightarrow> hashState" where
  "addState (a, b, c, d, e, f, g, h) (a', b', c', d', e', f', g', h') =
     (a + a', b + b', c + c', d + d', e + e', f + f', g + g', h + h')"

fun beWord :: "u8 list \<Rightarrow> u32" where
  "beWord [a, b, c, d] =
     push_bit 24 (ucast a) OR push_bit 16 (ucast b) OR push_bit 8 (ucast c) OR ucast d"
| "beWord _ = 0"

definition wordBytes :: "u32 \<Rightarrow> u8 list" where
  "wordBytes w = [ucast (drop_bit 24 w), ucast (drop_bit 16 w), ucast (drop_bit 8 w), ucast w]"

fun chunks :: "nat \<Rightarrow> 'a list \<Rightarrow> 'a list list" where
  "chunks n xs = (if n = 0 \<or> xs = [] then [] else take n xs # chunks n (drop n xs))"

declare chunks.simps [simp del]

definition compress :: "hashState \<Rightarrow> u8 list \<Rightarrow> hashState" where
  "compress st block =
     addState st (foldl shaRound st
       (zip roundConstants (extendSchedule 48 (rev (map beWord (chunks 4 block))))))"

definition padMessage :: "u8 list \<Rightarrow> u8 list" where
  "padMessage m =
     (let n = length m; bits = (word_of_nat (8 * n) :: 64 word)
      in m @ [0x80] @ replicate ((119 - n mod 64) mod 64) 0 @
         map (\<lambda>k. ucast (drop_bit k bits)) [56, 48, 40, 32, 24, 16, 8, 0])"

fun stateBytes :: "hashState \<Rightarrow> u8 list" where
  "stateBytes (a, b, c, d, e, f, g, h) = concat (map wordBytes [a, b, c, d, e, f, g, h])"

definition sha256 :: "u8 list \<Rightarrow> u8 list" where
  "sha256 m = stateBytes (foldl compress initialHash (chunks 64 (padMessage m)))"

section \<open>HMAC\<close>

definition hmacKey :: "u8 list \<Rightarrow> u8 list" where
  "hmacKey key =
     (let k = (if 64 < length key then sha256 key else key)
      in k @ replicate (64 - length k) 0)"

definition hmacSha256 :: "u8 list \<Rightarrow> u8 list \<Rightarrow> u8 list" where
  "hmacSha256 key m =
     (let k = hmacKey key
      in sha256 (map (\<lambda>b. b XOR 0x5c) k @ sha256 (map (\<lambda>b. b XOR 0x36) k @ m)))"

section \<open>Hexadecimal coding\<close>

definition hexDigit :: "nat \<Rightarrow> char" where
  "hexDigit n = (if n < 10 then char_of (48 + n) else char_of (87 + n))"

definition hexEncode :: "u8 list \<Rightarrow> string" where
  "hexEncode bs = concat (map (\<lambda>b. [hexDigit (unat b div 16), hexDigit (unat b mod 16)]) bs)"

definition hexValue :: "char \<Rightarrow> nat option" where
  "hexValue c =
     (let n = (of_char c :: nat)
      in if 48 \<le> n \<and> n \<le> 57 then Some (n - 48)
         else if 97 \<le> n \<and> n \<le> 102 then Some (n - 87)
         else if 65 \<le> n \<and> n \<le> 70 then Some (n - 55)
         else None)"

fun hexDecode :: "string \<Rightarrow> u8 list option" where
  "hexDecode [] = Some []"
| "hexDecode [c] = None"
| "hexDecode (c # d # s) =
     do { a \<leftarrow> hexValue c; b \<leftarrow> hexValue d; bs \<leftarrow> hexDecode s;
          Some (word_of_nat (16 * a + b) # bs) }"

definition isLowerHex :: "char \<Rightarrow> bool" where
  "isLowerHex c \<longleftrightarrow>
     ((48 :: nat) \<le> of_char c \<and> of_char c \<le> (57 :: nat)) \<or>
     ((97 :: nat) \<le> of_char c \<and> of_char c \<le> (102 :: nat))"

definition sha256Hex :: "string \<Rightarrow> string" where
  "sha256Hex s = hexEncode (sha256 (bytes s))"

section \<open>Lemmas\<close>

lemma length_stateBytes [simp]: "length (stateBytes st) = 32"
  by (cases st rule: stateBytes.cases) (simp add: wordBytes_def)

lemma length_sha256 [simp]: "length (sha256 m) = 32"
  by (simp add: sha256_def)

lemma length_hexEncode [simp]: "length (hexEncode bs) = 2 * length bs"
  by (induction bs) (simp_all add: hexEncode_def)

lemma length_sha256Hex [simp]: "length (sha256Hex s) = 64"
  by (simp add: sha256Hex_def)

lemma hexDigit_lower: "n < 16 \<Longrightarrow> isLowerHex (hexDigit n)"
  by (auto simp: isLowerHex_def hexDigit_def)

lemma unat_u8_bound: "unat (b :: u8) < 256"
  using unsigned_less [where ?'a = nat and w = b] by simp

lemma hexEncode_lower: "c \<in> set (hexEncode bs) \<Longrightarrow> isLowerHex c"
proof -
  have "unat b div 16 < 16" for b :: u8
    using unat_u8_bound [of b] by (simp add: less_mult_imp_div_less)
  then show "c \<in> set (hexEncode bs) \<Longrightarrow> isLowerHex c"
    by (auto simp: hexEncode_def intro: hexDigit_lower)
qed

lemma sha256Hex_lower: "c \<in> set (sha256Hex s) \<Longrightarrow> isLowerHex c"
  unfolding sha256Hex_def by (rule hexEncode_lower)

lemma hexValue_hexDigit: "n < 16 \<Longrightarrow> hexValue (hexDigit n) = Some n"
  by (auto simp: hexValue_def hexDigit_def Let_def)

text \<open>Decoding inverts encoding.\<close>

lemma hexDecode_hexEncode: "hexDecode (hexEncode bs) = Some bs"
proof (induction bs)
  case Nil
  then show ?case by (simp add: hexEncode_def)
next
  case (Cons b bs)
  have "unat b div 16 < 16"
    using unat_u8_bound [of b] by (simp add: less_mult_imp_div_less)
  then have "hexDecode (hexEncode (b # bs)) = Some (word_of_nat (16 * (unat b div 16) + unat b mod 16) # bs)"
    using Cons.IH by (simp add: hexEncode_def hexValue_hexDigit del: of_nat_add of_nat_mult)
  also have "16 * (unat b div 16) + unat b mod 16 = unat b"
    by simp
  finally show ?case by simp
qed

lemma hexEncode_inj: "hexEncode a = hexEncode b \<Longrightarrow> a = b"
  by (metis hexDecode_hexEncode option.inject)

end
