(* ===== verification/Store.thy ===== *)
theory Store
  imports Planner Sha256
begin

text \<open>
  The control-plane store of \<open>internal/control/store.go\<close> and \<open>internal/control/workflow.go\<close>: its
  state, its construction and the internal transitions (the \<open>\<dots>Locked\<close> functions) the exported
  operations are made of. The mutex is always held around an operation, so an operation is a
  function of the state. A pointer into one of the store's maps is the key it is stored under;
  dereferencing a missing key is a nil-pointer panic, the value \<open>None\<close>. Copies (\<open>cloneJob\<close>,
  \<open>clonePipeline\<close>, \<open>cloneWorker\<close>, \<open>cloneJobSpec\<close>) are the identity on values.

  What Go leaves to the run time is an argument: \<open>World\<close> holds the random draws behind \<open>newID\<close> and
  the order in which the \<open>range\<close> loops whose effect may depend on it visit their map.
  A visited key that is no longer in the map is skipped, as Go skips deleted entries.
\<close>

section \<open>State\<close>

datatype error =
    ErrNotFound
  | ErrConflict
  | ErrNoWork
  | ErrStaleLease
  | ErrCapacity
  | ErrInvalid string
  | ErrPlan planError

record Config =
  cfg_LeaseTTL :: duration
  cfg_WorkerTTL :: duration
  cfg_DefaultTenantLimit :: int
  cfg_PreviewBaseDomain :: string
  cfg_PreviewDeleteDelay :: duration
  cfg_MaxQueuedJobs :: int
  cfg_TenantCPU :: int
  cfg_TenantMemoryMB :: int
  cfg_Retention :: duration

record Metrics =
  m_WebhookAccepted :: "64 word"
  m_WebhookDuplicate :: "64 word"
  m_LeasesIssued :: "64 word"
  m_LeasesExpired :: "64 word"
  m_StaleCompletions :: "64 word"
  m_JobsCompleted :: "64 word"
  m_JobsFailed :: "64 word"
  m_JobsCancelled :: "64 word"
  m_PreviewsCreated :: "64 word"
  m_PreviewsDeleted :: "64 word"

record PRState =
  pr_UpdatedAt :: time
  pr_Closed :: bool
  pr_Generation :: int
  pr_Commit :: string

record Store =
  config :: Config
  pipelines :: "(string, Pipeline) gomap"
  jobs :: "(string, Job) gomap"
  attempts :: "(string, Attempt) gomap"
  workers :: "(string, Worker) gomap"
  previews :: "(string, Preview) gomap"
  deliveries :: "(string, string) gomap"
  tenantLimits :: "(string, int) gomap"
  lastTenant :: string
  sequence :: "64 word"
  prStates :: "(string, PRState) gomap"
  requestHashes :: "(string, string) gomap"
  metrics :: Metrics

record World =
  draw :: "nat \<Rightarrow> string"
  visitAttempts :: "string list"
  visitPreviews :: "string list"
  visitPipelines :: "nat \<Rightarrow> string list"

definition zeroMetrics :: Metrics where
  "zeroMetrics = \<lparr>m_WebhookAccepted = 0, m_WebhookDuplicate = 0, m_LeasesIssued = 0,
     m_LeasesExpired = 0, m_StaleCompletions = 0, m_JobsCompleted = 0, m_JobsFailed = 0,
     m_JobsCancelled = 0, m_PreviewsCreated = 0, m_PreviewsDeleted = 0\<rparr>"

definition zeroPRState :: PRState where
  "zeroPRState = \<lparr>pr_UpdatedAt = 0, pr_Closed = False, pr_Generation = 0, pr_Commit = []\<rparr>"

definition withDefaults :: "Config \<Rightarrow> Config" where
  "withDefaults c = \<lparr>
     cfg_LeaseTTL = (if cfg_LeaseTTL c \<le> 0 then 30 * Second else cfg_LeaseTTL c),
     cfg_WorkerTTL = (if cfg_WorkerTTL c \<le> 0 then 45 * Second else cfg_WorkerTTL c),
     cfg_DefaultTenantLimit = (if cfg_DefaultTenantLimit c \<le> 0 then 2 else cfg_DefaultTenantLimit c),
     cfg_PreviewBaseDomain =
       (if cfg_PreviewBaseDomain c = [] then ''preview.local'' else cfg_PreviewBaseDomain c),
     cfg_PreviewDeleteDelay =
       (if cfg_PreviewDeleteDelay c \<le> 0 then 5 * Second else cfg_PreviewDeleteDelay c),
     cfg_MaxQueuedJobs = (if cfg_MaxQueuedJobs c \<le> 0 then 1000 else cfg_MaxQueuedJobs c),
     cfg_TenantCPU = (if cfg_TenantCPU c \<le> 0 then 16 else cfg_TenantCPU c),
     cfg_TenantMemoryMB = (if cfg_TenantMemoryMB c \<le> 0 then 32768 else cfg_TenantMemoryMB c),
     cfg_Retention = (if cfg_Retention c \<le> 0 then 7 * 24 * Hour else cfg_Retention c)\<rparr>"

definition New :: "Config \<Rightarrow> Store" where
  "New c = \<lparr>config = withDefaults c, pipelines = [], jobs = [], attempts = [], workers = [],
     previews = [], deliveries = [], tenantLimits = [], lastTenant = [], sequence = 0,
     prStates = [], requestHashes = [], metrics = zeroMetrics\<rparr>"

section \<open>Names\<close>

definition newID :: "string \<Rightarrow> string \<Rightarrow> string" where
  \<comment> \<open>the second argument is the hexadecimal form of the twelve random bytes\<close>
  "newID pre buffer = pre @ ''_'' @ buffer"

definition previewKey :: "string \<Rightarrow> int \<Rightarrow> string" where
  "previewKey repo prNumber = ToLower repo @ ''#'' @ itoa prNumber"

fun slug :: "string \<Rightarrow> string \<Rightarrow> string" where
  "slug b [] = b"
| "slug b (r # rs) =
     (if (CHR ''a'' \<le> r \<and> r \<le> CHR ''z'') \<or> (CHR ''0'' \<le> r \<and> r \<le> CHR ''9'')
      then slug (b @ [r]) rs
      else if b \<noteq> [] \<and> last b \<noteq> CHR ''-'' then slug (b @ ''-'') rs
      else slug b rs)"

definition previewNamespace :: "string \<Rightarrow> int \<Rightarrow> string" where
  "previewNamespace repo prNumber =
     (let name = TrimByte (slug [] (ToLower repo)) (CHR ''-'');
          name' = (if length name > 30 then take 30 name else name);
          digest = sha256 (bytes (ToLower repo))
      in ''preview-'' @ TrimByte name' (CHR ''-'') @ ''-'' @ hexEncode (take 4 digest) @ ''-''
         @ itoa prNumber)"

section \<open>Creating and viewing pipelines\<close>

definition queuedCountLocked :: "Store \<Rightarrow> int" where
  "queuedCountLocked st = int (countv (\<lambda>j. \<not> terminal (job_Status j)) (jobs st))"

fun createJobs ::
  "(nat \<Rightarrow> string) \<Rightarrow> string \<Rightarrow> string \<Rightarrow> PipelineSpec \<Rightarrow> time \<Rightarrow> nat \<Rightarrow> string list
   \<Rightarrow> string list \<times> Store \<Rightarrow> string list \<times> Store" where
  "createJobs rnd plID tenant spec now n [] (ids, st) = (ids, st)"
| "createJobs rnd plID tenant spec now n (name # names) (ids, st) =
     (let seq = sequence st + 1;
          job = \<lparr>job_ID = newID ''job'' (rnd n), job_PipelineID = plID, job_Tenant = tenant,
            job_Name = name, job_Spec = getd zeroJobSpec (ps_Jobs spec) name,
            job_Status = StateQueued, job_QueueReason = [], job_CreatedAt = now,
            job_Sequence = seq, job_AttemptIDs = []\<rparr>
      in createJobs rnd plID tenant spec now (Suc n) names
           (ids @ [job_ID job],
            st\<lparr>sequence := seq, jobs := AList.update (job_ID job) job (jobs st)\<rparr>))"

definition createPipelineLocked ::
  "(nat \<Rightarrow> string) \<Rightarrow> string \<Rightarrow> string \<Rightarrow> string \<Rightarrow> string \<Rightarrow> int \<Rightarrow> PipelineSpec \<Rightarrow> string list
   \<Rightarrow> time \<Rightarrow> Store \<Rightarrow> string \<times> Store" where
  "createPipelineLocked rnd tenant repo commitSHA trigger prNumber spec order now st =
     (let plID = newID ''pl'' (rnd 0);
          (ids, st1) = createJobs rnd plID tenant spec now 1 order ([], st);
          p = zeroPipeline\<lparr>pl_ID := plID, pl_Tenant := tenant, pl_Repo := repo,
            pl_CommitSHA := commitSHA, pl_Trigger := trigger, pl_PRNumber := prNumber,
            pl_Status := StateQueued, pl_CreatedAt := now, pl_JobIDs := ids\<rparr>
      in (plID, st1\<lparr>pipelines := AList.update plID p (pipelines st1)\<rparr>))"

definition pipelineViewLocked :: "Store \<Rightarrow> string \<Rightarrow> PipelineView option" where
  "pipelineViewLocked st plID =
     (case map_of (pipelines st) plID of
        None \<Rightarrow> Some zeroPipelineView
      | Some p \<Rightarrow> do {
          js \<leftarrow> mapO (map_of (jobs st)) (pl_JobIDs p);
          as \<leftarrow> mapO (\<lambda>j. mapO (map_of (attempts st)) (job_AttemptIDs j)) js;
          Some \<lparr>view_Pipeline = p, view_Jobs = js, view_Attempts = concat as\<rparr> })"

section \<open>Cancelling\<close>

abbreviation incJobsCancelled :: "Store \<Rightarrow> Store" where
  "incJobsCancelled st \<equiv>
     st\<lparr>metrics := (metrics st)\<lparr>m_JobsCancelled := m_JobsCancelled (metrics st) + 1\<rparr>\<rparr>"

definition cancelAttempt :: "time \<Rightarrow> string \<Rightarrow> Store \<Rightarrow> Store option" where
  "cancelAttempt now aid st = do {
     a \<leftarrow> map_of (attempts st) aid;
     Some (if active (att_Status a)
           then st\<lparr>attempts := mutate aid
             (\<lambda>a. a\<lparr>att_Status := StateCancelled, att_CompletedAt := now\<rparr>) (attempts st)\<rparr>
           else st) }"

text \<open>
  The loop body shared by \<open>cancelPipelineLocked\<close> and the failure branch of \<open>updatePipelineLocked\<close>;
  \<open>write\<close> is what each of them writes into the job (only the former sets a queue reason).
\<close>

definition cancelJobWith :: "(Job \<Rightarrow> Job) \<Rightarrow> time \<Rightarrow> string \<Rightarrow> Store \<Rightarrow> Store option" where
  "cancelJobWith write now jid st = do {
     j \<leftarrow> map_of (jobs st) jid;
     (if terminal (job_Status j) then Some st
      else foldO (cancelAttempt now) (job_AttemptIDs j)
             (incJobsCancelled (st\<lparr>jobs := mutate jid write (jobs st)\<rparr>))) }"

definition writeCancelled :: "Job \<Rightarrow> Job" where
  "writeCancelled j = j\<lparr>job_Status := StateCancelled\<rparr>"

definition writePipelineCancelled :: "Job \<Rightarrow> Job" where
  "writePipelineCancelled j =
     j\<lparr>job_Status := StateCancelled, job_QueueReason := ''pipeline cancelled''\<rparr>"

definition setPipelineStatus :: "string \<Rightarrow> State \<Rightarrow> Store \<Rightarrow> Store" where
  "setPipelineStatus plID s st =
     st\<lparr>pipelines := mutate plID (\<lambda>p. p\<lparr>pl_Status := s\<rparr>) (pipelines st)\<rparr>"

definition markPreviewDeleting :: "string \<Rightarrow> time \<Rightarrow> Store \<Rightarrow> Store" where
  "markPreviewDeleting key now st =
     (case map_of (previews st) key of
        None \<Rightarrow> st
      | Some v \<Rightarrow>
          if pv_Desired v \<noteq> StateDeleting
          then st\<lparr>previews := mutate key (\<lambda>v. v\<lparr>pv_Desired := StateDeleting,
                 pv_Generation := pv_Generation v + 1, pv_UpdatedAt := now\<rparr>) (previews st)\<rparr>
          else st)"

definition cancelPipelineLocked :: "string \<Rightarrow> time \<Rightarrow> Store \<Rightarrow> Store option" where
  "cancelPipelineLocked plID now st = do {
     p \<leftarrow> map_of (pipelines st) plID;
     st \<leftarrow> foldO (cancelJobWith writePipelineCancelled now) (pl_JobIDs p)
            (setPipelineStatus plID StateCancelled st);
     Some (if pl_PRNumber p > 0
           then markPreviewDeleting (previewKey (pl_Repo p) (pl_PRNumber p)) now st
           else st) }"

section \<open>Previews\<close>

definition buildImage :: "Store \<Rightarrow> string \<Rightarrow> string \<Rightarrow> string option" where
  "buildImage st jid img = do {
     j \<leftarrow> map_of (jobs st) jid;
     (case spec_Buildkit (job_Spec j) of
        None \<Rightarrow> Some img
      | Some b \<Rightarrow>
          if job_AttemptIDs j = [] then Some img
          else do {
            a \<leftarrow> map_of (attempts st) (last (job_AttemptIDs j));
            Some (if att_ResultDigest a \<noteq> []
                  then hd (Split (bk_Destination b) (CHR ''@'')) @ ''@'' @ att_ResultDigest a
                  else img) }) }"

definition activatePreviewLocked :: "string \<Rightarrow> Environment \<Rightarrow> time \<Rightarrow> Store \<Rightarrow> Store option" where
  "activatePreviewLocked plID environment now st = do {
     p \<leftarrow> map_of (pipelines st) plID;
     (if pl_PRNumber p \<le> 0 then Some st
      else
        let key = previewKey (pl_Repo p) (pl_PRNumber p) in
        if (case map_of (prStates st) key of
              None \<Rightarrow> False
            | Some s \<Rightarrow> pr_Closed s \<or> pr_Generation s \<noteq> pl_Generation p) then Some st
        else if (case map_of (previews st) key of
              None \<Rightarrow> False
            | Some existing \<Rightarrow> pv_Desired existing = StateDeleting) then Some st
        else do {
          img \<leftarrow> (if env_Image environment = []
                   then foldO (buildImage st) (pl_JobIDs p) []
                   else Some (env_Image environment));
          let ttl = durTimes (env_TTLMinutes environment) Minute;
              preview = \<lparr>pv_Repo = pl_Repo p, pv_PRNumber = pl_PRNumber p,
                pv_Namespace = previewNamespace (pl_Repo p) (pl_PRNumber p), pv_URL = [],
                pv_Generation = pl_Generation p, pv_Desired = StateActive,
                pv_Actual = StatePending,
                pv_ExpiresAt = now + (if ttl \<le> 0 then 24 * Hour else ttl), pv_UpdatedAt = now,
                pv_Tenant = pl_Tenant p, pv_PipelineID = pl_ID p, pv_Image = img,
                pv_Port = (if env_Port environment = 0 then 8080 else env_Port environment),
                pv_HealthPath =
                  (if env_HealthPath environment = [] then ''/'' else env_HealthPath environment),
                pv_LastError = [], pv_Exposure = env_Exposure environment\<rparr>
          in Some (st\<lparr>previews := AList.update key preview (previews st),
                metrics := (metrics st)\<lparr>m_PreviewsCreated := m_PreviewsCreated (metrics st) + 1\<rparr>\<rparr>) }) }"

section \<open>The pipeline's aggregate state\<close>

text \<open>
  The scan of \<open>updatePipelineLocked\<close> over the jobs: \<open>None\<close> inside the option when a failed job is
  found (the loop stops there), else whether all of them succeeded.
\<close>

primrec scanStatuses :: "Store \<Rightarrow> string list \<Rightarrow> bool \<Rightarrow> bool option option" where
  "scanStatuses st [] allSucceeded = Some (Some allSucceeded)"
| "scanStatuses st (jid # jids) allSucceeded = do {
     j \<leftarrow> map_of (jobs st) jid;
     (if job_Status j = StateFailed then Some None
      else scanStatuses st jids (if job_Status j \<noteq> StateSucceeded then False else allSucceeded)) }"

definition activateFor :: "string \<Rightarrow> time \<Rightarrow> string \<Rightarrow> Store \<Rightarrow> Store option" where
  "activateFor plID now jid st = do {
     j \<leftarrow> map_of (jobs st) jid;
     (case spec_Environment (job_Spec j) of
        None \<Rightarrow> Some st
      | Some env \<Rightarrow> activatePreviewLocked plID env now st) }"

definition updatePipelineLocked :: "string \<Rightarrow> time \<Rightarrow> Store \<Rightarrow> Store option" where
  "updatePipelineLocked plID now st = do {
     p \<leftarrow> map_of (pipelines st) plID;
     r \<leftarrow> scanStatuses st (pl_JobIDs p) True;
     (case r of
        None \<Rightarrow> foldO (cancelJobWith writeCancelled now) (pl_JobIDs p)
                  (setPipelineStatus plID StateFailed st)
      | Some allSucceeded \<Rightarrow>
          if allSucceeded
          then foldO (activateFor plID now) (pl_JobIDs p) (setPipelineStatus plID StateSucceeded st)
          else Some (setPipelineStatus plID StateRunning st)) }"

section \<open>Lease budgets\<close>

definition jobTimeout :: "Job \<Rightarrow> duration" where
  "jobTimeout job =
     (let n = spec_TimeoutSeconds (job_Spec job) in durTimes (if n \<le> 0 then 900 else n) Second)"

definition attemptLimit :: "Job \<Rightarrow> int" where
  "attemptLimit job =
     (if spec_MaxAttempts (job_Spec job) \<le> 0 then 3 else spec_MaxAttempts (job_Spec job))"

definition expireAttempt :: "time \<Rightarrow> string \<Rightarrow> Store \<times> int \<Rightarrow> (Store \<times> int) option" where
  "expireAttempt now aid sc =
     (let (st, count) = sc in
      case map_of (attempts st) aid of
        None \<Rightarrow> Some sc
      | Some a \<Rightarrow>
          if \<not> active (att_Status a) then Some sc
          else do {
            job \<leftarrow> map_of (jobs st) (att_JobID a);
            (if now < att_LeaseExpires a \<and> timeSub now (att_CreatedAt a) < jobTimeout job
             then Some sc
             else do {
               st2 \<leftarrow>
                 (if timeSub now (att_CreatedAt a) \<ge> jobTimeout job \<or> att_Number a \<ge> attemptLimit job
                  then updatePipelineLocked (job_PipelineID job) now
                    (st\<lparr>attempts := mutate aid (\<lambda>a. a\<lparr>att_Status := StateFailed, att_CompletedAt := now,
                          att_ResultMessage := ''attempt timeout or retry limit exceeded''\<rparr>) (attempts st),
                        jobs := mutate (att_JobID a) (\<lambda>j. j\<lparr>job_Status := StateFailed\<rparr>) (jobs st),
                        metrics := (metrics st)\<lparr>m_JobsFailed := m_JobsFailed (metrics st) + 1\<rparr>\<rparr>)
                  else
                    let st1 = st\<lparr>attempts := mutate aid (\<lambda>a. a\<lparr>att_Status := StateLost,
                          att_CompletedAt := now\<rparr>) (attempts st)\<rparr>
                    in Some (if \<not> terminal (job_Status job)
                       then st1\<lparr>jobs := mutate (att_JobID a) (\<lambda>j. j\<lparr>job_Status := StateQueued,
                          job_QueueReason := ''previous attempt lease expired; waiting for retry''\<rparr>)
                          (jobs st1)\<rparr>
                       else st1));
               Some (st2\<lparr>metrics := (metrics st2)\<lparr>m_LeasesExpired := m_LeasesExpired (metrics st2) + 1\<rparr>\<rparr>,
                     count + 1) }) })"

definition reconcileExpiredLocked :: "World \<Rightarrow> time \<Rightarrow> Store \<Rightarrow> (Store \<times> int) option" where
  "reconcileExpiredLocked w now st = foldO (expireAttempt now) (visitAttempts w) (st, 0)"

end
