(* ===== verification/Scheduler.thy ===== *)
theory Scheduler
  imports Store
begin

text \<open>
  Workers and scheduling (\<open>RegisterWorker\<close> to \<open>ScheduleOne\<close> and their helpers in
  \<open>internal/control/store.go\<close> and \<open>internal/control/workflow.go\<close>): which queued job is leased next,
  to which worker, and under which quotas. The comparator \<open>runnableJobsLocked\<close> sorts by is the
  linear order of the type \<open>JobRank\<close>.
\<close>

section \<open>Workers and limits\<close>

definition RegisterWorker :: "Worker \<Rightarrow> time \<Rightarrow> Store \<Rightarrow> (error + Worker) \<times> Store" where
  "RegisterWorker worker now st =
     (if wk_ID worker = [] \<or> wk_Pool worker = []
      then (Inl (ErrInvalid ''worker ID and pool are required''), st)
      else if wk_Capacity worker \<le> 0
      then (Inl (ErrInvalid ''worker capacity must be positive''), st)
      else
        let worker' = worker\<lparr>wk_Heartbeat := now\<rparr>
        in (Inr worker', st\<lparr>workers := AList.update (wk_ID worker) worker' (workers st)\<rparr>))"

definition HeartbeatWorker :: "string \<Rightarrow> time \<Rightarrow> Store \<Rightarrow> (error + unit) \<times> Store" where
  "HeartbeatWorker wid now st =
     (case map_of (workers st) wid of
        None \<Rightarrow> (Inl ErrNotFound, st)
      | Some _ \<Rightarrow> (Inr (), st\<lparr>workers := mutate wid (\<lambda>w. w\<lparr>wk_Heartbeat := now\<rparr>) (workers st)\<rparr>))"

definition SetTenantLimit :: "string \<Rightarrow> int \<Rightarrow> Store \<Rightarrow> (error + unit) \<times> Store" where
  "SetTenantLimit tenant limit st =
     (if tenant = [] \<or> limit \<le> 0
      then (Inl (ErrInvalid ''tenant and a positive limit are required''), st)
      else (Inr (), st\<lparr>tenantLimits := AList.update tenant limit (tenantLimits st)\<rparr>))"

section \<open>Runnable jobs\<close>

datatype JobRank = JobRank (rank_Priority: int) (rank_CreatedAt: time) (rank_Sequence: "64 word")

instantiation JobRank :: linorder
begin

definition less_eq_JobRank :: "JobRank \<Rightarrow> JobRank \<Rightarrow> bool" where
  "less_eq_JobRank left right \<longleftrightarrow>
     (if rank_Priority left \<noteq> rank_Priority right then rank_Priority left > rank_Priority right
      else if rank_CreatedAt left \<noteq> rank_CreatedAt right
        then rank_CreatedAt left < rank_CreatedAt right
      else rank_Sequence left \<le> rank_Sequence right)"

definition less_JobRank :: "JobRank \<Rightarrow> JobRank \<Rightarrow> bool" where
  "less_JobRank left right \<longleftrightarrow>
     (if rank_Priority left \<noteq> rank_Priority right then rank_Priority left > rank_Priority right
      else if rank_CreatedAt left \<noteq> rank_CreatedAt right
        then rank_CreatedAt left < rank_CreatedAt right
      else rank_Sequence left < rank_Sequence right)"

instance
proof
  fix x y z :: JobRank
  show "x < y \<longleftrightarrow> x \<le> y \<and> \<not> y \<le> x"
    by (auto simp: less_eq_JobRank_def less_JobRank_def)
  show "x \<le> x"
    by (simp add: less_eq_JobRank_def)
  show "x \<le> y \<Longrightarrow> y \<le> z \<Longrightarrow> x \<le> z"
    by (auto simp: less_eq_JobRank_def split: if_splits)
  show "x \<le> y \<Longrightarrow> y \<le> x \<Longrightarrow> x = y"
    by (cases x; cases y) (auto simp: less_eq_JobRank_def split: if_splits)
  show "x \<le> y \<or> y \<le> x"
    by (auto simp: less_eq_JobRank_def)
qed

end

definition jobRank :: "Job \<Rightarrow> JobRank" where
  "jobRank j = JobRank (spec_Priority (job_Spec j)) (job_CreatedAt j) (job_Sequence j)"

definition dependenciesSucceededLocked :: "Store \<Rightarrow> Job \<Rightarrow> bool option" where
  "dependenciesSucceededLocked st job =
     (if spec_Needs (job_Spec job) = [] then Some True
      else do {
        p \<leftarrow> map_of (pipelines st) (job_PipelineID job);
        candidates \<leftarrow> mapO (map_of (jobs st)) (pl_JobIDs p);
        let states = foldl (\<lambda>m c. AList.update (job_Name c) (job_Status c) m) [] candidates
        in Some (\<forall>dependency \<in> set (spec_Needs (job_Spec job)).
                   getd StateUnset states dependency = StateSucceeded) })"

definition runnable :: "Store \<Rightarrow> string \<times> Job \<Rightarrow> bool option" where
  "runnable st e =
     (if job_Status (snd e) \<noteq> StateQueued then Some False
      else dependenciesSucceededLocked st (snd e))"

text \<open>The map from tenants to their sorted jobs (pointers), as an association list.\<close>

definition runnableJobsLocked :: "Store \<Rightarrow> (string, string list) gomap option" where
  "runnableJobsLocked st = do {
     js \<leftarrow> filterO (runnable st) (jobs st);
     Some (map (\<lambda>tenant. (tenant, map fst (sort_key (jobRank \<circ> snd)
             (filter (\<lambda>e. job_Tenant (snd e) = tenant) js))))
           (remdups (map (job_Tenant \<circ> snd) js))) }"

section \<open>Capacity in use\<close>

definition activeForWorkerLocked :: "Store \<Rightarrow> string \<Rightarrow> int" where
  "activeForWorkerLocked st workerID =
     int (countv (\<lambda>a. att_WorkerID a = workerID \<and> active (att_Status a)) (attempts st))"

definition activeForTenantLocked :: "Store \<Rightarrow> string \<Rightarrow> int" where
  "activeForTenantLocked st tenant =
     int (countv (\<lambda>j. job_Tenant j = tenant \<and> active (job_Status j)) (jobs st))"

definition tenantLimitLocked :: "Store \<Rightarrow> string \<Rightarrow> int" where
  "tenantLimitLocked st tenant =
     (let limit = getd 0 (tenantLimits st) tenant
      in if limit > 0 then limit else cfg_DefaultTenantLimit (config st))"

definition addResources :: "Resources \<Rightarrow> Resources \<Rightarrow> Resources" where
  "addResources used r = \<lparr>res_CPU = wrap64 (res_CPU used + res_CPU r),
     res_Memory = wrap64 (res_Memory used + res_Memory r)\<rparr>"

definition addUsed :: "Store \<Rightarrow> string \<Rightarrow> string \<Rightarrow> string \<times> Attempt \<Rightarrow> Resources \<Rightarrow> Resources option" where
  "addUsed st tenant worker e used =
     (let a = snd e in
      if \<not> active (att_Status a) then Some used
      else if tenant = [] \<and> \<not> (worker = [] \<or> worker = att_WorkerID a) then Some used
      else do {
        j \<leftarrow> map_of (jobs st) (att_JobID a);
        Some (if (tenant = [] \<or> tenant = job_Tenant j) \<and> (worker = [] \<or> worker = att_WorkerID a)
              then addResources used (spec_Resources (job_Spec j))
              else used) })"

definition usedResourcesLocked :: "Store \<Rightarrow> string \<Rightarrow> string \<Rightarrow> Resources option" where
  "usedResourcesLocked st tenant worker =
     foldO (addUsed st tenant worker) (attempts st) \<lparr>res_CPU = 0, res_Memory = 0\<rparr>"

definition hasCapabilities :: "Worker \<Rightarrow> string list \<Rightarrow> bool" where
  "hasCapabilities worker caps \<longleftrightarrow> (\<forall>c \<in> set caps. getd False (wk_Capabilities worker) c)"

definition workerFits :: "Store \<Rightarrow> Job \<Rightarrow> time \<Rightarrow> Worker \<Rightarrow> bool option" where
  "workerFits st job now worker =
     (if timeSub now (wk_Heartbeat worker) > cfg_WorkerTTL (config st) \<or>
         activeForWorkerLocked st (wk_ID worker) \<ge> wk_Capacity worker then Some False
      else if spec_Trusted (job_Spec job) \<noteq> wk_Trusted worker then Some False
      else do {
        used \<leftarrow> usedResourcesLocked st [] (wk_ID worker);
        let need = spec_Resources (job_Spec job); have = wk_Resources worker
        in if res_CPU have > 0 \<and> wrap64 (res_CPU used + res_CPU need) > res_CPU have
           then Some False
           else if res_Memory have > 0 \<and> wrap64 (res_Memory used + res_Memory need) > res_Memory have
           then Some False
           else Some (hasCapabilities worker (spec_Capabilities (job_Spec job))) })"

fun firstFit :: "Store \<Rightarrow> Job \<Rightarrow> time \<Rightarrow> string list \<Rightarrow> Worker option option" where
  "firstFit st job now [] = Some None"
| "firstFit st job now (wid # wids) = do {
     worker \<leftarrow> map_of (workers st) wid;
     fits \<leftarrow> workerFits st job now worker;
     (if fits then Some (Some worker) else firstFit st job now wids) }"

definition selectWorkerLocked :: "Store \<Rightarrow> Job \<Rightarrow> time \<Rightarrow> Worker option option" where
  "selectWorkerLocked st job now = firstFit st job now (sort (keys (workers st)))"

section \<open>ScheduleOne\<close>

definition setQueueReason :: "string \<Rightarrow> string \<Rightarrow> Store \<Rightarrow> Store" where
  "setQueueReason reason jid st =
     st\<lparr>jobs := mutate jid (\<lambda>j. j\<lparr>job_QueueReason := reason\<rparr>) (jobs st)\<rparr>"

definition issueLease ::
  "World \<Rightarrow> time \<Rightarrow> string \<Rightarrow> string \<Rightarrow> Job \<Rightarrow> Worker \<Rightarrow> Store \<Rightarrow> (AttemptLease \<times> Store) option" where
  "issueLease w now tenant jid job worker st =
     (let token = newID ''lease'' (draw w 0);
          attempt = \<lparr>att_ID = newID ''attempt'' (draw w 1), att_JobID = job_ID job,
            att_Number = int (length (job_AttemptIDs job)) + 1, att_WorkerID = wk_ID worker,
            att_LeaseToken = token, att_LeaseExpires = now + cfg_LeaseTTL (config st),
            att_Status = StateLeased, att_CreatedAt = now, att_StartedAt = 0, att_CompletedAt = 0,
            att_ResultMessage = [], att_ResultDigest = [], att_LogKey = [], att_Artefacts = []\<rparr>;
          job' = job\<lparr>job_AttemptIDs := job_AttemptIDs job @ [att_ID attempt],
            job_Status := StateLeased, job_QueueReason := []\<rparr>;
          st1 = st\<lparr>jobs := mutate jid (\<lambda>_. job') (jobs st),
            attempts := AList.update (att_ID attempt) attempt (attempts st)\<rparr>
      in do {
        pipeline \<leftarrow> map_of (pipelines st1) (job_PipelineID job);
        let st2 = (setPipelineStatus (job_PipelineID job) StateRunning st1)\<lparr>lastTenant := tenant,
              metrics := (metrics st1)\<lparr>m_LeasesIssued := m_LeasesIssued (metrics st1) + 1\<rparr>\<rparr>
        in Some (\<lparr>lease_Attempt = attempt, lease_LeaseToken = token, lease_Job = job',
                   lease_Pipeline = pipeline\<lparr>pl_Status := StateRunning\<rparr>,
                   lease_Deadline = att_LeaseExpires attempt\<rparr>, st2) })"

text \<open>The inner loop, over one tenant's jobs.\<close>

fun scheduleJobs ::
  "World \<Rightarrow> time \<Rightarrow> string \<Rightarrow> string list \<Rightarrow> Store \<Rightarrow> (AttemptLease option \<times> Store) option" where
  "scheduleJobs w now tenant [] st = Some (None, st)"
| "scheduleJobs w now tenant (jid # jids) st = do {
     job \<leftarrow> map_of (jobs st) jid;
     used \<leftarrow> usedResourcesLocked st tenant [];
     (let need = spec_Resources (job_Spec job) in
      if wrap64 (res_CPU used + res_CPU need) > cfg_TenantCPU (config st) \<or>
         wrap64 (res_Memory used + res_Memory need) > cfg_TenantMemoryMB (config st)
      then scheduleJobs w now tenant jids
             (setQueueReason ''tenant CPU or memory quota reached'' jid st)
      else do {
        worker \<leftarrow> selectWorkerLocked st job now;
        (case worker of
           None \<Rightarrow> scheduleJobs w now tenant jids
             (setQueueReason ''no eligible worker has matching capabilities and capacity'' jid st)
         | Some wk \<Rightarrow> do {
             (lease, st') \<leftarrow> issueLease w now tenant jid job wk st;
             Some (Some lease, st') }) }) }"

text \<open>The outer loop, over the tenants in rotation.\<close>

fun scheduleTenants ::
  "World \<Rightarrow> time \<Rightarrow> (string, string list) gomap \<Rightarrow> string list \<Rightarrow> Store
   \<Rightarrow> (AttemptLease option \<times> Store) option" where
  "scheduleTenants w now byTenant [] st = Some (None, st)"
| "scheduleTenants w now byTenant (tenant # tenants) st =
     (if activeForTenantLocked st tenant \<ge> tenantLimitLocked st tenant
      then scheduleTenants w now byTenant tenants
             (fold (setQueueReason ''tenant concurrent-job quota reached'')
                (getd [] byTenant tenant) st)
      else do {
        (lease, st') \<leftarrow> scheduleJobs w now tenant (getd [] byTenant tenant) st;
        (case lease of
           Some l \<Rightarrow> Some (Some l, st')
         | None \<Rightarrow> scheduleTenants w now byTenant tenants st') })"

definition SearchStrings :: "string list \<Rightarrow> string \<Rightarrow> nat" where
  \<comment> \<open>\<open>sort.SearchStrings\<close> on a sorted list: the least index whose element is at least the key\<close>
  "SearchStrings xs x = length (takeWhile (\<lambda>y. y < x) xs)"

definition startIndex :: "string list \<Rightarrow> string \<Rightarrow> nat" where
  "startIndex tenants lst =
     (if lst = [] then 0
      else
        let start = SearchStrings tenants lst;
            start' = (if start < length tenants \<and> tenants ! start = lst then start + 1 else start)
        in if start' \<ge> length tenants then 0 else start')"

definition ScheduleOne :: "World \<Rightarrow> time \<Rightarrow> Store \<Rightarrow> ((error + AttemptLease) \<times> Store) option" where
  "ScheduleOne w now st = do {
     (st1, _) \<leftarrow> reconcileExpiredLocked w now st;
     byTenant \<leftarrow> runnableJobsLocked st1;
     (if byTenant = [] then Some (Inl ErrNoWork, st1)
      else
        let tenants = sort (keys byTenant);
            start = startIndex tenants (lastTenant st1)
        in do {
          (lease, st2) \<leftarrow> scheduleTenants w now byTenant
            (map (\<lambda>offset. tenants ! ((start + offset) mod length tenants)) [0..<length tenants]) st1;
          Some (case lease of None \<Rightarrow> (Inl ErrNoWork, st2) | Some l \<Rightarrow> (Inr l, st2)) }) }"

end
