(* ===== verification/Leases.thy ===== *)
theory Leases
  imports Scheduler
begin

text \<open>
  The worker-facing lease protocol: \<open>AssignedLeases\<close>, \<open>HeartbeatAttempt\<close>, \<open>CompleteAttempt\<close>
  (\<open>internal/control/store.go\<close>) and \<open>Finish\<close> (\<open>internal/control/workflow.go\<close>). A result is
  committed by compare-and-set on the attempt's random token, its deadline and its status.
\<close>

definition leaseOf :: "Store \<Rightarrow> Attempt \<Rightarrow> AttemptLease option" where
  "leaseOf st attempt = do {
     job \<leftarrow> map_of (jobs st) (att_JobID attempt);
     pipeline \<leftarrow> map_of (pipelines st) (job_PipelineID job);
     Some \<lparr>lease_Attempt = attempt, lease_LeaseToken = att_LeaseToken attempt, lease_Job = job,
       lease_Pipeline = pipeline, lease_Deadline = att_LeaseExpires attempt\<rparr> }"

text \<open>
  \<open>sort.Slice\<close> leaves the order of leases with equal creation times unspecified; the model keeps
  the iteration order among them.
\<close>

definition AssignedLeases :: "Store \<Rightarrow> string \<Rightarrow> (error + AttemptLease list) option" where
  "AssignedLeases st workerID =
     (case map_of (workers st) workerID of
        None \<Rightarrow> Some (Inl ErrNotFound)
      | Some _ \<Rightarrow> do {
          leases \<leftarrow> mapO (leaseOf st)
            (filter (\<lambda>a. att_WorkerID a = workerID \<and> active (att_Status a)) (map snd (attempts st)));
          Some (Inr (sort_key (\<lambda>l. att_CreatedAt (lease_Attempt l)) leases)) })"

definition HeartbeatAttempt ::
  "string \<Rightarrow> string \<Rightarrow> time \<Rightarrow> Store \<Rightarrow> ((error + Attempt) \<times> Store) option" where
  "HeartbeatAttempt aid token now st =
     (case map_of (attempts st) aid of
        None \<Rightarrow> Some (Inl ErrNotFound, st)
      | Some a \<Rightarrow>
          if \<not> active (att_Status a) \<or> att_LeaseToken a \<noteq> token \<or> \<not> now < att_LeaseExpires a
          then Some (Inl ErrStaleLease, st)
          else do {
            job \<leftarrow> map_of (jobs st) (att_JobID a);
            (if timeSub now (att_CreatedAt a) \<ge> jobTimeout job then Some (Inl ErrStaleLease, st)
             else
               let starting = (att_Status a = StateLeased);
                   a' = (if starting then a\<lparr>att_Status := StateRunning, att_StartedAt := now\<rparr> else a)
                     \<lparr>att_LeaseExpires := now + cfg_LeaseTTL (config st)\<rparr>
               in Some (Inr a', st\<lparr>attempts := mutate aid (\<lambda>_. a') (attempts st),
                    jobs := (if starting
                      then mutate (att_JobID a) (\<lambda>j. j\<lparr>job_Status := StateRunning\<rparr>) (jobs st)
                      else jobs st)\<rparr>)) })"

abbreviation incStale :: "Store \<Rightarrow> Store" where
  "incStale st \<equiv>
     st\<lparr>metrics := (metrics st)\<lparr>m_StaleCompletions := m_StaleCompletions (metrics st) + 1\<rparr>\<rparr>"

definition wantedState :: "bool \<Rightarrow> State" where
  "wantedState success = (if success then StateSucceeded else StateFailed)"

definition completeAttemptLocked ::
  "string \<Rightarrow> string \<Rightarrow> bool \<Rightarrow> string \<Rightarrow> time \<Rightarrow> Store \<Rightarrow> ((error + Attempt) \<times> Store) option" where
  "completeAttemptLocked aid token success message now st =
     (case map_of (attempts st) aid of
        None \<Rightarrow> Some (Inl ErrNotFound, st)
      | Some a \<Rightarrow>
          if att_LeaseToken a = token \<and> att_Status a = wantedState success \<and>
             att_ResultMessage a = message
          then Some (Inr a, st)
          else if \<not> active (att_Status a) \<or> att_LeaseToken a \<noteq> token \<or> \<not> now < att_LeaseExpires a
          then Some (Inl ErrStaleLease, incStale st)
          else do {
            job \<leftarrow> map_of (jobs st) (att_JobID a);
            (if timeSub now (att_CreatedAt a) \<ge> jobTimeout job then Some (Inl ErrStaleLease, st)
             else if job_Status job = StateCancelled then Some (Inl ErrStaleLease, incStale st)
             else do {
               st' \<leftarrow> updatePipelineLocked (job_PipelineID job) now
                 (st\<lparr>attempts := mutate aid (\<lambda>a. a\<lparr>att_CompletedAt := now,
                       att_ResultMessage := message, att_Status := wantedState success\<rparr>) (attempts st),
                     jobs := mutate (att_JobID a) (\<lambda>j. j\<lparr>job_Status := wantedState success\<rparr>) (jobs st),
                     metrics := (if success
                       then (metrics st)\<lparr>m_JobsCompleted := m_JobsCompleted (metrics st) + 1\<rparr>
                       else (metrics st)\<lparr>m_JobsFailed := m_JobsFailed (metrics st) + 1\<rparr>)\<rparr>);
               a' \<leftarrow> map_of (attempts st') aid;
               Some (Inr a', st') }) })"

definition CompleteAttempt ::
  "string \<Rightarrow> string \<Rightarrow> bool \<Rightarrow> string \<Rightarrow> time \<Rightarrow> Store \<Rightarrow> ((error + Attempt) \<times> Store) option" where
  "CompleteAttempt = completeAttemptLocked"

definition Finish ::
  "string \<Rightarrow> string \<Rightarrow> bool \<Rightarrow> string \<Rightarrow> string \<Rightarrow> string \<Rightarrow> Artefact list \<Rightarrow> time \<Rightarrow> Store
   \<Rightarrow> ((error + Attempt) \<times> Store) option" where
  "Finish aid token success message digest logKey artefacts now st =
     (case map_of (attempts st) aid of
        None \<Rightarrow> Some (Inl ErrNotFound, st)
      | Some a \<Rightarrow>
          if att_LeaseToken a \<noteq> token then Some (Inl ErrStaleLease, st)
          else if terminal (att_Status a) then
            (if att_Status a = wantedState success \<and> att_ResultMessage a = message \<and>
                att_ResultDigest a = digest \<and> att_LogKey a = logKey \<and> att_Artefacts a = artefacts
             then Some (Inr a, st) else Some (Inl ErrConflict, st))
          else if \<not> now < att_LeaseExpires a then Some (Inl ErrStaleLease, st)
          else do {
            job \<leftarrow> map_of (jobs st) (att_JobID a);
            (if timeSub now (att_CreatedAt a) \<ge> jobTimeout job \<or> \<not> active (att_Status a)
             then Some (Inl ErrStaleLease, st)
             else completeAttemptLocked aid token success message now
               (st\<lparr>attempts := mutate aid (\<lambda>a. a\<lparr>att_ResultDigest := digest, att_LogKey := logKey,
                      att_Artefacts := artefacts\<rparr>) (attempts st)\<rparr>)) })"

definition AttemptView :: "Store \<Rightarrow> string \<Rightarrow> (error + Attempt \<times> Job \<times> Pipeline) option" where
  "AttemptView st aid =
     (case map_of (attempts st) aid of
        None \<Rightarrow> Some (Inl ErrNotFound)
      | Some a \<Rightarrow> do {
          j \<leftarrow> map_of (jobs st) (att_JobID a);
          p \<leftarrow> map_of (pipelines st) (job_PipelineID j);
          Some (Inr (a, j, p)) })"

definition JobView :: "Store \<Rightarrow> string \<Rightarrow> error + Job" where
  "JobView st jid = (case map_of (jobs st) jid of None \<Rightarrow> Inl ErrNotFound | Some j \<Rightarrow> Inr j)"

definition ActiveAttemptIDs :: "Store \<Rightarrow> string list" where
  "ActiveAttemptIDs st = sort (map fst (filter (\<lambda>e. active (att_Status (snd e))) (attempts st)))"

definition CancelJob :: "string \<Rightarrow> time \<Rightarrow> Store \<Rightarrow> ((error + Job) \<times> Store) option" where
  "CancelJob jid now st =
     (case map_of (jobs st) jid of
        None \<Rightarrow> Some (Inl ErrNotFound, st)
      | Some job \<Rightarrow>
          if terminal (job_Status job) then Some (Inr job, st)
          else do {
            st' \<leftarrow> cancelPipelineLocked (job_PipelineID job) now st;
            job' \<leftarrow> map_of (jobs st') jid;
            Some (Inr job', st') })"

end
