(* ===== verification/Workflow.thy ===== *)
theory Workflow
  imports Leases
begin

text \<open>
  The submission workflow and the periodic maintenance of the store (\<open>CreatePipeline\<close> to
  \<open>MarkPreviewDeletingForDelivery\<close> and \<open>Reconcile\<close> in \<open>internal/control/store.go\<close>; \<open>Submit\<close>,
  \<open>ObservePreview\<close>, \<open>RecordCheck\<close>, \<open>EnsurePreviews\<close>, \<open>pruneLocked\<close> and the list views in
  \<open>internal/control/workflow.go\<close>). \<open>Json\<close> stands for \<open>encoding/json\<close>'s canonical encodings of a
  submission and of a specification, of which the code only uses the SHA-256 digest.
\<close>

record Submission =
  sub_RequestID :: string
  sub_Tenant :: string
  sub_Repo :: string
  sub_SourceRepo :: string
  sub_CommitSHA :: string
  sub_Trigger :: string
  sub_PRNumber :: int
  sub_Fork :: bool
  sub_Rerun :: bool
  sub_Closed :: bool
  sub_EventTime :: time
  sub_InstallationID :: int
  sub_Spec :: PipelineSpec

record Json =
  js_Submission :: "Submission \<Rightarrow> string"
  js_Spec :: "PipelineSpec \<Rightarrow> string"

abbreviation incAccepted :: "Store \<Rightarrow> Store" where
  "incAccepted st \<equiv>
     st\<lparr>metrics := (metrics st)\<lparr>m_WebhookAccepted := m_WebhookAccepted (metrics st) + 1\<rparr>\<rparr>"

abbreviation incDuplicate :: "Store \<Rightarrow> Store" where
  "incDuplicate st \<equiv>
     st\<lparr>metrics := (metrics st)\<lparr>m_WebhookDuplicate := m_WebhookDuplicate (metrics st) + 1\<rparr>\<rparr>"

section \<open>Direct creation\<close>

definition CreatePipeline ::
  "World \<Rightarrow> string \<Rightarrow> string \<Rightarrow> string \<Rightarrow> string \<Rightarrow> int \<Rightarrow> PipelineSpec \<Rightarrow> time \<Rightarrow> Store
   \<Rightarrow> ((error + PipelineView) \<times> Store) option" where
  "CreatePipeline w tenant repo commitSHA trigger prNumber spec now st =
     (case Validate spec of
        Inl e \<Rightarrow> Some (Inl (ErrPlan e), st)
      | Inr order \<Rightarrow>
          if queuedCountLocked st + int (length order) > cfg_MaxQueuedJobs (config st)
          then Some (Inl ErrCapacity, st)
          else
            let (plID, st1) = createPipelineLocked (draw w) tenant repo commitSHA trigger prNumber
                  spec order now st
            in do { v \<leftarrow> pipelineViewLocked st1 plID; Some (Inr v, st1) })"

definition CreatePipelineForDelivery ::
  "World \<Rightarrow> string \<Rightarrow> string \<Rightarrow> string \<Rightarrow> string \<Rightarrow> string \<Rightarrow> int \<Rightarrow> PipelineSpec \<Rightarrow> time \<Rightarrow> Store
   \<Rightarrow> ((error + PipelineView \<times> bool) \<times> Store) option" where
  "CreatePipelineForDelivery w deliveryID tenant repo commitSHA trigger prNumber spec now st =
     (if deliveryID = [] then Some (Inl (ErrInvalid ''delivery ID is required''), st)
      else case Validate spec of
        Inl e \<Rightarrow> Some (Inl (ErrPlan e), st)
      | Inr order \<Rightarrow>
          (case map_of (deliveries st) deliveryID of
             Some plID \<Rightarrow>
               if plID = [] then Some (Inr (zeroPipelineView, True), incDuplicate st)
               else do {
                 v \<leftarrow> pipelineViewLocked (incDuplicate st) plID;
                 Some (Inr (v, True), incDuplicate st) }
           | None \<Rightarrow>
               if queuedCountLocked st + int (length order) > cfg_MaxQueuedJobs (config st)
               then Some (Inl ErrCapacity, st)
               else
                 let (plID, st1) = createPipelineLocked (draw w) tenant repo commitSHA trigger
                       prNumber spec order now st;
                     st2 = incAccepted (st1\<lparr>deliveries := AList.update deliveryID plID (deliveries st1)\<rparr>)
                 in do { v \<leftarrow> pipelineViewLocked st2 plID; Some (Inr (v, False), st2) }))"

section \<open>Cancelling the pipelines of a pull request\<close>

definition cancelIfOpen :: "string \<Rightarrow> int \<Rightarrow> time \<Rightarrow> string \<Rightarrow> Store \<Rightarrow> Store option" where
  "cancelIfOpen repo prNumber now plID st =
     (case map_of (pipelines st) plID of
        None \<Rightarrow> Some st
      | Some p \<Rightarrow>
          if pl_Repo p = repo \<and> pl_PRNumber p = prNumber \<and> \<not> terminal (pl_Status p)
          then cancelPipelineLocked plID now st
          else Some st)"

text \<open>The first half of a close event: the delivery is recorded and the pull request's clock advances.\<close>

definition recordClose :: "string \<Rightarrow> string \<Rightarrow> int \<Rightarrow> time \<Rightarrow> Store \<Rightarrow> Store" where
  "recordClose deliveryID repo prNumber now st =
     (let key = previewKey repo prNumber;
          s = getd zeroPRState (prStates st) key
      in (incAccepted st)\<lparr>deliveries := AList.update deliveryID [] (deliveries st),
           prStates := AList.update key (s\<lparr>pr_Closed := True, pr_UpdatedAt := now,
             pr_Generation := pr_Generation s + 1\<rparr>) (prStates st)\<rparr>)"

text \<open>The second half: an existing preview is marked, a missing one gets a tombstone.\<close>

definition tombstone :: "string \<Rightarrow> int \<Rightarrow> time \<Rightarrow> Store \<Rightarrow> Store" where
  "tombstone repo prNumber now st =
     (let key = previewKey repo prNumber in
      case map_of (previews st) key of
        None \<Rightarrow> st\<lparr>previews := AList.update key
          \<lparr>pv_Repo = repo, pv_PRNumber = prNumber, pv_Namespace = previewNamespace repo prNumber,
           pv_URL = [], pv_Generation = 1, pv_Desired = StateDeleting,
           pv_Actual = StateDeleting, pv_ExpiresAt = 0, pv_UpdatedAt = now, pv_Tenant = [],
           pv_PipelineID = [], pv_Image = [], pv_Port = 0, pv_HealthPath = [],
           pv_LastError = [], pv_Exposure = []\<rparr> (previews st)\<rparr>
      | Some _ \<Rightarrow> markPreviewDeleting key now st)"

definition MarkPreviewDeletingForDelivery ::
  "World \<Rightarrow> string \<Rightarrow> string \<Rightarrow> int \<Rightarrow> time \<Rightarrow> Store \<Rightarrow> ((error + bool) \<times> Store) option" where
  "MarkPreviewDeletingForDelivery w deliveryID repo prNumber now st =
     (if deliveryID = [] then Some (Inl (ErrInvalid ''delivery ID is required''), st)
      else if map_of (deliveries st) deliveryID \<noteq> None then Some (Inr True, incDuplicate st)
      else do {
        st' \<leftarrow> foldO (cancelIfOpen repo prNumber now) (visitPipelines w 0)
          (tombstone repo prNumber now (recordClose deliveryID repo prNumber now st));
        Some (Inr False, st') })"

section \<open>Submit\<close>

definition sameRevision :: "Submission \<Rightarrow> string \<Rightarrow> int \<Rightarrow> Pipeline \<Rightarrow> bool" where
  "sameRevision input configHash generation p \<longleftrightarrow>
     pl_Tenant p = sub_Tenant input \<and> pl_Repo p = sub_Repo input \<and>
     pl_SourceRepo p = sub_SourceRepo input \<and> pl_PRNumber p = sub_PRNumber input \<and>
     pl_CommitSHA p = sub_CommitSHA input \<and> pl_ConfigDigest p = configHash \<and>
     pl_Generation p = generation"

fun findPipeline :: "(Pipeline \<Rightarrow> bool) \<Rightarrow> string list \<Rightarrow> Store \<Rightarrow> Pipeline option" where
  "findPipeline P [] st = None"
| "findPipeline P (plID # plIDs) st =
     (case map_of (pipelines st) plID of
        None \<Rightarrow> findPipeline P plIDs st
      | Some p \<Rightarrow> if P p then Some p else findPipeline P plIDs st)"

definition recordDelivery :: "string \<Rightarrow> string \<Rightarrow> string \<Rightarrow> Store \<Rightarrow> Store" where
  "recordDelivery rid plID hash st =
     st\<lparr>deliveries := AList.update rid plID (deliveries st),
        requestHashes := AList.update rid hash (requestHashes st)\<rparr>"

text \<open>A pull-request event that was accepted: the clock, the cancellations and the old preview.\<close>

definition supersede :: "World \<Rightarrow> Submission \<Rightarrow> PRState \<Rightarrow> time \<Rightarrow> Store \<Rightarrow> Store option" where
  "supersede w input current now st =
     (let key = previewKey (sub_Repo input) (sub_PRNumber input) in do {
        st1 \<leftarrow> foldO (cancelIfOpen (sub_Repo input) (sub_PRNumber input) now) (visitPipelines w 1)
          (st\<lparr>prStates := AList.update key current (prStates st)\<rparr>);
        Some (st1\<lparr>previews := mutate key (\<lambda>v. v\<lparr>pv_Desired := StateDeleting,
          pv_Generation := pr_Generation current, pv_UpdatedAt := now\<rparr>) (previews st1)\<rparr>) })"

text \<open>The rest of \<open>Submit\<close> once the event is known to be new: lines 100 to 137.\<close>

definition acceptEvent ::
  "World \<Rightarrow> Submission \<Rightarrow> string \<Rightarrow> string \<Rightarrow> PRState \<Rightarrow> string list \<Rightarrow> time \<Rightarrow> Store
   \<Rightarrow> ((error + PipelineView \<times> bool) \<times> Store) option" where
  "acceptEvent w input hash configHash previous order now st =
     (let current = (if sub_PRNumber input > 0
            then \<lparr>pr_UpdatedAt = sub_EventTime input, pr_Closed = sub_Closed input,
                  pr_Generation = pr_Generation previous + 1, pr_Commit = sub_CommitSHA input\<rparr>
            else previous)
      in do {
        st1 \<leftarrow> (if sub_PRNumber input > 0 then supersede w input current now st else Some st);
        let st2 = incAccepted (recordDelivery (sub_RequestID input) [] hash st1)
        in if sub_Closed input then Some (Inr (zeroPipelineView, False), st2)
           else
             (case (if sub_Rerun input then None
                    else findPipeline (sameRevision input configHash (pr_Generation current))
                           (visitPipelines w 2) st2) of
                Some p \<Rightarrow>
                  let st3 = st2\<lparr>deliveries := AList.update (sub_RequestID input) (pl_ID p) (deliveries st2)\<rparr>
                  in do { v \<leftarrow> pipelineViewLocked st3 (pl_ID p); Some (Inr (v, True), st3) }
              | None \<Rightarrow>
                  let (plID, st3) = createPipelineLocked (draw w) (sub_Tenant input) (sub_Repo input)
                        (sub_CommitSHA input) (sub_Trigger input) (sub_PRNumber input)
                        (sub_Spec input) order now st2;
                      st4 = st3\<lparr>pipelines := mutate plID (\<lambda>p. p\<lparr>pl_SourceRepo := sub_SourceRepo input,
                              pl_Fork := sub_Fork input, pl_Generation := pr_Generation current,
                              pl_ConfigDigest := configHash,
                              pl_InstallationID := sub_InstallationID input\<rparr>) (pipelines st3),
                            deliveries := AList.update (sub_RequestID input) plID (deliveries st3)\<rparr>
                  in do { v \<leftarrow> pipelineViewLocked st4 plID; Some (Inr (v, False), st4) }) })"

text \<open>The part of \<open>Submit\<close> after the replay check: lines 68 to 99.\<close>

definition submitNew ::
  "World \<Rightarrow> Submission \<Rightarrow> string \<Rightarrow> string \<Rightarrow> string list \<Rightarrow> time \<Rightarrow> Store
   \<Rightarrow> ((error + PipelineView \<times> bool) \<times> Store) option" where
  "submitNew w input0 hash configHash order now st =
     (let key = previewKey (sub_Repo input0) (sub_PRNumber input0);
          input = (if sub_EventTime input0 = 0 then input0\<lparr>sub_EventTime := now\<rparr> else input0);
          previous = getd zeroPRState (prStates st) key
      in if sub_PRNumber input > 0 \<and> map_of (prStates st) key \<noteq> None \<and>
            \<not> sub_EventTime input > pr_UpdatedAt previous \<and>
            (\<not> sub_Closed input \<or> pr_Closed previous \<or> sub_EventTime input < pr_UpdatedAt previous)
         then Some (Inr (zeroPipelineView, True), recordDelivery (sub_RequestID input) [] hash st)
         else if \<not> sub_Closed input \<and>
            queuedCountLocked st + int (length order) > cfg_MaxQueuedJobs (config st)
         then Some (Inl ErrCapacity, st)
         else
           (case (if \<not> sub_Closed input \<and> \<not> pr_Closed previous \<and> \<not> sub_Rerun input
                  then findPipeline (sameRevision input configHash (pr_Generation previous))
                         (visitPipelines w 0) st
                  else None) of
              Some p \<Rightarrow>
                let st1 = recordDelivery (sub_RequestID input) (pl_ID p) hash st;
                    st2 = (if sub_PRNumber input > 0
                      then st1\<lparr>prStates := AList.update key
                             (previous\<lparr>pr_UpdatedAt := sub_EventTime input\<rparr>) (prStates st1)\<rparr>
                      else st1)
                in do { v \<leftarrow> pipelineViewLocked st2 (pl_ID p); Some (Inr (v, True), st2) }
            | None \<Rightarrow> acceptEvent w input hash configHash previous order now st))"

definition Submit ::
  "World \<Rightarrow> Json \<Rightarrow> Submission \<Rightarrow> time \<Rightarrow> Store
   \<Rightarrow> ((error + PipelineView \<times> bool) \<times> Store) option" where
  "Submit w js input now st =
     (if sub_RequestID input = [] \<or> length (sub_RequestID input) > 200
      then Some (Inl (ErrInvalid ''request ID is required and must not exceed 200 characters''), st)
      else case (if sub_Closed input then Inr [] else Validate (sub_Spec input)) of
        Inl e \<Rightarrow> Some (Inl (ErrPlan e), st)
      | Inr order \<Rightarrow>
          let hash = sha256Hex (js_Submission js input);
              configHash = sha256Hex (js_Spec js (sub_Spec input))
          in case map_of (deliveries st) (sub_RequestID input) of
               Some plID \<Rightarrow>
                 let previous = getd [] (requestHashes st) (sub_RequestID input)
                 in if previous \<noteq> [] \<and> previous \<noteq> hash then Some (Inl ErrConflict, st)
                    else do {
                      v \<leftarrow> pipelineViewLocked (incDuplicate st) plID;
                      Some (Inr (v, True), incDuplicate st) }
             | None \<Rightarrow> submitNew w input hash configHash order now st)"

section \<open>Views and small updates\<close>

definition GetPipeline :: "Store \<Rightarrow> string \<Rightarrow> (error + PipelineView) option" where
  "GetPipeline st plID =
     (if map_of (pipelines st) plID = None then Some (Inl ErrNotFound)
      else do { v \<leftarrow> pipelineViewLocked st plID; Some (Inr v) })"

definition GetPreview :: "Store \<Rightarrow> string \<Rightarrow> int \<Rightarrow> error + Preview" where
  "GetPreview st repo prNumber =
     (case map_of (previews st) (previewKey repo prNumber) of
        None \<Rightarrow> Inl ErrNotFound
      | Some v \<Rightarrow> Inr v)"

datatype ListRank = ListRank (list_CreatedAt: time) (list_ID: string)

instantiation ListRank :: linorder
begin

definition less_eq_ListRank :: "ListRank \<Rightarrow> ListRank \<Rightarrow> bool" where
  "less_eq_ListRank a b \<longleftrightarrow>
     (if list_CreatedAt a = list_CreatedAt b then list_ID a \<le> list_ID b
      else list_CreatedAt a > list_CreatedAt b)"

definition less_ListRank :: "ListRank \<Rightarrow> ListRank \<Rightarrow> bool" where
  "less_ListRank a b \<longleftrightarrow>
     (if list_CreatedAt a = list_CreatedAt b then list_ID a < list_ID b
      else list_CreatedAt a > list_CreatedAt b)"

instance
proof
  fix x y z :: ListRank
  show "x < y \<longleftrightarrow> x \<le> y \<and> \<not> y \<le> x"
    by (auto simp: less_eq_ListRank_def less_ListRank_def)
  show "x \<le> x"
    by (simp add: less_eq_ListRank_def)
  show "x \<le> y \<Longrightarrow> y \<le> z \<Longrightarrow> x \<le> z"
    by (auto simp: less_eq_ListRank_def split: if_splits)
  show "x \<le> y \<Longrightarrow> y \<le> x \<Longrightarrow> x = y"
    by (cases x; cases y) (auto simp: less_eq_ListRank_def split: if_splits)
  show "x \<le> y \<or> y \<le> x"
    by (auto simp: less_eq_ListRank_def)
qed

end

definition listRank :: "Pipeline \<Rightarrow> ListRank" where
  "listRank p = ListRank (pl_CreatedAt p) (pl_ID p)"

definition PipelineList :: "Store \<Rightarrow> string \<Rightarrow> Pipeline list" where
  "PipelineList st tenant =
     (let out = sort_key listRank
            (filter (\<lambda>p. tenant = [] \<or> pl_Tenant p = tenant) (map snd (pipelines st)))
      in if length out > 200 then take 200 out else out)"

definition PreviewList :: "Store \<Rightarrow> Preview list" where
  "PreviewList st = sort_key pv_Namespace (map snd (previews st))"

definition ObservePreview ::
  "Preview \<Rightarrow> State \<Rightarrow> string \<Rightarrow> string \<Rightarrow> Store \<Rightarrow> (error + unit) \<times> Store" where
  "ObservePreview p actual url lastError st =
     (let key = previewKey (pv_Repo p) (pv_PRNumber p) in
      case map_of (previews st) key of
        None \<Rightarrow> (Inl ErrNotFound, st)
      | Some current \<Rightarrow>
          if pv_Generation current \<noteq> pv_Generation p \<or> pv_PipelineID current \<noteq> pv_PipelineID p \<or>
             pv_Desired current \<noteq> pv_Desired p
          then (Inl ErrConflict, st)
          else (Inr (), st\<lparr>previews := mutate key (\<lambda>v. v\<lparr>pv_Actual := actual, pv_URL := url,
                  pv_LastError := lastError\<rparr>) (previews st)\<rparr>))"

definition RecordCheck :: "string \<Rightarrow> int \<Rightarrow> State \<Rightarrow> Store \<Rightarrow> (error + unit) \<times> Store" where
  "RecordCheck plID checkID s st =
     (case map_of (pipelines st) plID of
        None \<Rightarrow> (Inl ErrNotFound, st)
      | Some _ \<Rightarrow> (Inr (), st\<lparr>pipelines := mutate plID (\<lambda>p. p\<lparr>pl_CheckRunID := checkID,
                     pl_CheckState := s\<rparr>) (pipelines st)\<rparr>))"

section \<open>Periodic maintenance\<close>

definition reconcilePreview :: "time \<Rightarrow> string \<Rightarrow> Store \<times> int \<Rightarrow> Store \<times> int" where
  "reconcilePreview now key sd =
     (let (st, deleted) = sd in
      case map_of (previews st) key of
        None \<Rightarrow> sd
      | Some v \<Rightarrow>
          let v' = (if pv_Desired v = StateActive \<and> pv_ExpiresAt v \<noteq> 0 \<and> \<not> now < pv_ExpiresAt v
                then v\<lparr>pv_Desired := StateDeleting, pv_Generation := pv_Generation v + 1,
                       pv_UpdatedAt := now\<rparr>
                else v);
              st1 = st\<lparr>previews := mutate key (\<lambda>_. v') (previews st)\<rparr>
          in if pv_Desired v' = StateDeleting \<and> pv_Actual v' = StateDeleted
             then (st1\<lparr>previews := AList.delete key (previews st1), metrics :=
                     (metrics st1)\<lparr>m_PreviewsDeleted := m_PreviewsDeleted (metrics st1) + 1\<rparr>\<rparr>,
                   deleted + 1)
             else (st1, deleted))"

definition pruneJob :: "string \<Rightarrow> Store \<Rightarrow> Store option" where
  "pruneJob jid st = do {
     j \<leftarrow> map_of (jobs st) jid;
     Some (st\<lparr>attempts := fold AList.delete (job_AttemptIDs j) (attempts st),
              jobs := AList.delete jid (jobs st)\<rparr>) }"

definition prunePipeline :: "time \<Rightarrow> string \<Rightarrow> Store \<Rightarrow> Store option" where
  "prunePipeline now plID st =
     (case map_of (pipelines st) plID of
        None \<Rightarrow> Some st
      | Some p \<Rightarrow>
          if \<not> terminal (pl_Status p) \<or> timeSub now (pl_CreatedAt p) < cfg_Retention (config st)
          then Some st
          else if \<exists>v \<in> set (map snd (previews st)). pv_PipelineID v = plID then Some st
          else do {
            st1 \<leftarrow> foldO pruneJob (pl_JobIDs p) st;
            Some (st1\<lparr>pipelines := AList.delete plID (pipelines st1)\<rparr>) })"

definition pruneLocked :: "World \<Rightarrow> time \<Rightarrow> Store \<Rightarrow> Store option" where
  "pruneLocked w now st = foldO (prunePipeline now) (visitPipelines w 0) st"

definition Reconcile :: "World \<Rightarrow> time \<Rightarrow> Store \<Rightarrow> ((int \<times> int) \<times> Store) option" where
  "Reconcile w now st = do {
     (st1, expired) \<leftarrow> reconcileExpiredLocked w now st;
     let (st2, deleted) = fold (reconcilePreview now) (visitPreviews w) (st1, 0)
     in do { st3 \<leftarrow> pruneLocked w now st2; Some ((expired, deleted), st3) } }"

definition ensureJob :: "string \<Rightarrow> time \<Rightarrow> string \<Rightarrow> Store \<Rightarrow> Store option" where
  "ensureJob plID now jid st = do {
     p \<leftarrow> map_of (pipelines st) plID;
     j \<leftarrow> map_of (jobs st) jid;
     (case spec_Environment (job_Spec j) of
        None \<Rightarrow> Some st
      | Some env \<Rightarrow>
          if now < pl_CreatedAt p + durTimes (env_TTLMinutes env) Minute
          then activatePreviewLocked plID env now st
          else Some st) }"

definition ensurePreview :: "time \<Rightarrow> string \<Rightarrow> Store \<Rightarrow> Store option" where
  "ensurePreview now plID st =
     (case map_of (pipelines st) plID of
        None \<Rightarrow> Some st
      | Some p \<Rightarrow>
          if pl_Status p \<noteq> StateSucceeded \<or> pl_PRNumber p = 0 then Some st
          else if map_of (previews st) (previewKey (pl_Repo p) (pl_PRNumber p)) \<noteq> None then Some st
          else foldO (ensureJob plID now) (pl_JobIDs p) st)"

definition EnsurePreviews :: "World \<Rightarrow> time \<Rightarrow> Store \<Rightarrow> Store option" where
  "EnsurePreviews w now st = foldO (ensurePreview now) (visitPipelines w 1) st"

end
