(* ===== verification/Invariant.thy ===== *)
theory Invariant
  imports Workflow
begin

text \<open>
  The invariant of the store and the effect of the internal transitions on it.
  \<^item> \<open>refs\<close>: every identifier stored in a record points to an existing record that points back,
    so no operation dereferences a nil pointer.
  \<^item> \<open>leasesOK\<close>: a job is leased or running exactly while its last attempt is, and no other
    attempt of the job is active.
  \<^item> \<open>plansOK\<close>: a pipeline's status is the aggregate of its jobs' statuses.
\<close>

section \<open>The invariant\<close>

definition pipelineRefs :: "Store \<Rightarrow> string \<Rightarrow> Pipeline \<Rightarrow> bool" where
  "pipelineRefs st plID p \<longleftrightarrow> pl_ID p = plID \<and> distinct (pl_JobIDs p) \<and> pl_JobIDs p \<noteq> [] \<and>
     (\<forall>jid \<in> set (pl_JobIDs p). \<exists>j. map_of (jobs st) jid = Some j \<and> job_PipelineID j = plID)"

definition jobRefs :: "Store \<Rightarrow> string \<Rightarrow> Job \<Rightarrow> bool" where
  "jobRefs st jid j \<longleftrightarrow> job_ID j = jid \<and> distinct (job_AttemptIDs j) \<and>
     (\<exists>p. map_of (pipelines st) (job_PipelineID j) = Some p \<and> jid \<in> set (pl_JobIDs p)) \<and>
     (\<forall>aid \<in> set (job_AttemptIDs j). \<exists>a. map_of (attempts st) aid = Some a \<and> att_JobID a = jid)"

definition numbered :: "string \<Rightarrow> Attempt \<Rightarrow> Job \<Rightarrow> bool" where
  "numbered aid a j \<longleftrightarrow>
     (\<exists>n < length (job_AttemptIDs j). job_AttemptIDs j ! n = aid \<and> att_Number a = int n + 1)"

definition attemptRefs :: "Store \<Rightarrow> string \<Rightarrow> Attempt \<Rightarrow> bool" where
  "attemptRefs st aid a \<longleftrightarrow> att_ID a = aid \<and>
     (\<exists>j. map_of (jobs st) (att_JobID a) = Some j \<and> numbered aid a j)"

definition distinctKeys :: "Store \<Rightarrow> bool" where
  "distinctKeys st \<longleftrightarrow> distinct (keys (pipelines st)) \<and> distinct (keys (jobs st)) \<and>
     distinct (keys (attempts st)) \<and> distinct (keys (workers st)) \<and> distinct (keys (previews st))"

definition refs :: "Store \<Rightarrow> bool" where
  "refs st \<longleftrightarrow> distinctKeys st \<and>
     (\<forall>plID p. map_of (pipelines st) plID = Some p \<longrightarrow> pipelineRefs st plID p) \<and>
     (\<forall>jid j. map_of (jobs st) jid = Some j \<longrightarrow> jobRefs st jid j) \<and>
     (\<forall>aid a. map_of (attempts st) aid = Some a \<longrightarrow> attemptRefs st aid a) \<and>
     (\<forall>wid k. map_of (workers st) wid = Some k \<longrightarrow> wk_ID k = wid)"

text \<open>The statuses of a job, and its retry budget: a queued job has an attempt left.\<close>

definition jobOK :: "Job \<Rightarrow> bool" where
  "jobOK j \<longleftrightarrow> job_Status j \<in> {StateQueued, StateLeased, StateRunning, StateSucceeded, StateFailed,
       StateCancelled} \<and>
     int (length (job_AttemptIDs j)) \<le> attemptLimit j \<and>
     (job_Status j = StateQueued \<longrightarrow> int (length (job_AttemptIDs j)) < attemptLimit j)"

lemma attemptLimit_update [simp]:
  "attemptLimit (j\<lparr>job_Status := s\<rparr>) = attemptLimit j"
  "attemptLimit (j\<lparr>job_QueueReason := r\<rparr>) = attemptLimit j"
  "attemptLimit (j\<lparr>job_AttemptIDs := ids\<rparr>) = attemptLimit j"
  by (simp_all add: attemptLimit_def)

lemma attemptLimit_pos: "0 < attemptLimit j"
  by (simp add: attemptLimit_def)

definition leasesOK :: "Store \<Rightarrow> bool" where
  "leasesOK st \<longleftrightarrow>
     (\<forall>jid j. map_of (jobs st) jid = Some j \<longrightarrow> jobOK j) \<and>
     (\<forall>aid a j. map_of (attempts st) aid = Some a \<longrightarrow> map_of (jobs st) (att_JobID a) = Some j \<longrightarrow>
        active (att_Status a) \<longrightarrow> job_Status j = att_Status a \<and> last (job_AttemptIDs j) = aid) \<and>
     (\<forall>jid j. map_of (jobs st) jid = Some j \<longrightarrow> active (job_Status j) \<longrightarrow>
        job_AttemptIDs j \<noteq> [] \<and>
        (\<exists>a. map_of (attempts st) (last (job_AttemptIDs j)) = Some a \<and> att_Status a = job_Status j))"

definition statusesOf :: "Store \<Rightarrow> Pipeline \<Rightarrow> State set" where
  "statusesOf st p =
     {s. \<exists>jid \<in> set (pl_JobIDs p). \<exists>j. map_of (jobs st) jid = Some j \<and> job_Status j = s}"

definition aggregateOK :: "State \<Rightarrow> State set \<Rightarrow> bool" where
  "aggregateOK s S \<longleftrightarrow>
     (s = StateQueued \<or> s = StateRunning) \<and> StateFailed \<notin> S \<and> StateCancelled \<notin> S \<and>
       \<not> S \<subseteq> {StateSucceeded} \<or>
     s = StateSucceeded \<and> S \<subseteq> {StateSucceeded} \<or>
     s = StateFailed \<and> (\<forall>x \<in> S. terminal x) \<and> StateFailed \<in> S \<or>
     s = StateCancelled \<and> (\<forall>x \<in> S. terminal x) \<and> StateCancelled \<in> S"

definition plansOK :: "(string \<Rightarrow> bool) \<Rightarrow> Store \<Rightarrow> bool" where
  "plansOK dirty st \<longleftrightarrow> (\<forall>plID p. map_of (pipelines st) plID = Some p \<longrightarrow> \<not> dirty plID \<longrightarrow>
     aggregateOK (pl_Status p) (statusesOf st p))"

definition base :: "Store \<Rightarrow> bool" where
  "base st \<longleftrightarrow> refs st \<and> leasesOK st"

definition wellFormed :: "Store \<Rightarrow> bool" where
  "wellFormed st \<longleftrightarrow> base st \<and> plansOK (\<lambda>_. False) st"

lemma wellFormed_New: "wellFormed (New c)"
  by (simp add: wellFormed_def base_def refs_def distinctKeys_def leasesOK_def plansOK_def New_def)

section \<open>Using the invariant\<close>

lemma refs_pipeline: "refs st \<Longrightarrow> map_of (pipelines st) plID = Some p \<Longrightarrow> pipelineRefs st plID p"
  by (simp add: refs_def)

lemma refs_job: "refs st \<Longrightarrow> map_of (jobs st) jid = Some j \<Longrightarrow> jobRefs st jid j"
  by (simp add: refs_def)

lemma refs_attempt: "refs st \<Longrightarrow> map_of (attempts st) aid = Some a \<Longrightarrow> attemptRefs st aid a"
  by (simp add: refs_def)

lemma refs_job_of_pipeline:
  assumes "refs st" "map_of (pipelines st) plID = Some p" "jid \<in> set (pl_JobIDs p)"
  obtains j where "map_of (jobs st) jid = Some j" "job_PipelineID j = plID"
  using refs_pipeline [OF assms(1,2)] assms(3) unfolding pipelineRefs_def by blast

lemma refs_pipeline_of_job:
  assumes "refs st" "map_of (jobs st) jid = Some j"
  obtains p where "map_of (pipelines st) (job_PipelineID j) = Some p" "jid \<in> set (pl_JobIDs p)"
  using refs_job [OF assms] unfolding jobRefs_def by blast

lemma refs_attempt_of_job:
  assumes "refs st" "map_of (jobs st) jid = Some j" "aid \<in> set (job_AttemptIDs j)"
  obtains a where "map_of (attempts st) aid = Some a" "att_JobID a = jid"
  using refs_job [OF assms(1,2)] assms(3) unfolding jobRefs_def by blast

lemma refs_job_of_attempt:
  assumes "refs st" "map_of (attempts st) aid = Some a"
  obtains j where "map_of (jobs st) (att_JobID a) = Some j" "aid \<in> set (job_AttemptIDs j)"
proof -
  obtain j n where j: "map_of (jobs st) (att_JobID a) = Some j" "n < length (job_AttemptIDs j)"
    "job_AttemptIDs j ! n = aid"
    using refs_attempt [OF assms] by (auto simp: attemptRefs_def numbered_def)
  from nth_mem [OF j(2)] j(1,3) show ?thesis by (intro that [of j]) simp_all
qed

lemma refs_owner:
  assumes "refs st" "map_of (pipelines st) plID = Some p" "map_of (jobs st) jid = Some j"
  shows "jid \<in> set (pl_JobIDs p) \<longleftrightarrow> job_PipelineID j = plID"
  using refs_job_of_pipeline [OF assms(1,2)] refs_pipeline_of_job [OF assms(1,3)] assms
  by (metis option.inject)

lemma refs_attempt_iff:
  assumes "refs st" "map_of (jobs st) jid = Some j" "map_of (attempts st) aid = Some a"
  shows "aid \<in> set (job_AttemptIDs j) \<longleftrightarrow> att_JobID a = jid"
  using refs_attempt_of_job [OF assms(1,2)] refs_job_of_attempt [OF assms(1,3)] assms
  by (metis option.inject)

lemma leasesOK_active:
  assumes "base st" "map_of (attempts st) aid = Some a" "active (att_Status a)"
  obtains j where "map_of (jobs st) (att_JobID a) = Some j" "job_Status j = att_Status a"
    "job_AttemptIDs j \<noteq> []" "last (job_AttemptIDs j) = aid"
proof -
  obtain j where j: "map_of (jobs st) (att_JobID a) = Some j" "aid \<in> set (job_AttemptIDs j)"
    using assms unfolding base_def by (blast elim: refs_job_of_attempt)
  moreover have "job_Status j = att_Status a" "last (job_AttemptIDs j) = aid"
    using assms j(1) unfolding base_def leasesOK_def by blast+
  ultimately show ?thesis using that by (metis empty_iff empty_set)
qed

lemma leasesOK_jobOK: "leasesOK st \<Longrightarrow> map_of (jobs st) jid = Some j \<Longrightarrow> jobOK j"
  by (simp add: leasesOK_def)

text \<open>The last attempt of a job carries the job's number of attempts.\<close>

lemma last_attempt_number:
  assumes r: "refs st" and j: "map_of (jobs st) jid = Some j"
    and a: "map_of (attempts st) (last (job_AttemptIDs j)) = Some a" "job_AttemptIDs j \<noteq> []"
  shows "att_Number a = int (length (job_AttemptIDs j))"
proof -
  have "att_JobID a = jid" using refs_attempt_iff [OF r j a(1)] a(2) by simp
  then obtain n where n: "n < length (job_AttemptIDs j)" "job_AttemptIDs j ! n = last (job_AttemptIDs j)"
    "att_Number a = int n + 1"
    using refs_attempt [OF r a(1)] j by (auto simp: attemptRefs_def numbered_def)
  have "distinct (job_AttemptIDs j)" using refs_job [OF r j] by (simp add: jobRefs_def)
  then have "n = length (job_AttemptIDs j) - 1"
    using n(1,2) a(2) by (simp add: last_conv_nth nth_eq_iff_index_eq)
  then show ?thesis using n(1,3) by simp
qed

lemma jobOK_cong:
  "job_Status i = job_Status j \<Longrightarrow> job_Spec i = job_Spec j \<Longrightarrow> job_AttemptIDs i = job_AttemptIDs j \<Longrightarrow>
     jobOK i = jobOK j"
  by (simp add: jobOK_def attemptLimit_def)

lemma statusesOf_iff:
  "refs st \<Longrightarrow> map_of (pipelines st) plID = Some p \<Longrightarrow>
     s \<in> statusesOf st p \<longleftrightarrow>
       (\<exists>jid j. map_of (jobs st) jid = Some j \<and> job_PipelineID j = plID \<and> job_Status j = s)"
  unfolding statusesOf_def by (auto simp: refs_owner dest: refs_owner)

lemma terminal_iff:
  "wellFormed st \<Longrightarrow> map_of (pipelines st) plID = Some p \<Longrightarrow>
     terminal (pl_Status p) \<longleftrightarrow> (\<forall>s \<in> statusesOf st p. terminal s)"
proof -
  assume wellFormed: "wellFormed st" and p: "map_of (pipelines st) plID = Some p"
  then have agg: "aggregateOK (pl_Status p) (statusesOf st p)"
    by (simp add: wellFormed_def plansOK_def)
  have "terminal s \<Longrightarrow> s \<in> {StateSucceeded, StateFailed, StateCancelled}" if "s \<in> statusesOf st p" for s
  proof -
    obtain jid j where "map_of (jobs st) jid = Some j" "job_Status j = s"
      using \<open>s \<in> statusesOf st p\<close> by (auto simp: statusesOf_def)
    then have "jobOK j" "job_Status j = s"
      using wellFormed by (auto simp: wellFormed_def base_def leasesOK_jobOK)
    then show "s \<in> {StateSucceeded, StateFailed, StateCancelled}" if "terminal s"
      using that by (auto simp: jobOK_def terminal_def)
  qed
  with agg show ?thesis
    unfolding aggregateOK_def by (auto simp: terminal_def)
qed

section \<open>Frames: the immutable part of the records\<close>

definition plCore :: "Pipeline \<Rightarrow> Pipeline" where
  "plCore p = p\<lparr>pl_Status := StateUnset, pl_CheckRunID := 0, pl_CheckState := StateUnset\<rparr>"

definition jobCore :: "Job \<Rightarrow> Job" where
  "jobCore j = j\<lparr>job_Status := StateUnset, job_QueueReason := []\<rparr>"

definition attCore :: "Attempt \<Rightarrow> Attempt" where
  "attCore a = a\<lparr>att_LeaseExpires := 0, att_Status := StateUnset, att_StartedAt := 0,
     att_CompletedAt := 0, att_ResultMessage := [], att_ResultDigest := [], att_LogKey := [],
     att_Artefacts := []\<rparr>"

definition sameCore :: "Store \<Rightarrow> Store \<Rightarrow> bool" where
  "sameCore st st' \<longleftrightarrow> config st' = config st \<and> sequence st' = sequence st \<and>
     workers st' = workers st \<and>
     keys (pipelines st') = keys (pipelines st) \<and> keys (jobs st') = keys (jobs st) \<and>
     keys (attempts st') = keys (attempts st) \<and>
     (distinct (keys (previews st)) \<longrightarrow> distinct (keys (previews st'))) \<and>
     (\<forall>k. map_option plCore (map_of (pipelines st') k) = map_option plCore (map_of (pipelines st) k)) \<and>
     (\<forall>k. map_option jobCore (map_of (jobs st') k) = map_option jobCore (map_of (jobs st) k)) \<and>
     (\<forall>k. map_option attCore (map_of (attempts st') k) = map_option attCore (map_of (attempts st) k))"

lemma plCore_Status [simp]: "plCore (p\<lparr>pl_Status := s\<rparr>) = plCore p"
  by (simp add: plCore_def)

lemma sameCore_refl [simp]: "sameCore st st"
  by (simp add: sameCore_def)

lemma sameCore_trans: "sameCore a b \<Longrightarrow> sameCore b c \<Longrightarrow> sameCore a c"
  by (simp add: sameCore_def)

lemma plCore_eq:
  "plCore p = plCore q \<Longrightarrow> pl_ID p = pl_ID q \<and> pl_Tenant p = pl_Tenant q \<and> pl_Repo p = pl_Repo q \<and>
     pl_CommitSHA p = pl_CommitSHA q \<and> pl_PRNumber p = pl_PRNumber q \<and> pl_JobIDs p = pl_JobIDs q \<and>
     pl_CreatedAt p = pl_CreatedAt q \<and> pl_Generation p = pl_Generation q \<and>
     pl_ConfigDigest p = pl_ConfigDigest q \<and> pl_SourceRepo p = pl_SourceRepo q"
  by (cases p; cases q) (simp add: plCore_def)

lemma jobCore_eq:
  "jobCore i = jobCore j \<Longrightarrow> job_ID i = job_ID j \<and> job_PipelineID i = job_PipelineID j \<and>
     job_Tenant i = job_Tenant j \<and> job_Name i = job_Name j \<and> job_Spec i = job_Spec j \<and>
     job_CreatedAt i = job_CreatedAt j \<and> job_Sequence i = job_Sequence j \<and>
     job_AttemptIDs i = job_AttemptIDs j"
  by (cases i; cases j) (simp add: jobCore_def)

lemma attCore_eq:
  "attCore a = attCore b \<Longrightarrow> att_ID a = att_ID b \<and> att_JobID a = att_JobID b \<and>
     att_Number a = att_Number b \<and> att_WorkerID a = att_WorkerID b \<and>
     att_LeaseToken a = att_LeaseToken b \<and> att_CreatedAt a = att_CreatedAt b"
  by (cases a; cases b) (simp add: attCore_def)

lemma sameCore_pipeline:
  assumes "sameCore st st'" "map_of (pipelines st) k = Some p"
  obtains p' where "map_of (pipelines st') k = Some p'" "plCore p' = plCore p"
proof -
  have "map_option plCore (map_of (pipelines st') k) = Some (plCore p)"
    using assms by (simp add: sameCore_def)
  then show ?thesis using that by (auto simp: map_option_eq_Some)
qed

lemma sameCore_job:
  assumes "sameCore st st'" "map_of (jobs st) k = Some p"
  obtains p' where "map_of (jobs st') k = Some p'" "jobCore p' = jobCore p"
proof -
  have "map_option jobCore (map_of (jobs st') k) = Some (jobCore p)"
    using assms by (simp add: sameCore_def)
  then show ?thesis using that by (auto simp: map_option_eq_Some)
qed

lemma sameCore_attempt:
  assumes "sameCore st st'" "map_of (attempts st) k = Some p"
  obtains p' where "map_of (attempts st') k = Some p'" "attCore p' = attCore p"
proof -
  have "map_option attCore (map_of (attempts st') k) = Some (attCore p)"
    using assms by (simp add: sameCore_def)
  then show ?thesis using that by (auto simp: map_option_eq_Some)
qed

lemma sameCore_sym_pipeline:
  assumes "sameCore st st'" "map_of (pipelines st') k = Some p'"
  obtains p where "map_of (pipelines st) k = Some p" "plCore p' = plCore p"
proof -
  have "map_option plCore (map_of (pipelines st) k) = Some (plCore p')"
    using assms unfolding sameCore_def by (metis option.simps(9))
  then show ?thesis using that by (auto simp: map_option_eq_Some)
qed

lemma sameCore_sym_job:
  assumes "sameCore st st'" "map_of (jobs st') k = Some p'"
  obtains p where "map_of (jobs st) k = Some p" "jobCore p' = jobCore p"
proof -
  have "map_option jobCore (map_of (jobs st) k) = Some (jobCore p')"
    using assms unfolding sameCore_def by (metis option.simps(9))
  then show ?thesis using that by (auto simp: map_option_eq_Some)
qed

lemma sameCore_sym_attempt:
  assumes "sameCore st st'" "map_of (attempts st') k = Some p'"
  obtains p where "map_of (attempts st) k = Some p" "attCore p' = attCore p"
proof -
  have "map_option attCore (map_of (attempts st) k) = Some (attCore p')"
    using assms unfolding sameCore_def by (metis option.simps(9))
  then show ?thesis using that by (auto simp: map_option_eq_Some)
qed

lemma sameCore_refs:
  assumes r: "refs st" and c: "sameCore st st'"
  shows "refs st'"
proof -
  have "distinctKeys st'"
    using r c unfolding refs_def distinctKeys_def sameCore_def by metis
  moreover have "pipelineRefs st' plID p'" if p': "map_of (pipelines st') plID = Some p'" for plID p'
  proof -
    obtain p where p: "map_of (pipelines st) plID = Some p" "plCore p' = plCore p"
      by (rule sameCore_sym_pipeline [OF c p'])
    have "\<exists>j'. map_of (jobs st') jid = Some j' \<and> job_PipelineID j' = plID"
      if "jid \<in> set (pl_JobIDs p)" for jid
      by (rule refs_job_of_pipeline [OF r p(1) that], rule sameCore_job [OF c], assumption)
        (auto dest: jobCore_eq)
    with refs_pipeline [OF r p(1)] plCore_eq [OF p(2)] show ?thesis
      by (simp add: pipelineRefs_def)
  qed
  moreover have "jobRefs st' jid j'" if j': "map_of (jobs st') jid = Some j'" for jid j'
  proof -
    obtain j where j: "map_of (jobs st) jid = Some j" "jobCore j' = jobCore j"
      by (rule sameCore_sym_job [OF c j'])
    have "\<exists>a'. map_of (attempts st') aid = Some a' \<and> att_JobID a' = jid"
      if "aid \<in> set (job_AttemptIDs j)" for aid
      by (rule refs_attempt_of_job [OF r j(1) that], rule sameCore_attempt [OF c], assumption)
        (auto dest: attCore_eq)
    moreover have "\<exists>p'. map_of (pipelines st') (job_PipelineID j) = Some p' \<and> jid \<in> set (pl_JobIDs p')"
      by (rule refs_pipeline_of_job [OF r j(1)], rule sameCore_pipeline [OF c], assumption)
        (auto dest: plCore_eq)
    ultimately show ?thesis
      using refs_job [OF r j(1)] jobCore_eq [OF j(2)] by (simp add: jobRefs_def)
  qed
  moreover have "attemptRefs st' aid a'" if a': "map_of (attempts st') aid = Some a'" for aid a'
  proof -
    obtain a where a: "map_of (attempts st) aid = Some a" "attCore a' = attCore a"
      by (rule sameCore_sym_attempt [OF c a'])
    obtain j where j: "map_of (jobs st) (att_JobID a) = Some j" "numbered aid a j"
      using refs_attempt [OF r a(1)] unfolding attemptRefs_def by blast
    obtain j' where "map_of (jobs st') (att_JobID a) = Some j'" "jobCore j' = jobCore j"
      by (rule sameCore_job [OF c j(1)])
    then have "map_of (jobs st') (att_JobID a) = Some j'" "numbered aid a' j'"
      using j(2) attCore_eq [OF a(2)] by (auto simp: numbered_def dest: jobCore_eq)
    with refs_attempt [OF r a(1)] attCore_eq [OF a(2)] show ?thesis
      by (simp add: attemptRefs_def)
  qed
  moreover have "wk_ID k = wid" if "map_of (workers st') wid = Some k" for wid k
    using that r c unfolding refs_def sameCore_def by metis
  ultimately show ?thesis unfolding refs_def by blast
qed

section \<open>The effect of cancelling a list of jobs\<close>

definition cancelledAttempt :: "time \<Rightarrow> Attempt \<Rightarrow> Attempt" where
  "cancelledAttempt now a = a\<lparr>att_Status := StateCancelled, att_CompletedAt := now\<rparr>"

lemma cancelledAttempt_simps [simp]:
  "att_Status (cancelledAttempt now a) = StateCancelled"
  "att_JobID (cancelledAttempt now a) = att_JobID a"
  by (simp_all add: cancelledAttempt_def)

definition cancelEffect ::
  "(Job \<Rightarrow> Job) \<Rightarrow> time \<Rightarrow> string set \<Rightarrow> Store \<Rightarrow> Store \<Rightarrow> bool" where
  "cancelEffect write now ids st st' \<longleftrightarrow>
     st' = st\<lparr>jobs := jobs st', attempts := attempts st', metrics := metrics st'\<rparr> \<and>
     keys (jobs st') = keys (jobs st) \<and> keys (attempts st') = keys (attempts st) \<and>
     (\<forall>jid. map_of (jobs st') jid = map_option
        (\<lambda>j. if jid \<in> ids \<and> \<not> terminal (job_Status j) then write j else j) (map_of (jobs st) jid)) \<and>
     (\<forall>aid. map_of (attempts st') aid = map_option
        (\<lambda>a. if active (att_Status a) \<and> att_JobID a \<in> ids then cancelledAttempt now a else a)
        (map_of (attempts st) aid))"

definition cancelWrite :: "(Job \<Rightarrow> Job) \<Rightarrow> bool" where
  "cancelWrite write \<longleftrightarrow> (\<forall>j. job_Status (write j) = StateCancelled \<and> jobCore (write j) = jobCore j)"

lemma cancelWrite_code [simp]: "cancelWrite writeCancelled" "cancelWrite writePipelineCancelled"
  by (simp_all add: cancelWrite_def writeCancelled_def writePipelineCancelled_def jobCore_def)

lemma cancelledAttempt_Status: "cancelledAttempt now a = b \<Longrightarrow> att_Status b = StateCancelled"
  by auto

lemma cancelAttempts_effect:
  assumes "\<And>aid. aid \<in> set aids \<Longrightarrow> \<exists>a. map_of (attempts st) aid = Some a"
  shows "\<exists>as'. foldO (cancelAttempt now) aids st = Some (st\<lparr>attempts := as'\<rparr>) \<and>
    keys as' = keys (attempts st) \<and>
    (\<forall>aid. map_of as' aid = map_option
       (\<lambda>a. if active (att_Status a) \<and> aid \<in> set aids then cancelledAttempt now a else a)
       (map_of (attempts st) aid))"
  using assms
proof (induction aids arbitrary: st)
  case Nil
  then show ?case
    by (intro exI [of _ "attempts st"]) (auto simp: option.map_ident)
next
  case (Cons aid aids)
  from Cons.prems obtain a where a: "map_of (attempts st) aid = Some a" by auto
  define m where "m = (if active (att_Status a) then mutate aid (cancelledAttempt now) (attempts st)
    else attempts st)"
  have step: "cancelAttempt now aid st = Some (st\<lparr>attempts := m\<rparr>)"
    by (simp add: cancelAttempt_def a m_def cancelledAttempt_def [abs_def])
  have m: "keys m = keys (attempts st)" "\<And>k. map_of m k = map_option
      (\<lambda>a. if active (att_Status a) \<and> k = aid then cancelledAttempt now a else a) (map_of (attempts st) k)"
    using a by (auto simp: m_def option.map_ident split: option.split)
  have "\<exists>a. map_of (attempts (st\<lparr>attempts := m\<rparr>)) k = Some a" if "k \<in> set aids" for k
    using Cons.prems [of k] that m by auto
  from Cons.IH [OF this] obtain as' where
    as': "foldO (cancelAttempt now) aids (st\<lparr>attempts := m\<rparr>) = Some (st\<lparr>attempts := as'\<rparr>)"
      "keys as' = keys m"
      "\<And>k. map_of as' k = map_option
         (\<lambda>a. if active (att_Status a) \<and> k \<in> set aids then cancelledAttempt now a else a) (map_of m k)"
    by auto
  have "map_of as' k = map_option
      (\<lambda>a. if active (att_Status a) \<and> k \<in> set (aid # aids) then cancelledAttempt now a else a)
      (map_of (attempts st) k)" for k
    unfolding as'(3) m(2) by (cases "map_of (attempts st) k") (auto simp: cancelledAttempt_def)
  with as' m step show ?case
    by (intro exI [of _ as']) simp
qed

lemma cancelEffect_trans:
  assumes "cancelWrite write" "cancelEffect write now A st1 st2" "cancelEffect write now B st2 st3"
  shows "cancelEffect write now (A \<union> B) st1 st3"
proof -
  have 1: "st2 = st1\<lparr>jobs := jobs st2, attempts := attempts st2, metrics := metrics st2\<rparr>"
    and 2: "st3 = st2\<lparr>jobs := jobs st3, attempts := attempts st3, metrics := metrics st3\<rparr>"
    using assms(2,3) by (simp_all add: cancelEffect_def)
  have "st3 = st1\<lparr>jobs := jobs st3, attempts := attempts st3, metrics := metrics st3\<rparr>"
    by (subst 2, subst 1) simp
  moreover have "map_of (jobs st3) k = map_option
      (\<lambda>j. if k \<in> A \<union> B \<and> \<not> terminal (job_Status j) then write j else j) (map_of (jobs st1) k)" for k
    using assms by (cases "map_of (jobs st1) k") (auto simp: cancelEffect_def cancelWrite_def)
  moreover have "map_of (attempts st3) k = map_option
      (\<lambda>a. if active (att_Status a) \<and> att_JobID a \<in> A \<union> B then cancelledAttempt now a else a)
      (map_of (attempts st1) k)" for k
    using assms by (cases "map_of (attempts st1) k") (auto simp: cancelEffect_def cancelledAttempt_def)
  ultimately show ?thesis
    using assms(2,3) unfolding cancelEffect_def by simp
qed

lemma cancelEffect_pipelines:
  assumes "cancelEffect write now ids st st'"
  shows "pipelines st' = pipelines st"
proof -
  have "st' = st\<lparr>jobs := jobs st', attempts := attempts st', metrics := metrics st'\<rparr>"
    using assms by (simp add: cancelEffect_def)
  then show ?thesis by (rule ssubst) simp
qed

lemma cancelEffect_sameCore:
  assumes "cancelWrite write" "cancelEffect write now ids st st'"
  shows "sameCore st st'"
proof -
  have 1: "st' = st\<lparr>jobs := jobs st', attempts := attempts st', metrics := metrics st'\<rparr>"
    using assms(2) by (simp add: cancelEffect_def)
  have "config st' = config st" "sequence st' = sequence st" "workers st' = workers st"
    "pipelines st' = pipelines st" "previews st' = previews st"
    by (subst 1, simp)+
  moreover have "jobCore (if P then write j else j) = jobCore j" for P j
    using assms(1) by (simp add: cancelWrite_def)
  moreover have "attCore (if P then cancelledAttempt now a else a) = attCore a" for P a
    by (simp add: cancelledAttempt_def attCore_def)
  ultimately show ?thesis
    using assms(2) by (simp add: sameCore_def cancelEffect_def option.map_comp comp_def)
qed

lemma cancelEffect_leasesOK:
  assumes w: "cancelWrite write" and e: "cancelEffect write now ids st st'" and b: "base st"
  shows "base st'"
proof -
  have c: "sameCore st st'" by (rule cancelEffect_sameCore [OF w e])
  have J: "\<And>jid. map_of (jobs st') jid = map_option
      (\<lambda>j. if jid \<in> ids \<and> \<not> terminal (job_Status j) then write j else j) (map_of (jobs st) jid)"
    and A: "\<And>aid. map_of (attempts st') aid = map_option
      (\<lambda>a. if active (att_Status a) \<and> att_JobID a \<in> ids then cancelledAttempt now a else a)
      (map_of (attempts st) aid)"
    using e by (simp_all add: cancelEffect_def)
  have W: "job_Status (write j) = StateCancelled" "job_AttemptIDs (write j) = job_AttemptIDs j"
    "job_Spec (write j) = job_Spec j" for j
    using w jobCore_eq [of "write j" j] by (simp_all add: cancelWrite_def)
  have "leasesOK st'"
    unfolding leasesOK_def
  proof (intro conjI allI impI)
    fix jid j' assume "map_of (jobs st') jid = Some j'"
    moreover have "jobOK j \<Longrightarrow> jobOK (write j)" for j
      using W [of j] by (auto simp: jobOK_def attemptLimit_def)
    ultimately show "jobOK j'"
      using b by (auto simp: J base_def leasesOK_def split: if_splits)
  next
    fix aid a' j'
    assume a': "map_of (attempts st') aid = Some a'" "map_of (jobs st') (att_JobID a') = Some j'"
      "active (att_Status a')"
    then have a: "map_of (attempts st) aid = Some a'" "att_JobID a' \<notin> ids"
      by (auto simp: A dest: cancelledAttempt_Status split: if_splits)
    with a' b show "job_Status j' = att_Status a'" and "last (job_AttemptIDs j') = aid"
      by (auto simp: J base_def leasesOK_def)
  next
    fix jid j' assume j': "map_of (jobs st') jid = Some j'" "active (job_Status j')"
    have "write i = j' \<Longrightarrow> \<not> active (job_Status j')" for i
      using W(1) [of i] by auto
    with j' have j: "map_of (jobs st) jid = Some j'" "jid \<notin> ids"
      by (auto simp: J dest: active_not_terminal split: if_splits)
    then obtain a where a: "job_AttemptIDs j' \<noteq> []"
      "map_of (attempts st) (last (job_AttemptIDs j')) = Some a" "att_Status a = job_Status j'"
      using b j'(2) unfolding base_def leasesOK_def by blast
    moreover have "att_JobID a = jid"
      using refs_attempt_iff [of st jid j' "last (job_AttemptIDs j')" a] a j b
      by (simp add: base_def)
    ultimately show "job_AttemptIDs j' \<noteq> []"
      and "\<exists>a. map_of (attempts st') (last (job_AttemptIDs j')) = Some a \<and> att_Status a = job_Status j'"
      using j(2) by (auto simp: A)
  qed
  with sameCore_refs [OF _ c] b show ?thesis by (simp add: base_def)
qed

lemma cancelJobWith_effect:
  assumes w: "cancelWrite write" and b: "base st" and j: "map_of (jobs st) jid = Some j"
  shows "\<exists>st'. cancelJobWith write now jid st = Some st' \<and> cancelEffect write now {jid} st st'"
proof (cases "terminal (job_Status j)")
  case True
  have idle: "\<not> active (att_Status a)" if "map_of (attempts st) aid = Some a" "att_JobID a = jid" for aid a
    using that j True b active_not_terminal by (metis leasesOK_active option.inject)
  have "map_of (jobs st) k = map_option
      (\<lambda>j. if k \<in> {jid} \<and> \<not> terminal (job_Status j) then write j else j) (map_of (jobs st) k)" for k
    using True j by (cases "map_of (jobs st) k") auto
  moreover have "map_of (attempts st) k = map_option
      (\<lambda>a. if active (att_Status a) \<and> att_JobID a \<in> {jid} then cancelledAttempt now a else a)
      (map_of (attempts st) k)" for k
    using idle by (cases "map_of (attempts st) k") auto
  ultimately have "cancelEffect write now {jid} st st"
    by (simp add: cancelEffect_def)
  with True j show ?thesis by (simp add: cancelJobWith_def)
next
  case False
  let ?st1 = "incJobsCancelled (st\<lparr>jobs := mutate jid write (jobs st)\<rparr>)"
  have r: "refs st" using b by (simp add: base_def)
  have "\<exists>a. map_of (attempts ?st1) aid = Some a" if "aid \<in> set (job_AttemptIDs j)" for aid
    using refs_attempt_of_job [OF r j that] by auto
  from cancelAttempts_effect [OF this, where now = now] obtain as' where
    as': "foldO (cancelAttempt now) (job_AttemptIDs j) ?st1 = Some (?st1\<lparr>attempts := as'\<rparr>)"
      "keys as' = keys (attempts st)"
      "\<And>aid. map_of as' aid = map_option
         (\<lambda>a. if active (att_Status a) \<and> aid \<in> set (job_AttemptIDs j) then cancelledAttempt now a else a)
         (map_of (attempts st) aid)"
    by auto
  have "map_of as' k = map_option
      (\<lambda>a. if active (att_Status a) \<and> att_JobID a \<in> {jid} then cancelledAttempt now a else a)
      (map_of (attempts st) k)" for k
    using refs_attempt_iff [OF r j, of k] unfolding as'(3) by (cases "map_of (attempts st) k") auto
  with False j as'(2) have "cancelEffect write now {jid} st (?st1\<lparr>attempts := as'\<rparr>)"
    by (simp add: cancelEffect_def)
  with False j as'(1) show ?thesis by (simp add: cancelJobWith_def)
qed

lemma cancelJobs_effect:
  assumes w: "cancelWrite write" and b: "base st"
    and "\<And>jid. jid \<in> set jids \<Longrightarrow> \<exists>j. map_of (jobs st) jid = Some j"
  shows "\<exists>st'. foldO (cancelJobWith write now) jids st = Some st' \<and>
    cancelEffect write now (set jids) st st'"
  using assms(2-)
proof (induction jids arbitrary: st)
  case Nil
  have "cancelEffect write now {} st st"
    by (simp add: cancelEffect_def option.map_ident)
  then show ?case by simp
next
  case (Cons jid jids)
  from Cons.prems(2) obtain j where "map_of (jobs st) jid = Some j" by auto
  from cancelJobWith_effect [OF w Cons.prems(1) this] obtain st1 where
    1: "cancelJobWith write now jid st = Some st1" "cancelEffect write now {jid} st st1"
    by blast
  have "\<exists>j. map_of (jobs st1) k = Some j" if "k \<in> set jids" for k
    using Cons.prems(2) [of k] that 1(2) by (auto simp: cancelEffect_def)
  from Cons.IH [OF cancelEffect_leasesOK [OF w 1(2) Cons.prems(1)] this] obtain st2 where
    2: "foldO (cancelJobWith write now) jids st1 = Some st2" "cancelEffect write now (set jids) st1 st2"
    by blast
  from cancelEffect_trans [OF w 1(2) 2(2)] 1(1) 2(1) show ?case by simp
qed

section \<open>Advancing: terminal states never change\<close>

definition keepsTerminal :: "Store \<Rightarrow> Store \<Rightarrow> bool" where
  "keepsTerminal st st' \<longleftrightarrow>
     (\<forall>k p p'. map_of (pipelines st) k = Some p \<longrightarrow> map_of (pipelines st') k = Some p' \<longrightarrow>
        terminal (pl_Status p) \<longrightarrow> pl_Status p' = pl_Status p) \<and>
     (\<forall>k j j'. map_of (jobs st) k = Some j \<longrightarrow> map_of (jobs st') k = Some j' \<longrightarrow>
        terminal (job_Status j) \<longrightarrow> job_Status j' = job_Status j) \<and>
     (\<forall>k a a'. map_of (attempts st) k = Some a \<longrightarrow> map_of (attempts st') k = Some a' \<longrightarrow>
        \<not> active (att_Status a) \<longrightarrow> att_Status a' = att_Status a)"

definition advance :: "Store \<Rightarrow> Store \<Rightarrow> bool" where
  "advance st st' \<longleftrightarrow> sameCore st st' \<and> keepsTerminal st st'"

lemma advance_refl [simp]: "advance st st"
  by (simp add: advance_def keepsTerminal_def)

lemma advance_trans:
  assumes "advance a b" "advance b c"
  shows "advance a c"
proof -
  have c: "sameCore a b" "sameCore b c" and s: "keepsTerminal a b" "keepsTerminal b c"
    using assms by (simp_all add: advance_def)
  have "keepsTerminal a c"
    unfolding keepsTerminal_def
  proof (intro conjI allI impI)
    fix k p p' assume p: "map_of (pipelines a) k = Some p" "map_of (pipelines c) k = Some p'"
      "terminal (pl_Status p)"
    obtain q where "map_of (pipelines b) k = Some q"
      by (rule sameCore_pipeline [OF c(1) p(1)])
    with p s show "pl_Status p' = pl_Status p" unfolding keepsTerminal_def by metis
  next
    fix k p p' assume p: "map_of (jobs a) k = Some p" "map_of (jobs c) k = Some p'"
      "terminal (job_Status p)"
    obtain q where "map_of (jobs b) k = Some q"
      by (rule sameCore_job [OF c(1) p(1)])
    with p s show "job_Status p' = job_Status p" unfolding keepsTerminal_def by metis
  next
    fix k p p' assume p: "map_of (attempts a) k = Some p" "map_of (attempts c) k = Some p'"
      "\<not> active (att_Status p)"
    obtain q where "map_of (attempts b) k = Some q"
      by (rule sameCore_attempt [OF c(1) p(1)])
    with p s show "att_Status p' = att_Status p" unfolding keepsTerminal_def by metis
  qed
  with c sameCore_trans show ?thesis by (auto simp: advance_def)
qed

lemma cancelEffect_advance:
  assumes "cancelWrite write" "cancelEffect write now ids st st'"
  shows "advance st st'"
proof -
  have 1: "st' = st\<lparr>jobs := jobs st', attempts := attempts st', metrics := metrics st'\<rparr>"
    using assms(2) by (simp add: cancelEffect_def)
  have "pipelines st' = pipelines st"
    by (rule cancelEffect_pipelines [OF assms(2)])
  then have "keepsTerminal st st'"
    using assms(2) active_not_terminal by (auto simp: keepsTerminal_def cancelEffect_def split: if_splits)
  then show ?thesis
    using cancelEffect_sameCore [OF assms] by (simp add: advance_def)
qed

text \<open>A transition that only touches the other components of the state.\<close>

definition sameWork :: "Store \<Rightarrow> Store \<Rightarrow> bool" where
  "sameWork st st' \<longleftrightarrow> jobs st' = jobs st \<and> attempts st' = attempts st \<and>
     pipelines st' = pipelines st \<and> workers st' = workers st \<and> config st' = config st \<and>
     sequence st' = sequence st \<and>
     (distinct (keys (previews st)) \<longrightarrow> distinct (keys (previews st')))"

lemma sameWork_refl [simp]: "sameWork st st"
  by (simp add: sameWork_def)

lemma sameWork_trans: "sameWork a b \<Longrightarrow> sameWork b c \<Longrightarrow> sameWork a c"
  by (simp add: sameWork_def)

lemma sameWork_advance: "sameWork st st' \<Longrightarrow> advance st st'"
  by (simp add: sameWork_def advance_def sameCore_def keepsTerminal_def)

lemma sameWork_base: "sameWork st st' \<Longrightarrow> base st \<Longrightarrow> base st'"
  using sameCore_refs [of st st'] sameWork_advance [of st st']
  by (simp add: base_def advance_def sameWork_def leasesOK_def)

lemma sameWork_plansOK: "sameWork st st' \<Longrightarrow> plansOK d st' = plansOK d st"
  by (simp add: sameWork_def plansOK_def statusesOf_def)

lemma sameWork_wellFormed: "sameWork st st' \<Longrightarrow> wellFormed st \<Longrightarrow> wellFormed st'"
  by (simp add: wellFormed_def sameWork_base sameWork_plansOK)

section \<open>Pipeline status updates\<close>

lemma setPipelineStatus_simps [simp]:
  "jobs (setPipelineStatus k s st) = jobs st" "attempts (setPipelineStatus k s st) = attempts st"
  "workers (setPipelineStatus k s st) = workers st" "previews (setPipelineStatus k s st) = previews st"
  "config (setPipelineStatus k s st) = config st" "prStates (setPipelineStatus k s st) = prStates st"
  "metrics (setPipelineStatus k s st) = metrics st" "sequence (setPipelineStatus k s st) = sequence st"
  "statusesOf (setPipelineStatus k s st) p = statusesOf st p"
  by (simp_all add: setPipelineStatus_def statusesOf_def)

lemma map_of_setPipelineStatus:
  "map_of (pipelines (setPipelineStatus k s st)) k' =
     (if k' = k then map_option (\<lambda>p. p\<lparr>pl_Status := s\<rparr>) (map_of (pipelines st) k')
      else map_of (pipelines st) k')"
  by (simp add: setPipelineStatus_def)

lemma setPipelineStatus_sameCore: "sameCore st (setPipelineStatus k s st)"
  by (simp add: sameCore_def map_of_setPipelineStatus option.map_comp comp_def)
    (simp add: setPipelineStatus_def)

lemma setPipelineStatus_advance:
  "map_of (pipelines st) k = Some p \<Longrightarrow> \<not> terminal (pl_Status p) \<Longrightarrow>
     advance st (setPipelineStatus k s st)"
  by (auto simp: advance_def setPipelineStatus_sameCore keepsTerminal_def map_of_setPipelineStatus split: if_splits)

lemma setPipelineStatus_base: "base st \<Longrightarrow> base (setPipelineStatus k s st)"
  using sameCore_refs [OF _ setPipelineStatus_sameCore] by (simp add: base_def leasesOK_def)

lemma setPipelineStatus_wellFormed:
  assumes "base st" "plansOK (\<lambda>k. k = plID) st" "map_of (pipelines st) plID = Some p"
    and "aggregateOK s (statusesOf st p)"
  shows "wellFormed (setPipelineStatus plID s st)"
  using assms setPipelineStatus_base [OF assms(1)]
  by (auto simp: wellFormed_def plansOK_def map_of_setPipelineStatus statusesOf_def split: if_splits)

section \<open>Cancelling a pipeline\<close>

text \<open>
  All the jobs of one open pipeline are cancelled: the other pipelines keep their statuses, and
  this one ends with terminal jobs only.
\<close>

lemma cancelEffect_statuses:
  assumes b: "base st" and e: "cancelEffect write now (set (pl_JobIDs p)) st st'"
    and w: "cancelWrite write" and p: "map_of (pipelines st) plID = Some p"
  shows "statusesOf st' p = {s \<in> statusesOf st p. terminal s} \<union>
      (if \<exists>s \<in> statusesOf st p. \<not> terminal s then {StateCancelled} else {})"
    and "map_of (pipelines st) k = Some q \<Longrightarrow> k \<noteq> plID \<Longrightarrow> statusesOf st' q = statusesOf st q"
proof -
  have r: "refs st" using b by (simp add: base_def)
  have J: "\<And>jid. map_of (jobs st') jid = map_option
      (\<lambda>j. if jid \<in> set (pl_JobIDs p) \<and> \<not> terminal (job_Status j) then write j else j)
      (map_of (jobs st) jid)"
    and W: "\<And>j. job_Status (write j) = StateCancelled"
    using e w by (simp_all add: cancelEffect_def cancelWrite_def)
  show "statusesOf st' p = {s \<in> statusesOf st p. terminal s} \<union>
      (if \<exists>s \<in> statusesOf st p. \<not> terminal s then {StateCancelled} else {})"
    by (auto simp: statusesOf_def J W split: if_splits) (metis W)+
  show "statusesOf st' q = statusesOf st q" if q: "map_of (pipelines st) k = Some q" "k \<noteq> plID"
  proof -
    have "jid \<notin> set (pl_JobIDs p)" if "jid \<in> set (pl_JobIDs q)" for jid
      using refs_job_of_pipeline [OF r q(1) that] refs_job_of_pipeline [OF r p] q(2)
      by (metis option.inject)
    then have "map_of (jobs st') jid = map_of (jobs st) jid" if "jid \<in> set (pl_JobIDs q)" for jid
      using that by (simp add: J)
    then show ?thesis by (auto simp: statusesOf_def)
  qed
qed


lemma markPreviewDeleting_sameWork: "sameWork st (markPreviewDeleting key now st)"
  by (simp add: markPreviewDeleting_def sameWork_def split: option.split)

lemma cancelPipeline_base:
  assumes b: "base st" and p: "map_of (pipelines st) plID = Some p"
    and opn: "\<not> terminal (pl_Status p)" "\<exists>s \<in> statusesOf st p. \<not> terminal s"
    and ok: "plansOK (\<lambda>k. k = plID) st"
  shows "\<exists>st'. cancelPipelineLocked plID now st = Some st' \<and> wellFormed st' \<and> advance st st' \<and>
    map_of (pipelines st') plID = Some (p\<lparr>pl_Status := StateCancelled\<rparr>)"
proof -
  let ?st1 = "setPipelineStatus plID StateCancelled st"
  have r: "refs st" using b by (simp add: base_def)
  have b1: "base ?st1" by (rule setPipelineStatus_base [OF b])
  have "\<exists>j. map_of (jobs ?st1) jid = Some j" if "jid \<in> set (pl_JobIDs p)" for jid
    using refs_job_of_pipeline [OF r p that] by (metis setPipelineStatus_simps(1))
  from cancelJobs_effect [OF cancelWrite_code(2) b1 this, of "pl_JobIDs p" now] obtain st2 where
    s2: "foldO (cancelJobWith writePipelineCancelled now) (pl_JobIDs p) ?st1 = Some st2"
    and e: "cancelEffect writePipelineCancelled now (set (pl_JobIDs p)) ?st1 st2"
    by blast
  let ?p1 = "p\<lparr>pl_Status := StateCancelled\<rparr>"
  have p1: "map_of (pipelines ?st1) plID = Some ?p1"
    using p by (simp add: map_of_setPipelineStatus)
  have pl2: "pipelines st2 = pipelines ?st1"
    by (rule cancelEffect_pipelines [OF e])
  have b2: "base st2" by (rule cancelEffect_leasesOK [OF cancelWrite_code(2) e b1])
  have e': "cancelEffect writePipelineCancelled now (set (pl_JobIDs ?p1)) ?st1 st2"
    using e by simp
  note S = cancelEffect_statuses [OF b1 e' cancelWrite_code(2) p1]
  have "statusesOf ?st1 ?p1 = statusesOf st p" by (simp add: statusesOf_def)
  with S(1) opn(2) have "aggregateOK StateCancelled (statusesOf st2 ?p1)"
    by (auto simp: aggregateOK_def)
  moreover have "aggregateOK (pl_Status q) (statusesOf st2 q)"
    if "map_of (pipelines st) k = Some q" "k \<noteq> plID" for k q
    using S(2) [of k q] that ok by (simp add: map_of_setPipelineStatus plansOK_def)
  ultimately have "plansOK (\<lambda>_. False) st2"
    using p by (auto simp: plansOK_def pl2 map_of_setPipelineStatus split: if_splits)
  with b2 have w2: "wellFormed st2" by (simp add: wellFormed_def)
  have adv: "advance st st2"
    using setPipelineStatus_advance [OF p opn(1)] cancelEffect_advance [OF cancelWrite_code(2) e]
    by (rule advance_trans)
  let ?st3 = "if pl_PRNumber p > 0
    then markPreviewDeleting (previewKey (pl_Repo p) (pl_PRNumber p)) now st2 else st2"
  have "sameWork st2 ?st3" by (simp add: markPreviewDeleting_sameWork)
  then have "wellFormed ?st3" "advance st ?st3" "pipelines ?st3 = pipelines st2"
    using sameWork_wellFormed w2 advance_trans [OF adv] sameWork_advance unfolding sameWork_def by blast+
  moreover have "cancelPipelineLocked plID now st = Some ?st3"
    by (simp add: cancelPipelineLocked_def p s2)
  ultimately show ?thesis
    using p1 pl2 by auto
qed

lemma cancelPipeline_wellFormed:
  assumes w: "wellFormed st" and p: "map_of (pipelines st) plID = Some p" and "\<not> terminal (pl_Status p)"
  shows "\<exists>st'. cancelPipelineLocked plID now st = Some st' \<and> wellFormed st' \<and> advance st st' \<and>
    map_of (pipelines st') plID = Some (p\<lparr>pl_Status := StateCancelled\<rparr>)"
  using assms terminal_iff [OF w p] by (intro cancelPipeline_base) (auto simp: wellFormed_def plansOK_def)

section \<open>Previews never touch the work\<close>

lemma buildImage_total:
  assumes r: "refs st" and j: "map_of (jobs st) jid = Some j"
  shows "\<exists>img'. buildImage st jid img = Some img'"
proof (cases "job_AttemptIDs j = []")
  case False
  then have "last (job_AttemptIDs j) \<in> set (job_AttemptIDs j)" by simp
  then obtain a where "map_of (attempts st) (last (job_AttemptIDs j)) = Some a"
    by (rule refs_attempt_of_job [OF r j])
  then show ?thesis
    using j by (simp add: buildImage_def split: option.split)
qed (simp add: j buildImage_def split: option.split)

lemma activatePreview_sameWork:
  assumes r: "refs st" and p: "map_of (pipelines st) plID = Some p"
  shows "\<exists>st'. activatePreviewLocked plID env now st = Some st' \<and> sameWork st st'"
proof -
  have "ok (foldO (buildImage st) (pl_JobIDs p) []) (\<lambda>_. True)"
  proof (rule ok_foldO)
    fix jid img assume "jid \<in> set (pl_JobIDs p)"
    then obtain j where "map_of (jobs st) jid = Some j"
      by (rule refs_job_of_pipeline [OF r p])
    with buildImage_total [OF r] show "ok (buildImage st jid img) (\<lambda>_. True)"
      by (metis okI)
  qed simp
  then obtain img where "foldO (buildImage st) (pl_JobIDs p) [] = Some img"
    by (auto elim: okE)
  then show ?thesis
    using p by (auto simp: activatePreviewLocked_def sameWork_def Let_def split: option.split)
qed

lemma activateFor_sameWork:
  assumes r: "refs st" and p: "map_of (pipelines st) plID = Some p" and jid: "jid \<in> set (pl_JobIDs p)"
  shows "\<exists>st'. activateFor plID now jid st = Some st' \<and> sameWork st st'"
proof -
  obtain j where "map_of (jobs st) jid = Some j"
    by (rule refs_job_of_pipeline [OF r p jid])
  then show ?thesis
    using activatePreview_sameWork [OF r p] by (simp add: activateFor_def split: option.split)
qed

lemma foldO_sameWork:
  assumes "\<And>x s. x \<in> set xs \<Longrightarrow> sameWork st s \<Longrightarrow> \<exists>s'. f x s = Some s' \<and> sameWork s s'"
  shows "\<exists>st'. foldO f xs st = Some st' \<and> sameWork st st'"
proof -
  have "ok (foldO f xs st) (sameWork st)"
    by (rule ok_foldO) (use assms sameWork_trans in \<open>auto simp: ok_def, blast\<close>)
  then show ?thesis by (simp add: ok_def)
qed

section \<open>The aggregate after one of the jobs has ended\<close>

lemma scanStatuses_total:
  assumes "\<And>jid. jid \<in> set jids \<Longrightarrow> \<exists>j. map_of (jobs st) jid = Some j"
  shows "scanStatuses st jids b =
    Some (if \<exists>jid \<in> set jids. \<exists>j. map_of (jobs st) jid = Some j \<and> job_Status j = StateFailed then None
          else Some (b \<and> (\<forall>jid \<in> set jids. \<forall>j. map_of (jobs st) jid = Some j \<longrightarrow>
            job_Status j = StateSucceeded)))"
  using assms
proof (induction jids arbitrary: b)
  case (Cons jid jids)
  obtain j where "map_of (jobs st) jid = Some j" using Cons.prems by auto
  moreover have "\<exists>j. map_of (jobs st) k = Some j" if "k \<in> set jids" for k
    using Cons.prems that by simp
  ultimately show ?case using Cons.IH by auto
qed simp

lemma scanStatuses_pipeline:
  assumes r: "refs st" and p: "map_of (pipelines st) plID = Some p"
  shows "scanStatuses st (pl_JobIDs p) True =
    Some (if StateFailed \<in> statusesOf st p then None else Some (statusesOf st p \<subseteq> {StateSucceeded}))"
proof -
  have "\<exists>j. map_of (jobs st) jid = Some j" if "jid \<in> set (pl_JobIDs p)" for jid
    using refs_job_of_pipeline [OF r p that] by blast
  from scanStatuses_total [OF this, of "pl_JobIDs p" True]
  have "scanStatuses st (pl_JobIDs p) True = Some (if StateFailed \<in> statusesOf st p then None
    else Some (\<forall>jid \<in> set (pl_JobIDs p). \<forall>j. map_of (jobs st) jid = Some j \<longrightarrow>
      job_Status j = StateSucceeded))"
    by (simp add: statusesOf_def)
  moreover have "(\<forall>jid \<in> set (pl_JobIDs p). \<forall>j. map_of (jobs st) jid = Some j \<longrightarrow>
      job_Status j = StateSucceeded) \<longleftrightarrow> statusesOf st p \<subseteq> {StateSucceeded}"
    unfolding statusesOf_def by blast
  ultimately show ?thesis by simp
qed

lemma updatePipeline_wellFormed:
  assumes b: "base st" and p: "map_of (pipelines st) plID = Some p"
    and opn: "\<not> terminal (pl_Status p)" "StateCancelled \<notin> statusesOf st p"
    and ok: "plansOK (\<lambda>k. k = plID) st"
  shows "\<exists>st'. updatePipelineLocked plID now st = Some st' \<and> wellFormed st' \<and> advance st st'"
proof -
  have r: "refs st" using b by (simp add: base_def)
  note scan = scanStatuses_pipeline [OF r p]
  consider (failed) "StateFailed \<in> statusesOf st p"
    | (succeeded) "StateFailed \<notin> statusesOf st p" "statusesOf st p \<subseteq> {StateSucceeded}"
    | (running) "StateFailed \<notin> statusesOf st p" "\<not> statusesOf st p \<subseteq> {StateSucceeded}"
    by blast
  then show ?thesis
  proof cases
    case failed
    let ?st1 = "setPipelineStatus plID StateFailed st" and ?p1 = "p\<lparr>pl_Status := StateFailed\<rparr>"
    have b1: "base ?st1" by (rule setPipelineStatus_base [OF b])
    have "\<exists>j. map_of (jobs ?st1) jid = Some j" if "jid \<in> set (pl_JobIDs p)" for jid
      using refs_job_of_pipeline [OF r p that] by (metis setPipelineStatus_simps(1))
    from cancelJobs_effect [OF cancelWrite_code(1) b1 this, of "pl_JobIDs p" now] obtain st2 where
      s2: "foldO (cancelJobWith writeCancelled now) (pl_JobIDs p) ?st1 = Some st2"
      and e: "cancelEffect writeCancelled now (set (pl_JobIDs p)) ?st1 st2"
      by blast
    have p1: "map_of (pipelines ?st1) plID = Some ?p1"
      using p by (simp add: map_of_setPipelineStatus)
    have pl2: "pipelines st2 = pipelines ?st1" by (rule cancelEffect_pipelines [OF e])
    have e': "cancelEffect writeCancelled now (set (pl_JobIDs ?p1)) ?st1 st2" using e by simp
    note S = cancelEffect_statuses [OF b1 e' cancelWrite_code(1) p1]
    have "statusesOf ?st1 ?p1 = statusesOf st p" by (simp add: statusesOf_def)
    with S(1) failed have "aggregateOK StateFailed (statusesOf st2 ?p1)"
      by (auto simp: aggregateOK_def)
    moreover have "aggregateOK (pl_Status q) (statusesOf st2 q)"
      if "map_of (pipelines st) k = Some q" "k \<noteq> plID" for k q
      using S(2) [of k q] that ok by (simp add: map_of_setPipelineStatus plansOK_def)
    ultimately have "plansOK (\<lambda>_. False) st2"
      using p by (auto simp: plansOK_def pl2 map_of_setPipelineStatus split: if_splits)
    then have "wellFormed st2"
      using cancelEffect_leasesOK [OF cancelWrite_code(1) e b1] by (simp add: wellFormed_def)
    moreover have "advance st st2"
      using setPipelineStatus_advance [OF p opn(1)] cancelEffect_advance [OF cancelWrite_code(1) e]
      by (rule advance_trans)
    ultimately show ?thesis
      using failed by (simp add: updatePipelineLocked_def p scan s2)
  next
    case succeeded
    let ?st1 = "setPipelineStatus plID StateSucceeded st"
    have w1: "wellFormed ?st1"
      by (rule setPipelineStatus_wellFormed [OF b ok p]) (use succeeded in \<open>simp add: aggregateOK_def\<close>)
    have "\<exists>st2. foldO (activateFor plID now) (pl_JobIDs p) ?st1 = Some st2 \<and> sameWork ?st1 st2"
    proof (rule foldO_sameWork)
      fix jid s assume jid: "jid \<in> set (pl_JobIDs p)" and s: "sameWork ?st1 s"
      have "refs s" using sameWork_wellFormed [OF s w1] by (simp add: wellFormed_def base_def)
      moreover have "map_of (pipelines s) plID = Some (p\<lparr>pl_Status := StateSucceeded\<rparr>)"
        using s p by (simp add: sameWork_def map_of_setPipelineStatus)
      ultimately show "\<exists>s'. activateFor plID now jid s = Some s' \<and> sameWork s s'"
        using activateFor_sameWork jid by simp
    qed
    then obtain st2 where s2: "foldO (activateFor plID now) (pl_JobIDs p) ?st1 = Some st2"
      "sameWork ?st1 st2" by blast
    have "advance st st2"
      using setPipelineStatus_advance [OF p opn(1)] sameWork_advance [OF s2(2)] by (rule advance_trans)
    then show ?thesis
      using succeeded sameWork_wellFormed [OF s2(2) w1] by (simp add: updatePipelineLocked_def p scan s2)
  next
    case running
    have "wellFormed (setPipelineStatus plID StateRunning st)"
      by (rule setPipelineStatus_wellFormed [OF b ok p]) (use running opn in \<open>simp add: aggregateOK_def\<close>)
    then show ?thesis
      using running setPipelineStatus_advance [OF p opn(1)]
      by (simp add: updatePipelineLocked_def p scan)
  qed
qed

end
