(* ===== verification/LeaseSafety.thy ===== *)
theory LeaseSafety
  imports Invariant
begin

text \<open>
  The lease protocol keeps the invariant of \<open>Invariant\<close> and never dereferences a nil pointer:
  expiry, heartbeats, completions and cancellations.
\<close>

section \<open>Moving an attempt and its job together\<close>

lemma mutate_id [simp]: "mutate k (\<lambda>v. v) m = m"
  by (induction m) (auto simp: mutate_def mapvals_def)

lemma wellFormed_base: "wellFormed st \<Longrightarrow> base st"
  by (simp add: wellFormed_def)

lemma wellFormed_refs: "wellFormed st \<Longrightarrow> refs st"
  by (simp add: wellFormed_def base_def)

lemma wellFormed_aggregate:
  "wellFormed st \<Longrightarrow> map_of (pipelines st) k = Some p \<Longrightarrow> aggregateOK (pl_Status p) (statusesOf st p)"
  by (simp add: wellFormed_def plansOK_def)

lemma open_of_active_job:
  assumes w: "wellFormed st" and j: "map_of (jobs st) jid = Some j" "\<not> terminal (job_Status j)"
    and p: "map_of (pipelines st) (job_PipelineID j) = Some p"
  shows "\<not> terminal (pl_Status p)" "StateCancelled \<notin> statusesOf st p" "StateFailed \<notin> statusesOf st p"
    "\<not> statusesOf st p \<subseteq> {StateSucceeded}" "pl_Status p = StateQueued \<or> pl_Status p = StateRunning"
proof -
  have r: "refs st" using w by (rule wellFormed_refs)
  have mem: "job_Status j \<in> statusesOf st p"
    using statusesOf_iff [OF r p] j(1) by blast
  have "aggregateOK (pl_Status p) (statusesOf st p)"
    by (rule wellFormed_aggregate [OF w p])
  with mem j(2) show "pl_Status p = StateQueued \<or> pl_Status p = StateRunning"
    and "StateCancelled \<notin> statusesOf st p" "StateFailed \<notin> statusesOf st p"
    "\<not> statusesOf st p \<subseteq> {StateSucceeded}"
    by (auto simp: aggregateOK_def)
  then show "\<not> terminal (pl_Status p)" by auto
qed

definition moved :: "(Attempt \<Rightarrow> Attempt) \<Rightarrow> (Job \<Rightarrow> Job) \<Rightarrow> Metrics \<Rightarrow> string \<Rightarrow> string \<Rightarrow> Store \<Rightarrow> Store" where
  "moved f g m aid jid st =
     st\<lparr>attempts := mutate aid f (attempts st), jobs := mutate jid g (jobs st), metrics := m\<rparr>"

text \<open>An active attempt and its job may change together when their statuses stay in step.\<close>

definition mayMove ::
  "Store \<Rightarrow> (Attempt \<Rightarrow> Attempt) \<Rightarrow> (Job \<Rightarrow> Job) \<Rightarrow> string \<Rightarrow> Attempt \<Rightarrow> Job \<Rightarrow> bool" where
  "mayMove st f g aid a j \<longleftrightarrow>
     map_of (attempts st) aid = Some a \<and> active (att_Status a) \<and>
     map_of (jobs st) (att_JobID a) = Some j \<and>
     attCore (f a) = attCore a \<and> jobCore (g j) = jobCore j \<and> jobOK (g j) \<and>
     (if active (att_Status (f a)) then job_Status (g j) = att_Status (f a)
      else \<not> active (job_Status (g j)))"

lemma jobs_moved:
  "mayMove st f g aid a j \<Longrightarrow> map_of (jobs (moved f g m aid (att_JobID a) st)) k =
     (if k = att_JobID a then Some (g j) else map_of (jobs st) k)"
  by (simp add: moved_def mayMove_def)

lemma attempts_moved:
  "mayMove st f g aid a j \<Longrightarrow> map_of (attempts (moved f g m aid (att_JobID a) st)) k =
     (if k = aid then Some (f a) else map_of (attempts st) k)"
  by (simp add: moved_def mayMove_def)

lemma mayMove_last:
  assumes "base st" "mayMove st f g aid a j"
  shows "job_AttemptIDs j \<noteq> []" "last (job_AttemptIDs j) = aid" "job_Status j = att_Status a"
    "\<not> terminal (job_Status j)"
proof -
  have a: "map_of (attempts st) aid = Some a" "active (att_Status a)"
    and j: "map_of (jobs st) (att_JobID a) = Some j"
    using assms(2) by (simp_all add: mayMove_def)
  show "job_AttemptIDs j \<noteq> []" "last (job_AttemptIDs j) = aid" "job_Status j = att_Status a"
    using leasesOK_active [OF assms(1) a] j by (metis option.inject)+
  then show "\<not> terminal (job_Status j)" using a(2) active_not_terminal by simp
qed

lemma moved_advance:
  assumes b: "base st" and mv: "mayMove st f g aid a j"
  shows "advance st (moved f g m aid (att_JobID a) st)" (is "advance st ?st'")
proof -
  note J = jobs_moved [OF mv, of m] and A = attempts_moved [OF mv, of m]
  have "map_option jobCore (map_of (jobs ?st') k) = map_option jobCore (map_of (jobs st) k)" for k
    using mv by (simp add: J mayMove_def)
  moreover have "map_option attCore (map_of (attempts ?st') k) = map_option attCore (map_of (attempts st) k)" for k
    using mv by (simp add: A mayMove_def)
  ultimately have "sameCore st ?st'"
    unfolding sameCore_def by (simp add: moved_def del: map_of_mutate)
  moreover have "keepsTerminal st ?st'"
    using mv mayMove_last(4) [OF b mv] active_not_terminal
    unfolding keepsTerminal_def J A by (auto simp: moved_def mayMove_def split: if_splits)
  ultimately show ?thesis by (simp add: advance_def)
qed

lemma moved_base:
  assumes b: "base st" and mv: "mayMove st f g aid a j"
  shows "base (moved f g m aid (att_JobID a) st)" (is "base ?st'")
proof -
  note J = jobs_moved [OF mv, of m] and A = attempts_moved [OF mv, of m]
  note lastIDs = mayMove_last [OF b mv]
  have r: "refs st" using b by (simp add: base_def)
  have attempt: "map_of (attempts st) aid = Some a" and job: "map_of (jobs st) (att_JobID a) = Some j"
    and statusOK: "jobOK (g j)"
    and together: "if active (att_Status (f a)) then job_Status (g j) = att_Status (f a)
      else \<not> active (job_Status (g j))"
    and G: "job_AttemptIDs (g j) = job_AttemptIDs j" and F: "att_JobID (f a) = att_JobID a"
    using mv jobCore_eq [of "g j" j] attCore_eq [of "f a" a] by (simp_all add: mayMove_def)
  have other: "\<not> active (att_Status b)" if "map_of (attempts st) k = Some b" "k \<noteq> aid"
    "att_JobID b = att_JobID a" for k b
    using leasesOK_active [OF b that(1)] that job lastIDs by (metis option.inject)
  have "leasesOK ?st'"
    unfolding leasesOK_def
  proof (intro conjI allI impI)
    fix k i assume "map_of (jobs ?st') k = Some i"
    then show "jobOK i"
      using statusOK b by (auto simp: J base_def leasesOK_def split: if_splits)
  next
    fix k c i assume c: "map_of (attempts ?st') k = Some c" "map_of (jobs ?st') (att_JobID c) = Some i"
      "active (att_Status c)"
    show "job_Status i = att_Status c" and "last (job_AttemptIDs i) = k"
      using c together G F lastIDs other [of k c] b
      by (auto simp: J A base_def leasesOK_def split: if_splits)
  next
    fix k i assume i: "map_of (jobs ?st') k = Some i" "active (job_Status i)"
    show "job_AttemptIDs i \<noteq> []"
      using i G lastIDs b by (auto simp: J base_def leasesOK_def split: if_splits)
    show "\<exists>c. map_of (attempts ?st') (last (job_AttemptIDs i)) = Some c \<and> att_Status c = job_Status i"
    proof (cases "k = att_JobID a")
      case True
      with i G lastIDs together show ?thesis by (auto simp: J A split: if_splits)
    next
      case False
      with i(1) have old: "map_of (jobs st) k = Some i" by (simp add: J)
      then obtain c where c: "job_AttemptIDs i \<noteq> []"
        "map_of (attempts st) (last (job_AttemptIDs i)) = Some c" "att_Status c = job_Status i"
        using b i(2) unfolding base_def leasesOK_def by blast
      have "last (job_AttemptIDs i) \<noteq> aid"
        using refs_attempt_iff [OF r old attempt] c(1) False by auto
      with c show ?thesis by (simp add: A)
    qed
  qed
  moreover have "sameCore st ?st'" using moved_advance [OF b mv] by (simp add: advance_def)
  ultimately show ?thesis using sameCore_refs [OF r] by (simp add: base_def)
qed

lemma moved_statuses:
  assumes b: "base st" and mv: "mayMove st f g aid a j" and p: "map_of (pipelines st) k = Some p"
  shows "k \<noteq> job_PipelineID j \<Longrightarrow> statusesOf (moved f g m aid (att_JobID a) st) p = statusesOf st p"
    and "k = job_PipelineID j \<Longrightarrow> statusesOf (moved f g m aid (att_JobID a) st) p
      \<subseteq> insert (job_Status (g j)) (statusesOf st p)"
    and "k = job_PipelineID j \<Longrightarrow>
      job_Status (g j) \<in> statusesOf (moved f g m aid (att_JobID a) st) p"
proof -
  note J = jobs_moved [OF mv, of m]
  have owner: "att_JobID a \<in> set (pl_JobIDs p) \<longleftrightarrow> job_PipelineID j = k"
    using refs_owner [of st k p "att_JobID a" j] b mv p by (simp add: base_def mayMove_def)
  show "statusesOf (moved f g m aid (att_JobID a) st) p = statusesOf st p" if "k \<noteq> job_PipelineID j"
  proof -
    have "map_of (jobs (moved f g m aid (att_JobID a) st)) i = map_of (jobs st) i"
      if "i \<in> set (pl_JobIDs p)" for i
      using that owner \<open>k \<noteq> job_PipelineID j\<close> by (auto simp: J)
    then show ?thesis by (auto simp: statusesOf_def)
  qed
  show "statusesOf (moved f g m aid (att_JobID a) st) p \<subseteq> insert (job_Status (g j)) (statusesOf st p)"
    by (auto simp: statusesOf_def J split: if_splits)
  show "job_Status (g j) \<in> statusesOf (moved f g m aid (att_JobID a) st) p" if "k = job_PipelineID j"
    using owner that by (auto simp: statusesOf_def J)
qed

lemma moved_plans:
  assumes w: "wellFormed st" and mv: "mayMove st f g aid a j"
  shows "plansOK (\<lambda>k. k = job_PipelineID j) (moved f g m aid (att_JobID a) st)"
  using wellFormed_aggregate [OF w] moved_statuses(1) [OF wellFormed_base [OF w] mv]
  by (simp add: plansOK_def moved_def)

text \<open>The job stays open: the pipeline's aggregate does not change.\<close>

lemma moved_wellFormed:
  assumes w: "wellFormed st" and mv: "mayMove st f g aid a j" and nt: "\<not> terminal (job_Status (g j))"
  shows "wellFormed (moved f g m aid (att_JobID a) st)"
proof -
  let ?st' = "moved f g m aid (att_JobID a) st"
  have b: "base st" using w by (rule wellFormed_base)
  have j: "map_of (jobs st) (att_JobID a) = Some j" using mv by (simp add: mayMove_def)
  obtain p where p: "map_of (pipelines st) (job_PipelineID j) = Some p"
    using refs_pipeline_of_job [OF wellFormed_refs [OF w] j] by blast
  note O = open_of_active_job [OF w j mayMove_last(4) [OF b mv] p]
  have "job_Status (g j) \<notin> {StateFailed, StateCancelled, StateSucceeded}" using nt by auto
  moreover have "statusesOf ?st' p \<subseteq> insert (job_Status (g j)) (statusesOf st p)"
    "job_Status (g j) \<in> statusesOf ?st' p"
    using moved_statuses(2,3) [OF b mv p refl] by blast+
  ultimately have "StateFailed \<notin> statusesOf ?st' p" "StateCancelled \<notin> statusesOf ?st' p"
    "\<not> statusesOf ?st' p \<subseteq> {StateSucceeded}"
    using O(2,3) by auto
  then have agg: "aggregateOK (pl_Status p) (statusesOf ?st' p)"
    using O(5) by (simp add: aggregateOK_def)
  have "aggregateOK (pl_Status q) (statusesOf ?st' q)" if q: "map_of (pipelines st) k = Some q" for k q
    using agg p q moved_plans [OF w mv] by (cases "k = job_PipelineID j") (simp_all add: plansOK_def moved_def)
  then have "plansOK (\<lambda>_. False) ?st'" by (simp add: plansOK_def moved_def)
  with moved_base [OF b mv] show ?thesis by (simp add: wellFormed_def)
qed

text \<open>The job has succeeded or failed: \<open>updatePipelineLocked\<close> restores the aggregate.\<close>

lemma moved_update:
  assumes w: "wellFormed st" and mv: "mayMove st f g aid a j"
    and s: "job_Status (g j) = StateSucceeded \<or> job_Status (g j) = StateFailed"
  shows "\<exists>st2. updatePipelineLocked (job_PipelineID j) now (moved f g m aid (att_JobID a) st) = Some st2 \<and>
    wellFormed st2 \<and> advance st st2"
proof -
  let ?st' = "moved f g m aid (att_JobID a) st"
  have b: "base st" using w by (rule wellFormed_base)
  have j: "map_of (jobs st) (att_JobID a) = Some j" using mv by (simp add: mayMove_def)
  obtain p where p: "map_of (pipelines st) (job_PipelineID j) = Some p"
    using refs_pipeline_of_job [OF wellFormed_refs [OF w] j] by blast
  note O = open_of_active_job [OF w j mayMove_last(4) [OF b mv] p]
  have "StateCancelled \<notin> statusesOf ?st' p"
    using O(2) s moved_statuses(2) [OF b mv p refl, of m] by auto
  moreover have "map_of (pipelines ?st') (job_PipelineID j) = Some p"
    using p by (simp add: moved_def)
  ultimately obtain st2 where "updatePipelineLocked (job_PipelineID j) now ?st' = Some st2"
    "wellFormed st2" "advance ?st' st2"
    using updatePipeline_wellFormed [OF moved_base [OF b mv] _ O(1) _ moved_plans [OF w mv]] by blast
  then show ?thesis using advance_trans [OF moved_advance [OF b mv]] by blast
qed

section \<open>Expiry\<close>

lemma metrics_sameWork: "sameWork st (st\<lparr>metrics := m\<rparr>)"
  by (simp add: sameWork_def)

lemma expireAttempt_wellFormed:
  assumes w: "wellFormed st"
  shows "\<exists>st' c'. expireAttempt now aid (st, c) = Some (st', c') \<and> wellFormed st' \<and> advance st st'"
proof (cases "map_of (attempts st) aid")
  case None
  with w show ?thesis by (simp add: expireAttempt_def)
next
  case (Some a)
  show ?thesis
  proof (cases "active (att_Status a)")
    case False
    with w Some show ?thesis by (simp add: expireAttempt_def)
  next
    case True
    obtain j where j: "map_of (jobs st) (att_JobID a) = Some j" "job_Status j = att_Status a"
      by (rule leasesOK_active [OF wellFormed_base [OF w] Some True])
    have nt: "\<not> terminal (job_Status j)" using j(2) True active_not_terminal by simp
    have jok: "jobOK j" using w leasesOK_jobOK [OF _ j(1)] by (simp add: wellFormed_def base_def)
    have num: "att_Number a = int (length (job_AttemptIDs j))"
      using leasesOK_active [OF wellFormed_base [OF w] Some True] j(1)
        last_attempt_number [OF wellFormed_refs [OF w] j(1)] Some by (metis option.inject)
    let ?late = "timeSub now (att_CreatedAt a) \<ge> jobTimeout j \<or> att_Number a \<ge> attemptLimit j"
    let ?f = "\<lambda>a. a\<lparr>att_Status := StateFailed, att_CompletedAt := now,
      att_ResultMessage := ''attempt timeout or retry limit exceeded''\<rparr>"
    let ?g = "\<lambda>j. j\<lparr>job_Status := StateFailed\<rparr>"
    let ?f' = "\<lambda>a. a\<lparr>att_Status := StateLost, att_CompletedAt := now\<rparr>"
    let ?g' = "\<lambda>j. j\<lparr>job_Status := StateQueued,
      job_QueueReason := ''previous attempt lease expired; waiting for retry''\<rparr>"
    have "\<exists>st2. (if ?late
        then updatePipelineLocked (job_PipelineID j) now
          (moved ?f ?g ((metrics st)\<lparr>m_JobsFailed := m_JobsFailed (metrics st) + 1\<rparr>) aid (att_JobID a) st)
        else Some (moved ?f' ?g' (metrics st) aid (att_JobID a) st)) = Some st2 \<and>
        wellFormed st2 \<and> advance st st2"
    proof (cases ?late)
      case True
      have "mayMove st ?f ?g aid a j"
        using Some \<open>active (att_Status a)\<close> j(1) jok
        by (simp add: mayMove_def attCore_def jobCore_def jobOK_def)
      from moved_update [OF w this] True show ?thesis by simp
    next
      case False
      have mv: "mayMove st ?f' ?g' aid a j"
        using Some \<open>active (att_Status a)\<close> j(1) jok num False
        by (simp add: mayMove_def attCore_def jobCore_def jobOK_def)
      then show ?thesis
        using False moved_wellFormed [OF w mv] moved_advance [OF wellFormed_base [OF w] mv] by simp
    qed
    then obtain st2 where st2: "(if ?late
        then updatePipelineLocked (job_PipelineID j) now
          (moved ?f ?g ((metrics st)\<lparr>m_JobsFailed := m_JobsFailed (metrics st) + 1\<rparr>) aid (att_JobID a) st)
        else Some (moved ?f' ?g' (metrics st) aid (att_JobID a) st)) = Some st2"
      "wellFormed st2" "advance st st2" by blast
    let ?st3 = "st2\<lparr>metrics := (metrics st2)\<lparr>m_LeasesExpired := m_LeasesExpired (metrics st2) + 1\<rparr>\<rparr>"
    have "wellFormed ?st3" "advance st ?st3"
      using st2 sameWork_wellFormed [OF metrics_sameWork]
        advance_trans [OF _ sameWork_advance [OF metrics_sameWork]] by blast+
    moreover have "expireAttempt now aid (st, c) =
        (if now < att_LeaseExpires a \<and> timeSub now (att_CreatedAt a) < jobTimeout j
         then Some (st, c) else Some (?st3, c + 1))"
      using st2(1) Some \<open>active (att_Status a)\<close> j nt
      by (cases ?late) (auto simp: expireAttempt_def moved_def Let_def)
    ultimately show ?thesis using w by simp
  qed
qed

lemma reconcileExpired_wellFormed:
  assumes w: "wellFormed st"
  shows "\<exists>st' c'. reconcileExpiredLocked wo now st = Some (st', c') \<and> wellFormed st' \<and> advance st st'"
proof -
  have "ok (foldO (expireAttempt now) (visitAttempts wo) (st, 0 :: int))
      (\<lambda>sc. wellFormed (fst sc) \<and> advance st (fst sc))"
  proof (rule ok_foldO)
    fix aid and sc :: "Store \<times> int" assume "wellFormed (fst sc) \<and> advance st (fst sc)"
    then show "ok (expireAttempt now aid sc) (\<lambda>sc. wellFormed (fst sc) \<and> advance st (fst sc))"
      using expireAttempt_wellFormed [of "fst sc" now aid "snd sc"] advance_trans
      by (auto simp: ok_def)
  qed (use w in simp)
  then show ?thesis
    by (auto simp: reconcileExpiredLocked_def ok_def)
qed


section \<open>Heartbeats, completions and cancellations\<close>

text \<open>\<open>keeps st m\<close>: the operation \<open>m\<close>, run on \<open>st\<close>, does not panic and advances the state.\<close>

definition keeps :: "Store \<Rightarrow> ('r \<times> Store) option \<Rightarrow> bool" where
  "keeps st m \<longleftrightarrow> ok m (\<lambda>(r, st'). wellFormed st' \<and> advance st st')"

lemma keeps_Some [simp]: "keeps st (Some (r, st')) \<longleftrightarrow> wellFormed st' \<and> advance st st'"
  by (simp add: keeps_def)

lemma keeps_sameWork: "wellFormed st \<Longrightarrow> sameWork st st' \<Longrightarrow> keeps st (Some (r, st'))"
  by (simp add: sameWork_wellFormed sameWork_advance)

lemma HeartbeatAttempt_keeps:
  assumes w: "wellFormed st"
  shows "keeps st (HeartbeatAttempt aid token now st)"
proof -
  have ?thesis if a: "map_of (attempts st) aid = Some a" "active (att_Status a)"
    and live: "att_LeaseToken a = token" "now < att_LeaseExpires a" for a
  proof -
    obtain j where j: "map_of (jobs st) (att_JobID a) = Some j" "job_Status j = att_Status a"
      by (rule leasesOK_active [OF wellFormed_base [OF w] a])
    define starting where "starting = (att_Status a = StateLeased)"
    define a' where "a' = (if starting then a\<lparr>att_Status := StateRunning, att_StartedAt := now\<rparr> else a)
      \<lparr>att_LeaseExpires := now + cfg_LeaseTTL (config st)\<rparr>"
    define g :: "Job \<Rightarrow> Job" where "g = (if starting then (\<lambda>j. j\<lparr>job_Status := StateRunning\<rparr>) else (\<lambda>j. j))"
    have jok: "jobOK j" using w leasesOK_jobOK [OF _ j(1)] by (simp add: wellFormed_def base_def)
    have mv: "mayMove st (\<lambda>_. a') g aid a j"
      using a j jok by (auto simp: mayMove_def a'_def g_def starting_def attCore_def jobCore_def
          jobOK_def active_def)
    have "\<not> terminal (job_Status (g j))"
      using j(2) a(2) active_not_terminal by (simp add: g_def)
    then have "wellFormed (moved (\<lambda>_. a') g (metrics st) aid (att_JobID a) st)"
      "advance st (moved (\<lambda>_. a') g (metrics st) aid (att_JobID a) st)"
      using moved_wellFormed [OF w mv] moved_advance [OF wellFormed_base [OF w] mv] by blast+
    moreover have "moved (\<lambda>_. a') g (metrics st) aid (att_JobID a) st =
        st\<lparr>attempts := mutate aid (\<lambda>_. a') (attempts st),
          jobs := (if starting then mutate (att_JobID a) (\<lambda>j. j\<lparr>job_Status := StateRunning\<rparr>) (jobs st)
                   else jobs st)\<rparr>"
      by (simp add: moved_def g_def)
    ultimately show ?thesis
      using a live j w by (simp add: HeartbeatAttempt_def Let_def a'_def starting_def)
  qed
  then show ?thesis
    using w by (cases "map_of (attempts st) aid") (auto simp: HeartbeatAttempt_def)
qed

lemma incStale_sameWork: "sameWork st (incStale st)"
  by (simp add: sameWork_def)

lemma completeAttempt_keeps:
  assumes w: "wellFormed st"
  shows "keeps st (completeAttemptLocked aid token success message now st)"
proof (cases "map_of (attempts st) aid")
  case None
  with w show ?thesis by (simp add: completeAttemptLocked_def)
next
  case (Some a)
  have stale: "keeps st (Some (r, incStale st))" for r :: "error + Attempt"
    by (rule keeps_sameWork [OF w incStale_sameWork])
  show ?thesis
  proof (cases "active (att_Status a)")
    case False
    with Some w stale show ?thesis by (simp add: completeAttemptLocked_def)
  next
    case True
    obtain j where j: "map_of (jobs st) (att_JobID a) = Some j" "job_Status j = att_Status a"
      by (rule leasesOK_active [OF wellFormed_base [OF w] Some True])
    let ?f = "\<lambda>a. a\<lparr>att_CompletedAt := now, att_ResultMessage := message, att_Status := wantedState success\<rparr>"
    let ?g = "\<lambda>j. j\<lparr>job_Status := wantedState success\<rparr>"
    let ?m = "if success then (metrics st)\<lparr>m_JobsCompleted := m_JobsCompleted (metrics st) + 1\<rparr>
      else (metrics st)\<lparr>m_JobsFailed := m_JobsFailed (metrics st) + 1\<rparr>"
    have jok: "jobOK j" using w leasesOK_jobOK [OF _ j(1)] by (simp add: wellFormed_def base_def)
    have mv: "mayMove st ?f ?g aid a j"
      using Some True j(1) jok
      by (simp add: mayMove_def attCore_def jobCore_def jobOK_def wantedState_def)
    have "job_Status (?g j) = StateSucceeded \<or> job_Status (?g j) = StateFailed"
      by (simp add: wantedState_def)
    from moved_update [OF w mv this, where m = ?m and now = now] obtain st2 where
      st2: "updatePipelineLocked (job_PipelineID j) now (moved ?f ?g ?m aid (att_JobID a) st) = Some st2"
        "wellFormed st2" "advance st st2"
      by blast
    obtain a2 where "map_of (attempts st2) aid = Some a2"
      using sameCore_attempt [OF _ Some] st2(3) unfolding advance_def by blast
    then show ?thesis
      using Some True j st2 w stale by (simp add: completeAttemptLocked_def moved_def)
  qed
qed

lemma advance_attempts:
  assumes "map_of (attempts st) aid = Some a" "attCore (f a) = attCore a" "att_Status (f a) = att_Status a"
  shows "advance st (st\<lparr>attempts := mutate aid f (attempts st)\<rparr>)"
proof -
  have "map_option attCore (map_of (mutate aid f (attempts st)) k) = map_option attCore (map_of (attempts st) k)" for k
    using assms by simp
  then show ?thesis
    using assms by (auto simp: advance_def sameCore_def keepsTerminal_def simp del: map_of_mutate)
      (auto split: if_splits)
qed

lemma wellFormed_attempts:
  assumes w: "wellFormed st" and a: "map_of (attempts st) aid = Some a"
    and f: "attCore (f a) = attCore a" "att_Status (f a) = att_Status a"
  shows "wellFormed (st\<lparr>attempts := mutate aid f (attempts st)\<rparr>)" (is "wellFormed ?st'")
proof -
  have "refs ?st'"
    using sameCore_refs [OF wellFormed_refs [OF w]] advance_attempts [of st aid a f] a f
    by (simp add: advance_def)
  moreover have "leasesOK ?st'"
  proof -
    have L: "leasesOK st" using w by (simp add: wellFormed_def base_def)
    have A: "map_of (attempts ?st') k = (if k = aid then Some (f a) else map_of (attempts st) k)" for k
      using a by simp
    have "\<exists>b. map_of (attempts ?st') (last (job_AttemptIDs j)) = Some b \<and> att_Status b = job_Status j"
      if jj: "map_of (jobs st) jid = Some j" "active (job_Status j)" for jid j
    proof -
      obtain b where "map_of (attempts st) (last (job_AttemptIDs j)) = Some b" "att_Status b = job_Status j"
        using L jj unfolding leasesOK_def by blast
      then show ?thesis unfolding A using a f(2) by auto
    qed
    moreover have "job_Status j = att_Status b \<and> last (job_AttemptIDs j) = k"
      if "map_of (attempts ?st') k = Some b" "map_of (jobs st) (att_JobID b) = Some j" "active (att_Status b)"
      for k b j
    proof (cases "k = aid")
      case True
      with that(1) have "b = f a" by (simp add: a)
      with that(2,3) f(2) attCore_eq [OF f(1)] True a L show ?thesis by (simp add: leasesOK_def)
    next
      case False
      with that L show ?thesis by (simp add: leasesOK_def)
    qed
    ultimately show ?thesis
      using L unfolding leasesOK_def by simp
  qed
  moreover have "plansOK (\<lambda>_. False) ?st'"
    using w by (simp add: wellFormed_def plansOK_def statusesOf_def)
  ultimately show ?thesis by (simp add: wellFormed_def base_def)
qed

lemma Finish_keeps:
  assumes w: "wellFormed st"
  shows "keeps st (Finish aid token success message digest logKey artefacts now st)"
proof (cases "map_of (attempts st) aid")
  case None
  with w show ?thesis by (simp add: Finish_def)
next
  case (Some a)
  let ?f = "\<lambda>a. a\<lparr>att_ResultDigest := digest, att_LogKey := logKey, att_Artefacts := artefacts\<rparr>"
  let ?st1 = "st\<lparr>attempts := mutate aid ?f (attempts st)\<rparr>"
  have f: "attCore (?f a) = attCore a" "att_Status (?f a) = att_Status a" by (simp_all add: attCore_def)
  obtain j where j: "map_of (jobs st) (att_JobID a) = Some j"
    using refs_job_of_attempt [OF wellFormed_refs [OF w] Some] by blast
  have "keeps ?st1 (completeAttemptLocked aid token success message now ?st1)"
    by (rule completeAttempt_keeps [OF wellFormed_attempts [where f = ?f, OF w Some f]])
  then have "keeps st (completeAttemptLocked aid token success message now ?st1)"
    using advance_trans [OF advance_attempts [where f = ?f, OF Some f]] by (auto simp: keeps_def ok_def)
  then show ?thesis
    using Some j w by (simp add: Finish_def)
qed

lemma CancelJob_keeps:
  assumes w: "wellFormed st"
  shows "keeps st (CancelJob jid now st)"
proof (cases "map_of (jobs st) jid")
  case None
  with w show ?thesis by (simp add: CancelJob_def)
next
  case (Some j)
  show ?thesis
  proof (cases "terminal (job_Status j)")
    case True
    with Some w show ?thesis by (simp add: CancelJob_def)
  next
    case False
    obtain p where p: "map_of (pipelines st) (job_PipelineID j) = Some p"
      using refs_pipeline_of_job [OF wellFormed_refs [OF w] Some] by blast
    obtain st' where st': "cancelPipelineLocked (job_PipelineID j) now st = Some st'"
      "wellFormed st'" "advance st st'"
      using cancelPipeline_wellFormed [OF w p open_of_active_job(1) [OF w Some False p]] by blast
    obtain j' where "map_of (jobs st') jid = Some j'"
      using sameCore_job [OF _ Some] st'(3) unfolding advance_def by blast
    with Some False st' show ?thesis by (simp add: CancelJob_def)
  qed
qed

section \<open>The read-only views\<close>

lemma leaseOf_total:
  assumes "refs st" "map_of (attempts st) aid = Some a"
  shows "\<exists>l. leaseOf st a = Some l"
proof -
  obtain j where j: "map_of (jobs st) (att_JobID a) = Some j"
    by (rule refs_job_of_attempt [OF assms])
  obtain p where "map_of (pipelines st) (job_PipelineID j) = Some p"
    by (rule refs_pipeline_of_job [OF assms(1) j])
  with j show ?thesis by (simp add: leaseOf_def)
qed

lemma AssignedLeases_total:
  assumes r: "refs st"
  shows "\<exists>res. AssignedLeases st workerID = Some res"
proof -
  have "\<exists>l. leaseOf st a = Some l" if "a \<in> snd ` set (attempts st)" for a
  proof -
    from that obtain aid where "(aid, a) \<in> set (attempts st)" by auto
    then have "map_of (attempts st) aid = Some a"
      using r by (simp add: refs_def distinctKeys_def map_of_is_SomeI)
    with leaseOf_total [OF r] show ?thesis .
  qed
  then have "\<exists>ls. mapO (leaseOf st) (filter (\<lambda>a. att_WorkerID a = workerID \<and> active (att_Status a))
      (map snd (attempts st))) = Some ls"
    by (intro ok_mapO) auto
  then show ?thesis by (auto simp: AssignedLeases_def split: option.split)
qed

lemma AttemptView_total:
  assumes r: "refs st"
  shows "\<exists>res. AttemptView st aid = Some res"
  using leaseOf_total [OF r, of aid]
  by (cases "map_of (attempts st) aid") (auto simp: AttemptView_def leaseOf_def bind_eq_Some_conv)

lemma pipelineView_total:
  assumes r: "refs st"
  shows "\<exists>v. pipelineViewLocked st plID = Some v"
proof (cases "map_of (pipelines st) plID")
  case None
  then show ?thesis by (simp add: pipelineViewLocked_def)
next
  case (Some p)
  have "\<exists>js. mapO (map_of (jobs st)) (pl_JobIDs p) = Some js"
    by (rule ok_mapO) (use refs_job_of_pipeline [OF r Some] in blast)
  then obtain js where js: "mapO (map_of (jobs st)) (pl_JobIDs p) = Some js" by blast
  have "\<exists>as. mapO (map_of (attempts st)) (job_AttemptIDs j) = Some as" if "j \<in> set js" for j
  proof (rule ok_mapO)
    from that js obtain jid where "map_of (jobs st) jid = Some j" by (auto simp: mapO_set)
    then show "\<exists>a. map_of (attempts st) aid = Some a" if "aid \<in> set (job_AttemptIDs j)" for aid
      using refs_attempt_of_job [OF r _ that] by blast
  qed
  then have "\<exists>as. mapO (\<lambda>j. mapO (map_of (attempts st)) (job_AttemptIDs j)) js = Some as"
    by (rule ok_mapO)
  then obtain as where "mapO (\<lambda>j. mapO (map_of (attempts st)) (job_AttemptIDs j)) js = Some as"
    by blast
  with Some js show ?thesis by (simp add: pipelineViewLocked_def)
qed

end
