(* ===== verification/ScheduleSafety.thy ===== *)
theory ScheduleSafety
  imports LeaseSafety
begin

text \<open>
  Scheduling: the helpers of \<open>ScheduleOne\<close> never panic on a well-formed store, the two loops are
  characterised by what blocked the jobs they passed over, and issuing a lease keeps the
  invariant.
\<close>

section \<open>Freshness of the random identifiers\<close>

text \<open>
  \<open>newID\<close> draws twelve random bytes; the code relies on a draw never repeating an identifier in
  use. That is the hypothesis \<open>fresh\<close>.
\<close>

definition fresh :: "World \<Rightarrow> Store \<Rightarrow> bool" where
  "fresh w st \<longleftrightarrow> inj (draw w) \<and>
     (\<forall>n. newID ''pl'' (draw w n) \<notin> set (keys (pipelines st)) \<and>
          newID ''job'' (draw w n) \<notin> set (keys (jobs st)) \<and>
          newID ''attempt'' (draw w n) \<notin> set (keys (attempts st)))"

lemma fresh_sameCore: "sameCore st st' \<Longrightarrow> fresh w st' = fresh w st"
  by (simp add: fresh_def sameCore_def del: set_map)

lemma newID_inj [simp]: "newID pre b = newID pre b' \<longleftrightarrow> b = b'"
  by (simp add: newID_def)

section \<open>Changing the queue reasons only\<close>

definition noReason :: "Job \<Rightarrow> Job" where
  "noReason j = j\<lparr>job_QueueReason := []\<rparr>"

definition sameReasons :: "Store \<Rightarrow> Store \<Rightarrow> bool" where
  "sameReasons st st' \<longleftrightarrow> st' = st\<lparr>jobs := jobs st'\<rparr> \<and>
     mapvals (\<lambda>_. noReason) (jobs st') = mapvals (\<lambda>_. noReason) (jobs st)"

lemma noReason_eq:
  "noReason i = noReason j \<Longrightarrow> job_ID i = job_ID j \<and> job_PipelineID i = job_PipelineID j \<and>
     job_Tenant i = job_Tenant j \<and> job_Name i = job_Name j \<and> job_Spec i = job_Spec j \<and>
     job_Status i = job_Status j \<and> job_CreatedAt i = job_CreatedAt j \<and>
     job_Sequence i = job_Sequence j \<and> job_AttemptIDs i = job_AttemptIDs j \<and> jobCore i = jobCore j"
  by (cases i; cases j) (simp add: noReason_def jobCore_def)

lemma noReason_simps [simp]:
  "job_Status (noReason j) = job_Status j" "job_Tenant (noReason j) = job_Tenant j"
  "job_Spec (noReason j) = job_Spec j" "job_Name (noReason j) = job_Name j"
  "job_AttemptIDs (noReason j) = job_AttemptIDs j"
  by (simp_all add: noReason_def)

lemma sameReasons_refl [simp]: "sameReasons st st"
  by (simp add: sameReasons_def)

lemma sameReasons_simps:
  assumes "sameReasons st st'"
  shows "config st' = config st" "pipelines st' = pipelines st" "attempts st' = attempts st" "workers st' = workers st"
    "previews st' = previews st" "tenantLimits st' = tenantLimits st" "lastTenant st' = lastTenant st" "sequence st' = sequence st"
    "metrics st' = metrics st" "prStates st' = prStates st" "deliveries st' = deliveries st" "requestHashes st' = requestHashes st"
proof -
  have e: "st' = st\<lparr>jobs := jobs st'\<rparr>" using assms by (simp add: sameReasons_def)
  show "config st' = config st" "pipelines st' = pipelines st" "attempts st' = attempts st" "workers st' = workers st"
    "previews st' = previews st" "tenantLimits st' = tenantLimits st" "lastTenant st' = lastTenant st" "sequence st' = sequence st"
    "metrics st' = metrics st" "prStates st' = prStates st" "deliveries st' = deliveries st" "requestHashes st' = requestHashes st"
    by (subst e, simp)+
qed

lemma sameReasons_job:
  assumes "sameReasons st st'" "map_of (jobs st) k = Some j"
  obtains j' where "map_of (jobs st') k = Some j'" "noReason j' = noReason j"
proof -
  have "map_option noReason (map_of (jobs st') k) = map_option noReason (map_of (jobs st) k)"
    using assms(1) unfolding sameReasons_def by (metis map_of_mapvals)
  then show ?thesis using that assms(2) by auto
qed

lemma sameReasons_sym_job:
  assumes "sameReasons st st'" "map_of (jobs st') k = Some j'"
  obtains j where "map_of (jobs st) k = Some j" "noReason j' = noReason j"
proof -
  have "map_option noReason (map_of (jobs st') k) = map_option noReason (map_of (jobs st) k)"
    using assms(1) unfolding sameReasons_def by (metis map_of_mapvals)
  then have "map_option noReason (map_of (jobs st) k) = Some (noReason j')" using assms(2) by simp
  then show ?thesis using that by (auto simp: map_option_eq_Some)
qed

lemma sameReasons_keys: "sameReasons st st' \<Longrightarrow> keys (jobs st') = keys (jobs st)"
  unfolding sameReasons_def by (metis keys_mapvals)

lemma sameReasons_trans:
  assumes "sameReasons a b" "sameReasons b c"
  shows "sameReasons a c"
proof -
  have "c = b\<lparr>jobs := jobs c\<rparr>" "b = a\<lparr>jobs := jobs b\<rparr>"
    using assms by (simp_all add: sameReasons_def)
  moreover from this(2) have "b\<lparr>jobs := jobs c\<rparr> = a\<lparr>jobs := jobs c\<rparr>" by (rule ssubst) simp
  ultimately have "c = a\<lparr>jobs := jobs c\<rparr>" by simp
  then show ?thesis using assms by (simp add: sameReasons_def)
qed

lemma setQueueReason_sameReasons: "sameReasons st (setQueueReason reason jid st)"
  by (auto simp: sameReasons_def setQueueReason_def mutate_def mapvals_def noReason_def)

lemma sameReasons_advance:
  assumes s: "sameReasons st st'"
  shows "advance st st'"
proof -
  have "map_option jobCore (map_of (jobs st') k) = map_option jobCore (map_of (jobs st) k)" for k
  proof (cases "map_of (jobs st) k")
    case None
    then have "map_of (jobs st') k = None"
      using sameReasons_sym_job [OF s, of k] by (cases "map_of (jobs st') k") auto
    with None show ?thesis by simp
  next
    case (Some j)
    obtain j' where "map_of (jobs st') k = Some j'" "noReason j' = noReason j"
      by (rule sameReasons_job [OF s Some])
    with Some show ?thesis by (auto dest: noReason_eq)
  qed
  then have "sameCore st st'"
    using sameReasons_simps [OF s] sameReasons_keys [OF s] by (simp add: sameCore_def)
  moreover have J: "job_Status j' = job_Status j"
    if j: "map_of (jobs st) k = Some j" "map_of (jobs st') k = Some j'" for k j j'
  proof -
    obtain i where "map_of (jobs st') k = Some i" "noReason i = noReason j"
      by (rule sameReasons_job [OF s j(1)])
    with j(2) show ?thesis by (auto dest: noReason_eq)
  qed
  have "keepsTerminal st st'"
    unfolding keepsTerminal_def sameReasons_simps [OF s]
    by (intro conjI allI impI; (rule J; assumption)?; simp)
  ultimately show ?thesis by (simp add: advance_def)
qed

lemma sameReasons_statuses:
  assumes s: "sameReasons st st'"
  shows "statusesOf st' p = statusesOf st p"
proof -
  have "(\<exists>j. map_of (jobs st') k = Some j \<and> job_Status j = x) \<longleftrightarrow>
      (\<exists>j. map_of (jobs st) k = Some j \<and> job_Status j = x)" for k x
    by (auto elim: sameReasons_job [OF s] sameReasons_sym_job [OF s] dest!: noReason_eq)
  then show ?thesis by (simp add: statusesOf_def)
qed

lemma sameReasons_wellFormed:
  assumes s: "sameReasons st st'" and w: "wellFormed st"
  shows "wellFormed st'"
proof -
  have L: "leasesOK st" using w by (simp add: wellFormed_def base_def)
  have "refs st'"
    using sameCore_refs [OF wellFormed_refs [OF w]] sameReasons_advance [OF s] by (simp add: advance_def)
  moreover have "leasesOK st'"
    unfolding leasesOK_def sameReasons_simps [OF s]
  proof (intro conjI allI impI)
    fix k j' assume j': "map_of (jobs st') k = Some j'"
    obtain j where j: "map_of (jobs st) k = Some j" "noReason j' = noReason j"
      by (rule sameReasons_sym_job [OF s j'])
    then show "jobOK j'"
      using leasesOK_jobOK [OF L j(1)] noReason_eq [OF j(2)] jobOK_cong [of j' j] by simp
    assume "active (job_Status j')"
    then show "job_AttemptIDs j' \<noteq> []"
      and "\<exists>a. map_of (attempts st) (last (job_AttemptIDs j')) = Some a \<and> att_Status a = job_Status j'"
      using L j(1) noReason_eq [OF j(2)] unfolding leasesOK_def by simp_all
  next
    fix k a j' assume a: "map_of (attempts st) k = Some a" "active (att_Status a)"
      and j': "map_of (jobs st') (att_JobID a) = Some j'"
    obtain j where j: "map_of (jobs st) (att_JobID a) = Some j" "noReason j' = noReason j"
      by (rule sameReasons_sym_job [OF s j'])
    then show "job_Status j' = att_Status a" and "last (job_AttemptIDs j') = k"
      using L a noReason_eq [OF j(2)] by (simp_all add: leasesOK_def)
  qed
  moreover have "plansOK (\<lambda>_. False) st'"
    using w by (simp add: wellFormed_def plansOK_def sameReasons_simps [OF s] sameReasons_statuses [OF s])
  ultimately show ?thesis by (simp add: wellFormed_def base_def)
qed


section \<open>The helpers do not panic\<close>

lemma map_of_mem: "refs st \<Longrightarrow> (aid, a) \<in> set (attempts st) \<Longrightarrow> map_of (attempts st) aid = Some a"
  by (simp add: refs_def distinctKeys_def map_of_is_SomeI)

lemma usedResources_total:
  assumes r: "refs st"
  shows "\<exists>used. usedResourcesLocked st tenant worker = Some used"
proof -
  have "ok (foldO (addUsed st tenant worker) (attempts st) \<lparr>res_CPU = 0, res_Memory = 0\<rparr>) (\<lambda>_. True)"
  proof (rule ok_foldO)
    fix e used assume "e \<in> set (attempts st)"
    then have "(fst e, snd e) \<in> set (attempts st)" by simp
    then have "map_of (attempts st) (fst e) = Some (snd e)" by (rule map_of_mem [OF r])
    then obtain j where "map_of (jobs st) (att_JobID (snd e)) = Some j"
      by (rule refs_job_of_attempt [OF r])
    then show "ok (addUsed st tenant worker e used) (\<lambda>_. True)"
      by (simp add: addUsed_def Let_def)
  qed simp
  then show ?thesis by (auto simp: usedResourcesLocked_def ok_def)
qed

lemma workerFits_total:
  assumes "refs st"
  shows "\<exists>b. workerFits st job now worker = Some b"
proof -
  obtain used where "usedResourcesLocked st [] (wk_ID worker) = Some used"
    using usedResources_total [OF assms] by blast
  then have "workerFits st job now worker = None \<Longrightarrow> False"
    by (auto simp: workerFits_def Let_def split: if_splits)
  then show ?thesis by blast
qed

lemma firstFit_spec:
  assumes r: "refs st" and "\<forall>wid \<in> set wids. \<exists>wk. map_of (workers st) wid = Some wk"
  shows "firstFit st job now wids = Some None \<and>
      (\<forall>wid \<in> set wids. \<forall>wk. map_of (workers st) wid = Some wk \<longrightarrow> workerFits st job now wk = Some False) \<or>
    (\<exists>pre wid post wk. wids = pre @ wid # post \<and> map_of (workers st) wid = Some wk \<and>
      firstFit st job now wids = Some (Some wk) \<and> workerFits st job now wk = Some True \<and>
      (\<forall>w \<in> set pre. \<forall>k. map_of (workers st) w = Some k \<longrightarrow> workerFits st job now k = Some False))"
  using assms(2)
proof (induction wids)
  case Nil
  then show ?case by simp
next
  case (Cons wid wids)
  obtain wk where wk: "map_of (workers st) wid = Some wk" using Cons.prems by auto
  obtain b where b: "workerFits st job now wk = Some b" using workerFits_total [OF r] by blast
  show ?case
  proof (cases b)
    case True
    with wk b have "wid # wids = [] @ wid # wids \<and> map_of (workers st) wid = Some wk \<and>
        firstFit st job now (wid # wids) = Some (Some wk) \<and> workerFits st job now wk = Some True \<and>
        (\<forall>w \<in> set []. \<forall>k. map_of (workers st) w = Some k \<longrightarrow> workerFits st job now k = Some False)"
      by simp
    then show ?thesis by blast
  next
    case False
    have "\<forall>k \<in> set wids. \<exists>wk. map_of (workers st) k = Some wk"
      using Cons.prems by simp
    note IH = Cons.IH [OF this]
    have skip: "firstFit st job now (wid # wids) = firstFit st job now wids"
      using wk b False by simp
    show ?thesis
      using IH
    proof (elim disjE exE conjE)
      assume "firstFit st job now wids = Some None"
        "\<forall>wid \<in> set wids. \<forall>wk. map_of (workers st) wid = Some wk \<longrightarrow> workerFits st job now wk = Some False"
      with wk b False skip show ?thesis by simp
    next
      fix pre k post wk'
      assume *: "wids = pre @ k # post" "map_of (workers st) k = Some wk'"
        "firstFit st job now wids = Some (Some wk')" "workerFits st job now wk' = Some True"
        "\<forall>w \<in> set pre. \<forall>k. map_of (workers st) w = Some k \<longrightarrow> workerFits st job now k = Some False"
      with wk b False skip have "wid # wids = (wid # pre) @ k # post \<and>
          firstFit st job now (wid # wids) = Some (Some wk') \<and>
          (\<forall>w \<in> set (wid # pre). \<forall>k. map_of (workers st) w = Some k \<longrightarrow> workerFits st job now k = Some False)"
        by simp
      with * show ?thesis by blast
    qed
  qed
qed

text \<open>\<open>selectWorkerLocked\<close> returns the fitting worker with the least identifier, if there is one.\<close>

lemma selectWorker_spec:
  assumes r: "refs st"
  shows "selectWorkerLocked st job now = Some None \<and>
      (\<forall>wid wk. map_of (workers st) wid = Some wk \<longrightarrow> workerFits st job now wk = Some False) \<or>
    (\<exists>wk. selectWorkerLocked st job now = Some (Some wk) \<and> map_of (workers st) (wk_ID wk) = Some wk \<and>
      workerFits st job now wk = Some True \<and>
      (\<forall>wid k. map_of (workers st) wid = Some k \<longrightarrow> wid < wk_ID wk \<longrightarrow> workerFits st job now k = Some False))"
proof -
  let ?ks = "sort (keys (workers st))"
  have dom: "k \<in> set ?ks \<longleftrightarrow> (\<exists>wk. map_of (workers st) k = Some wk)" for k
    using map_of_None_keys [of "workers st" k] by (cases "map_of (workers st) k") (auto simp del: set_map)
  have ex: "\<forall>wid \<in> set ?ks. \<exists>wk. map_of (workers st) wid = Some wk"
    using dom by blast
  have sorted: "sorted_wrt (<) ?ks"
    using r by (simp add: refs_def distinctKeys_def strict_sorted_iff)
  show ?thesis
    using firstFit_spec [where wids = ?ks and job = job and now = now, OF r ex]
  proof (elim disjE exE conjE)
    assume "firstFit st job now ?ks = Some None"
      "\<forall>wid \<in> set ?ks. \<forall>wk. map_of (workers st) wid = Some wk \<longrightarrow> workerFits st job now wk = Some False"
    then show ?thesis using dom by (metis selectWorkerLocked_def)
  next
    fix pre wid post wk
    assume *: "?ks = pre @ wid # post" "map_of (workers st) wid = Some wk"
      "firstFit st job now ?ks = Some (Some wk)" "workerFits st job now wk = Some True"
      "\<forall>w \<in> set pre. \<forall>k. map_of (workers st) w = Some k \<longrightarrow> workerFits st job now k = Some False"
    have id: "wk_ID wk = wid" using r *(2) by (simp add: refs_def)
    have "k \<in> set pre" if "map_of (workers st) k = Some v" "k < wid" for k v
    proof -
      have "k \<in> set ?ks" using that dom by blast
      moreover have "k \<notin> set (wid # post)"
        using sorted that(2) by (auto simp: *(1) sorted_wrt_append)
      ultimately show ?thesis by (simp add: *(1))
    qed
    with * id show ?thesis by (auto simp: selectWorkerLocked_def)
  qed
qed

lemma dependenciesSucceeded_total:
  assumes r: "refs st" and j: "map_of (jobs st) jid = Some j"
  shows "\<exists>b. dependenciesSucceededLocked st j = Some b"
proof -
  obtain p where p: "map_of (pipelines st) (job_PipelineID j) = Some p"
    by (rule refs_pipeline_of_job [OF assms])
  have "\<exists>js. mapO (map_of (jobs st)) (pl_JobIDs p) = Some js"
    by (rule ok_mapO) (use refs_job_of_pipeline [OF r p] in blast)
  with p show ?thesis by (auto simp: dependenciesSucceededLocked_def Let_def)
qed

text \<open>A needed job that has succeeded, read off the map \<open>dependenciesSucceededLocked\<close> builds.\<close>

lemma map_of_states:
  "map_of (foldl (\<lambda>m c. AList.update (job_Name c) (job_Status c) m) m0 cs) n = Some s \<Longrightarrow>
     map_of m0 n = Some s \<or> (\<exists>c \<in> set cs. job_Name c = n \<and> job_Status c = s)"
proof (induction cs arbitrary: m0)
  case (Cons c cs)
  from Cons.IH [of "AList.update (job_Name c) (job_Status c) m0"] Cons.prems show ?case
    by (auto split: if_splits)
qed simp

lemma dependenciesSucceeded_sound:
  assumes r: "refs st" and d: "dependenciesSucceededLocked st j = Some True" and n: "n \<in> set (spec_Needs (job_Spec j))"
  shows "\<exists>k i. map_of (jobs st) k = Some i \<and> job_PipelineID i = job_PipelineID j \<and> job_Name i = n \<and>
    job_Status i = StateSucceeded"
proof -
  from d n obtain p cs where p: "map_of (pipelines st) (job_PipelineID j) = Some p"
    and cs: "mapO (map_of (jobs st)) (pl_JobIDs p) = Some cs"
    and s: "getd StateUnset (foldl (\<lambda>m c. AList.update (job_Name c) (job_Status c) m) [] cs) n = StateSucceeded"
    by (auto simp: dependenciesSucceededLocked_def Let_def bind_eq_Some_conv split: if_splits)
  from s have "map_of (foldl (\<lambda>m c. AList.update (job_Name c) (job_Status c) m) [] cs) n = Some StateSucceeded"
    by (auto simp: getd_def split: option.splits)
  from map_of_states [OF this] obtain c where c: "c \<in> set cs" "job_Name c = n" "job_Status c = StateSucceeded"
    by auto
  from c(1) cs obtain k where k: "k \<in> set (pl_JobIDs p)" "map_of (jobs st) k = Some c"
    by (auto simp: mapO_set)
  with refs_owner [OF r p k(2)] c show ?thesis by blast
qed


section \<open>The helpers ignore the queue reasons\<close>

lemma countv_mapvals: "(\<And>v. P (f v) = P v) \<Longrightarrow> countv P (mapvals (\<lambda>_. f) m) = countv P m"
  by (simp add: countv_def mapvals_def filter_map comp_def case_prod_beta)

lemma sameReasons_countv:
  assumes "sameReasons st st'" "\<And>j. P (noReason j) = P j"
  shows "countv P (jobs st') = countv P (jobs st)"
proof -
  have "countv P (jobs st') = countv P (mapvals (\<lambda>_. noReason) (jobs st'))"
    by (simp add: countv_mapvals assms(2))
  also have "\<dots> = countv P (mapvals (\<lambda>_. noReason) (jobs st))"
    using assms(1) by (simp add: sameReasons_def)
  also have "\<dots> = countv P (jobs st)"
    by (simp add: countv_mapvals assms(2))
  finally show ?thesis .
qed

lemma sameReasons_activeForTenant:
  "sameReasons st st' \<Longrightarrow> activeForTenantLocked st' t = activeForTenantLocked st t"
  by (simp add: activeForTenantLocked_def sameReasons_countv)

lemma sameReasons_tenantLimit:
  "sameReasons st st' \<Longrightarrow> tenantLimitLocked st' t = tenantLimitLocked st t"
  by (simp only: tenantLimitLocked_def sameReasons_simps)

lemma sameReasons_activeForWorker:
  "sameReasons st st' \<Longrightarrow> activeForWorkerLocked st' wid = activeForWorkerLocked st wid"
  by (simp add: activeForWorkerLocked_def sameReasons_simps)

lemma sameReasons_addUsed:
  assumes s: "sameReasons st st'"
  shows "addUsed st' t wid e used = addUsed st t wid e used"
proof (cases "map_of (jobs st) (att_JobID (snd e))")
  case None
  then have "map_of (jobs st') (att_JobID (snd e)) = None"
    using sameReasons_sym_job [OF s] by (metis not_None_eq option.distinct(1))
  with None show ?thesis by (simp add: addUsed_def Let_def)
next
  case (Some j)
  obtain j' where "map_of (jobs st') (att_JobID (snd e)) = Some j'" "noReason j' = noReason j"
    by (rule sameReasons_job [OF s Some])
  then have j': "map_of (jobs st') (att_JobID (snd e)) = Some j'" "job_Tenant j' = job_Tenant j"
    "job_Spec j' = job_Spec j"
    by (auto dest: noReason_eq)
  with Some show ?thesis by (simp add: addUsed_def Let_def)
qed

lemma sameReasons_usedResources:
  "sameReasons st st' \<Longrightarrow> usedResourcesLocked st' t wid = usedResourcesLocked st t wid"
proof -
  assume s: "sameReasons st st'"
  then have "addUsed st' t wid = addUsed st t wid" by (intro ext) (rule sameReasons_addUsed)
  with s show ?thesis by (simp add: usedResourcesLocked_def sameReasons_simps)
qed

lemma sameReasons_workerFits:
  assumes "sameReasons st st'" "noReason j' = noReason j"
  shows "workerFits st' j' now wk = workerFits st j now wk"
  using noReason_eq [OF assms(2)]
  by (simp add: workerFits_def sameReasons_simps [OF assms(1)] sameReasons_activeForWorker [OF assms(1)]
      sameReasons_usedResources [OF assms(1)] Let_def cong: if_cong)

lemma sameReasons_firstFit:
  assumes "sameReasons st st'" "noReason j' = noReason j"
  shows "firstFit st' j' now wids = firstFit st j now wids"
proof (induction wids)
  case (Cons wid wids)
  then show ?case
    by (simp add: sameReasons_simps(4) [OF assms(1)] sameReasons_workerFits [OF assms] cong: if_cong)
qed simp

lemma sameReasons_selectWorker:
  assumes "sameReasons st st'" "noReason j' = noReason j"
  shows "selectWorkerLocked st' j' now = selectWorkerLocked st j now"
  by (simp add: selectWorkerLocked_def sameReasons_simps [OF assms(1)] sameReasons_firstFit [OF assms])

section \<open>Why a job is passed over\<close>

definition overQuota :: "Store \<Rightarrow> string \<Rightarrow> Job \<Rightarrow> bool" where
  "overQuota st tenant job \<longleftrightarrow>
     (case usedResourcesLocked st tenant [] of
        None \<Rightarrow> False
      | Some used \<Rightarrow>
          wrap64 (res_CPU used + res_CPU (spec_Resources (job_Spec job))) > cfg_TenantCPU (config st) \<or>
          wrap64 (res_Memory used + res_Memory (spec_Resources (job_Spec job)))
            > cfg_TenantMemoryMB (config st))"

definition noWorker :: "Store \<Rightarrow> Job \<Rightarrow> time \<Rightarrow> bool" where
  "noWorker st job now \<longleftrightarrow>
     (\<forall>(wid, wk) \<in> set (workers st). workerFits st job now wk = Some False)"

definition blocked :: "Store \<Rightarrow> string \<Rightarrow> time \<Rightarrow> string \<Rightarrow> bool" where
  "blocked st tenant now jid \<longleftrightarrow>
     (case map_of (jobs st) jid of
        None \<Rightarrow> False
      | Some job \<Rightarrow> overQuota st tenant job \<or> noWorker st job now)"

definition saturated :: "Store \<Rightarrow> string \<Rightarrow> bool" where
  "saturated st tenant \<longleftrightarrow> activeForTenantLocked st tenant \<ge> tenantLimitLocked st tenant"

lemma noWorker_iff:
  assumes r: "refs st"
  shows "noWorker st job now \<longleftrightarrow> selectWorkerLocked st job now = Some None"
proof -
  have d: "distinct (keys (workers st))" using r by (simp add: refs_def distinctKeys_def)
  have "noWorker st job now \<longleftrightarrow>
      (\<forall>wid wk. map_of (workers st) wid = Some wk \<longrightarrow> workerFits st job now wk = Some False)"
    using map_of_eq_Some_iff [OF d] by (auto simp: noWorker_def)
  moreover have "workerFits st job now wk \<noteq> Some False" if "workerFits st job now wk = Some True" for wk
    using that by simp
  ultimately show ?thesis
    using selectWorker_spec [OF r, of job now] by (metis option.distinct(1) option.inject)
qed

lemma sameReasons_blocked:
  assumes s: "sameReasons st st'"
  shows "blocked st' tenant now jid = blocked st tenant now jid"
proof (cases "map_of (jobs st) jid")
  case None
  then have "map_of (jobs st') jid = None"
    using sameReasons_sym_job [OF s] by (metis not_None_eq option.distinct(1))
  with None show ?thesis by (simp add: blocked_def)
next
  case (Some j)
  obtain j' where j': "map_of (jobs st') jid = Some j'" "noReason j' = noReason j"
    by (rule sameReasons_job [OF s Some])
  then have "overQuota st' tenant j' = overQuota st tenant j"
    using noReason_eq [OF j'(2)]
    by (simp add: overQuota_def sameReasons_usedResources [OF s] sameReasons_simps [OF s] cong: option.case_cong)
  moreover have "noWorker st' j' now = noWorker st j now"
    by (simp add: noWorker_def sameReasons_simps [OF s] sameReasons_workerFits [OF s j'(2)])
  ultimately show ?thesis using Some j' by (simp add: blocked_def)
qed

lemma sameReasons_saturated: "sameReasons st st' \<Longrightarrow> saturated st' t = saturated st t"
  by (simp add: saturated_def sameReasons_activeForTenant sameReasons_tenantLimit)

section \<open>The two loops\<close>

lemma scheduleJobs_spec:
  assumes w: "wellFormed st" and "\<forall>jid \<in> set jids. \<exists>j. map_of (jobs st) jid = Some j"
  shows "(\<exists>st'. scheduleJobs wo now tenant jids st = Some (None, st') \<and> sameReasons st st' \<and>
        (\<forall>jid \<in> set jids. blocked st tenant now jid)) \<or>
    (\<exists>pre jid post s1 job wk. jids = pre @ jid # post \<and> sameReasons st s1 \<and>
      (\<forall>i \<in> set pre. blocked st tenant now i) \<and> map_of (jobs s1) jid = Some job \<and>
      \<not> overQuota s1 tenant job \<and> selectWorkerLocked s1 job now = Some (Some wk) \<and>
      scheduleJobs wo now tenant jids st =
        map_option (\<lambda>(l, st'). (Some l, st')) (issueLease wo now tenant jid job wk s1))"
  using assms
proof (induction jids arbitrary: st)
  case Nil
  then show ?case by simp
next
  case (Cons jid jids)
  note r = wellFormed_refs [OF Cons.prems(1)]
  obtain j where j: "map_of (jobs st) jid = Some j" using Cons.prems by auto
  obtain used where used: "usedResourcesLocked st tenant [] = Some used"
    using usedResources_total [OF r] by blast
  show ?case
  proof (cases "overQuota st tenant j \<or> noWorker st j now")
    case True
    define reason where "reason = (if overQuota st tenant j then ''tenant CPU or memory quota reached''
      else ''no eligible worker has matching capabilities and capacity'')"
    have skip: "scheduleJobs wo now tenant (jid # jids) st =
        scheduleJobs wo now tenant jids (setQueueReason reason jid st)"
      using True j used by (auto simp: overQuota_def reason_def Let_def noWorker_iff [OF r])
    let ?s = "setQueueReason reason jid st"
    have s: "sameReasons st ?s" by (rule setQueueReason_sameReasons)
    have ex: "\<forall>k \<in> set jids. \<exists>i. map_of (jobs ?s) k = Some i"
      using Cons.prems(2) sameReasons_job [OF s] by (metis list.set_intros(2))
    have b: "blocked st tenant now jid" using True j by (simp add: blocked_def)
    note IH = Cons.IH [OF sameReasons_wellFormed [OF s Cons.prems(1)] ex]
    note eqs = sameReasons_blocked [OF s] skip
    from IH show ?thesis
    proof (elim disjE exE conjE)
      fix st' assume *: "scheduleJobs wo now tenant jids ?s = Some (None, st')" "sameReasons ?s st'"
        "\<forall>jid \<in> set jids. blocked ?s tenant now jid"
      then have "\<forall>i \<in> set (jid # jids). blocked st tenant now i" using b by (simp add: eqs(1))
      then show ?thesis using * sameReasons_trans [OF s *(2)] unfolding skip by blast
    next
      fix pre k post s1 job wk
      assume *: "jids = pre @ k # post" "sameReasons ?s s1" "\<forall>i \<in> set pre. blocked ?s tenant now i"
        "map_of (jobs s1) k = Some job" "\<not> overQuota s1 tenant job"
        "selectWorkerLocked s1 job now = Some (Some wk)"
        "scheduleJobs wo now tenant jids ?s =
          map_option (\<lambda>(l, st'). (Some l, st')) (issueLease wo now tenant k job wk s1)"
      have "jid # jids = (jid # pre) @ k # post" "sameReasons st s1"
        "\<forall>i \<in> set (jid # pre). blocked st tenant now i"
        using * b sameReasons_trans [OF s] by (simp_all add: eqs(1))
      with * show ?thesis unfolding skip by blast
    qed
  next
    case False
    then obtain wk where wk: "selectWorkerLocked st j now = Some (Some wk)"
      using noWorker_iff [OF r] selectWorker_spec [OF r, of j now] by auto
    have "scheduleJobs wo now tenant (jid # jids) st =
        map_option (\<lambda>(l, st'). (Some l, st')) (issueLease wo now tenant jid j wk st)"
      using False j used wk
      by (cases "issueLease wo now tenant jid j wk st") (auto simp: overQuota_def Let_def)
    then show ?thesis using False j wk
      by (intro disjI2 exI [of _ "[]"] exI [of _ jid] exI [of _ jids] exI [of _ st] exI [of _ j]
          exI [of _ wk]) simp
  qed
qed


lemma fold_setQueueReason: "sameReasons st (fold (setQueueReason reason) jids st)"
proof (induction jids arbitrary: st)
  case (Cons jid jids)
  show ?case using sameReasons_trans [OF setQueueReason_sameReasons Cons.IH] by simp
qed simp

text \<open>A tenant is \<open>idle\<close> when nothing of it can be leased now.\<close>

definition idle :: "Store \<Rightarrow> time \<Rightarrow> (string, string list) gomap \<Rightarrow> string \<Rightarrow> bool" where
  "idle st now byTenant tenant \<longleftrightarrow>
     saturated st tenant \<or> (\<forall>jid \<in> set (getd [] byTenant tenant). blocked st tenant now jid)"

lemma sameReasons_idle: "sameReasons st st' \<Longrightarrow> idle st' now byTenant t = idle st now byTenant t"
  by (simp add: idle_def sameReasons_saturated sameReasons_blocked)

text \<open>What the outcome of the two loops says: the pair \<open>(tenant, job)\<close> that got the lease, and the blocked ones before it.\<close>

definition picked ::
  "World \<Rightarrow> time \<Rightarrow> (string, string list) gomap \<Rightarrow> string list \<Rightarrow> Store \<Rightarrow>
     (AttemptLease option \<times> Store) option \<Rightarrow> bool" where
  "picked wo now byTenant tenants st res \<longleftrightarrow>
     (\<exists>ts tenant us pre jid post s1 job wk. tenants = ts @ tenant # us \<and>
        (\<forall>t \<in> set ts. idle st now byTenant t) \<and> \<not> saturated st tenant \<and>
        getd [] byTenant tenant = pre @ jid # post \<and> (\<forall>i \<in> set pre. blocked st tenant now i) \<and>
        sameReasons st s1 \<and> map_of (jobs s1) jid = Some job \<and> \<not> overQuota s1 tenant job \<and>
        selectWorkerLocked s1 job now = Some (Some wk) \<and>
        res = map_option (\<lambda>(l, st'). (Some l, st')) (issueLease wo now tenant jid job wk s1))"

lemma picked_skip:
  assumes s: "sameReasons st st2" and i: "idle st now byTenant tenant"
    and p: "picked wo now byTenant tenants st2 res"
  shows "picked wo now byTenant (tenant # tenants) st res"
proof -
  note simps = sameReasons_idle [OF s] sameReasons_saturated [OF s] sameReasons_blocked [OF s]
  from p obtain ts t us pre jid post s1 job wk where *: "tenants = ts @ t # us"
    "\<forall>t \<in> set ts. idle st now byTenant t" "\<not> saturated st t" "getd [] byTenant t = pre @ jid # post"
    "\<forall>i \<in> set pre. blocked st t now i" "sameReasons st2 s1" "map_of (jobs s1) jid = Some job"
    "\<not> overQuota s1 t job" "selectWorkerLocked s1 job now = Some (Some wk)"
    "res = map_option (\<lambda>(l, st'). (Some l, st')) (issueLease wo now t jid job wk s1)"
    unfolding picked_def simps by blast
  then have "tenant # tenants = (tenant # ts) @ t # us" "\<forall>t \<in> set (tenant # ts). idle st now byTenant t"
    "sameReasons st s1"
    using i sameReasons_trans [OF s] by simp_all
  with * show ?thesis unfolding picked_def by blast
qed

lemma scheduleTenants_spec:
  assumes "wellFormed st"
    and "\<forall>t \<in> set tenants. \<forall>jid \<in> set (getd [] byTenant t). \<exists>j. map_of (jobs st) jid = Some j"
  shows "(\<exists>st'. scheduleTenants wo now byTenant tenants st = Some (None, st') \<and> sameReasons st st' \<and>
        (\<forall>t \<in> set tenants. idle st now byTenant t)) \<or>
    picked wo now byTenant tenants st (scheduleTenants wo now byTenant tenants st)"
  using assms
proof (induction tenants arbitrary: st)
  case Nil
  then show ?case by simp
next
  case (Cons tenant tenants)
  let ?js = "getd [] byTenant tenant"
  let ?sched = "\<lambda>ts. scheduleTenants wo now byTenant ts"
  have skip: ?case if s: "sameReasons st st2" and i: "idle st now byTenant tenant"
    and eq: "?sched (tenant # tenants) st = ?sched tenants st2" for st2
  proof -
    have "\<forall>t \<in> set tenants. \<forall>jid \<in> set (getd [] byTenant t). \<exists>j. map_of (jobs st2) jid = Some j"
      using Cons.prems(2) sameReasons_job [OF s] by (metis list.set_intros(2))
    from Cons.IH [OF sameReasons_wellFormed [OF s Cons.prems(1)] this]
    show ?thesis
    proof (elim disjE exE conjE)
      fix st' assume *: "?sched tenants st2 = Some (None, st')" "sameReasons st2 st'"
        "\<forall>t \<in> set tenants. idle st2 now byTenant t"
      then have "\<forall>t \<in> set (tenant # tenants). idle st now byTenant t"
        using i by (simp add: sameReasons_idle [OF s])
      with * show ?thesis unfolding eq using sameReasons_trans [OF s] by blast
    next
      assume "picked wo now byTenant tenants st2 (?sched tenants st2)"
      then show ?thesis unfolding eq using picked_skip [OF s i] by blast
    qed
  qed
  show ?case
  proof (cases "saturated st tenant")
    case True
    show ?thesis
      by (rule skip [OF fold_setQueueReason]) (use True in \<open>simp_all add: idle_def saturated_def\<close>)
  next
    case False
    then have eq: "?sched (tenant # tenants) st =
        Option.bind (scheduleJobs wo now tenant ?js st) (\<lambda>(lease, st').
          case lease of Some l \<Rightarrow> Some (Some l, st') | None \<Rightarrow> ?sched tenants st')"
      by (simp add: saturated_def)
    have "\<forall>jid \<in> set ?js. \<exists>j. map_of (jobs st) jid = Some j" using Cons.prems(2) by simp
    from scheduleJobs_spec [OF Cons.prems(1) this, of wo now tenant]
    show ?thesis
    proof (elim disjE exE conjE)
      fix st' assume *: "scheduleJobs wo now tenant ?js st = Some (None, st')" "sameReasons st st'"
        "\<forall>jid \<in> set ?js. blocked st tenant now jid"
      show ?thesis
        by (rule skip [OF *(2)]) (use * in \<open>simp_all only: idle_def eq, simp_all\<close>)
    next
      fix pre jid post s1 job wk
      assume *: "?js = pre @ jid # post" "sameReasons st s1" "\<forall>i \<in> set pre. blocked st tenant now i"
        "map_of (jobs s1) jid = Some job" "\<not> overQuota s1 tenant job"
        "selectWorkerLocked s1 job now = Some (Some wk)"
        "scheduleJobs wo now tenant ?js st =
          map_option (\<lambda>(l, st'). (Some l, st')) (issueLease wo now tenant jid job wk s1)"
      have "?sched (tenant # tenants) st =
          map_option (\<lambda>(l, st'). (Some l, st')) (issueLease wo now tenant jid job wk s1)"
        unfolding eq *(7) by (cases "issueLease wo now tenant jid job wk s1") (auto split: prod.split)
      moreover have "tenant # tenants = [] @ tenant # tenants" by simp
      ultimately have "picked wo now byTenant (tenant # tenants) st (?sched (tenant # tenants) st)"
        unfolding picked_def using * False
        by (intro exI [of _ "[]"] exI [of _ tenant] exI [of _ tenants] exI [of _ pre] exI [of _ jid]
            exI [of _ post] exI [of _ s1] exI [of _ job] exI [of _ wk]) simp
      then show ?thesis by blast
    qed
  qed
qed

section \<open>Issuing a lease\<close>

lemma leasesOK_job:
  assumes "leasesOK st" "map_of (jobs st) jid = Some j" "active (job_Status j)"
  obtains a where "map_of (attempts st) (last (job_AttemptIDs j)) = Some a" "att_Status a = job_Status j"
  using assms unfolding leasesOK_def by blast

lemma issueLease_total:
  assumes r: "refs st" and j: "map_of (jobs st) jid = Some job"
  shows "\<exists>l st'. issueLease wo now tenant jid job wk st = Some (l, st')"
proof -
  obtain p where "map_of (pipelines st) (job_PipelineID job) = Some p"
    by (rule refs_pipeline_of_job [OF assms])
  then show ?thesis by (simp add: issueLease_def Let_def)
qed

lemma issueLease_effect:
  assumes j: "map_of (jobs st) jid = Some job"
    and i: "issueLease wo now tenant jid job wk st = Some (l, st')"
    and fr: "newID ''attempt'' (draw wo 1) \<notin> set (keys (attempts st))"
  defines "a \<equiv> lease_Attempt l"
  shows "map_of (jobs st') = (map_of (jobs st))(jid \<mapsto> lease_Job l)" "keys (jobs st') = keys (jobs st)"
    and "attempts st' = attempts st @ [(att_ID a, a)]" "att_ID a = newID ''attempt'' (draw wo 1)"
    and "map_of (pipelines st') k = (if k = job_PipelineID job
      then map_option (\<lambda>p. p\<lparr>pl_Status := StateRunning\<rparr>) (map_of (pipelines st) k)
      else map_of (pipelines st) k)" "keys (pipelines st') = keys (pipelines st)"
    and "workers st' = workers st" "config st' = config st" "previews st' = previews st"
    "sequence st' = sequence st" "tenantLimits st' = tenantLimits st" "lastTenant st' = tenant"
    and "lease_Job l = job\<lparr>job_AttemptIDs := job_AttemptIDs job @ [att_ID a],
      job_Status := StateLeased, job_QueueReason := []\<rparr>"
    and "att_JobID a = job_ID job" "att_Status a = StateLeased" "att_WorkerID a = wk_ID wk"
    "att_Number a = int (length (job_AttemptIDs job)) + 1" "att_CreatedAt a = now"
    "att_LeaseExpires a = now + cfg_LeaseTTL (config st)" "lease_LeaseToken l = att_LeaseToken a"
    "att_LeaseToken a = newID ''lease'' (draw wo 0)"
  using assms
  by (auto simp: issueLease_def Let_def bind_eq_Some_conv setPipelineStatus_def update_new_append fun_eq_iff
      simp del: set_map split: if_splits)


text \<open>The maps after a lease, with \<open>a\<close> the attempt and \<open>j'\<close> the job of the lease.\<close>

lemma issueLease_lookup:
  assumes w: "wellFormed st" and j: "map_of (jobs st) jid = Some job"
    and i: "issueLease wo now tenant jid job wk st = Some (l, st')"
    and fr: "newID ''attempt'' (draw wo 1) \<notin> set (keys (attempts st))"
  defines "a \<equiv> lease_Attempt l" and "j' \<equiv> lease_Job l"
  shows "map_of (jobs st') k = (if k = jid then Some j' else map_of (jobs st) k)"
    and "map_of (attempts st') k = (if k = att_ID a then Some a else map_of (attempts st) k)"
    and "map_of (attempts st) (att_ID a) = None"
    and "map_of (pipelines st') k = Some p' \<longleftrightarrow> (\<exists>p. map_of (pipelines st) k = Some p \<and>
      p' = (if k = job_PipelineID job then p\<lparr>pl_Status := StateRunning\<rparr> else p))"
    and "job_ID job = jid"
proof -
  note E = issueLease_effect [OF j i fr, folded a_def j'_def]
  show "job_ID job = jid" using refs_job [OF wellFormed_refs [OF w] j] by (simp add: jobRefs_def)
  show "map_of (jobs st') k = (if k = jid then Some j' else map_of (jobs st) k)"
    by (simp add: E(1))
  show new: "map_of (attempts st) (att_ID a) = None"
    using fr map_of_None_keys [of "attempts st" "att_ID a"] E(4) by simp
  show "map_of (attempts st') k = (if k = att_ID a then Some a else map_of (attempts st) k)"
    unfolding E(3) using new by (auto simp: map_add_def split: option.split)
  show "map_of (pipelines st') k = Some p' \<longleftrightarrow> (\<exists>p. map_of (pipelines st) k = Some p \<and>
      p' = (if k = job_PipelineID job then p\<lparr>pl_Status := StateRunning\<rparr> else p))"
    by (auto simp: E(5))
qed

lemma issueLease_refs:
  assumes w: "wellFormed st" and j: "map_of (jobs st) jid = Some job"
    and i: "issueLease wo now tenant jid job wk st = Some (l, st')"
    and fr: "newID ''attempt'' (draw wo 1) \<notin> set (keys (attempts st))"
  shows "refs st'"
proof -
  define a where "a = lease_Attempt l"
  define j' where "j' = lease_Job l"
  note E = issueLease_effect [OF j i fr, folded a_def j'_def]
  note X = issueLease_lookup [OF w j i fr, folded a_def j'_def]
  note J = X(1) and A = X(2) and P = X(4) and id = X(5)
  have r: "refs st" using w by (rule wellFormed_refs)
  have old_ne: "k \<noteq> att_ID a" if "map_of (attempts st) k = Some b" for k b
    using that X(3) by auto
  have "att_ID a \<notin> set (keys (attempts st))" using fr E(4) by simp
  then have "distinctKeys st'"
    using r E(2,3,6,7,9) by (simp add: refs_def distinctKeys_def del: set_map)
  moreover have "pipelineRefs st' k p'" if "map_of (pipelines st') k = Some p'" for k p'
  proof -
    from that [unfolded P] obtain p where p: "map_of (pipelines st) k = Some p"
      "p' = (if k = job_PipelineID job then p\<lparr>pl_Status := StateRunning\<rparr> else p)"
      by (elim exE conjE)
    have "\<exists>i'. map_of (jobs st') x = Some i' \<and> job_PipelineID i' = k" if x: "x \<in> set (pl_JobIDs p)" for x
    proof -
      obtain i where "map_of (jobs st) x = Some i" "job_PipelineID i = k"
        by (rule refs_job_of_pipeline [OF r p(1) x])
      then show ?thesis using j by (cases "x = jid") (simp_all add: J E(13))
    qed
    then show ?thesis
      using refs_pipeline [OF r p(1)] p(2) by (cases "k = job_PipelineID job") (simp_all add: pipelineRefs_def)
  qed
  moreover have "jobRefs st' k i" if "map_of (jobs st') k = Some i" for k i
  proof -
    let ?old = "if k = jid then job else i"
    have old: "map_of (jobs st) k = Some ?old" using that j by (simp add: J split: if_splits)
    have pl: "\<exists>p'. map_of (pipelines st') (job_PipelineID ?old) = Some p' \<and> k \<in> set (pl_JobIDs p')"
    proof -
      obtain p where "map_of (pipelines st) (job_PipelineID ?old) = Some p" "k \<in> set (pl_JobIDs p)"
        by (rule refs_pipeline_of_job [OF r old])
      then show ?thesis by (auto simp: E(5))
    qed
    have at: "\<exists>b. map_of (attempts st') x = Some b \<and> att_JobID b = k" if x: "x \<in> set (job_AttemptIDs ?old)" for x
    proof -
      obtain b where b: "map_of (attempts st) x = Some b" "att_JobID b = k"
        by (rule refs_attempt_of_job [OF r old x])
      with old_ne [OF b(1)] show ?thesis by (simp add: A)
    qed
    have "att_ID a \<notin> set (job_AttemptIDs ?old)"
    proof
      assume "att_ID a \<in> set (job_AttemptIDs ?old)"
      then obtain b where "map_of (attempts st) (att_ID a) = Some b"
        by (rule refs_attempt_of_job [OF r old])
      with X(3) show False by simp
    qed
    with refs_job [OF r old] pl at that show ?thesis
      by (cases "k = jid") (auto simp: jobRefs_def J E(13,14) A id)
  qed
  moreover have "attemptRefs st' k b" if "map_of (attempts st') k = Some b" for k b
  proof (cases "k = att_ID a")
    case True
    with that have "b = a" by (simp add: A)
    moreover have "numbered (att_ID a) a j'"
      by (auto simp: numbered_def E(13,17) intro!: exI [of _ "length (job_AttemptIDs job)"])
    ultimately show ?thesis using True by (simp add: attemptRefs_def J E(14) id)
  next
    case False
    with that have old: "map_of (attempts st) k = Some b" by (simp add: A)
    have "numbered k b job \<Longrightarrow> numbered k b j'"
      by (auto simp: numbered_def E(13) nth_append less_Suc_eq)
    with refs_attempt [OF r old] j show ?thesis by (auto simp: attemptRefs_def J)
  qed
  moreover have "wk_ID k = wid" if "map_of (workers st') wid = Some k" for wid k
    using that r by (simp add: E(7) refs_def)
  ultimately show ?thesis unfolding refs_def by blast
qed

lemma issueLease_leasesOK:
  assumes w: "wellFormed st" and j: "map_of (jobs st) jid = Some job" and q: "job_Status job = StateQueued"
    and i: "issueLease wo now tenant jid job wk st = Some (l, st')"
    and fr: "newID ''attempt'' (draw wo 1) \<notin> set (keys (attempts st))"
  shows "leasesOK st'"
proof -
  define a where "a = lease_Attempt l"
  define j' where "j' = lease_Job l"
  note E = issueLease_effect [OF j i fr, folded a_def j'_def]
  note X = issueLease_lookup [OF w j i fr, folded a_def j'_def]
  note J = X(1) and A = X(2) and id = X(5)
  have L: "leasesOK st" using w by (simp add: wellFormed_def base_def)
  have idleJob: "\<not> active (att_Status b)" if "map_of (attempts st) k = Some b" "att_JobID b = jid" for k b
    using that L j q unfolding leasesOK_def by (metis active_simps(3))
  show ?thesis
    unfolding leasesOK_def
  proof (intro conjI allI impI)
    fix k i assume "map_of (jobs st') k = Some i"
    then show "jobOK i"
      using L leasesOK_jobOK [OF L j] q by (auto simp: J E(13) leasesOK_def jobOK_def split: if_splits)
  next
    fix k b i assume b: "map_of (attempts st') k = Some b" "map_of (jobs st') (att_JobID b) = Some i"
      "active (att_Status b)"
    have "job_Status i = att_Status b \<and> last (job_AttemptIDs i) = k"
    proof (cases "k = att_ID a")
      case True
      with b(1) have "b = a" by (simp add: A)
      with b(2) True id show ?thesis by (auto simp: J E(13-15))
    next
      case False
      with b(1) have old: "map_of (attempts st) k = Some b" by (simp add: A)
      with idleJob b(3) have "att_JobID b \<noteq> jid" by blast
      with b(2,3) old L show ?thesis by (simp add: J leasesOK_def)
    qed
    then show "job_Status i = att_Status b" and "last (job_AttemptIDs i) = k" by simp_all
  next
    fix k i assume i: "map_of (jobs st') k = Some i" "active (job_Status i)"
    show "job_AttemptIDs i \<noteq> []"
      using i L by (auto simp: J E(13) leasesOK_def split: if_splits)
    show "\<exists>b. map_of (attempts st') (last (job_AttemptIDs i)) = Some b \<and> att_Status b = job_Status i"
    proof (cases "k = jid")
      case True
      with i show ?thesis by (auto simp: J A E(13,15))
    next
      case False
      with i have "map_of (jobs st) k = Some i" by (simp add: J)
      from leasesOK_job [OF L this i(2)] obtain b where
        "map_of (attempts st) (last (job_AttemptIDs i)) = Some b" "att_Status b = job_Status i" .
      then show ?thesis using X(3) by (auto simp: A)
    qed
  qed
qed

lemma issueLease_plansOK:
  assumes w: "wellFormed st" and j: "map_of (jobs st) jid = Some job" and q: "job_Status job = StateQueued"
    and i: "issueLease wo now tenant jid job wk st = Some (l, st')"
    and fr: "newID ''attempt'' (draw wo 1) \<notin> set (keys (attempts st))"
  shows "plansOK (\<lambda>_. False) st'"
  unfolding plansOK_def
proof (intro allI impI)
  define a where "a = lease_Attempt l"
  define j' where "j' = lease_Job l"
  note E = issueLease_effect [OF j i fr, folded a_def j'_def]
  note X = issueLease_lookup [OF w j i fr, folded a_def j'_def]
  note J = X(1) and P = X(4)
  fix k p' assume "map_of (pipelines st') k = Some p'"
  from this [unfolded P] obtain p where p: "map_of (pipelines st) k = Some p"
    "p' = (if k = job_PipelineID job then p\<lparr>pl_Status := StateRunning\<rparr> else p)"
    by (elim exE conjE)
  have mem: "jid \<in> set (pl_JobIDs p) \<longleftrightarrow> job_PipelineID job = k"
    by (rule refs_owner [OF wellFormed_refs [OF w] p(1) j])
  show "aggregateOK (pl_Status p') (statusesOf st' p')"
  proof (cases "k = job_PipelineID job")
    case False
    then have "statusesOf st' p' = statusesOf st p"
      using mem p(2) by (auto simp: statusesOf_def J intro!: bexI)
    with False p wellFormed_aggregate [OF w p(1)] show ?thesis by simp
  next
    case True
    note O = open_of_active_job [OF w j _ p(1) [unfolded True]]
    have S: "statusesOf st' p' \<subseteq> insert StateLeased (statusesOf st p)" "StateLeased \<in> statusesOf st' p'"
      using p(2) mem True by (auto simp: statusesOf_def J E(13) split: if_splits)
    have "StateFailed \<notin> statusesOf st' p'" "StateCancelled \<notin> statusesOf st' p'"
      "\<not> statusesOf st' p' \<subseteq> {StateSucceeded}"
      using O(2,3) q S by auto
    then show ?thesis using p(2) True by (simp add: aggregateOK_def)
  qed
qed

lemma issueLease_wellFormed:
  assumes w: "wellFormed st" and j: "map_of (jobs st) jid = Some job" and q: "job_Status job = StateQueued"
    and i: "issueLease wo now tenant jid job wk st = Some (l, st')"
    and fr: "newID ''attempt'' (draw wo 1) \<notin> set (keys (attempts st))"
  shows "wellFormed st'"
  using issueLease_refs [OF w j i fr] issueLease_leasesOK [OF assms] issueLease_plansOK [OF assms]
  by (simp add: wellFormed_def base_def)

end
