(* ===== verification/Dispatch.thy ===== *)
theory Dispatch
  imports ScheduleSafety
begin

text \<open>
  What one call of \<open>ScheduleOne\<close> does: which jobs are candidates, which one is leased, and what
  holds of the state afterwards.
\<close>

section \<open>The candidates\<close>

definition isRunnable :: "Store \<Rightarrow> string \<Rightarrow> Job \<Rightarrow> bool" where
  "isRunnable st jid j \<longleftrightarrow> map_of (jobs st) jid = Some j \<and> job_Status j = StateQueued \<and>
     dependenciesSucceededLocked st j = Some True"

lemma isRunnable_iff:
  assumes r: "refs st"
  shows "isRunnable st jid j \<longleftrightarrow> (jid, j) \<in> set (jobs st) \<and> runnable st (jid, j) = Some True"
  using r by (auto simp: isRunnable_def runnable_def refs_def distinctKeys_def)

lemma runnableJobs_total:
  assumes r: "refs st"
  shows "\<exists>bt. runnableJobsLocked st = Some bt"
proof -
  have "\<exists>bs. filterO (runnable st) xs = Some bs" if "set xs \<subseteq> set (jobs st)" for xs
    using that
  proof (induction xs)
    case (Cons e xs)
    have "map_of (jobs st) (fst e) = Some (snd e)"
      using Cons.prems r by (cases e) (auto simp: refs_def distinctKeys_def map_of_is_SomeI)
    then obtain b where "runnable st e = Some b"
      using dependenciesSucceeded_total [OF r] by (cases "job_Status (snd e) = StateQueued") (auto simp: runnable_def)
    with Cons show ?case by auto
  qed simp
  from this [OF subset_refl] show ?thesis by (auto simp: runnableJobsLocked_def)
qed

lemma filterO_spec: "filterO f xs = Some ys \<Longrightarrow> ys = filter (\<lambda>x. f x = Some True) xs"
  by (induction xs arbitrary: ys) (auto simp: bind_eq_Some_conv split: if_splits)

lemma runnableJobs_spec:
  assumes r: "refs st" and bt: "runnableJobsLocked st = Some byTenant"
  shows "distinct (keys byTenant)"
    and "t \<in> set (keys byTenant) \<longleftrightarrow> (\<exists>jid j. isRunnable st jid j \<and> job_Tenant j = t)"
    and "jid \<in> set (getd [] byTenant t) \<longleftrightarrow> (\<exists>j. isRunnable st jid j \<and> job_Tenant j = t)"
    and "\<exists>es. getd [] byTenant t = map fst es \<and> sorted (map (jobRank \<circ> snd) es) \<and>
      (\<forall>e \<in> set es. isRunnable st (fst e) (snd e))"
proof -
  define js where "js = filter (\<lambda>e. runnable st e = Some True) (jobs st)"
  define es where "es t = sort_key (jobRank \<circ> snd) (filter (\<lambda>e. job_Tenant (snd e) = t) js)" for t
  have "byTenant = map (\<lambda>t. (t, map fst (es t))) (remdups (map (job_Tenant \<circ> snd) js))"
    using bt by (auto simp: runnableJobsLocked_def es_def js_def bind_eq_Some_conv dest!: filterO_spec)
  then have bt: "byTenant = map (\<lambda>t. (t, map fst (es t))) (remdups (map (job_Tenant \<circ> snd) js))" .
  have js: "e \<in> set js \<longleftrightarrow> isRunnable st (fst e) (snd e)" for e
    by (auto simp: js_def isRunnable_iff [OF r])
  show "distinct (keys byTenant)"
    by (simp add: bt comp_def)
  show "t \<in> set (keys byTenant) \<longleftrightarrow> (\<exists>jid j. isRunnable st jid j \<and> job_Tenant j = t)"
    using js by (force simp: bt image_iff)
  have "es t = []" if "t \<notin> set (keys byTenant)"
  proof -
    have "filter (\<lambda>e. job_Tenant (snd e) = t) js = []"
      using that by (auto simp: bt filter_empty_conv image_iff)
    then show ?thesis by (simp only: es_def sort_key_simps)
  qed
  moreover have "map_of byTenant t = Some (map fst (es t))" if "t \<in> set (keys byTenant)"
    using that by (auto simp: bt map_of_map_restrict restrict_map_def)
  moreover have "map_of byTenant t = None" if "t \<notin> set (keys byTenant)"
    using that map_of_None_keys [of byTenant t] by blast
  ultimately have get: "getd [] byTenant t = map fst (es t)"
    by (cases "t \<in> set (keys byTenant)") (simp_all add: getd_def del: set_map)
  have mem: "e \<in> set (es t) \<longleftrightarrow> isRunnable st (fst e) (snd e) \<and> job_Tenant (snd e) = t" for e
    using js by (auto simp: es_def)
  show "jid \<in> set (getd [] byTenant t) \<longleftrightarrow> (\<exists>j. isRunnable st jid j \<and> job_Tenant j = t)"
    using mem by (force simp: get image_iff)
  have "sorted (map (jobRank \<circ> snd) (es t))" by (simp add: es_def)
  with mem get show "\<exists>es. getd [] byTenant t = map fst es \<and> sorted (map (jobRank \<circ> snd) es) \<and>
      (\<forall>e \<in> set es. isRunnable st (fst e) (snd e))"
    by blast
qed

lemma sameReasons_dependencies:
  assumes s: "sameReasons st st'" and j: "noReason j' = noReason j" and r: "refs st"
    and jj: "map_of (jobs st) jid = Some j"
  shows "dependenciesSucceededLocked st' j' = dependenciesSucceededLocked st j"
proof -
  obtain p where p: "map_of (pipelines st) (job_PipelineID j) = Some p"
    by (rule refs_pipeline_of_job [OF r jj])
  have J: "job_Spec j' = job_Spec j" "job_PipelineID j' = job_PipelineID j" using noReason_eq [OF j] by simp_all
  have ex: "\<exists>i i'. map_of (jobs st) k = Some i \<and> map_of (jobs st') k = Some i' \<and>
      job_Name i' = job_Name i \<and> job_Status i' = job_Status i" if k: "k \<in> set (pl_JobIDs p)" for k
  proof -
    obtain i where i: "map_of (jobs st) k = Some i" by (rule refs_job_of_pipeline [OF r p k])
    obtain i' where "map_of (jobs st') k = Some i'" "noReason i' = noReason i" by (rule sameReasons_job [OF s i])
    with i show ?thesis by (auto dest: noReason_eq)
  qed
  have "\<exists>cs cs'. mapO (map_of (jobs st)) ks = Some cs \<and> mapO (map_of (jobs st')) ks = Some cs' \<and>
      (\<forall>m. foldl (\<lambda>m c. AList.update (job_Name c) (job_Status c) m) m cs' =
           foldl (\<lambda>m c. AList.update (job_Name c) (job_Status c) m) m cs)"
    if "set ks \<subseteq> set (pl_JobIDs p)" for ks
    using that
  proof (induction ks)
    case (Cons k ks)
    moreover obtain i i' where "map_of (jobs st) k = Some i" "map_of (jobs st') k = Some i'"
      "job_Name i' = job_Name i" "job_Status i' = job_Status i"
      using ex [of k] Cons.prems by auto
    ultimately show ?case by auto
  qed simp
  from this [OF subset_refl] show ?thesis
    using p J by (auto simp: dependenciesSucceededLocked_def sameReasons_simps [OF s] Let_def)
qed

lemma sameReasons_isRunnable:
  assumes s: "sameReasons st st'" and r: "refs st" and "isRunnable st jid j" "map_of (jobs st') jid = Some j'"
  shows "isRunnable st' jid j'" "noReason j' = noReason j"
proof -
  have j: "map_of (jobs st) jid = Some j" "job_Status j = StateQueued"
    "dependenciesSucceededLocked st j = Some True"
    using assms(3) by (simp_all add: isRunnable_def)
  obtain i where "map_of (jobs st') jid = Some i" "noReason i = noReason j" by (rule sameReasons_job [OF s j(1)])
  then show n: "noReason j' = noReason j" using assms(4) by simp
  then show "isRunnable st' jid j'"
    using assms(4) j sameReasons_dependencies [OF s n r j(1)] noReason_eq [OF n] by (simp add: isRunnable_def)
qed

section \<open>One call of \<open>ScheduleOne\<close>\<close>

text \<open>
  The lease goes to job \<open>jid\<close> of \<open>tenant\<close>: the tenants \<open>ts\<close> before it in the rotation were idle and
  the jobs \<open>pre\<close> of its own tenant that rank before it were blocked.
\<close>

definition leased ::
  "World \<Rightarrow> time \<Rightarrow> Store \<Rightarrow> string list \<Rightarrow> string \<Rightarrow> string list \<Rightarrow> string \<Rightarrow> Store \<Rightarrow> Job \<Rightarrow> Worker
   \<Rightarrow> AttemptLease \<Rightarrow> Store \<Rightarrow> bool" where
  "leased wo now st ts tenant pre jid s1 job wk l st' \<longleftrightarrow>
     sameReasons st s1 \<and> isRunnable s1 jid job \<and> job_Tenant job = tenant \<and>
     \<not> saturated s1 tenant \<and> \<not> overQuota s1 tenant job \<and>
     selectWorkerLocked s1 job now = Some (Some wk) \<and>
     issueLease wo now tenant jid job wk s1 = Some (l, st') \<and>
     (\<exists>byTenant us post. runnableJobsLocked st = Some byTenant \<and>
        rotate (startIndex (sort (keys byTenant)) (lastTenant st)) (sort (keys byTenant)) = ts @ tenant # us \<and>
        (\<forall>t \<in> set ts. idle st now byTenant t) \<and>
        getd [] byTenant tenant = pre @ jid # post \<and> (\<forall>i \<in> set pre. blocked st tenant now i))"

lemma ScheduleOne_cases:
  assumes w: "wellFormed st"
  obtains (nowork) st1 n st' where "reconcileExpiredLocked wo now st = Some (st1, n)" "wellFormed st1"
      "advance st st1" "sameReasons st1 st'" "ScheduleOne wo now st = Some (Inl ErrNoWork, st')"
      "\<And>jid j. isRunnable st1 jid j \<Longrightarrow> saturated st1 (job_Tenant j) \<or> blocked st1 (job_Tenant j) now jid"
  | (lease) st1 n ts tenant pre jid s1 job wk l st' where "reconcileExpiredLocked wo now st = Some (st1, n)"
      "wellFormed st1" "advance st st1" "leased wo now st1 ts tenant pre jid s1 job wk l st'"
      "ScheduleOne wo now st = Some (Inr l, st')"
proof -
  obtain st1 n where 1: "reconcileExpiredLocked wo now st = Some (st1, n)" "wellFormed st1" "advance st st1"
    using reconcileExpired_wellFormed [OF w] by blast
  note r = wellFormed_refs [OF 1(2)]
  obtain byTenant where bt: "runnableJobsLocked st1 = Some byTenant" using runnableJobs_total [OF r] by blast
  note B = runnableJobs_spec [OF r bt]
  let ?ts = "sort (keys byTenant)"
  let ?rot = "rotate (startIndex ?ts (lastTenant st1)) ?ts"
  have sched: "ScheduleOne wo now st = (if byTenant = [] then Some (Inl ErrNoWork, st1)
      else map_option (\<lambda>(lease, st2). case lease of None \<Rightarrow> (Inl ErrNoWork, st2) | Some l \<Rightarrow> (Inr l, st2))
        (scheduleTenants wo now byTenant ?rot st1))"
    using map_rotate_mod [of ?ts "startIndex ?ts (lastTenant st1)"]
    by (auto simp: ScheduleOne_def 1(1) bt Let_def split: option.splits
        intro!: Option.bind_cong) (auto simp: map_option_case split: option.splits)
  show ?thesis
  proof (cases "byTenant = []")
    case True
    then have "\<not> isRunnable st1 jid j" for jid j using B(2) by auto
    with True show ?thesis using 1 sched by (intro nowork [of st1 n st1]) simp_all
  next
    case False
    have "\<forall>t \<in> set ?rot. \<forall>jid \<in> set (getd [] byTenant t). \<exists>j. map_of (jobs st1) jid = Some j"
      using B(3) by (auto simp: isRunnable_def)
    from scheduleTenants_spec [OF 1(2) this, of wo now]
    show ?thesis
    proof (elim disjE exE conjE)
      fix st' assume *: "scheduleTenants wo now byTenant ?rot st1 = Some (None, st')" "sameReasons st1 st'"
        "\<forall>t \<in> set ?rot. idle st1 now byTenant t"
      show ?thesis
      proof (rule nowork [OF 1 *(2)])
        show "ScheduleOne wo now st = Some (Inl ErrNoWork, st')" using False * by (simp add: sched)
        fix jid j assume j: "isRunnable st1 jid j"
        then have "job_Tenant j \<in> set ?rot" using B(2) [of "job_Tenant j"] by (auto simp del: set_map)
        moreover have "jid \<in> set (getd [] byTenant (job_Tenant j))" using B(3) j by blast
        ultimately show "saturated st1 (job_Tenant j) \<or> blocked st1 (job_Tenant j) now jid"
          using *(3) by (auto simp: idle_def)
      qed
    next
      assume "picked wo now byTenant ?rot st1 (scheduleTenants wo now byTenant ?rot st1)"
      then obtain ts tenant us pre jid post s1 job wk where p: "?rot = ts @ tenant # us"
        "\<forall>t \<in> set ts. idle st1 now byTenant t" "\<not> saturated st1 tenant"
        "getd [] byTenant tenant = pre @ jid # post" "\<forall>i \<in> set pre. blocked st1 tenant now i"
        "sameReasons st1 s1" "map_of (jobs s1) jid = Some job" "\<not> overQuota s1 tenant job"
        "selectWorkerLocked s1 job now = Some (Some wk)"
        "scheduleTenants wo now byTenant ?rot st1 =
          map_option (\<lambda>(l, st'). (Some l, st')) (issueLease wo now tenant jid job wk s1)"
        unfolding picked_def by blast
      have "refs s1" using wellFormed_refs [OF sameReasons_wellFormed [OF p(6) 1(2)]] .
      from issueLease_total [OF this p(7)] obtain l st' where
        l: "issueLease wo now tenant jid job wk s1 = Some (l, st')" by blast
      have "jid \<in> set (getd [] byTenant tenant)" using p(4) by simp
      then obtain j where j: "isRunnable st1 jid j" "job_Tenant j = tenant" using B(3) by blast
      note run = sameReasons_isRunnable [OF p(6) r j(1) p(7)]
      have "leased wo now st1 ts tenant pre jid s1 job wk l st'"
        unfolding leased_def using p l run j(2) bt noReason_eq [OF run(2)] sameReasons_saturated [OF p(6)]
        by blast
      moreover have "ScheduleOne wo now st = Some (Inr l, st')"
        using False p(10) l by (simp add: sched)
      ultimately show ?thesis using lease [OF 1] by blast
    qed
  qed
qed


section \<open>Capacity after the lease\<close>

lemma countv_upd:
  assumes "distinct (keys m)" "distinct (keys m')" "map_of m' = (map_of m)(k \<mapsto> v')"
    and "map_of m k = Some v" "\<not> P v" "P v'"
  shows "countv P m' = Suc (countv P m)"
proof -
  have "{i. \<exists>x. map_of m' i = Some x \<and> P x} = insert k {i. \<exists>x. map_of m i = Some x \<and> P x}"
    using assms(3-6) by auto
  moreover have "k \<notin> {i. \<exists>x. map_of m i = Some x \<and> P x}" using assms(4,5) by simp
  ultimately show ?thesis
    unfolding countv_card [OF assms(1)] countv_card [OF assms(2)]
    using card_insert_disjoint [OF finite_map_of [of m P]] by simp
qed

lemma leased_state:
  assumes w: "wellFormed st" and f: "fresh wo st" and l: "leased wo now st ts tenant pre jid s1 job wk l st'"
  shows "wellFormed s1" "map_of (jobs s1) jid = Some job" "job_Status job = StateQueued" "job_ID job = jid"
    and "newID ''attempt'' (draw wo 1) \<notin> set (keys (attempts s1))"
    and "issueLease wo now tenant jid job wk s1 = Some (l, st')" "wellFormed st'"
proof -
  have s: "sameReasons st s1" using l by (simp add: leased_def)
  show w1: "wellFormed s1" by (rule sameReasons_wellFormed [OF s w])
  show j: "map_of (jobs s1) jid = Some job" "job_Status job = StateQueued"
    using l by (simp_all add: leased_def isRunnable_def)
  show "job_ID job = jid" using refs_job [OF wellFormed_refs [OF w1] j(1)] by (simp add: jobRefs_def)
  show fr: "newID ''attempt'' (draw wo 1) \<notin> set (keys (attempts s1))"
    using f by (simp add: fresh_def sameReasons_simps [OF s] del: set_map)
  show i: "issueLease wo now tenant jid job wk s1 = Some (l, st')" using l by (simp add: leased_def)
  show "wellFormed st'" by (rule issueLease_wellFormed [OF w1 j i fr])
qed

lemma leased_tenant_count:
  assumes w: "wellFormed st" and f: "fresh wo st" and l: "leased wo now st ts tenant pre jid s1 job wk l st'"
  shows "activeForTenantLocked st' tenant = activeForTenantLocked s1 tenant + 1"
proof -
  note L = leased_state [OF assms]
  note E = issueLease_effect [OF L(2) L(6) L(5)]
  have "countv (\<lambda>j. job_Tenant j = tenant \<and> active (job_Status j)) (jobs st') =
      Suc (countv (\<lambda>j. job_Tenant j = tenant \<and> active (job_Status j)) (jobs s1))"
    by (rule countv_upd [OF _ _ E(1) L(2)])
      (use wellFormed_refs [OF L(1)] E(2) L(3) E(13) l in \<open>simp_all add: refs_def distinctKeys_def leased_def\<close>)
  then show ?thesis by (simp add: activeForTenantLocked_def)
qed

lemma leased_worker_count:
  assumes w: "wellFormed st" and f: "fresh wo st" and l: "leased wo now st ts tenant pre jid s1 job wk l st'"
  shows "activeForWorkerLocked st' (wk_ID wk) = activeForWorkerLocked s1 (wk_ID wk) + 1"
proof -
  note L = leased_state [OF assms]
  note E = issueLease_effect [OF L(2) L(6) L(5)]
  show ?thesis by (simp add: activeForWorkerLocked_def countv_def E(3,15,16))
qed

lemma leased_used:
  assumes w: "wellFormed st" and f: "fresh wo st" and l: "leased wo now st ts tenant pre jid s1 job wk l st'"
    and u: "usedResourcesLocked s1 t wid = Some used"
    and t: "t = [] \<or> t = job_Tenant job" "wid = [] \<or> wid = wk_ID wk"
  shows "usedResourcesLocked st' t wid = Some (addResources used (spec_Resources (job_Spec job)))"
proof -
  note L = leased_state [OF w f l]
  note E = issueLease_effect [OF L(2) L(6) L(5)]
  have J: "map_option (\<lambda>j. (job_Tenant j, job_Spec j)) (map_of (jobs st') k) =
      map_option (\<lambda>j. (job_Tenant j, job_Spec j)) (map_of (jobs s1) k)" for k
    by (simp add: E(1,13) L(2))
  have "addUsed st' t wid e = addUsed s1 t wid e" for e
  proof
    fix used0
    show "addUsed st' t wid e used0 = addUsed s1 t wid e used0"
      using J [of "att_JobID (snd e)"]
      by (cases "map_of (jobs st') (att_JobID (snd e))"; cases "map_of (jobs s1) (att_JobID (snd e))")
        (auto simp: addUsed_def Let_def)
  qed
  then have same: "addUsed st' t wid = addUsed s1 t wid" by (intro ext) simp
  have "usedResourcesLocked st' t wid =
      Option.bind (usedResourcesLocked s1 t wid) (foldO (addUsed st' t wid) [(att_ID (lease_Attempt l), lease_Attempt l)])"
    unfolding usedResourcesLocked_def E(3) foldO_append same ..
  also have "\<dots> = addUsed st' t wid (att_ID (lease_Attempt l), lease_Attempt l) used"
    by (cases "addUsed st' t wid (att_ID (lease_Attempt l), lease_Attempt l) used") (simp_all add: u)
  also have "\<dots> = Some (addResources used (spec_Resources (job_Spec job)))"
    using t L(4) by (auto simp: addUsed_def E(1,13-16) Let_def)
  finally show ?thesis .
qed

section \<open>Safety of a lease\<close>

lemma ScheduleOne_lease:
  assumes w: "wellFormed st" and f: "fresh wo st" and s: "ScheduleOne wo now st = Some (Inr l, st')"
  obtains st1 ts tenant pre jid s1 job wk where "wellFormed st1" "fresh wo st1" "advance st st1"
    "leased wo now st1 ts tenant pre jid s1 job wk l st'"
  using w
proof (cases rule: ScheduleOne_cases [where wo = wo and now = now])
  case (nowork st1 n st2)
  with s show ?thesis by simp
next
  case (lease st1 n ts tenant pre jid s1 job wk l2 st2)
  have "fresh wo st1" using f lease(3) fresh_sameCore [of st st1 wo] by (simp add: advance_def)
  then show ?thesis using that [of st1] lease s by auto
qed

lemma ScheduleOne_dependencies:
  assumes w: "wellFormed st" and f: "fresh wo st" and s: "ScheduleOne wo now st = Some (Inr l, st')"
  shows "map_of (jobs st') (job_ID (lease_Job l)) = Some (lease_Job l)"
    and "job_Status (lease_Job l) = StateLeased"
    and "\<forall>n \<in> set (spec_Needs (job_Spec (lease_Job l))). \<exists>k i. map_of (jobs st') k = Some i \<and>
      job_PipelineID i = job_PipelineID (lease_Job l) \<and> job_Name i = n \<and> job_Status i = StateSucceeded"
proof -
  obtain st1 ts tenant pre jid s1 job wk where st1: "wellFormed st1" "fresh wo st1"
    and l: "leased wo now st1 ts tenant pre jid s1 job wk l st'"
    by (rule ScheduleOne_lease [OF assms])
  note L = leased_state [OF st1 l]
  note E = issueLease_effect [OF L(2) L(6) L(5)]
  show "map_of (jobs st') (job_ID (lease_Job l)) = Some (lease_Job l)"
    and "job_Status (lease_Job l) = StateLeased"
    using L(4) by (simp_all add: E(1,13))
  have d: "dependenciesSucceededLocked s1 job = Some True" using l by (simp add: leased_def isRunnable_def)
  show "\<forall>n \<in> set (spec_Needs (job_Spec (lease_Job l))). \<exists>k i. map_of (jobs st') k = Some i \<and>
      job_PipelineID i = job_PipelineID (lease_Job l) \<and> job_Name i = n \<and> job_Status i = StateSucceeded"
  proof
    fix n assume "n \<in> set (spec_Needs (job_Spec (lease_Job l)))"
    then have "n \<in> set (spec_Needs (job_Spec job))" by (simp add: E(13))
    from dependenciesSucceeded_sound [OF wellFormed_refs [OF L(1)] d this] obtain k i where
      i: "map_of (jobs s1) k = Some i" "job_PipelineID i = job_PipelineID job" "job_Name i = n"
      "job_Status i = StateSucceeded" by blast
    have "k \<noteq> jid" using i L(2,3) by auto
    with i show "\<exists>k i. map_of (jobs st') k = Some i \<and> job_PipelineID i = job_PipelineID (lease_Job l) \<and>
        job_Name i = n \<and> job_Status i = StateSucceeded"
      by (intro exI [of _ k] exI [of _ i]) (simp add: E(1,13))
  qed
qed

definition placedOn :: "Store \<Rightarrow> time \<Rightarrow> Job \<Rightarrow> Worker \<Rightarrow> bool" where
  "placedOn st now job wk \<longleftrightarrow>
     map_of (workers st) (wk_ID wk) = Some wk \<and> wk_Trusted wk = spec_Trusted (job_Spec job) \<and>
     (\<forall>c \<in> set (spec_Capabilities (job_Spec job)). getd False (wk_Capabilities wk) c) \<and>
     timeSub now (wk_Heartbeat wk) \<le> cfg_WorkerTTL (config st) \<and>
     activeForWorkerLocked st (wk_ID wk) \<le> wk_Capacity wk \<and>
     (case usedResourcesLocked st [] (wk_ID wk) of
        None \<Rightarrow> False
      | Some used \<Rightarrow>
          (res_CPU (wk_Resources wk) > 0 \<longrightarrow> res_CPU used \<le> res_CPU (wk_Resources wk)) \<and>
          (res_Memory (wk_Resources wk) > 0 \<longrightarrow> res_Memory used \<le> res_Memory (wk_Resources wk)))"

lemma ScheduleOne_placement:
  assumes w: "wellFormed st" and f: "fresh wo st" and s: "ScheduleOne wo now st = Some (Inr l, st')"
  shows "\<exists>wk. wk_ID wk = att_WorkerID (lease_Attempt l) \<and> placedOn st' now (lease_Job l) wk"
proof -
  obtain st1 ts tenant pre jid s1 job wk where st1: "wellFormed st1" "fresh wo st1"
    and l: "leased wo now st1 ts tenant pre jid s1 job wk l st'"
    by (rule ScheduleOne_lease [OF assms])
  note L = leased_state [OF st1 l]
  note E = issueLease_effect [OF L(2) L(6) L(5)]
  have r: "refs s1" by (rule wellFormed_refs [OF L(1)])
  have sel: "selectWorkerLocked s1 job now = Some (Some wk)" using l by (simp add: leased_def)
  with selectWorker_spec [OF r, of job now] have wk: "map_of (workers s1) (wk_ID wk) = Some wk"
    and fit: "workerFits s1 job now wk = Some True" by auto
  obtain used where used: "usedResourcesLocked s1 [] (wk_ID wk) = Some used"
    using usedResources_total [OF r] by blast
  note fit' = fit [unfolded workerFits_def Let_def used, simplified]
  have "usedResourcesLocked st' [] (wk_ID wk) = Some (addResources used (spec_Resources (job_Spec job)))"
    by (rule leased_used [OF st1 l used]) simp_all
  then have "placedOn st' now (lease_Job l) wk"
    using fit' wk leased_worker_count [OF st1 l]
    by (auto simp: placedOn_def E(7,8,13) addResources_def hasCapabilities_def split: if_splits)
  with E(16) show ?thesis by auto
qed

definition withinQuota :: "Store \<Rightarrow> string \<Rightarrow> bool" where
  "withinQuota st tenant \<longleftrightarrow>
     activeForTenantLocked st tenant \<le> tenantLimitLocked st tenant \<and>
     (case usedResourcesLocked st tenant [] of
        None \<Rightarrow> False
      | Some used \<Rightarrow> res_CPU used \<le> cfg_TenantCPU (config st) \<and>
          res_Memory used \<le> cfg_TenantMemoryMB (config st))"

lemma ScheduleOne_quota:
  assumes w: "wellFormed st" and f: "fresh wo st" and s: "ScheduleOne wo now st = Some (Inr l, st')"
  shows "withinQuota st' (job_Tenant (lease_Job l))"
proof -
  obtain st1 ts tenant pre jid s1 job wk where st1: "wellFormed st1" "fresh wo st1"
    and l: "leased wo now st1 ts tenant pre jid s1 job wk l st'"
    by (rule ScheduleOne_lease [OF assms])
  note L = leased_state [OF st1 l]
  note E = issueLease_effect [OF L(2) L(6) L(5)]
  have t: "job_Tenant job = tenant" "\<not> saturated s1 tenant" "\<not> overQuota s1 tenant job"
    using l by (simp_all add: leased_def)
  obtain used where used: "usedResourcesLocked s1 tenant [] = Some used"
    using usedResources_total [OF wellFormed_refs [OF L(1)]] by blast
  have "usedResourcesLocked st' tenant [] = Some (addResources used (spec_Resources (job_Spec job)))"
    by (rule leased_used [OF st1 l used]) (use t in simp_all)
  moreover have "tenantLimitLocked st' tenant = tenantLimitLocked s1 tenant"
    by (simp only: tenantLimitLocked_def E(8,11))
  ultimately show ?thesis
    using t used leased_tenant_count [OF st1 l]
    by (simp add: withinQuota_def E(8,13) saturated_def overQuota_def addResources_def)
qed

section \<open>Completeness and fairness\<close>

text \<open>
  \<open>ErrNoWork\<close> is only returned when every candidate is held back by its tenant's concurrency
  limit, its tenant's resource quota or the lack of a fitting worker.
\<close>

lemma ScheduleOne_complete:
  assumes w: "wellFormed st" and s: "ScheduleOne wo now st = Some (Inl e, st')"
  shows "e = ErrNoWork" and "isRunnable st' jid j \<Longrightarrow>
    saturated st' (job_Tenant j) \<or> overQuota st' (job_Tenant j) j \<or> noWorker st' j now"
proof -
  have "e = ErrNoWork \<and> (\<forall>jid j. isRunnable st' jid j \<longrightarrow>
      saturated st' (job_Tenant j) \<or> overQuota st' (job_Tenant j) j \<or> noWorker st' j now)"
    using w
  proof (cases rule: ScheduleOne_cases [where wo = wo and now = now])
    case (nowork st1 n st2)
    have st': "e = ErrNoWork" "st' = st2" using nowork(5) s by simp_all
    note sr = nowork(4) and r = wellFormed_refs [OF nowork(2)]
    have "saturated st2 (job_Tenant j) \<or> overQuota st2 (job_Tenant j) j \<or> noWorker st2 j now"
      if j: "isRunnable st2 jid j" for jid j
    proof -
      have "map_of (jobs st2) jid = Some j" using j by (simp add: isRunnable_def)
      then obtain j1 where j1: "map_of (jobs st1) jid = Some j1" "noReason j = noReason j1"
        by (rule sameReasons_sym_job [OF sr])
      have "isRunnable st1 jid j1"
        using j j1 sameReasons_dependencies [OF sr j1(2) r j1(1)] noReason_eq [OF j1(2)]
        by (simp add: isRunnable_def)
      with nowork(6) have "saturated st1 (job_Tenant j1) \<or> blocked st1 (job_Tenant j1) now jid" .
      then have "saturated st2 (job_Tenant j) \<or> blocked st2 (job_Tenant j) now jid"
        using noReason_eq [OF j1(2)] sameReasons_saturated [OF sr] sameReasons_blocked [OF sr] by simp
      then show ?thesis using j by (simp add: blocked_def isRunnable_def)
    qed
    then show ?thesis using st' by simp
  next
    case (lease st1 n ts tenant pre jid s1 job wk l2 st2)
    with s show ?thesis by simp
  qed
  then show "e = ErrNoWork" and "isRunnable st' jid j \<Longrightarrow>
    saturated st' (job_Tenant j) \<or> overQuota st' (job_Tenant j) j \<or> noWorker st' j now"
    by blast+
qed


text \<open>
  The rotation: a tenant's turn comes after the tenants greater than \<open>lastTenant\<close> that precede it
  in the alphabet; the tenants up to \<open>lastTenant\<close> come last.
\<close>

definition earlierTurn :: "string \<Rightarrow> string \<Rightarrow> string \<Rightarrow> bool" where
  "earlierTurn lst u t \<longleftrightarrow>
     (let late = (\<lambda>x. lst \<noteq> [] \<and> \<not> lst < x) in if late u = late t then u < t else late t)"

lemma sorted_filter_split:
  assumes "sorted xs" "\<And>x y :: 'a :: linorder. P y \<Longrightarrow> x \<le> y \<Longrightarrow> P x"
  shows "takeWhile P xs = filter P xs" "xs = filter P xs @ filter (\<lambda>x. \<not> P x) xs"
proof -
  have "takeWhile P xs = filter P xs \<and> xs = filter P xs @ filter (\<lambda>x. \<not> P x) xs"
    using assms(1)
  proof (induction xs)
    case (Cons a xs)
    show ?case
    proof (cases "P a")
      case False
      then have "\<forall>y \<in> set xs. \<not> P y" using Cons.prems assms(2) by auto
      then have "filter P xs = []" "filter (\<lambda>x. \<not> P x) xs = xs" by (auto simp: filter_empty_conv)
      with False show ?thesis by simp
    qed (use Cons in simp)
  qed simp
  then show "takeWhile P xs = filter P xs" "xs = filter P xs @ filter (\<lambda>x. \<not> P x) xs" by simp_all
qed

lemma startIndex_eq:
  assumes s: "sorted ts" and d: "distinct ts"
  shows "startIndex ts lst = (let n = length (filter (\<lambda>t. t \<le> lst) ts)
    in if lst = [] \<or> n = length ts then 0 else n)"
proof -
  let ?A = "filter (\<lambda>t. t < lst) ts" and ?L = "filter (\<lambda>t. t \<le> lst) ts"
  have ts: "ts = ?L @ filter (\<lambda>t. \<not> t \<le> lst) ts"
    by (rule sorted_filter_split(2) [OF s]) simp
  have A: "?L = ?A @ (if lst \<in> set ts then [lst] else [])"
  proof -
    have "sorted ?L" using s by (rule sorted_wrt_filter)
    then have "?L = filter (\<lambda>t. t < lst) ?L @ filter (\<lambda>t. \<not> t < lst) ?L"
      by (rule sorted_filter_split(2)) simp
    moreover have "filter (\<lambda>t. t < lst) ?L = ?A" by (induction ts) auto
    moreover have "filter (\<lambda>t. \<not> t < lst) ?L = (if lst \<in> set ts then [lst] else [])"
      using d by (induction ts) auto
    ultimately show ?thesis by simp
  qed
  have search: "SearchStrings ts lst = length ?A"
    using sorted_filter_split(1) [OF s, of "\<lambda>y. y < lst"] by (simp add: SearchStrings_def)
  have le: "length ?L \<le> length ts" by simp
  show ?thesis
  proof (cases "lst \<in> set ts")
    case True
    with ts A have e: "ts = ?A @ lst # filter (\<lambda>t. \<not> t \<le> lst) ts" by simp
    then have "ts ! length ?A = lst" by (metis nth_append_length)
    moreover have "length ?A < length ts" using arg_cong [OF e, of length] by simp
    ultimately show ?thesis using True A le by (simp add: startIndex_def search Let_def)
  next
    case False
    then have "ts ! length ?A \<noteq> lst \<or> \<not> length ?A < length ts" using nth_mem by metis
    moreover have "length ?A \<le> length ts" by simp
    ultimately show ?thesis
      using False A by (cases "length ?A = length ts") (auto simp: startIndex_def search Let_def simp del: length_filter_le)
  qed
qed

text \<open>In the rotated list every tenant whose turn is earlier stands before.\<close>

lemma rotation_sorted:
  assumes s: "sorted ts" and d: "distinct ts"
  shows "sorted_wrt (\<lambda>u t. \<not> earlierTurn lst t u) (rotate (startIndex ts lst) ts)"
proof -
  let ?L = "filter (\<lambda>t. t \<le> lst) ts" and ?H = "filter (\<lambda>t. \<not> t \<le> lst) ts"
  have ts: "ts = ?L @ ?H" by (rule sorted_filter_split(2) [OF s]) simp
  have "sorted ?L" "sorted ?H" using s by (rule sorted_wrt_filter)+
  then have L: "sorted_wrt (\<lambda>u t. \<not> t < u) ?L" and H: "sorted_wrt (\<lambda>u t. \<not> t < u) ?H"
    by (auto simp: not_less)
  show ?thesis
  proof (cases "lst = []")
    case True
    then show ?thesis using s by (simp add: startIndex_def earlierTurn_def not_less)
  next
    case False
    have HL: "sorted_wrt (\<lambda>u t. \<not> earlierTurn lst t u) (?H @ ?L)"
      using L H False
      by (auto simp: sorted_wrt_append earlierTurn_def Let_def not_less elim: sorted_wrt_mono_rel [rotated])
    have "rotate (startIndex ts lst) ts = ?H @ ?L"
    proof (cases "length ?L = length ts")
      case True
      then have "?H = []" using arg_cong [OF ts, of length] by simp
      then show ?thesis using ts True by (simp add: startIndex_eq [OF s d] Let_def)
    next
      case False
      then have "startIndex ts lst = length ?L" using \<open>lst \<noteq> []\<close> by (simp add: startIndex_eq [OF s d] Let_def)
      then show ?thesis using rotate_append [of ?L ?H] ts by simp
    qed
    with HL show ?thesis by simp
  qed
qed


lemma ScheduleOne_order:
  assumes w: "wellFormed st" and f: "fresh wo st" and r: "reconcileExpiredLocked wo now st = Some (st1, n)"
    and s: "ScheduleOne wo now st = Some (Inr l, st')" and j: "isRunnable st1 jid j"
  defines "t \<equiv> job_Tenant (lease_Job l)"
  shows "earlierTurn (lastTenant st1) (job_Tenant j) t \<Longrightarrow>
      saturated st1 (job_Tenant j) \<or> overQuota st1 (job_Tenant j) j \<or> noWorker st1 j now"
    and "job_Tenant j = t \<Longrightarrow> jobRank j < jobRank (lease_Job l) \<Longrightarrow> overQuota st1 t j \<or> noWorker st1 j now"
    and "lastTenant st' = t"
proof -
  obtain ts tenant pre jid' s1 job wk where w1: "wellFormed st1" and f1: "fresh wo st1"
    and l: "leased wo now st1 ts tenant pre jid' s1 job wk l st'"
    using w
  proof (cases rule: ScheduleOne_cases [where wo = wo and now = now])
    case (nowork st1' n st2)
    with s show ?thesis by simp
  next
    case (lease st1' n ts tenant pre jid s1 job wk l2 st2)
    have "fresh wo st1" using f lease(1,3) r fresh_sameCore [of st st1' wo] by (simp add: advance_def)
    then show ?thesis using that lease s r by auto
  qed
  note L = leased_state [OF w1 f1 l]
  note E = issueLease_effect [OF L(2) L(6) L(5)]
  have sr: "sameReasons st1 s1" and tn: "job_Tenant job = tenant" using l by (simp_all add: leased_def)
  have t: "t = tenant" using tn by (simp add: t_def E(13))
  then show "lastTenant st' = t" by (simp add: E(12))
  obtain byTenant us post where bt: "runnableJobsLocked st1 = Some byTenant"
    and rot: "rotate (startIndex (sort (keys byTenant)) (lastTenant st1)) (sort (keys byTenant)) = ts @ tenant # us"
    and ts: "\<forall>t \<in> set ts. idle st1 now byTenant t"
    and js: "getd [] byTenant tenant = pre @ jid' # post" and pre: "\<forall>i \<in> set pre. blocked st1 tenant now i"
    using l unfolding leased_def by blast
  note B = runnableJobs_spec [OF wellFormed_refs [OF w1] bt]
  have jj: "map_of (jobs st1) jid = Some j" using j by (simp add: isRunnable_def)
  show "saturated st1 (job_Tenant j) \<or> overQuota st1 (job_Tenant j) j \<or> noWorker st1 j now"
    if e: "earlierTurn (lastTenant st1) (job_Tenant j) t"
  proof -
    have mem: "job_Tenant j \<in> set (ts @ tenant # us)"
      using B(2) [of "job_Tenant j"] j unfolding rot [symmetric] by (auto simp del: set_map)
    have "sorted_wrt (\<lambda>u t. \<not> earlierTurn (lastTenant st1) t u) (ts @ tenant # us)"
      using rotation_sorted [of "sort (keys byTenant)"] B(1) unfolding rot [symmetric] by simp
    with e t mem have "job_Tenant j \<in> set ts"
      by (auto simp: sorted_wrt_append earlierTurn_def Let_def)
    with ts have "idle st1 now byTenant (job_Tenant j)" by blast
    moreover have "jid \<in> set (getd [] byTenant (job_Tenant j))" using B(3) j by blast
    ultimately show ?thesis using jj by (auto simp: idle_def blocked_def)
  qed
  show "overQuota st1 t j \<or> noWorker st1 j now"
    if same: "job_Tenant j = t" and less: "jobRank j < jobRank (lease_Job l)"
  proof -
    obtain es where es: "getd [] byTenant tenant = map fst es" "sorted (map (jobRank \<circ> snd) es)"
      "\<forall>e \<in> set es. isRunnable st1 (fst e) (snd e)"
      using B(4) [of tenant] by blast
    obtain job1 where job1: "map_of (jobs st1) jid' = Some job1" "noReason job = noReason job1"
      using sameReasons_sym_job [OF sr L(2)] by blast
    have rank: "jobRank (lease_Job l) = jobRank job1"
      using noReason_eq [OF job1(2)] by (simp add: E(13) jobRank_def)
    have "map fst es = pre @ jid' # post" using es(1) js by simp
    then obtain es1 e es2 where split: "es = es1 @ e # es2" "map fst es1 = pre" "fst e = jid'"
      unfolding map_eq_append_conv map_eq_Cons_conv by blast
    have "snd e = job1" using es(3) split job1(1) by (simp add: isRunnable_def)
    have "jid \<in> set (getd [] byTenant tenant)" using B(3) j same t by blast
    then have "jid \<in> set (map fst es)" by (simp only: es(1))
    then obtain d where d: "d \<in> set es" "fst d = jid" by auto
    then have "snd d = j" using es(3) jj by (auto simp: isRunnable_def)
    have "d \<in> set es1"
      using es(2) d(1) less rank \<open>snd e = job1\<close> \<open>snd d = j\<close>
      by (auto simp: split(1) sorted_append)
    then have "jid \<in> set pre" using split(2) d(2) by auto
    then show ?thesis using pre jj t by (auto simp: blocked_def)
  qed
qed

end
