(* ===== verification/Intake.thy ===== *)
theory Intake
  imports Dispatch
begin

text \<open>
  Creating, superseding and pruning pipelines: every operation of the intake and of the periodic
  maintenance keeps the invariant, never panics, and respects \<open>evolve\<close>, the frame every operation
  of the store respects.
\<close>

section \<open>The frame of one operation\<close>

text \<open>
  \<open>evolve st st'\<close>: the records present before and after keep their immutable fields, a job's
  attempts only grow at the end, and a terminal status never changes.
\<close>

definition evolve :: "Store \<Rightarrow> Store \<Rightarrow> bool" where
  "evolve st st' \<longleftrightarrow> config st' = config st \<and>
     (\<forall>k p p'. map_of (pipelines st) k = Some p \<longrightarrow> map_of (pipelines st') k = Some p' \<longrightarrow>
        plCore p' = plCore p \<and> (terminal (pl_Status p) \<longrightarrow> pl_Status p' = pl_Status p)) \<and>
     (\<forall>k j j'. map_of (jobs st) k = Some j \<longrightarrow> map_of (jobs st') k = Some j' \<longrightarrow>
        job_Spec j' = job_Spec j \<and> job_PipelineID j' = job_PipelineID j \<and> job_Tenant j' = job_Tenant j \<and>
        (\<exists>ids. job_AttemptIDs j' = job_AttemptIDs j @ ids) \<and>
        (terminal (job_Status j) \<longrightarrow> job_Status j' = job_Status j)) \<and>
     (\<forall>k a a'. map_of (attempts st) k = Some a \<longrightarrow> map_of (attempts st') k = Some a' \<longrightarrow>
        attCore a' = attCore a \<and> (\<not> active (att_Status a) \<longrightarrow> att_Status a' = att_Status a))"

definition persists :: "Store \<Rightarrow> Store \<Rightarrow> bool" where
  "persists st st' \<longleftrightarrow>
     (\<forall>k p. map_of (pipelines st) k = Some p \<longrightarrow> (\<exists>p'. map_of (pipelines st') k = Some p')) \<and>
     (\<forall>k p. map_of (jobs st) k = Some p \<longrightarrow> (\<exists>p'. map_of (jobs st') k = Some p')) \<and>
     (\<forall>k p. map_of (attempts st) k = Some p \<longrightarrow> (\<exists>p'. map_of (attempts st') k = Some p'))"

lemma evolve_refl [simp]: "evolve st st"
  by (auto simp: evolve_def)

lemma evolve_trans:
  assumes e: "evolve a b" "evolve b c" and p: "persists a b"
  shows "evolve a c"
  unfolding evolve_def
proof (intro conjI allI impI)
  show "config c = config a" using e by (simp add: evolve_def)
next
  fix k x z assume x: "map_of (pipelines a) k = Some x" and z: "map_of (pipelines c) k = Some z"
  obtain y where "map_of (pipelines b) k = Some y" using p x unfolding persists_def by blast
  with e x z show "plCore z = plCore x" and "terminal (pl_Status x) \<Longrightarrow> pl_Status z = pl_Status x"
    unfolding evolve_def by metis+
next
  fix k x z assume x: "map_of (jobs a) k = Some x" and z: "map_of (jobs c) k = Some z"
  obtain y where y: "map_of (jobs b) k = Some y" using p x unfolding persists_def by blast
  have xy: "job_Spec y = job_Spec x \<and> job_PipelineID y = job_PipelineID x \<and> job_Tenant y = job_Tenant x \<and>
      (\<exists>ids. job_AttemptIDs y = job_AttemptIDs x @ ids) \<and> (terminal (job_Status x) \<longrightarrow> job_Status y = job_Status x)"
    using e(1) x y unfolding evolve_def by blast
  have yz: "job_Spec z = job_Spec y \<and> job_PipelineID z = job_PipelineID y \<and> job_Tenant z = job_Tenant y \<and>
      (\<exists>ids. job_AttemptIDs z = job_AttemptIDs y @ ids) \<and> (terminal (job_Status y) \<longrightarrow> job_Status z = job_Status y)"
    using e(2) y z unfolding evolve_def by blast
  show "job_Spec z = job_Spec x" "job_PipelineID z = job_PipelineID x" "job_Tenant z = job_Tenant x"
    using xy yz by simp_all
  show "\<exists>ids. job_AttemptIDs z = job_AttemptIDs x @ ids" using xy yz by auto
  show "terminal (job_Status x) \<Longrightarrow> job_Status z = job_Status x" using xy yz by auto
next
  fix k x z assume x: "map_of (attempts a) k = Some x" and z: "map_of (attempts c) k = Some z"
  obtain y where "map_of (attempts b) k = Some y" using p x unfolding persists_def by blast
  with e x z show "attCore z = attCore x" and "\<not> active (att_Status x) \<Longrightarrow> att_Status z = att_Status x"
    unfolding evolve_def by metis+
qed

lemma advance_evolve:
  assumes a: "advance st st'"
  shows "evolve st st'" "persists st st'"
proof -
  have c: "sameCore st st'" and t: "keepsTerminal st st'" using a by (simp_all add: advance_def)
  have P: "plCore p' = plCore p" if "map_of (pipelines st) k = Some p" "map_of (pipelines st') k = Some p'" for k p p'
    using c that unfolding sameCore_def by (metis option.inject option.simps(9))
  have J: "jobCore p' = jobCore p" if "map_of (jobs st) k = Some p" "map_of (jobs st') k = Some p'" for k p p'
    using c that unfolding sameCore_def by (metis option.inject option.simps(9))
  have A: "attCore p' = attCore p" if "map_of (attempts st) k = Some p" "map_of (attempts st') k = Some p'" for k p p'
    using c that unfolding sameCore_def by (metis option.inject option.simps(9))
  show "evolve st st'"
    unfolding evolve_def
  proof (intro conjI allI impI)
    show "config st' = config st" using c by (simp add: sameCore_def)
  next
    fix k p p' assume "map_of (pipelines st) k = Some p" "map_of (pipelines st') k = Some p'"
    with P t show "plCore p' = plCore p" and "terminal (pl_Status p) \<Longrightarrow> pl_Status p' = pl_Status p"
      unfolding keepsTerminal_def by blast+
  next
    fix k j j' assume j: "map_of (jobs st) k = Some j" "map_of (jobs st') k = Some j'"
    note C = jobCore_eq [OF J [OF j]]
    show "job_Spec j' = job_Spec j" "job_PipelineID j' = job_PipelineID j" "job_Tenant j' = job_Tenant j"
      "\<exists>ids. job_AttemptIDs j' = job_AttemptIDs j @ ids" using C by simp_all
    show "terminal (job_Status j) \<Longrightarrow> job_Status j' = job_Status j"
      using t j unfolding keepsTerminal_def by blast
  next
    fix k x x' assume "map_of (attempts st) k = Some x" "map_of (attempts st') k = Some x'"
    with A t show "attCore x' = attCore x" and "\<not> active (att_Status x) \<Longrightarrow> att_Status x' = att_Status x"
      unfolding keepsTerminal_def by blast+
  qed
  show "persists st st'"
    unfolding persists_def
    using sameCore_pipeline [OF c] sameCore_job [OF c] sameCore_attempt [OF c] by metis
qed

text \<open>\<open>safe st m\<close>: the operation \<open>m\<close>, run on \<open>st\<close>, does not panic and keeps invariant and frame.\<close>

definition safe :: "Store \<Rightarrow> ('r \<times> Store) option \<Rightarrow> bool" where
  "safe st m \<longleftrightarrow> ok m (\<lambda>(r, st'). wellFormed st' \<and> evolve st st')"

lemma safe_Some [simp]: "safe st (Some (r, st')) \<longleftrightarrow> wellFormed st' \<and> evolve st st'"
  by (simp add: safe_def)

lemma keeps_safe: "keeps st m \<Longrightarrow> safe st m"
  by (auto simp: keeps_def safe_def ok_def advance_evolve)

lemma safe_sameWork: "wellFormed st \<Longrightarrow> sameWork st st' \<Longrightarrow> safe st (Some (r, st'))"
  by (rule keeps_safe) (rule keeps_sameWork)

section \<open>ScheduleOne\<close>

lemma leased_evolve:
  assumes w: "wellFormed st" and f: "fresh wo st" and l: "leased wo now st ts tenant pre jid s1 job wk l st'"
  shows "evolve st st'"
proof -
  note L = leased_state [OF assms]
  note E = issueLease_effect [OF L(2) L(6) L(5)]
  note X = issueLease_lookup [OF L(1) L(2) L(6) L(5)]
  have s: "sameReasons st s1" using l by (simp add: leased_def)
  have "evolve s1 st'"
    unfolding evolve_def
  proof (intro conjI allI impI)
    show "config st' = config s1" by (rule E(8))
  next
    fix k p p' assume p: "map_of (pipelines s1) k = Some p" "map_of (pipelines st') k = Some p'"
    then show "plCore p' = plCore p" by (auto simp: E(5) split: if_splits)
    show "pl_Status p' = pl_Status p" if t: "terminal (pl_Status p)"
    proof (cases "k = job_PipelineID job")
      case True
      have "\<not> terminal (job_Status job)" using L(3) by simp
      with open_of_active_job(1) [OF L(1) L(2)] p(1) True t show ?thesis by blast
    qed (use p in \<open>simp add: E(5)\<close>)
  next
    fix k j j' assume j: "map_of (jobs s1) k = Some j" "map_of (jobs st') k = Some j'"
    show "job_Spec j' = job_Spec j" "job_PipelineID j' = job_PipelineID j" "job_Tenant j' = job_Tenant j"
      "\<exists>ids. job_AttemptIDs j' = job_AttemptIDs j @ ids"
      using j L(2) by (auto simp: X(1) E(13) split: if_splits)
    show "terminal (job_Status j) \<Longrightarrow> job_Status j' = job_Status j"
      using j L(2,3) by (auto simp: X(1) split: if_splits)
  next
    fix k a a' assume a: "map_of (attempts s1) k = Some a" "map_of (attempts st') k = Some a'"
    then have "a' = a" using X(3) by (auto simp: X(2) split: if_splits)
    then show "attCore a' = attCore a" and "\<not> active (att_Status a) \<Longrightarrow> att_Status a' = att_Status a" by simp_all
  qed
  with advance_evolve [OF sameReasons_advance [OF s]] show ?thesis by (blast intro: evolve_trans)
qed

lemma ScheduleOne_safe:
  assumes w: "wellFormed st" and f: "fresh wo st"
  shows "safe st (ScheduleOne wo now st)"
  using w
proof (cases rule: ScheduleOne_cases [where wo = wo and now = now])
  case (nowork st1 n st2)
  have "evolve st st2"
    using advance_evolve [OF nowork(3)] advance_evolve [OF sameReasons_advance [OF nowork(4)]]
    by (blast intro: evolve_trans)
  then show ?thesis
    using sameReasons_wellFormed [OF nowork(4) nowork(2)] by (simp add: nowork(5))
next
  case (lease st1 n ts tenant pre jid s1 job wk l st2)
  have f1: "fresh wo st1" using f lease(3) fresh_sameCore [of st st1 wo] by (simp add: advance_def)
  have "evolve st st2"
    using advance_evolve [OF lease(3)] leased_evolve [OF lease(2) f1 lease(4)] by (blast intro: evolve_trans)
  then show ?thesis
    using leased_state(7) [OF lease(2) f1 lease(4)] by (simp add: lease(5))
qed

section \<open>Creating a pipeline\<close>

fun newJobs :: "(nat \<Rightarrow> string) \<Rightarrow> string \<Rightarrow> string \<Rightarrow> PipelineSpec \<Rightarrow> time \<Rightarrow> nat \<Rightarrow> 64 word \<Rightarrow> string list
    \<Rightarrow> (string \<times> Job) list" where
  "newJobs rnd plID tenant spec now n seq [] = []"
| "newJobs rnd plID tenant spec now n seq (name # names) =
     (newID ''job'' (rnd n), \<lparr>job_ID = newID ''job'' (rnd n), job_PipelineID = plID, job_Tenant = tenant,
        job_Name = name, job_Spec = getd zeroJobSpec (ps_Jobs spec) name,
        job_Status = StateQueued, job_QueueReason = [], job_CreatedAt = now,
        job_Sequence = seq + 1, job_AttemptIDs = []\<rparr>)
     # newJobs rnd plID tenant spec now (Suc n) (seq + 1) names"

lemma newJobs_keys: "set (keys (newJobs rnd plID tenant spec now n seq names)) = (\<lambda>i. newID ''job'' (rnd i)) ` {n..<n + length names}"
proof (induction names arbitrary: n seq)
  case (Cons name names)
  have "{n..<n + length (name # names)} = insert n {Suc n..<Suc n + length names}" by auto
  with Cons.IH show ?case by simp
qed simp

lemma newJobs_distinct: "inj rnd \<Longrightarrow> distinct (keys (newJobs rnd plID tenant spec now n seq names))"
proof (induction names arbitrary: n seq)
  case (Cons name names)
  then show ?case by (auto simp: newJobs_keys [simplified] inj_eq)
qed simp

lemma newJobs_mem:
  "(k, j) \<in> set (newJobs rnd plID tenant spec now n seq names) \<Longrightarrow>
     job_ID j = k \<and> job_PipelineID j = plID \<and> job_Tenant j = tenant \<and> job_Status j = StateQueued \<and>
     job_AttemptIDs j = [] \<and> job_Name j \<in> set names \<and> job_Spec j = getd zeroJobSpec (ps_Jobs spec) (job_Name j)"
  by (induction names arbitrary: n seq) auto

lemma newJobs_length: "length (newJobs rnd plID tenant spec now n seq names) = length names"
  by (induction names arbitrary: n seq) auto

lemma createJobs_eq:
  assumes "inj rnd" "\<forall>m \<ge> n. newID ''job'' (rnd m) \<notin> set (keys (jobs st))"
  shows "createJobs rnd plID tenant spec now n names (ids, st) =
    (ids @ keys (newJobs rnd plID tenant spec now n (sequence st) names),
     st\<lparr>sequence := sequence st + of_nat (length names),
        jobs := jobs st @ newJobs rnd plID tenant spec now n (sequence st) names\<rparr>)"
  using assms(2)
proof (induction names arbitrary: n ids st)
  case (Cons name names)
  let ?id = "newID ''job'' (rnd n)"
  define j where "j = \<lparr>job_ID = ?id, job_PipelineID = plID, job_Tenant = tenant,
     job_Name = name, job_Spec = getd zeroJobSpec (ps_Jobs spec) name,
     job_Status = StateQueued, job_QueueReason = [], job_CreatedAt = now,
     job_Sequence = sequence st + 1, job_AttemptIDs = []\<rparr>"
  have up: "AList.update ?id j (jobs st) = jobs st @ [(?id, j)]"
    using Cons.prems by (simp add: update_new_append del: set_map)
  let ?st = "st\<lparr>sequence := sequence st + 1, jobs := jobs st @ [(?id, j)]\<rparr>"
  have "\<forall>m \<ge> Suc n. newID ''job'' (rnd m) \<notin> set (keys (jobs ?st))"
    using Cons.prems injD [OF assms(1)] by fastforce
  from Cons.IH [OF this] up show ?case
    by (simp add: Let_def j_def [symmetric] add.assoc)
qed simp

text \<open>The state with one pipeline and its queued jobs added.\<close>

definition extended :: "Store \<Rightarrow> string \<Rightarrow> Pipeline \<Rightarrow> (string, Job) gomap \<Rightarrow> Store \<Rightarrow> bool" where
  "extended st plID p js st' \<longleftrightarrow> pipelines st' = pipelines st @ [(plID, p)] \<and> jobs st' = jobs st @ js \<and>
     attempts st' = attempts st \<and> workers st' = workers st \<and> config st' = config st \<and>
     (distinct (keys (previews st)) \<longrightarrow> distinct (keys (previews st'))) \<and>
     plID \<notin> set (keys (pipelines st)) \<and> set (keys js) \<inter> set (keys (jobs st)) = {} \<and>
     distinct (keys js) \<and> js \<noteq> [] \<and> pl_ID p = plID \<and> pl_JobIDs p = keys js \<and> pl_Status p = StateQueued \<and>
     (\<forall>(k, j) \<in> set js. job_ID j = k \<and> job_PipelineID j = plID \<and> job_Status j = StateQueued \<and>
        job_AttemptIDs j = [])"

lemma extended_lookup:
  assumes "extended st plID p js st'"
  shows "map_of (pipelines st') k = (if k = plID then Some p else map_of (pipelines st) k)"
    and "map_of (jobs st') i = (case map_of js i of Some j \<Rightarrow> Some j | None \<Rightarrow> map_of (jobs st) i)"
    and "map_of (jobs st) i = Some j0 \<Longrightarrow> map_of js i = None"
    and "map_of (pipelines st) plID = None"
proof -
  have e: "pipelines st' = pipelines st @ [(plID, p)]" "jobs st' = jobs st @ js"
    "plID \<notin> set (keys (pipelines st))" "set (keys js) \<inter> set (keys (jobs st)) = {}"
    using assms by (simp_all add: extended_def del: set_map)
  show none: "map_of (pipelines st) plID = None" using e(3) by (rule map_of_None_keys [THEN iffD2])
  then show "map_of (pipelines st') k = (if k = plID then Some p else map_of (pipelines st) k)"
    by (auto simp: e(1) map_add_def split: option.split)
  have dis: "map_of (jobs st) i = None" if "map_of js i = Some j" for i j
  proof -
    have "i \<notin> set (keys (jobs st))" using map_of_in_keys [OF that] e(4) by blast
    then show ?thesis by (rule map_of_None_keys [THEN iffD2])
  qed
  then show "map_of (jobs st) i = Some j0 \<Longrightarrow> map_of js i = None"
    by (cases "map_of js i") auto
  show "map_of (jobs st') i = (case map_of js i of Some j \<Rightarrow> Some j | None \<Rightarrow> map_of (jobs st) i)"
    using dis by (auto simp: e(2) map_add_def split: option.split)
qed


lemma extended_new_job:
  assumes "extended st plID p js st'" "map_of js i = Some j"
  shows "job_ID j = i" "job_PipelineID j = plID" "job_Status j = StateQueued" "job_AttemptIDs j = []"
    "i \<in> set (pl_JobIDs p)" "map_of (jobs st') i = Some j"
proof -
  have "(i, j) \<in> set js" using assms(2) by (rule map_of_SomeD)
  then show "job_ID j = i" "job_PipelineID j = plID" "job_Status j = StateQueued" "job_AttemptIDs j = []"
    using assms(1) by (auto simp: extended_def)
  show "i \<in> set (pl_JobIDs p)"
    using assms(1) map_of_in_keys [OF assms(2)] by (simp add: extended_def)
  show "map_of (jobs st') i = Some j" by (simp add: extended_lookup(2) [OF assms(1)] assms(2))
qed

lemma extended_refs:
  assumes r: "refs st" and e: "extended st plID p js st'"
  shows "refs st'"
proof -
  note X = extended_lookup [OF e] and N = extended_new_job [OF e]
  have A: "attempts st' = attempts st" "workers st' = workers st" using e by (simp_all add: extended_def)
  have oldJ: "map_of (jobs st') i = Some j" if "map_of (jobs st) i = Some j" for i j
    using X(2,3) that by simp
  have oldP: "map_of (pipelines st') k = Some q" if "map_of (pipelines st) k = Some q" for k q
    using X(1,4) that by auto
  have "distinctKeys st'"
    using r e by (auto simp: refs_def distinctKeys_def extended_def)
  moreover have "pipelineRefs st' k q" if "map_of (pipelines st') k = Some q" for k q
  proof (cases "k = plID")
    case True
    have "\<exists>j. map_of (jobs st') i = Some j \<and> job_PipelineID j = plID" if i: "i \<in> set (keys js)" for i
    proof -
      obtain j where "map_of js i = Some j" using i map_of_None_keys [of js i] by (cases "map_of js i") auto
      then show ?thesis using N by blast
    qed
    with True that e show ?thesis by (auto simp: X(1) pipelineRefs_def extended_def)
  next
    case False
    with that have "map_of (pipelines st) k = Some q" by (simp add: X(1))
    from refs_pipeline [OF r this] show ?thesis using oldJ unfolding pipelineRefs_def by blast
  qed
  moreover have "jobRefs st' i j" if j: "map_of (jobs st') i = Some j" for i j
  proof (cases "map_of js i")
    case None
    with j have "map_of (jobs st) i = Some j" by (simp add: X(2))
    from refs_job [OF r this] show ?thesis using oldP unfolding jobRefs_def A by blast
  next
    case (Some j2)
    with j have "j2 = j" by (simp add: X(2))
    with N [OF Some] X(1) show ?thesis by (simp add: jobRefs_def)
  qed
  moreover have "attemptRefs st' aid a" if "map_of (attempts st') aid = Some a" for aid a
    using refs_attempt [OF r that [unfolded A]] oldJ unfolding attemptRefs_def by blast
  moreover have "wk_ID k = wid" if "map_of (workers st') wid = Some k" for wid k
    using that r by (simp add: A refs_def)
  ultimately show ?thesis unfolding refs_def by blast
qed

lemma extended_wellFormed:
  assumes w: "wellFormed st" and e: "extended st plID p js st'"
  shows "wellFormed st'"
proof -
  note X = extended_lookup [OF e] and N = extended_new_job [OF e]
  have r: "refs st" and L: "leasesOK st" using w by (simp_all add: wellFormed_def base_def)
  have A: "attempts st' = attempts st" and ids: "pl_JobIDs p = keys js" and ps: "pl_Status p = StateQueued"
    and ne: "js \<noteq> []" using e by (simp_all add: extended_def)
  have "leasesOK st'"
    unfolding leasesOK_def A
  proof (intro conjI allI impI)
    fix i j assume "map_of (jobs st') i = Some j"
    then show "jobOK j"
      using L N(3,4) [of i] attemptLimit_pos [of j] by (auto simp: X(2) leasesOK_def jobOK_def split: option.splits)
  next
    fix aid a j assume a: "map_of (attempts st) aid = Some a" "map_of (jobs st') (att_JobID a) = Some j"
      "active (att_Status a)"
    obtain j0 where j0: "map_of (jobs st) (att_JobID a) = Some j0" by (rule refs_job_of_attempt [OF r a(1)])
    with a(2) X(2,3) have "j = j0" by simp
    with a j0 L show "job_Status j = att_Status a" and "last (job_AttemptIDs j) = aid"
      by (simp_all add: leasesOK_def)
  next
    fix i j assume j: "map_of (jobs st') i = Some j" "active (job_Status j)"
    then have old: "map_of (jobs st) i = Some j"
      using N(3) [of i] by (auto simp: X(2) split: option.splits)
    with j(2) L show "job_AttemptIDs j \<noteq> []"
      and "\<exists>a. map_of (attempts st) (last (job_AttemptIDs j)) = Some a \<and> att_Status a = job_Status j"
      unfolding leasesOK_def by blast+
  qed
  moreover have "plansOK (\<lambda>_. False) st'"
    unfolding plansOK_def
  proof (intro allI impI)
    fix k q assume q: "map_of (pipelines st') k = Some q"
    show "aggregateOK (pl_Status q) (statusesOf st' q)"
    proof (cases "k = plID")
      case True
      with q have "q = p" by (simp add: X(1))
      have new: "\<exists>j. map_of js i = Some j \<and> map_of (jobs st') i = Some j \<and> job_Status j = StateQueued"
        if i: "i \<in> set (keys js)" for i
      proof -
        obtain j where "map_of js i = Some j" using i map_of_None_keys [of js i] by (cases "map_of js i") auto
        then show ?thesis using N by blast
      qed
      then have "statusesOf st' p \<subseteq> {StateQueued}" unfolding statusesOf_def ids by fastforce
      moreover obtain i where "i \<in> set (keys js)" using ne by (cases js) auto
      ultimately have "statusesOf st' p = {StateQueued}"
        using new unfolding statusesOf_def ids by blast
      with \<open>q = p\<close> ps show ?thesis by (simp add: aggregateOK_def)
    next
      case False
      with q have old: "map_of (pipelines st) k = Some q" by (simp add: X(1))
      have "map_of (jobs st') i = map_of (jobs st) i" if i: "i \<in> set (pl_JobIDs q)" for i
      proof -
        obtain j where "map_of (jobs st) i = Some j" by (rule refs_job_of_pipeline [OF r old i])
        with X(2,3) show ?thesis by simp
      qed
      then have "statusesOf st' q = statusesOf st q" by (auto simp: statusesOf_def)
      with wellFormed_aggregate [OF w old] show ?thesis by simp
    qed
  qed
  ultimately show ?thesis using extended_refs [OF r e] by (simp add: wellFormed_def base_def)
qed

lemma extended_evolve:
  assumes e: "extended st plID p js st'"
  shows "evolve st st'"
proof -
  note X = extended_lookup [OF e]
  have "map_of (pipelines st') k = map_of (pipelines st) k" if "map_of (pipelines st) k = Some q" for k q
    using that X(1,4) by auto
  moreover have "map_of (jobs st') k = map_of (jobs st) k" if "map_of (jobs st) k = Some q" for k q
    using that X(2,3) by auto
  ultimately show ?thesis
    using e by (auto simp: evolve_def extended_def)
qed

lemma createPipeline_extended:
  assumes f: "fresh w st" and ne: "order \<noteq> []"
  shows "\<exists>p js st'. createPipelineLocked (draw w) tenant repo commitSHA trigger prNumber spec order now st =
      (newID ''pl'' (draw w 0), st') \<and> extended st (newID ''pl'' (draw w 0)) p js st' \<and>
      st' = st\<lparr>sequence := sequence st', jobs := jobs st', pipelines := pipelines st'\<rparr> \<and>
      js = newJobs (draw w) (newID ''pl'' (draw w 0)) tenant spec now 1 (sequence st) order \<and>
      p = zeroPipeline\<lparr>pl_ID := newID ''pl'' (draw w 0), pl_Tenant := tenant, pl_Repo := repo,
        pl_CommitSHA := commitSHA, pl_Trigger := trigger, pl_PRNumber := prNumber,
        pl_Status := StateQueued, pl_CreatedAt := now, pl_JobIDs := keys js\<rparr>"
proof -
  let ?plID = "newID ''pl'' (draw w 0)"
  define js where "js = newJobs (draw w) ?plID tenant spec now 1 (sequence st) order"
  let ?p = "zeroPipeline\<lparr>pl_ID := ?plID, pl_Tenant := tenant, pl_Repo := repo,
        pl_CommitSHA := commitSHA, pl_Trigger := trigger, pl_PRNumber := prNumber,
        pl_Status := StateQueued, pl_CreatedAt := now, pl_JobIDs := keys js\<rparr>"
  let ?st = "st\<lparr>sequence := sequence st + of_nat (length order), jobs := jobs st @ js,
    pipelines := pipelines st @ [(?plID, ?p)]\<rparr>"
  have inj: "inj (draw w)" and new: "?plID \<notin> set (keys (pipelines st))"
    "\<forall>m. newID ''job'' (draw w m) \<notin> set (keys (jobs st))"
    using f by (simp_all add: fresh_def del: set_map)
  have c: "createJobs (draw w) ?plID tenant spec now 1 order ([], st) =
      (keys js, st\<lparr>sequence := sequence st + of_nat (length order), jobs := jobs st @ js\<rparr>)"
    using createJobs_eq [OF inj, of 1 st ?plID tenant spec now order "[]"] new(2) by (simp add: js_def del: set_map)
  have "createPipelineLocked (draw w) tenant repo commitSHA trigger prNumber spec order now st = (?plID, ?st)"
    unfolding createPipelineLocked_def Let_def c
    using new(1) by (simp add: update_new_append del: set_map)
  moreover have "js \<noteq> []" using ne newJobs_length [of "draw w" ?plID tenant spec now 1 "sequence st" order]
    by (auto simp: js_def)
  moreover have "set (keys js) \<inter> set (keys (jobs st)) = {}"
    using new(2) newJobs_keys [of "draw w" ?plID tenant spec now 1 "sequence st" order]
    by (auto simp: js_def simp del: set_map)
  moreover have "distinct (keys js)" using newJobs_distinct [OF inj] by (simp add: js_def)
  moreover have "\<forall>(k, j) \<in> set js. job_ID j = k \<and> job_PipelineID j = ?plID \<and> job_Status j = StateQueued \<and>
      job_AttemptIDs j = []"
    using newJobs_mem by (fastforce simp: js_def)
  ultimately have "extended st ?plID ?p js ?st"
    using new(1) by (simp add: extended_def del: set_map)
  with \<open>createPipelineLocked _ _ _ _ _ _ _ _ _ _ = _\<close> show ?thesis
    by (intro exI [of _ ?p] exI [of _ js] exI [of _ ?st]) (simp add: js_def)
qed


section \<open>The contract of the intake\<close>

text \<open>
  \<open>grows spec st st'\<close>: the operation either adds no record, or cancels what it supersedes and then
  adds one pipeline with the jobs of the accepted specification \<open>spec\<close>, within the admission bound.
\<close>

definition grows :: "PipelineSpec \<Rightarrow> Store \<Rightarrow> Store \<Rightarrow> bool" where
  "grows spec st st' \<longleftrightarrow> advance st st' \<or>
     (\<exists>order st2 k p js. Validate spec = Inr order \<and>
        queuedCountLocked st + int (length order) \<le> cfg_MaxQueuedJobs (config st) \<and>
        advance st st2 \<and> extended st2 k p js st' \<and> length js = length order \<and>
        (\<forall>(i, j) \<in> set js. job_Name j \<in> set order \<and> job_Spec j = getd zeroJobSpec (ps_Jobs spec) (job_Name j)))"

definition intake :: "PipelineSpec \<Rightarrow> Store \<Rightarrow> ('r \<times> Store) option \<Rightarrow> bool" where
  "intake spec st m \<longleftrightarrow> ok m (\<lambda>(r, st'). wellFormed st' \<and> grows spec st st')"

lemma grows_advance: "advance st st' \<Longrightarrow> grows spec st st'"
  by (simp add: grows_def)

lemma grows_evolve: "grows spec st st' \<Longrightarrow> evolve st st'"
  unfolding grows_def using advance_evolve extended_evolve evolve_trans by blast

lemma intake_Some [simp]: "intake spec st (Some (r, st')) \<longleftrightarrow> wellFormed st' \<and> grows spec st st'"
  by (simp add: intake_def)

lemma intake_safe: "intake spec st m \<Longrightarrow> safe st m"
  by (auto simp: intake_def safe_def ok_def grows_evolve)

lemma intake_sameWork: "wellFormed st \<Longrightarrow> sameWork st st' \<Longrightarrow> intake spec st (Some (r, st'))"
  by (simp add: sameWork_wellFormed grows_advance sameWork_advance)

lemma intake_refl: "wellFormed st \<Longrightarrow> intake spec st (Some (r, st))"
  by (simp add: grows_advance)

lemma intake_if: "(b \<Longrightarrow> intake spec st m) \<Longrightarrow> (\<not> b \<Longrightarrow> intake spec st m') \<Longrightarrow> intake spec st (if b then m else m')"
  by simp

lemma intake_case_option:
  "(\<And>x. v = Some x \<Longrightarrow> intake spec st (f x)) \<Longrightarrow> (v = None \<Longrightarrow> intake spec st m) \<Longrightarrow>
     intake spec st (case v of None \<Rightarrow> m | Some x \<Rightarrow> f x)"
  by (cases v) simp_all

lemma intake_case_sum:
  "(\<And>x. v = Inl x \<Longrightarrow> intake spec st (f x)) \<Longrightarrow> (\<And>y. v = Inr y \<Longrightarrow> intake spec st (g y)) \<Longrightarrow>
     intake spec st (case v of Inl x \<Rightarrow> f x | Inr y \<Rightarrow> g y)"
  by (cases v) simp_all

lemma createPipeline_grows:
  assumes v: "Validate spec = Inr order" and q: "queuedCountLocked st + int (length order) \<le> cfg_MaxQueuedJobs (config st)"
    and a: "advance st st2"
    and e: "extended st2 k p (newJobs rnd plID tenant spec now n seq order) st'"
  shows "grows spec st st'"
proof -
  have "\<forall>(i, j) \<in> set (newJobs rnd plID tenant spec now n seq order).
      job_Name j \<in> set order \<and> job_Spec j = getd zeroJobSpec (ps_Jobs spec) (job_Name j)"
    using newJobs_mem by fastforce
  then show ?thesis
    unfolding grows_def using v q a e newJobs_length by blast
qed

section \<open>The operations of the intake\<close>

lemma Validate_nonempty: "Validate spec = Inr order \<Longrightarrow> order \<noteq> []"
  by (auto simp: Validate_def ValidateWith_def Let_def split: if_splits option.splits sum.splits)

lemma CreatePipeline_intake:
  assumes w: "wellFormed st" and f: "fresh wo st"
  shows "intake spec st (CreatePipeline wo tenant repo commitSHA trigger prNumber spec now st)"
proof (cases "Validate spec")
  case (Inr order)
  let ?js = "newJobs (draw wo) (newID ''pl'' (draw wo 0)) tenant spec now 1 (sequence st) order"
  obtain st' p where c: "createPipelineLocked (draw wo) tenant repo commitSHA trigger prNumber spec order now st =
      (newID ''pl'' (draw wo 0), st')" and e: "extended st (newID ''pl'' (draw wo 0)) p ?js st'"
    using createPipeline_extended [OF f Validate_nonempty [OF Inr]] by metis
  have w': "wellFormed st'" by (rule extended_wellFormed [OF w e])
  have g: "grows spec st st'" if "queuedCountLocked st + int (length order) \<le> cfg_MaxQueuedJobs (config st)"
    by (rule createPipeline_grows [OF Inr that advance_refl e])
  obtain v where "pipelineViewLocked st' (newID ''pl'' (draw wo 0)) = Some v"
    using pipelineView_total [OF wellFormed_refs [OF w']] by blast
  then show ?thesis using w w' c g by (simp add: CreatePipeline_def Inr grows_advance)
qed (use w in \<open>simp add: CreatePipeline_def grows_advance\<close>)

lemma sameWork_view: "wellFormed st \<Longrightarrow> sameWork st st' \<Longrightarrow> \<exists>v. pipelineViewLocked st' k = Some v"
  using pipelineView_total [OF wellFormed_refs] sameWork_wellFormed by blast

lemma CreatePipelineForDelivery_intake:
  assumes w: "wellFormed st" and f: "fresh wo st"
  shows "intake spec st (CreatePipelineForDelivery wo deliveryID tenant repo commitSHA trigger prNumber spec now st)"
proof (cases "Validate spec")
  case (Inl e)
  with w show ?thesis by (simp add: CreatePipelineForDelivery_def grows_advance)
next
  case (Inr order)
  have dup: "sameWork st (incDuplicate st)" by (simp add: sameWork_def)
  show ?thesis
  proof (cases "map_of (deliveries st) deliveryID")
    case (Some plID)
    obtain v where "pipelineViewLocked (incDuplicate st) plID = Some v" using sameWork_view [OF w dup] by blast
    then show ?thesis
      using Inr Some w intake_sameWork [OF w dup] by (simp add: CreatePipelineForDelivery_def grows_advance)
  next
    case None
    let ?js = "newJobs (draw wo) (newID ''pl'' (draw wo 0)) tenant spec now 1 (sequence st) order"
    obtain st' p where c: "createPipelineLocked (draw wo) tenant repo commitSHA trigger prNumber spec order now st =
        (newID ''pl'' (draw wo 0), st')" and e: "extended st (newID ''pl'' (draw wo 0)) p ?js st'"
      using createPipeline_extended [OF f Validate_nonempty [OF Inr]] by metis
    let ?st2 = "incAccepted (st'\<lparr>deliveries := AList.update deliveryID (newID ''pl'' (draw wo 0)) (deliveries st')\<rparr>)"
    have e2: "extended st (newID ''pl'' (draw wo 0)) p ?js ?st2" using e by (simp add: extended_def del: set_map)
    have w': "wellFormed ?st2" by (rule extended_wellFormed [OF w e2])
    have g: "grows spec st ?st2" if "queuedCountLocked st + int (length order) \<le> cfg_MaxQueuedJobs (config st)"
      by (rule createPipeline_grows [OF Inr that advance_refl e2])
    obtain v where "pipelineViewLocked ?st2 (newID ''pl'' (draw wo 0)) = Some v"
      using pipelineView_total [OF wellFormed_refs [OF w']] by blast
    then show ?thesis using w w' c g Inr None by (simp add: CreatePipelineForDelivery_def grows_advance)
  qed
qed

text \<open>Cancelling the open pipelines of a pull request.\<close>

lemma cancelIfOpen_ok:
  assumes w: "wellFormed st"
  shows "\<exists>st'. cancelIfOpen repo n now k st = Some st' \<and> wellFormed st' \<and> advance st st' \<and>
    (\<forall>p. map_of (pipelines st') k = Some p \<longrightarrow> pl_Repo p = repo \<longrightarrow> pl_PRNumber p = n \<longrightarrow> terminal (pl_Status p))"
proof (cases "map_of (pipelines st) k")
  case None
  with w show ?thesis by (simp add: cancelIfOpen_def)
next
  case (Some p)
  show ?thesis
  proof (cases "pl_Repo p = repo \<and> pl_PRNumber p = n \<and> \<not> terminal (pl_Status p)")
    case True
    with cancelPipeline_wellFormed [OF w Some, of now] Some show ?thesis by (auto simp: cancelIfOpen_def)
  next
    case False
    with w Some show ?thesis by (auto simp: cancelIfOpen_def)
  qed
qed

lemma cancelAll_ok:
  assumes w: "wellFormed st"
  shows "\<exists>st'. foldO (cancelIfOpen repo n now) ks st = Some st' \<and> wellFormed st' \<and> advance st st' \<and>
    (\<forall>k \<in> set ks. \<forall>p. map_of (pipelines st') k = Some p \<longrightarrow> pl_Repo p = repo \<longrightarrow> pl_PRNumber p = n \<longrightarrow>
       terminal (pl_Status p))"
  using w
proof (induction ks arbitrary: st)
  case (Cons k ks)
  obtain st1 where 1: "cancelIfOpen repo n now k st = Some st1" "wellFormed st1" "advance st st1"
    "\<forall>p. map_of (pipelines st1) k = Some p \<longrightarrow> pl_Repo p = repo \<longrightarrow> pl_PRNumber p = n \<longrightarrow> terminal (pl_Status p)"
    using cancelIfOpen_ok [OF Cons.prems] by blast
  obtain st2 where 2: "foldO (cancelIfOpen repo n now) ks st1 = Some st2" "wellFormed st2" "advance st1 st2"
    "\<forall>k \<in> set ks. \<forall>p. map_of (pipelines st2) k = Some p \<longrightarrow> pl_Repo p = repo \<longrightarrow> pl_PRNumber p = n \<longrightarrow>
       terminal (pl_Status p)"
    using Cons.IH [OF 1(2)] by blast
  have "terminal (pl_Status p)"
    if p: "map_of (pipelines st2) k = Some p" "pl_Repo p = repo" "pl_PRNumber p = n" for p
  proof -
    have c: "sameCore st1 st2" using 2(3) by (simp add: advance_def)
    obtain q where q: "map_of (pipelines st1) k = Some q" "plCore p = plCore q"
      by (rule sameCore_sym_pipeline [OF c p(1)])
    then have "terminal (pl_Status q)" using 1(4) p(2,3) plCore_eq [OF q(2)] by simp
    moreover have "keepsTerminal st1 st2" using 2(3) by (simp add: advance_def)
    ultimately show ?thesis using q(1) p(1) unfolding keepsTerminal_def by metis
  qed
  with 1 2 advance_trans [OF 1(3) 2(3)] show ?case by simp
qed simp

lemma tombstone_sameWork: "sameWork st (tombstone repo n now (recordClose rid repo n now st))"
proof -
  have "sameWork st (recordClose rid repo n now st)" by (simp add: recordClose_def Let_def sameWork_def)
  moreover have "sameWork s (tombstone repo n now s)" for s
    using markPreviewDeleting_sameWork [of s] by (auto simp: tombstone_def Let_def sameWork_def split: option.split)
  ultimately show ?thesis by (rule sameWork_trans)
qed

lemma MarkPreviewDeleting_keeps:
  assumes w: "wellFormed st"
  shows "keeps st (MarkPreviewDeletingForDelivery wo deliveryID repo prNumber now st)"
proof -
  let ?st2 = "tombstone repo prNumber now (recordClose deliveryID repo prNumber now st)"
  have s2: "sameWork st ?st2" by (rule tombstone_sameWork)
  obtain st3 where st3: "foldO (cancelIfOpen repo prNumber now) (visitPipelines wo 0) ?st2 = Some st3"
    "wellFormed st3" "advance ?st2 st3"
    using cancelAll_ok [OF sameWork_wellFormed [OF s2 w]] by blast
  have "advance st st3"
    by (rule advance_trans [OF sameWork_advance [OF s2] st3(3)])
  moreover have "sameWork st (incDuplicate st)" by (simp add: sameWork_def)
  note dup = keeps_sameWork [OF w this]
  ultimately show ?thesis
    using w st3 dup by (simp add: MarkPreviewDeletingForDelivery_def)
qed

text \<open>\<open>Submit\<close>.\<close>

lemma recordDelivery_sameWork: "sameWork st (recordDelivery rid plID hash st)"
  by (simp add: recordDelivery_def sameWork_def)

lemma supersede_ok:
  assumes w: "wellFormed st"
  shows "\<exists>st'. supersede wo input current now st = Some st' \<and> wellFormed st' \<and> advance st st' \<and>
    (\<forall>k \<in> set (visitPipelines wo 1). \<forall>p. map_of (pipelines st') k = Some p \<longrightarrow> pl_Repo p = sub_Repo input \<longrightarrow>
       pl_PRNumber p = sub_PRNumber input \<longrightarrow> terminal (pl_Status p))"
proof -
  let ?key = "previewKey (sub_Repo input) (sub_PRNumber input)"
  let ?st0 = "st\<lparr>prStates := AList.update ?key current (prStates st)\<rparr>"
  have s0: "sameWork st ?st0" by (simp add: sameWork_def)
  obtain st1 where st1: "foldO (cancelIfOpen (sub_Repo input) (sub_PRNumber input) now) (visitPipelines wo 1) ?st0 = Some st1"
    "wellFormed st1" "advance ?st0 st1"
    "\<forall>k \<in> set (visitPipelines wo 1). \<forall>p. map_of (pipelines st1) k = Some p \<longrightarrow> pl_Repo p = sub_Repo input \<longrightarrow>
       pl_PRNumber p = sub_PRNumber input \<longrightarrow> terminal (pl_Status p)"
    using cancelAll_ok [OF sameWork_wellFormed [OF s0 w]] by blast
  let ?st2 = "st1\<lparr>previews := mutate ?key (\<lambda>v. v\<lparr>pv_Desired := StateDeleting,
          pv_Generation := pr_Generation current, pv_UpdatedAt := now\<rparr>) (previews st1)\<rparr>"
  have s2: "sameWork st1 ?st2" by (simp add: sameWork_def)
  have "advance st ?st2"
    by (rule advance_trans [OF advance_trans [OF sameWork_advance [OF s0] st1(3)] sameWork_advance [OF s2]])
  then show ?thesis
    using st1 sameWork_wellFormed [OF s2 st1(2)] by (simp add: supersede_def Let_def)
qed


lemma findPipeline_Some:
  "findPipeline P ks st = Some p \<Longrightarrow> \<exists>k \<in> set ks. map_of (pipelines st) k = Some p \<and> P p"
  by (induction ks) (auto split: option.splits if_splits)

lemma mutate_new: "k \<notin> set (keys m) \<Longrightarrow> mutate k f (m @ [(k, v)]) = m @ [(k, f v)]"
  by (induction m) (auto simp: mutate_def mapvals_def)

lemma acceptEvent_intake:
  assumes w: "wellFormed st" and f: "fresh wo st"
    and val: "\<not> sub_Closed input \<Longrightarrow> Validate (sub_Spec input) = Inr order"
    and q: "\<not> sub_Closed input \<Longrightarrow> queuedCountLocked st + int (length order) \<le> cfg_MaxQueuedJobs (config st)"
  shows "intake (sub_Spec input) st (acceptEvent wo input hash configHash previous order now st)"
proof -
  define current where "current = (if sub_PRNumber input > 0
    then \<lparr>pr_UpdatedAt = sub_EventTime input, pr_Closed = sub_Closed input,
       pr_Generation = pr_Generation previous + 1, pr_Commit = sub_CommitSHA input\<rparr>
    else previous)"
  obtain st1 where st1: "(if sub_PRNumber input > 0 then supersede wo input current now st else Some st) = Some st1"
    "wellFormed st1" "advance st st1"
    using supersede_ok [OF w, of wo input current now] w by (cases "sub_PRNumber input > 0") auto
  define st2 where "st2 = incAccepted (recordDelivery (sub_RequestID input) [] hash st1)"
  have s2: "sameWork st1 st2" by (simp add: st2_def recordDelivery_def sameWork_def)
  have w2: "wellFormed st2" by (rule sameWork_wellFormed [OF s2 st1(2)])
  have a2: "advance st st2" by (rule advance_trans [OF st1(3) sameWork_advance [OF s2]])
  have eq: "acceptEvent wo input hash configHash previous order now st =
      (if sub_Closed input then Some (Inr (zeroPipelineView, False), st2)
       else (case (if sub_Rerun input then None
                else findPipeline (sameRevision input configHash (pr_Generation current)) (visitPipelines wo 2) st2) of
          Some p \<Rightarrow>
            let st3 = st2\<lparr>deliveries := AList.update (sub_RequestID input) (pl_ID p) (deliveries st2)\<rparr>
            in do { v \<leftarrow> pipelineViewLocked st3 (pl_ID p); Some (Inr (v, True), st3) }
        | None \<Rightarrow>
            let (plID, st3) = createPipelineLocked (draw wo) (sub_Tenant input) (sub_Repo input)
                  (sub_CommitSHA input) (sub_Trigger input) (sub_PRNumber input) (sub_Spec input) order now st2;
                st4 = st3\<lparr>pipelines := mutate plID (\<lambda>p. p\<lparr>pl_SourceRepo := sub_SourceRepo input,
                        pl_Fork := sub_Fork input, pl_Generation := pr_Generation current,
                        pl_ConfigDigest := configHash,
                        pl_InstallationID := sub_InstallationID input\<rparr>) (pipelines st3),
                      deliveries := AList.update (sub_RequestID input) plID (deliveries st3)\<rparr>
            in do { v \<leftarrow> pipelineViewLocked st4 plID; Some (Inr (v, False), st4) }))"
    unfolding acceptEvent_def Let_def current_def [symmetric] st1(1) st2_def by simp
  show ?thesis
  proof (cases "sub_Closed input")
    case True
    with eq w2 a2 show ?thesis by (simp add: grows_advance)
  next
    case False
    show ?thesis
    proof (cases "if sub_Rerun input then None
        else findPipeline (sameRevision input configHash (pr_Generation current)) (visitPipelines wo 2) st2")
      case (Some p)
      let ?st3 = "st2\<lparr>deliveries := AList.update (sub_RequestID input) (pl_ID p) (deliveries st2)\<rparr>"
      have s3: "sameWork st2 ?st3" by (simp add: sameWork_def)
      obtain v where "pipelineViewLocked ?st3 (pl_ID p) = Some v" using sameWork_view [OF w2 s3] by blast
      moreover have "grows (sub_Spec input) st ?st3"
        by (rule grows_advance [OF advance_trans [OF a2 sameWork_advance [OF s3]]])
      ultimately show ?thesis
        unfolding eq Some using False sameWork_wellFormed [OF s3 w2] by (simp add: Let_def)
    next
      case None
      have f2: "fresh wo st2" using f a2 fresh_sameCore [of st st2 wo] by (simp add: advance_def)
      let ?k = "newID ''pl'' (draw wo 0)"
      let ?js = "newJobs (draw wo) ?k (sub_Tenant input) (sub_Spec input) now 1 (sequence st2) order"
      obtain p st3 where c: "createPipelineLocked (draw wo) (sub_Tenant input) (sub_Repo input)
          (sub_CommitSHA input) (sub_Trigger input) (sub_PRNumber input) (sub_Spec input) order now st2 = (?k, st3)"
        and e: "extended st2 ?k p ?js st3"
        using createPipeline_extended [OF f2 Validate_nonempty [OF val [OF False]]] by metis
      let ?f = "\<lambda>p. p\<lparr>pl_SourceRepo := sub_SourceRepo input, pl_Fork := sub_Fork input,
        pl_Generation := pr_Generation current, pl_ConfigDigest := configHash,
        pl_InstallationID := sub_InstallationID input\<rparr>"
      let ?st4 = "st3\<lparr>pipelines := mutate ?k ?f (pipelines st3),
        deliveries := AList.update (sub_RequestID input) ?k (deliveries st3)\<rparr>"
      have "mutate ?k ?f (pipelines st3) = pipelines st2 @ [(?k, ?f p)]"
        using e mutate_new [of ?k "pipelines st2"] by (simp add: extended_def del: set_map)
      then have e4: "extended st2 ?k (?f p) ?js ?st4" using e by (simp add: extended_def del: set_map)
      have w4: "wellFormed ?st4" by (rule extended_wellFormed [OF w2 e4])
      obtain v where v: "pipelineViewLocked ?st4 ?k = Some v"
        using pipelineView_total [OF wellFormed_refs [OF w4]] by blast
      have "grows (sub_Spec input) st ?st4" by (rule createPipeline_grows [OF val [OF False] q [OF False] a2 e4])
      then show ?thesis unfolding eq None using False w4 v c by (simp add: Let_def)
    qed
  qed
qed

lemma submitNew_intake:
  assumes w: "wellFormed st" and f: "fresh wo st"
    and v: "\<not> sub_Closed input \<Longrightarrow> Validate (sub_Spec input) = Inr order"
  shows "intake (sub_Spec input) st (submitNew wo input hash configHash order now st)"
proof -
  define input' where "input' = (if sub_EventTime input = 0 then input\<lparr>sub_EventTime := now\<rparr> else input)"
  have v': "\<not> sub_Closed input' \<Longrightarrow> Validate (sub_Spec input') = Inr order"
    using v by (simp add: input'_def split: if_splits)
  have spec: "sub_Spec input' = sub_Spec input" by (simp add: input'_def)
  have rec: "intake (sub_Spec input) st (Some (r, recordDelivery rid plID h st))" for r :: "error + PipelineView \<times> bool" and rid plID h
    by (rule intake_sameWork [OF w recordDelivery_sameWork])
  have dedupe: "intake (sub_Spec input) st (do { v \<leftarrow> pipelineViewLocked st2 k; Some (Inr (v, True) :: error + PipelineView \<times> bool, st2) })"
    if s: "sameWork st st2" for st2 k
    using sameWork_view [OF w s, of k] intake_sameWork [OF w s] by auto
  have rec2: "sameWork st (if b then (recordDelivery rid plID h st)\<lparr>prStates := ps\<rparr> else recordDelivery rid plID h st)"
    for b rid plID h ps by (simp add: recordDelivery_def sameWork_def)
  show ?thesis
    unfolding submitNew_def Let_def input'_def [symmetric]
    by (intro intake_if intake_case_option rec dedupe rec2 intake_refl [OF w] acceptEvent_intake [OF w f v', unfolded spec])
      auto
qed

lemma Submit_intake:
  assumes w: "wellFormed st" and f: "fresh wo st"
  shows "intake (sub_Spec input) st (Submit wo js input now st)"
proof -
  have dup: "sameWork st (incDuplicate st)" by (simp add: sameWork_def)
  have dedupe: "intake (sub_Spec input) st (do { v \<leftarrow> pipelineViewLocked (incDuplicate st) k;
      Some (Inr (v, True) :: error + PipelineView \<times> bool, incDuplicate st) })" for k
    using sameWork_view [OF w dup, of k] intake_sameWork [OF w dup] by auto
  show ?thesis
    unfolding Submit_def Let_def
    by (intro intake_if intake_case_sum intake_case_option dedupe intake_refl [OF w] submitNew_intake [OF w f])
      simp
qed

end
