(* ===== verification/Upkeep.thy ===== *)
theory Upkeep
  imports Intake
begin

text \<open>
  Workers, check runs, preview observations and the periodic maintenance: these operations keep the
  invariant too; pruning removes a pipeline together with its jobs and their attempts.
\<close>

section \<open>Workers and small updates\<close>

lemma workers_safe:
  assumes w: "wellFormed st" and "distinct (keys ws)" "\<And>wid k. map_of ws wid = Some k \<Longrightarrow> wk_ID k = wid"
  shows "safe st (Some (r, st\<lparr>workers := ws\<rparr>))"
proof -
  let ?st = "st\<lparr>workers := ws\<rparr>"
  have "pipelineRefs ?st = pipelineRefs st" "jobRefs ?st = jobRefs st" "attemptRefs ?st = attemptRefs st"
    by (simp_all add: fun_eq_iff pipelineRefs_def jobRefs_def attemptRefs_def)
  then have "refs ?st" using assms by (simp add: wellFormed_def base_def refs_def distinctKeys_def)
  moreover have "leasesOK ?st" using w by (simp add: wellFormed_def base_def leasesOK_def)
  moreover have "plansOK (\<lambda>_. False) ?st" using w by (simp add: wellFormed_def plansOK_def statusesOf_def)
  moreover have "evolve st ?st" by (auto simp: evolve_def)
  ultimately show ?thesis by (simp add: wellFormed_def base_def)
qed

lemma RegisterWorker_safe:
  assumes w: "wellFormed st"
  shows "safe st (Some (RegisterWorker worker now st))"
proof -
  have "distinct (keys (workers st))" and id: "\<And>wid k. map_of (workers st) wid = Some k \<Longrightarrow> wk_ID k = wid"
    using wellFormed_refs [OF w] by (simp_all add: refs_def distinctKeys_def)
  then have "safe st (Some (r, st\<lparr>workers := AList.update (wk_ID worker) (worker\<lparr>wk_Heartbeat := now\<rparr>) (workers st)\<rparr>))"
    for r :: "error + Worker"
    by (intro workers_safe [OF w]) (auto split: if_splits)
  with w show ?thesis by (simp add: RegisterWorker_def Let_def)
qed

lemma HeartbeatWorker_safe:
  assumes w: "wellFormed st"
  shows "safe st (Some (HeartbeatWorker wid now st))"
proof -
  have "distinct (keys (workers st))" and id: "\<And>wid k. map_of (workers st) wid = Some k \<Longrightarrow> wk_ID k = wid"
    using wellFormed_refs [OF w] by (simp_all add: refs_def distinctKeys_def)
  then have "safe st (Some (r, st\<lparr>workers := mutate wid (\<lambda>w. w\<lparr>wk_Heartbeat := now\<rparr>) (workers st)\<rparr>))"
    for r :: "error + unit"
    by (intro workers_safe [OF w]) (auto split: if_splits)
  with w show ?thesis by (simp add: HeartbeatWorker_def split: option.split)
qed

lemma SetTenantLimit_keeps: "wellFormed st \<Longrightarrow> keeps st (Some (SetTenantLimit tenant limit st))"
  using keeps_sameWork [of st "st\<lparr>tenantLimits := AList.update tenant limit (tenantLimits st)\<rparr>"]
  by (simp add: SetTenantLimit_def sameWork_def)

lemma ObservePreview_keeps: "wellFormed st \<Longrightarrow> keeps st (Some (ObservePreview p actual url lastError st))"
  by (auto simp: ObservePreview_def Let_def split: option.split
      intro!: keeps_sameWork simp: sameWork_def simp del: keeps_Some)

lemma RecordCheck_keeps:
  assumes w: "wellFormed st"
  shows "keeps st (Some (RecordCheck plID checkID s st))"
proof (cases "map_of (pipelines st) plID")
  case None
  with w show ?thesis by (simp add: RecordCheck_def)
next
  case (Some p)
  let ?f = "\<lambda>p. p\<lparr>pl_CheckRunID := checkID, pl_CheckState := s\<rparr>"
  let ?st = "st\<lparr>pipelines := mutate plID ?f (pipelines st)\<rparr>"
  have core: "plCore (?f q) = plCore q" for q by (simp add: plCore_def)
  have "map_option plCore (map_of (mutate plID ?f (pipelines st)) k) = map_option plCore (map_of (pipelines st) k)" for k
    using core by (simp add: option.map_comp comp_def)
  then have c: "sameCore st ?st" by (simp add: sameCore_def del: map_of_mutate)
  have "keepsTerminal st ?st" by (auto simp: keepsTerminal_def split: if_splits)
  with c have "advance st ?st" by (simp add: advance_def)
  moreover have "wellFormed ?st"
    using sameCore_refs [OF wellFormed_refs [OF w] c] w
    by (auto simp: wellFormed_def base_def leasesOK_def plansOK_def statusesOf_def split: if_splits)
  ultimately show ?thesis using Some by (simp add: RecordCheck_def)
qed

section \<open>Pruning\<close>

lemma map_of_fold_delete: "map_of (fold AList.delete ks m) k = (if k \<in> set ks then None else map_of m k)"
  by (induction ks arbitrary: m) auto

lemma keys_fold_delete: "distinct (keys m) \<Longrightarrow> distinct (keys (fold AList.delete ks m))"
  by (induction ks arbitrary: m) auto

definition prunedJobs :: "Store \<Rightarrow> string set \<Rightarrow> Store \<Rightarrow> bool" where
  "prunedJobs st ids st' \<longleftrightarrow> st' = st\<lparr>jobs := jobs st', attempts := attempts st'\<rparr> \<and>
     (distinct (keys (jobs st)) \<longrightarrow> distinct (keys (jobs st'))) \<and>
     (distinct (keys (attempts st)) \<longrightarrow> distinct (keys (attempts st'))) \<and>
     (\<forall>k. map_of (jobs st') k = (if k \<in> ids then None else map_of (jobs st) k)) \<and>
     (\<forall>k. map_of (attempts st') k =
        (if \<exists>i \<in> ids. \<exists>j. map_of (jobs st) i = Some j \<and> k \<in> set (job_AttemptIDs j) then None
         else map_of (attempts st) k))"

lemma pruneJobs_total:
  assumes "distinct jids" "\<forall>i \<in> set jids. \<exists>j. map_of (jobs st) i = Some j"
  shows "\<exists>st'. foldO pruneJob jids st = Some st' \<and> prunedJobs st (set jids) st'"
  using assms
proof (induction jids arbitrary: st)
  case Nil
  then show ?case by (simp add: prunedJobs_def)
next
  case (Cons i jids)
  obtain j where j: "map_of (jobs st) i = Some j" using Cons.prems by auto
  let ?st1 = "st\<lparr>attempts := fold AList.delete (job_AttemptIDs j) (attempts st), jobs := AList.delete i (jobs st)\<rparr>"
  have "\<forall>k \<in> set jids. \<exists>j. map_of (jobs ?st1) k = Some j" using Cons.prems by auto
  then obtain st2 where 2: "foldO pruneJob jids ?st1 = Some st2" "prunedJobs ?st1 (set jids) st2"
    using Cons.IH [of ?st1] Cons.prems by auto
  have e: "st2 = ?st1\<lparr>jobs := jobs st2, attempts := attempts st2\<rparr>" using 2(2) by (simp add: prunedJobs_def)
  have "st2 = st\<lparr>jobs := jobs st2, attempts := attempts st2\<rparr>" by (subst e) simp
  moreover have "map_of (attempts st2) k =
      (if \<exists>i \<in> set (i # jids). \<exists>j. map_of (jobs st) i = Some j \<and> k \<in> set (job_AttemptIDs j) then None
       else map_of (attempts st) k)" for k
    using 2(2) j Cons.prems(1) by (auto simp: prunedJobs_def map_of_fold_delete)
  ultimately have "prunedJobs st (set (i # jids)) st2"
    using 2(2) by (simp add: prunedJobs_def keys_fold_delete)
  moreover have "pruneJob i st = Some ?st1" using j by (simp add: pruneJob_def)
  ultimately show ?case using 2(1) by auto
qed

text \<open>The state without pipeline \<open>plID\<close>.\<close>

definition without :: "Store \<Rightarrow> string \<Rightarrow> Store \<Rightarrow> bool" where
  "without st plID st' \<longleftrightarrow> config st' = config st \<and> workers st' = workers st \<and> previews st' = previews st \<and>
     prStates st' = prStates st \<and> deliveries st' = deliveries st \<and> requestHashes st' = requestHashes st \<and>
     distinctKeys st' \<and>
     (\<forall>k. map_of (pipelines st') k = (if k = plID then None else map_of (pipelines st) k)) \<and>
     (\<forall>k. map_of (jobs st') k = (case map_of (jobs st) k of None \<Rightarrow> None
        | Some j \<Rightarrow> if job_PipelineID j = plID then None else Some j)) \<and>
     (\<forall>k. map_of (attempts st') k = (case map_of (attempts st) k of None \<Rightarrow> None
        | Some a \<Rightarrow> if map_option job_PipelineID (map_of (jobs st) (att_JobID a)) = Some plID then None else Some a))"

lemma prune_without:
  assumes w: "wellFormed st" and p: "map_of (pipelines st) plID = Some p"
  shows "\<exists>st1. foldO pruneJob (pl_JobIDs p) st = Some st1 \<and>
    without st plID (st1\<lparr>pipelines := AList.delete plID (pipelines st1)\<rparr>)"
proof -
  have r: "refs st" by (rule wellFormed_refs [OF w])
  have "distinct (pl_JobIDs p)" "\<forall>i \<in> set (pl_JobIDs p). \<exists>j. map_of (jobs st) i = Some j"
    using refs_pipeline [OF r p] by (auto simp: pipelineRefs_def)
  then obtain st1 where 1: "foldO pruneJob (pl_JobIDs p) st = Some st1" "prunedJobs st (set (pl_JobIDs p)) st1"
    using pruneJobs_total by blast
  have e: "st1 = st\<lparr>jobs := jobs st1, attempts := attempts st1\<rparr>" using 1(2) by (simp add: prunedJobs_def)
  have same: "config st1 = config st" "workers st1 = workers st" "previews st1 = previews st"
    "prStates st1 = prStates st" "deliveries st1 = deliveries st" "requestHashes st1 = requestHashes st"
    "pipelines st1 = pipelines st"
    by (subst e, simp)+
  have J: "map_of (jobs st1) k = (case map_of (jobs st) k of None \<Rightarrow> None
        | Some j \<Rightarrow> if job_PipelineID j = plID then None else Some j)" for k
    using 1(2) refs_owner [OF r p, of k] by (auto simp: prunedJobs_def split: option.split)
  have A: "map_of (attempts st1) k = (case map_of (attempts st) k of None \<Rightarrow> None
        | Some a \<Rightarrow> if map_option job_PipelineID (map_of (jobs st) (att_JobID a)) = Some plID then None else Some a)" for k
  proof (cases "map_of (attempts st) k")
    case None
    then show ?thesis using 1(2) by (simp add: prunedJobs_def)
  next
    case (Some a)
    have "(\<exists>i \<in> set (pl_JobIDs p). \<exists>j. map_of (jobs st) i = Some j \<and> k \<in> set (job_AttemptIDs j)) \<longleftrightarrow>
        map_option job_PipelineID (map_of (jobs st) (att_JobID a)) = Some plID"
    proof -
      obtain j where j: "map_of (jobs st) (att_JobID a) = Some j" by (rule refs_job_of_attempt [OF r Some])
      have "(\<exists>j. map_of (jobs st) i = Some j \<and> k \<in> set (job_AttemptIDs j)) \<longleftrightarrow> i = att_JobID a" for i
        using refs_attempt_iff [OF r _ Some] j by auto
      then show ?thesis using refs_owner [OF r p j] j by simp
    qed
    with Some 1(2) show ?thesis by (simp add: prunedJobs_def)
  qed
  have "distinctKeys (st1\<lparr>pipelines := AList.delete plID (pipelines st1)\<rparr>)"
    using r 1(2) by (simp add: refs_def distinctKeys_def same prunedJobs_def)
  with 1(1) J A show ?thesis by (simp add: without_def same)
qed

lemma without_old:
  assumes "without st plID st'"
  shows "map_of (pipelines st') k = Some p \<longleftrightarrow> map_of (pipelines st) k = Some p \<and> k \<noteq> plID"
    and "map_of (jobs st') k = Some j \<longleftrightarrow> map_of (jobs st) k = Some j \<and> job_PipelineID j \<noteq> plID"
    and "map_of (attempts st') k = Some a \<longleftrightarrow> map_of (attempts st) k = Some a \<and>
      map_option job_PipelineID (map_of (jobs st) (att_JobID a)) \<noteq> Some plID"
  using assms by (auto simp: without_def split: option.splits if_splits)

lemma without_wellFormed:
  assumes w: "wellFormed st" and wo: "without st plID st'"
  shows "wellFormed st'"
proof -
  note O = without_old [OF wo]
  have r: "refs st" and L: "leasesOK st" using w by (simp_all add: wellFormed_def base_def)
  have keepJ: "\<exists>j'. map_of (jobs st') i = Some j' \<and> map_of (jobs st) i = Some j'"
    if k: "map_of (pipelines st') k = Some p" and i: "i \<in> set (pl_JobIDs p)" for k p i
  proof -
    have p: "map_of (pipelines st) k = Some p" "k \<noteq> plID" using k O(1) by simp_all
    obtain j where "map_of (jobs st) i = Some j" "job_PipelineID j = k"
      by (rule refs_job_of_pipeline [OF r p(1) i])
    with p(2) show ?thesis by (simp add: O(2))
  qed
  have "pipelineRefs st' k p" if p: "map_of (pipelines st') k = Some p" for k p
    using refs_pipeline [OF r] keepJ [OF p] p O(1) unfolding pipelineRefs_def by (metis option.inject)
  moreover have "jobRefs st' i j" if j: "map_of (jobs st') i = Some j" for i j
  proof -
    have old: "map_of (jobs st) i = Some j" "job_PipelineID j \<noteq> plID" using j O(2) by simp_all
    have "map_of (attempts st') x = Some a \<longleftrightarrow> map_of (attempts st) x = Some a" if "att_JobID a = i" for x a
      using that old by (simp add: O(3))
    with refs_job [OF r old(1)] old(2) show ?thesis unfolding jobRefs_def by (metis O(1))
  qed
  moreover have "attemptRefs st' x a" if a: "map_of (attempts st') x = Some a" for x a
    using refs_attempt [OF r] a unfolding attemptRefs_def O(3) O(2) by fastforce
  ultimately have "refs st'"
    using wo r by (simp add: refs_def without_def)
  moreover have "leasesOK st'"
    unfolding leasesOK_def
  proof (intro conjI allI impI)
    fix i j assume "map_of (jobs st') i = Some j"
    then show "jobOK j" using L unfolding O(2) leasesOK_def by blast
  next
    fix x a j assume "map_of (attempts st') x = Some a" "map_of (jobs st') (att_JobID a) = Some j" "active (att_Status a)"
    then show "job_Status j = att_Status a" and "last (job_AttemptIDs j) = x"
      using L by (simp_all add: O(2,3) leasesOK_def)
  next
    fix i j assume j: "map_of (jobs st') i = Some j" "active (job_Status j)"
    then have old: "map_of (jobs st) i = Some j" "job_PipelineID j \<noteq> plID" by (simp_all add: O(2))
    then show ne: "job_AttemptIDs j \<noteq> []" using L j(2) unfolding leasesOK_def by blast
    obtain a where a: "map_of (attempts st) (last (job_AttemptIDs j)) = Some a" "att_Status a = job_Status j"
      by (rule leasesOK_job [OF L old(1) j(2)])
    have "att_JobID a = i" using refs_attempt_iff [OF r old(1) a(1)] ne by simp
    with a old show "\<exists>a. map_of (attempts st') (last (job_AttemptIDs j)) = Some a \<and> att_Status a = job_Status j"
      by (simp add: O(3))
  qed
  moreover have S: "statusesOf st' p = statusesOf st p" if "map_of (pipelines st') k = Some p" for k p
    using keepJ [OF that] unfolding statusesOf_def by (metis option.inject)
  have "plansOK (\<lambda>_. False) st'"
    unfolding plansOK_def
  proof (intro allI impI)
    fix k p assume p: "map_of (pipelines st') k = Some p"
    then have "map_of (pipelines st) k = Some p" using O(1) by simp
    from wellFormed_aggregate [OF w this] S [OF p] show "aggregateOK (pl_Status p) (statusesOf st' p)" by simp
  qed
  ultimately show ?thesis by (simp add: wellFormed_def base_def)
qed

lemma without_evolve: "without st plID st' \<Longrightarrow> evolve st st'"
  using without_old [of st plID st'] by (auto simp: evolve_def without_def)


lemma prunePipeline_ok:
  assumes w: "wellFormed st"
  shows "\<exists>st'. prunePipeline now k st = Some st' \<and> (st' = st \<or>
    (\<exists>p. map_of (pipelines st) k = Some p \<and> terminal (pl_Status p) \<and>
       \<not> timeSub now (pl_CreatedAt p) < cfg_Retention (config st) \<and>
       (\<forall>v \<in> set (map snd (previews st)). pv_PipelineID v \<noteq> k) \<and> without st k st'))"
proof (cases "map_of (pipelines st) k")
  case None
  then show ?thesis by (simp add: prunePipeline_def)
next
  case (Some p)
  obtain st1 where "foldO pruneJob (pl_JobIDs p) st = Some st1"
    "without st k (st1\<lparr>pipelines := AList.delete k (pipelines st1)\<rparr>)"
    using prune_without [OF w Some] by blast
  with Some show ?thesis by (auto simp: prunePipeline_def)
qed

text \<open>
  \<open>shrinks st st'\<close>: the records left are unchanged, the pipelines that are gone were terminal and
  owned no preview; \<open>previews\<close> and the fences are untouched.
\<close>

definition shrinks :: "Store \<Rightarrow> Store \<Rightarrow> bool" where
  "shrinks st st' \<longleftrightarrow> config st' = config st \<and> workers st' = workers st \<and> previews st' = previews st \<and>
     prStates st' = prStates st \<and> deliveries st' = deliveries st \<and> requestHashes st' = requestHashes st \<and>
     (\<forall>k p. map_of (pipelines st') k = Some p \<longrightarrow> map_of (pipelines st) k = Some p) \<and>
     (\<forall>k p. map_of (jobs st') k = Some p \<longrightarrow> map_of (jobs st) k = Some p) \<and>
     (\<forall>k p. map_of (attempts st') k = Some p \<longrightarrow> map_of (attempts st) k = Some p)"

lemma shrinks_refl [simp]: "shrinks st st"
  by (simp add: shrinks_def)

lemma shrinks_trans: "shrinks a b \<Longrightarrow> shrinks b c \<Longrightarrow> shrinks a c"
  by (simp add: shrinks_def)

lemma without_shrinks: "without st k st' \<Longrightarrow> shrinks st st'"
  using without_old [of st k st'] by (simp add: shrinks_def without_def)

lemma shrinks_evolve: "shrinks st st' \<Longrightarrow> evolve st st'"
  by (auto simp: shrinks_def evolve_def)

lemma prune_ok:
  assumes w: "wellFormed st"
  shows "\<exists>st'. pruneLocked wo now st = Some st' \<and> wellFormed st' \<and> shrinks st st'"
proof -
  have "ok (foldO (prunePipeline now) (visitPipelines wo 0) st) (\<lambda>s. wellFormed s \<and> shrinks st s)"
  proof (rule ok_foldO)
    fix k s assume s: "wellFormed s \<and> shrinks st s"
    then obtain s' where s': "prunePipeline now k s = Some s'" "s' = s \<or> without s k s'"
      using prunePipeline_ok [of s now k] by blast
    then have "wellFormed s' \<and> shrinks s s'" using s without_wellFormed [of s k s'] without_shrinks [of s k s'] by auto
    then show "ok (prunePipeline now k s) (\<lambda>s. wellFormed s \<and> shrinks st s)"
      using s s'(1) shrinks_trans [of st s s'] by simp
  qed (use w in simp)
  then show ?thesis by (auto simp: pruneLocked_def ok_def)
qed

section \<open>Reconcile and EnsurePreviews\<close>

lemma reconcilePreview_sameWork: "sameWork (fst sd) (fst (reconcilePreview now key sd))"
  by (cases sd) (auto simp: reconcilePreview_def Let_def sameWork_def split: option.split)

lemma reconcilePreviews_sameWork: "sameWork (fst sd) (fst (fold (reconcilePreview now) ks sd))"
proof (induction ks arbitrary: sd)
  case (Cons k ks)
  show ?case using sameWork_trans [OF reconcilePreview_sameWork Cons.IH] by simp
qed simp

lemma Reconcile_safe:
  assumes w: "wellFormed st"
  shows "safe st (Reconcile wo now st)"
proof -
  obtain st1 n where 1: "reconcileExpiredLocked wo now st = Some (st1, n)" "wellFormed st1" "advance st st1"
    using reconcileExpired_wellFormed [OF w] by blast
  obtain st2 d where 2: "fold (reconcilePreview now) (visitPreviews wo) (st1, 0) = (st2, d)"
    by (cases "fold (reconcilePreview now) (visitPreviews wo) (st1, 0 :: int)")
  have s: "sameWork st1 st2"
    using reconcilePreviews_sameWork [of "(st1, 0)" now "visitPreviews wo"] by (simp add: 2)
  note w2 = sameWork_wellFormed [OF s 1(2)]
  obtain st3 where 3: "pruneLocked wo now st2 = Some st3" "wellFormed st3" "shrinks st2 st3"
    using prune_ok [OF w2] by blast
  have "advance st st2" by (rule advance_trans [OF 1(3) sameWork_advance [OF s]])
  then have "evolve st st3"
    using advance_evolve shrinks_evolve [OF 3(3)] evolve_trans by blast
  then show ?thesis using 1(1) 2 3(1,2) by (simp add: Reconcile_def)
qed

lemma ensurePreview_ok:
  assumes w: "wellFormed st"
  shows "\<exists>st'. ensurePreview now k st = Some st' \<and> sameWork st st'"
proof (cases "map_of (pipelines st) k")
  case None
  then show ?thesis by (simp add: ensurePreview_def)
next
  case (Some p)
  have "\<exists>st'. foldO (ensureJob k now) (pl_JobIDs p) st = Some st' \<and> sameWork st st'"
  proof (rule foldO_sameWork)
    fix i s assume i: "i \<in> set (pl_JobIDs p)" and s: "sameWork st s"
    have r: "refs s" by (rule wellFormed_refs [OF sameWork_wellFormed [OF s w]])
    have p: "map_of (pipelines s) k = Some p" using s Some by (simp add: sameWork_def)
    obtain j where "map_of (jobs s) i = Some j" by (rule refs_job_of_pipeline [OF r p i])
    then show "\<exists>s'. ensureJob k now i s = Some s' \<and> sameWork s s'"
      using p activatePreview_sameWork [OF r p] by (simp add: ensureJob_def split: option.split)
  qed
  with Some show ?thesis by (simp add: ensurePreview_def)
qed

lemma EnsurePreviews_keeps:
  assumes w: "wellFormed st"
  shows "keeps st (map_option (\<lambda>st'. ((), st')) (EnsurePreviews wo now st))"
proof -
  have "\<exists>st'. foldO (ensurePreview now) (visitPipelines wo 1) st = Some st' \<and> sameWork st st'"
    by (rule foldO_sameWork) (use ensurePreview_ok sameWork_wellFormed [OF _ w] in blast)
  then show ?thesis using keeps_sameWork [OF w] by (auto simp: EnsurePreviews_def simp del: keeps_Some)
qed

end
