(* ===== verification/Machine.thy ===== *)
theory Machine
  imports Upkeep
begin

text \<open>
  The store as a state machine. Every exported operation that changes the state meets one
  contract, the locale \<open>store_operation\<close>; a step of the machine is one call of an operation with
  unused random identifiers, and the invariant holds of every state reachable from \<open>New\<close>.
\<close>

section \<open>The contract of an operation\<close>

locale store_operation =
  fixes oper :: "World \<Rightarrow> time \<Rightarrow> Store \<Rightarrow> ('r \<times> Store) option"
  assumes oper_safe: "wellFormed st \<Longrightarrow> fresh w st \<Longrightarrow> safe st (oper w now st)"
begin

lemma returns: "wellFormed st \<Longrightarrow> fresh w st \<Longrightarrow> \<exists>r st'. oper w now st = Some (r, st')"
  using oper_safe [of st w now] by (auto simp: safe_def ok_def)

lemma keeps_wellFormed:
  "wellFormed st \<Longrightarrow> fresh w st \<Longrightarrow> oper w now st = Some (r, st') \<Longrightarrow> wellFormed st'"
  using oper_safe [of st w now] by simp

lemma respects_frame:
  "wellFormed st \<Longrightarrow> fresh w st \<Longrightarrow> oper w now st = Some (r, st') \<Longrightarrow> evolve st st'"
  using oper_safe [of st w now] by simp

lemma contract:
  "wellFormed st \<Longrightarrow> fresh w st \<Longrightarrow>
     \<exists>st'. map_option snd (oper w now st) = Some st' \<and> wellFormed st' \<and> evolve st st'"
  using returns [of st w now] keeps_wellFormed respects_frame by fastforce

end

interpretation create: store_operation "\<lambda>w now. CreatePipeline w tenant repo commitSHA trigger n spec now"
  for tenant repo commitSHA trigger n spec
  by unfold_locales (rule intake_safe [OF CreatePipeline_intake])

interpretation createFor: store_operation
  "\<lambda>w now. CreatePipelineForDelivery w rid tenant repo commitSHA trigger n spec now"
  for rid tenant repo commitSHA trigger n spec
  by unfold_locales (rule intake_safe [OF CreatePipelineForDelivery_intake])

interpretation closing: store_operation "\<lambda>w now. MarkPreviewDeletingForDelivery w rid repo n now"
  for rid repo n
  by unfold_locales (rule keeps_safe [OF MarkPreviewDeleting_keeps])

interpretation submit: store_operation "\<lambda>w now. Submit w js input now" for js input
  by unfold_locales (rule intake_safe [OF Submit_intake])

interpretation register: store_operation "\<lambda>w now st. Some (RegisterWorker worker now st)" for worker
  by unfold_locales (rule RegisterWorker_safe)

interpretation heartbeatWorker: store_operation "\<lambda>w now st. Some (HeartbeatWorker wid now st)" for wid
  by unfold_locales (rule HeartbeatWorker_safe)

interpretation tenantLimit: store_operation "\<lambda>w now st. Some (SetTenantLimit tenant limit st)"
  for tenant limit
  by unfold_locales (rule keeps_safe [OF SetTenantLimit_keeps])

interpretation schedule: store_operation ScheduleOne
  by unfold_locales (rule ScheduleOne_safe)

interpretation heartbeat: store_operation "\<lambda>w now. HeartbeatAttempt aid token now" for aid token
  by unfold_locales (rule keeps_safe [OF HeartbeatAttempt_keeps])

interpretation complete: store_operation "\<lambda>w now. CompleteAttempt aid token success message now"
  for aid token success message
  by unfold_locales (unfold CompleteAttempt_def, rule keeps_safe [OF completeAttempt_keeps])

interpretation finish: store_operation
  "\<lambda>w now. Finish aid token success message digest logKey artefacts now"
  for aid token success message digest logKey artefacts
  by unfold_locales (rule keeps_safe [OF Finish_keeps])

interpretation cancel: store_operation "\<lambda>w now. CancelJob jid now" for jid
  by unfold_locales (rule keeps_safe [OF CancelJob_keeps])

interpretation reconcile: store_operation Reconcile
  by unfold_locales (rule Reconcile_safe)

interpretation observe: store_operation "\<lambda>w now st. Some (ObservePreview p actual url lastError st)"
  for p actual url lastError
  by unfold_locales (rule keeps_safe [OF ObservePreview_keeps])

interpretation recordCheck: store_operation "\<lambda>w now st. Some (RecordCheck plID checkID s st)"
  for plID checkID s
  by unfold_locales (rule keeps_safe [OF RecordCheck_keeps])

interpretation ensure: store_operation "\<lambda>w now st. map_option (\<lambda>st'. ((), st')) (EnsurePreviews w now st)"
  by unfold_locales (rule keeps_safe [OF EnsurePreviews_keeps])

section \<open>The machine\<close>

datatype Request =
    ReqCreate string string string string int PipelineSpec
  | ReqCreateFor string string string string string int PipelineSpec
  | ReqClose string string int
  | ReqSubmit Submission
  | ReqRegister Worker
  | ReqHeartbeatWorker string
  | ReqTenantLimit string int
  | ReqSchedule
  | ReqHeartbeat string string
  | ReqComplete string string bool string
  | ReqFinish string string bool string string string "Artefact list"
  | ReqCancel string
  | ReqReconcile
  | ReqObserve Preview State string string
  | ReqRecordCheck string int State
  | ReqEnsure

fun serve :: "World \<Rightarrow> Json \<Rightarrow> time \<Rightarrow> Request \<Rightarrow> Store \<Rightarrow> Store option" where
  "serve w js now (ReqCreate tenant repo commitSHA trigger n spec) st =
     map_option snd (CreatePipeline w tenant repo commitSHA trigger n spec now st)"
| "serve w js now (ReqCreateFor rid tenant repo commitSHA trigger n spec) st =
     map_option snd (CreatePipelineForDelivery w rid tenant repo commitSHA trigger n spec now st)"
| "serve w js now (ReqClose rid repo n) st =
     map_option snd (MarkPreviewDeletingForDelivery w rid repo n now st)"
| "serve w js now (ReqSubmit input) st = map_option snd (Submit w js input now st)"
| "serve w js now (ReqRegister worker) st = map_option snd (Some (RegisterWorker worker now st))"
| "serve w js now (ReqHeartbeatWorker wid) st = map_option snd (Some (HeartbeatWorker wid now st))"
| "serve w js now (ReqTenantLimit tenant limit) st = map_option snd (Some (SetTenantLimit tenant limit st))"
| "serve w js now ReqSchedule st = map_option snd (ScheduleOne w now st)"
| "serve w js now (ReqHeartbeat aid token) st = map_option snd (HeartbeatAttempt aid token now st)"
| "serve w js now (ReqComplete aid token success message) st =
     map_option snd (CompleteAttempt aid token success message now st)"
| "serve w js now (ReqFinish aid token success message digest logKey artefacts) st =
     map_option snd (Finish aid token success message digest logKey artefacts now st)"
| "serve w js now (ReqCancel jid) st = map_option snd (CancelJob jid now st)"
| "serve w js now ReqReconcile st = map_option snd (Reconcile w now st)"
| "serve w js now (ReqObserve p actual url lastError) st =
     map_option snd (Some (ObservePreview p actual url lastError st))"
| "serve w js now (ReqRecordCheck plID checkID s) st =
     map_option snd (Some (RecordCheck plID checkID s st))"
| "serve w js now ReqEnsure st =
     map_option snd (map_option (\<lambda>st'. ((), st')) (EnsurePreviews w now st))"

lemma serve_contract:
  assumes "wellFormed st" "fresh w st"
  shows "\<exists>st'. serve w js now req st = Some st' \<and> wellFormed st' \<and> evolve st st'"
  unfolding serve.simps
  by (cases req; hypsubst; unfold serve.simps)
    (rule create.contract createFor.contract closing.contract submit.contract register.contract
      heartbeatWorker.contract tenantLimit.contract schedule.contract heartbeat.contract
      complete.contract finish.contract cancel.contract reconcile.contract observe.contract
      recordCheck.contract ensure.contract, rule assms, rule assms)+

text \<open>\<open>allowed\<close> restricts the requests; \<open>\<lambda>_. True\<close> is the unrestricted machine.\<close>

inductive store_step :: "(Request \<Rightarrow> bool) \<Rightarrow> Store \<Rightarrow> Store \<Rightarrow> bool" for allowed where
  serving: "fresh w st \<Longrightarrow> allowed req \<Longrightarrow> serve w js now req st = Some st' \<Longrightarrow> store_step allowed st st'"

inductive_cases store_stepE: "store_step allowed st st'"

inductive reachable :: "(Request \<Rightarrow> bool) \<Rightarrow> Config \<Rightarrow> Store \<Rightarrow> bool" for allowed c where
  start: "reachable allowed c (New c)"
| step: "reachable allowed c st \<Longrightarrow> store_step allowed st st' \<Longrightarrow> reachable allowed c st'"

abbreviation anyRequest :: "Request \<Rightarrow> bool" where
  "anyRequest \<equiv> \<lambda>_. True"

lemma store_step_mono: "store_step allowed st st' \<Longrightarrow> store_step anyRequest st st'"
  by (auto elim!: store_stepE intro!: store_step.serving)

lemma reachable_mono: "reachable allowed c st \<Longrightarrow> reachable anyRequest c st"
proof (induction rule: reachable.induct)
  case (step st st')
  show ?case by (rule reachable.step [OF step.IH store_step_mono [OF step.hyps(2)]])
qed (rule reachable.start)

section \<open>Invariants of the machine\<close>

text \<open>
  The interface of an invariant: it holds initially, and an allowed request served in a well-formed
  state that satisfies it leads to a state that satisfies it.
\<close>

locale store_invariant =
  fixes allowed :: "Request \<Rightarrow> bool" and admissible :: "Config \<Rightarrow> bool" and inv :: "Store \<Rightarrow> bool"
  assumes initially: "admissible c \<Longrightarrow> inv (New c)"
    and preserved: "wellFormed st \<Longrightarrow> wellFormed st' \<Longrightarrow> evolve st st' \<Longrightarrow> inv st \<Longrightarrow> fresh w st \<Longrightarrow>
      allowed req \<Longrightarrow> serve w js now req st = Some st' \<Longrightarrow> inv st'"
begin

lemma always: "reachable allowed c st \<Longrightarrow> admissible c \<Longrightarrow> wellFormed st \<and> inv st"
proof (induction rule: reachable.induct)
  case start
  then show ?case using wellFormed_New initially by blast
next
  case (step st st')
  from step.hyps(2) obtain w js now req where s: "fresh w st" "allowed req" "serve w js now req st = Some st'"
    by (rule store_stepE)
  with serve_contract [of st w js now req] step.IH step.prems have "wellFormed st'" "evolve st st'" by auto
  with s step.IH step.prems preserved show ?case by blast
qed

end

interpretation configured: store_invariant anyRequest "\<lambda>c'. c' = c" "\<lambda>st. config st = withDefaults c" for c
  by unfold_locales (auto simp: New_def evolve_def)

lemma reachable_wellFormed: "reachable allowed c st \<Longrightarrow> wellFormed st"
  using configured.always [OF reachable_mono] by blast

lemma reachable_config: "reachable allowed c st \<Longrightarrow> config st = withDefaults c"
  using configured.always [OF reachable_mono] by blast

end
