(* ===== verification/Demo.thy ===== *)
theory Demo
  imports Machine
begin

text \<open>
  One run of the machine on a small pull request, evaluated in the kernel: a worker registers, the
  pull request's pipeline (\<open>build\<close>, then \<open>deploy\<close> with an environment) is submitted, both jobs are
  leased and finished in turn, and the preview is created. The states are the concrete inputs of the
  witnesses of the store's properties.
\<close>

section \<open>The inputs\<close>

definition demoConfig :: Config where
  "demoConfig = \<lparr>cfg_LeaseTTL = 100, cfg_WorkerTTL = 0, cfg_DefaultTenantLimit = 1,
     cfg_PreviewBaseDomain = [], cfg_PreviewDeleteDelay = 0, cfg_MaxQueuedJobs = 3, cfg_TenantCPU = 4,
     cfg_TenantMemoryMB = 4096, cfg_Retention = 1000\<rparr>"

definition demoWorld :: "string \<Rightarrow> string list \<Rightarrow> string list \<Rightarrow> World" where
  "demoWorld s as ps = \<lparr>draw = (\<lambda>n. s @ utoa n), visitAttempts = as, visitPreviews = [''o/r#7''],
     visitPipelines = (\<lambda>_. ps)\<rparr>"

definition demoJson :: Json where
  "demoJson = \<lparr>js_Submission = sub_CommitSHA, js_Spec = (\<lambda>_. ''spec'')\<rparr>"

definition demoWorker :: Worker where
  "demoWorker = \<lparr>wk_ID = ''w1'', wk_Pool = ''default'', wk_Capabilities = [(''linux'', True)],
     wk_Capacity = 2, wk_Trusted = False, wk_Resources = \<lparr>res_CPU = 8, res_Memory = 4096\<rparr>,
     wk_Heartbeat = 10\<rparr>"

definition demoBuild :: JobSpec where
  "demoBuild = zeroJobSpec\<lparr>spec_Type := ''command'', spec_Image := ''go'', spec_Command := [''make''],
     spec_Capabilities := [''linux''], spec_Resources := \<lparr>res_CPU = 2, res_Memory = 1024\<rparr>\<rparr>"

definition demoDeploy :: JobSpec where
  "demoDeploy = demoBuild\<lparr>spec_Needs := [''build''], spec_Environment := Some
     \<lparr>env_TTLMinutes = 60, env_Exposure = ''private'', env_Image = ''img'', env_Port = 0,
      env_HealthPath = []\<rparr>\<rparr>"

definition demoSpec :: PipelineSpec where
  "demoSpec = \<lparr>ps_Version = 1, ps_Jobs = [(''build'', demoBuild), (''deploy'', demoDeploy)]\<rparr>"

definition demoEvent :: Submission where
  "demoEvent = \<lparr>sub_RequestID = ''d1'', sub_Tenant = ''t1'', sub_Repo = ''o/r'', sub_SourceRepo = ''o/r'',
     sub_CommitSHA = ''abc'', sub_Trigger = ''pull_request'', sub_PRNumber = 7, sub_Fork = False,
     sub_Rerun = False, sub_Closed = False, sub_EventTime = 5, sub_InstallationID = 9,
     sub_Spec = demoSpec\<rparr>"

section \<open>The states of the run\<close>

definition demoPipeline :: "State \<Rightarrow> Pipeline" where
  "demoPipeline s = \<lparr>pl_ID = ''pl_b0'', pl_Tenant = ''t1'', pl_Repo = ''o/r'', pl_CommitSHA = ''abc'',
     pl_Trigger = ''pull_request'', pl_PRNumber = 7, pl_Status = s, pl_CreatedAt = 20,
     pl_JobIDs = [''job_b1'', ''job_b2''], pl_SourceRepo = ''o/r'', pl_Fork = False, pl_Generation = 1,
     pl_ConfigDigest = ''d4f02eaafd1a9e9de7d10972ca8e47fa7a985825c3c9c1e249c72683cb3e4f19'',
     pl_InstallationID = 9, pl_CheckRunID = 0, pl_CheckState = StateUnset\<rparr>"

definition demoJob :: "string \<Rightarrow> string \<Rightarrow> JobSpec \<Rightarrow> 64 word \<Rightarrow> State \<Rightarrow> string list \<Rightarrow> Job" where
  "demoJob jid name spec seq s ids = \<lparr>job_ID = jid, job_PipelineID = ''pl_b0'', job_Tenant = ''t1'',
     job_Name = name, job_Spec = spec, job_Status = s, job_QueueReason = [], job_CreatedAt = 20,
     job_Sequence = seq, job_AttemptIDs = ids\<rparr>"

definition demoJobs :: "State \<Rightarrow> string list \<Rightarrow> State \<Rightarrow> string list \<Rightarrow> (string, Job) gomap" where
  "demoJobs s1 ids1 s2 ids2 =
     [(''job_b1'', demoJob ''job_b1'' ''build'' demoBuild 1 s1 ids1),
      (''job_b2'', demoJob ''job_b2'' ''deploy'' demoDeploy 2 s2 ids2)]"

definition demoAttempt :: "string \<Rightarrow> string \<Rightarrow> string \<Rightarrow> time \<Rightarrow> Attempt" where
  "demoAttempt aid jid token now = \<lparr>att_ID = aid, att_JobID = jid, att_Number = 1, att_WorkerID = ''w1'',
     att_LeaseToken = token, att_LeaseExpires = now + 100, att_Status = StateLeased, att_CreatedAt = now,
     att_StartedAt = 0, att_CompletedAt = 0, att_ResultMessage = [], att_ResultDigest = [], att_LogKey = [],
     att_Artefacts = []\<rparr>"

definition demoDone :: "string \<Rightarrow> time \<Rightarrow> Attempt \<Rightarrow> Attempt" where
  "demoDone digest now a = a\<lparr>att_Status := StateSucceeded, att_CompletedAt := now, att_ResultMessage := ''ok'',
     att_ResultDigest := digest, att_LogKey := ''logs''\<rparr>"

definition demoAttempt1 :: Attempt where
  "demoAttempt1 = demoAttempt ''attempt_c1'' ''job_b1'' ''lease_c0'' 30"

definition demoAttempt2 :: Attempt where
  "demoAttempt2 = demoAttempt ''attempt_e1'' ''job_b2'' ''lease_e0'' 50"

definition demoPreview :: Preview where
  "demoPreview = \<lparr>pv_Repo = ''o/r'', pv_PRNumber = 7, pv_Namespace = ''preview-o-r-96458419-7'',
     pv_URL = [], pv_Generation = 1, pv_Desired = StateActive, pv_Actual = StatePending,
     pv_ExpiresAt = 3600000000060, pv_UpdatedAt = 60, pv_Tenant = ''t1'', pv_PipelineID = ''pl_b0'',
     pv_Image = ''img'', pv_Port = 8080, pv_HealthPath = ''/'', pv_LastError = [],
     pv_Exposure = ''private''\<rparr>"

definition demoIdle :: Store where
  "demoIdle = (New demoConfig)\<lparr>workers := [(''w1'', demoWorker)]\<rparr>"

definition demoQueued :: Store where
  "demoQueued = demoIdle\<lparr>pipelines := [(''pl_b0'', demoPipeline StateQueued)],
     jobs := demoJobs StateQueued [] StateQueued [], deliveries := [(''d1'', ''pl_b0'')], sequence := 2,
     prStates := [(''o/r#7'', \<lparr>pr_UpdatedAt = 5, pr_Closed = False, pr_Generation = 1, pr_Commit = ''abc''\<rparr>)],
     requestHashes := [(''d1'', ''ba7816bf8f01cfea414140de5dae2223b00361a396177a9cb410ff61f20015ad'')],
     metrics := zeroMetrics\<lparr>m_WebhookAccepted := 1\<rparr>\<rparr>"

definition demoLeased :: Store where
  "demoLeased = demoQueued\<lparr>pipelines := [(''pl_b0'', demoPipeline StateRunning)],
     jobs := demoJobs StateLeased [''attempt_c1''] StateQueued [],
     attempts := [(''attempt_c1'', demoAttempt1)], lastTenant := ''t1'',
     metrics := (metrics demoQueued)\<lparr>m_LeasesIssued := 1\<rparr>\<rparr>"

definition demoBuilt :: Store where
  "demoBuilt = demoLeased\<lparr>jobs := demoJobs StateSucceeded [''attempt_c1''] StateQueued [],
     attempts := [(''attempt_c1'', demoDone ''sha256:1'' 40 demoAttempt1)],
     metrics := (metrics demoLeased)\<lparr>m_JobsCompleted := 1\<rparr>\<rparr>"

definition demoDeploying :: Store where
  "demoDeploying = demoBuilt\<lparr>jobs := demoJobs StateSucceeded [''attempt_c1''] StateLeased [''attempt_e1''],
     attempts := [(''attempt_c1'', demoDone ''sha256:1'' 40 demoAttempt1), (''attempt_e1'', demoAttempt2)],
     metrics := (metrics demoBuilt)\<lparr>m_LeasesIssued := 2\<rparr>\<rparr>"

definition demoDeployed :: Store where
  "demoDeployed = demoDeploying\<lparr>pipelines := [(''pl_b0'', demoPipeline StateSucceeded)],
     jobs := demoJobs StateSucceeded [''attempt_c1''] StateSucceeded [''attempt_e1''],
     attempts := [(''attempt_c1'', demoDone ''sha256:1'' 40 demoAttempt1),
                  (''attempt_e1'', demoDone ''sha256:2'' 60 demoAttempt2)],
     previews := [(''o/r#7'', demoPreview)],
     metrics := (metrics demoDeploying)\<lparr>m_JobsCompleted := 2, m_PreviewsCreated := 1\<rparr>\<rparr>"

lemmas demo_states = demoIdle_def demoQueued_def demoLeased_def demoBuilt_def demoDeploying_def
  demoDeployed_def demoJobs_def New_def

section \<open>The run\<close>

lemma demo_register:
  "RegisterWorker (demoWorker\<lparr>wk_Heartbeat := 0\<rparr>) 10 (New demoConfig) = (Inr demoWorker, demoIdle)"
  by code_simp

text \<open>\<open>Submit\<close> is evaluated around its two digests, so that each is computed once.\<close>

lemma demo_hash:
  "sha256Hex ''abc'' = ''ba7816bf8f01cfea414140de5dae2223b00361a396177a9cb410ff61f20015ad''"
  by code_simp

lemma demo_configHash:
  "sha256Hex ''spec'' = ''d4f02eaafd1a9e9de7d10972ca8e47fa7a985825c3c9c1e249c72683cb3e4f19''"
  by code_simp

lemma demo_Validate: "Validate demoSpec = Inr [''build'', ''deploy'']"
  by code_simp

lemma demo_submit:
  "\<exists>v. Submit (demoWorld ''b'' [] []) demoJson demoEvent 20 demoIdle = Some (Inr (v, False), demoQueued)"
proof -
  let ?new = "submitNew (demoWorld ''b'' [] []) demoEvent
        ''ba7816bf8f01cfea414140de5dae2223b00361a396177a9cb410ff61f20015ad''
        ''d4f02eaafd1a9e9de7d10972ca8e47fa7a985825c3c9c1e249c72683cb3e4f19'' [''build'', ''deploy''] 20 demoIdle"
  have "Submit (demoWorld ''b'' [] []) demoJson demoEvent 20 demoIdle = ?new"
    by (simp add: Submit_def demoEvent_def demoJson_def demo_Validate demo_hash demo_configHash demo_states)
  moreover have "map_option (\<lambda>(r, st). (map_sum (\<lambda>_. ()) snd r, st)) ?new = Some (Inr False, demoQueued)"
    by code_simp
  moreover have "map_option (\<lambda>(r, st). (map_sum (\<lambda>_. ()) snd r, st)) x = Some (Inr d, s) \<Longrightarrow>
      \<exists>v. x = Some (Inr (v, d), s)" for x :: "((error + PipelineView \<times> bool) \<times> Store) option" and d s
    by (cases x; cases "fst (the x)") auto
  ultimately show ?thesis by simp
qed

lemma demo_schedule:
  "ScheduleOne (demoWorld ''c'' [] []) 30 demoQueued =
     Some (Inr \<lparr>lease_Attempt = demoAttempt1, lease_LeaseToken = ''lease_c0'',
       lease_Job = demoJob ''job_b1'' ''build'' demoBuild 1 StateLeased [''attempt_c1''],
       lease_Pipeline = demoPipeline StateRunning, lease_Deadline = 130\<rparr>, demoLeased)"
  by code_simp

lemma demo_finish:
  "Finish ''attempt_c1'' ''lease_c0'' True ''ok'' ''sha256:1'' ''logs'' [] 40 demoLeased =
     Some (Inr (demoDone ''sha256:1'' 40 demoAttempt1), demoBuilt)"
  by code_simp

lemma demo_schedule2:
  "ScheduleOne (demoWorld ''e'' [''attempt_c1''] []) 50 demoBuilt =
     Some (Inr \<lparr>lease_Attempt = demoAttempt2, lease_LeaseToken = ''lease_e0'',
       lease_Job = demoJob ''job_b2'' ''deploy'' demoDeploy 2 StateLeased [''attempt_e1''],
       lease_Pipeline = demoPipeline StateRunning, lease_Deadline = 150\<rparr>, demoDeploying)"
  by code_simp

lemma demo_finish2:
  "Finish ''attempt_e1'' ''lease_e0'' True ''ok'' ''sha256:2'' ''logs'' [] 60 demoDeploying =
     Some (Inr (demoDone ''sha256:2'' 60 demoAttempt2), demoDeployed)"
  by code_simp

section \<open>The states are reachable\<close>

lemma demo_fresh:
  "s \<in> {''a'', ''b'', ''f'', ''g''} \<Longrightarrow> st \<in> {New demoConfig, demoIdle} \<Longrightarrow> fresh (demoWorld s as ps) st"
  by (auto simp: fresh_def demoWorld_def demo_states newID_def inj_on_def dest: utoa_inj)

lemma demo_fresh2:
  "s \<in> {''c'', ''d'', ''e'', ''f'', ''g''} \<Longrightarrow> fresh (demoWorld s as ps) demoQueued"
  "s \<in> {''d'', ''e'', ''f'', ''g''} \<Longrightarrow> fresh (demoWorld s as ps) demoLeased"
  "s \<in> {''d'', ''e'', ''f'', ''g''} \<Longrightarrow> fresh (demoWorld s as ps) demoBuilt"
  "s \<in> {''f'', ''g''} \<Longrightarrow> fresh (demoWorld s as ps) demoDeploying"
  "s \<in> {''f'', ''g''} \<Longrightarrow> fresh (demoWorld s as ps) demoDeployed"
  by (auto simp: fresh_def demoWorld_def demo_states newID_def inj_on_def dest: utoa_inj)

definition demoRequests :: "Request list" where
  "demoRequests = [ReqRegister (demoWorker\<lparr>wk_Heartbeat := 0\<rparr>), ReqSubmit demoEvent, ReqSchedule,
     ReqFinish ''attempt_c1'' ''lease_c0'' True ''ok'' ''sha256:1'' ''logs'' [],
     ReqFinish ''attempt_e1'' ''lease_e0'' True ''ok'' ''sha256:2'' ''logs'' []]"

lemma demo_run:
  assumes ok: "\<forall>req \<in> set demoRequests. allowed req"
  shows "reachable allowed demoConfig demoIdle" "reachable allowed demoConfig demoQueued"
  "reachable allowed demoConfig demoLeased" "reachable allowed demoConfig demoBuilt"
  "reachable allowed demoConfig demoDeploying" "reachable allowed demoConfig demoDeployed"
proof -
  note oks = ok [unfolded demoRequests_def, simplified]
  have 1: "reachable allowed demoConfig demoIdle"
    by (rule reachable.step [OF reachable.start])
      (rule store_step.serving [where req = "ReqRegister (demoWorker\<lparr>wk_Heartbeat := 0\<rparr>)" and now = 10,
        OF demo_fresh [of "''a''"]], simp_all add: oks demo_register)
  have 2: "reachable allowed demoConfig demoQueued"
    by (rule reachable.step [OF 1])
      (rule store_step.serving [where req = "ReqSubmit demoEvent" and now = 20 and js = demoJson,
        OF demo_fresh [of "''b''" _ "[]" "[]"]], use demo_submit ok in \<open>auto simp: demoRequests_def\<close>)
  have 3: "reachable allowed demoConfig demoLeased"
    by (rule reachable.step [OF 2])
      (rule store_step.serving [where req = ReqSchedule and now = 30, OF demo_fresh2(1) [of "''c''" "[]" "[]"]],
        simp_all add: oks demo_schedule)
  have 4: "reachable allowed demoConfig demoBuilt"
    by (rule reachable.step [OF 3])
      (rule store_step.serving [where now = 40 and req =
        "ReqFinish ''attempt_c1'' ''lease_c0'' True ''ok'' ''sha256:1'' ''logs'' []",
        OF demo_fresh2(2) [of "''d''"]], simp_all add: oks demo_finish)
  have 5: "reachable allowed demoConfig demoDeploying"
    by (rule reachable.step [OF 4])
      (rule store_step.serving [where req = ReqSchedule and now = 50, OF demo_fresh2(3) [of "''e''" "[''attempt_c1'']" "[]"]],
        simp_all add: oks demo_schedule2)
  have 6: "reachable allowed demoConfig demoDeployed"
    by (rule reachable.step [OF 5])
      (rule store_step.serving [where now = 60 and req =
        "ReqFinish ''attempt_e1'' ''lease_e0'' True ''ok'' ''sha256:2'' ''logs'' []",
        OF demo_fresh2(4) [of "''f''"]], simp_all add: oks demo_finish2)
  show "reachable allowed demoConfig demoIdle" "reachable allowed demoConfig demoQueued"
    "reachable allowed demoConfig demoLeased" "reachable allowed demoConfig demoBuilt"
    "reachable allowed demoConfig demoDeploying" "reachable allowed demoConfig demoDeployed"
    using 1 2 3 4 5 6 by blast+
qed

lemmas demo_reachable = demo_run [of anyRequest, simplified]

lemmas demo_wellFormed = demo_reachable [THEN reachable_wellFormed]

end
