(* ===== verification/Results.thy ===== *)
theory Results
  imports Demo
begin

text \<open>
  What the operations do to an attempt's record: an ended attempt is never written again, an expired
  lease is always reclaimed, a result is committed once and its replay is recognised. The lemmas
  need no invariant: they follow the code of the internal transitions.
\<close>

section \<open>Only active attempts are written\<close>

definition attemptsEnd :: "Store \<Rightarrow> Store \<Rightarrow> bool" where
  "attemptsEnd st st' \<longleftrightarrow> (\<forall>k. case map_of (attempts st) k of
       None \<Rightarrow> map_of (attempts st') k = None
     | Some a \<Rightarrow> \<exists>a'. map_of (attempts st') k = Some a' \<and>
         (a' = a \<or> active (att_Status a) \<and> \<not> active (att_Status a')))"

lemma attemptsEnd_refl [simp]: "attemptsEnd st st"
  by (simp add: attemptsEnd_def split: option.split)

lemma attemptsEnd_same [simp]: "attempts st' = attempts st \<Longrightarrow> attemptsEnd st st'"
  by (simp add: attemptsEnd_def split: option.split)

lemma attemptsEnd_trans [trans]: "attemptsEnd a b \<Longrightarrow> attemptsEnd b c \<Longrightarrow> attemptsEnd a c"
  unfolding attemptsEnd_def
proof (rule allI)
  fix k
  assume "\<forall>k. case map_of (attempts a) k of None \<Rightarrow> map_of (attempts b) k = None
     | Some x \<Rightarrow> \<exists>y. map_of (attempts b) k = Some y \<and> (y = x \<or> active (att_Status x) \<and> \<not> active (att_Status y))"
    and "\<forall>k. case map_of (attempts b) k of None \<Rightarrow> map_of (attempts c) k = None
     | Some x \<Rightarrow> \<exists>y. map_of (attempts c) k = Some y \<and> (y = x \<or> active (att_Status x) \<and> \<not> active (att_Status y))"
  from this [THEN spec, of k]
  show "case map_of (attempts a) k of None \<Rightarrow> map_of (attempts c) k = None
     | Some x \<Rightarrow> \<exists>y. map_of (attempts c) k = Some y \<and> (y = x \<or> active (att_Status x) \<and> \<not> active (att_Status y))"
    by (cases "map_of (attempts a) k") auto
qed

lemma attemptsEnd_ended:
  "attemptsEnd st st' \<Longrightarrow> map_of (attempts st) k = Some a \<Longrightarrow> \<not> active (att_Status a) \<Longrightarrow>
     map_of (attempts st') k = Some a"
  by (force simp: attemptsEnd_def split: option.splits)

lemma attemptsEnd_live:
  "attemptsEnd st st' \<Longrightarrow> map_of (attempts st') k = Some a' \<Longrightarrow> active (att_Status a') \<Longrightarrow>
     map_of (attempts st) k = Some a'"
  by (cases "map_of (attempts st) k") (auto simp: attemptsEnd_def dest: spec [of _ k])

text \<open>A loop of transitions that relate their states by a preorder relates its states by it too.\<close>

lemma foldO_related:
  assumes "\<And>x s s'. x \<in> set xs \<Longrightarrow> f x s = Some s' \<Longrightarrow> R s s'" "\<And>s. R s s"
    and "\<And>a b c. R a b \<Longrightarrow> R b c \<Longrightarrow> R a c" "foldO f xs s = Some s'"
  shows "R s s'"
  using assms(1,4)
proof (induction xs arbitrary: s)
  case Nil
  then show ?case using assms(2) by simp
next
  case (Cons x xs)
  then obtain s1 where "f x s = Some s1" "foldO f xs s1 = Some s'"
    by (auto simp: bind_eq_Some_conv)
  with Cons assms(3) show ?case by (metis list.set_intros)
qed

lemma foldO_attemptsEnd:
  "(\<And>x s s'. f x s = Some s' \<Longrightarrow> attemptsEnd s s') \<Longrightarrow> foldO f xs s = Some s' \<Longrightarrow> attemptsEnd s s'"
  by (rule foldO_related [where f = f and R = attemptsEnd]) (blast intro: attemptsEnd_trans attemptsEnd_refl)+

lemma cancelAttempt_ends: "cancelAttempt now aid st = Some st' \<Longrightarrow> attemptsEnd st st'"
  by (auto simp: cancelAttempt_def attemptsEnd_def bind_eq_Some_conv split: if_splits option.split)

lemma cancelJobWith_ends:
  assumes "cancelJobWith write now jid st = Some st'"
  shows "attemptsEnd st st'"
proof -
  obtain j where j: "map_of (jobs st) jid = Some j"
    using assms by (auto simp: cancelJobWith_def bind_eq_Some_conv)
  show ?thesis
  proof (cases "terminal (job_Status j)")
    case True
    with assms j show ?thesis by (simp add: cancelJobWith_def)
  next
    case False
    define s1 where "s1 = incJobsCancelled (st\<lparr>jobs := mutate jid write (jobs st)\<rparr>)"
    have "foldO (cancelAttempt now) (job_AttemptIDs j) s1 = Some st'"
      using assms j False by (simp add: cancelJobWith_def s1_def)
    then have "attemptsEnd s1 st'" by (rule foldO_attemptsEnd [rotated]) (erule cancelAttempt_ends)
    moreover have "attemptsEnd st s1" by (simp add: s1_def)
    ultimately show ?thesis by (rule attemptsEnd_trans [rotated])
  qed
qed

lemma cancelJobs_ends: "foldO (cancelJobWith write now) jids st = Some st' \<Longrightarrow> attemptsEnd st st'"
  by (erule foldO_attemptsEnd [rotated], erule cancelJobWith_ends)

lemma activatePreview_attempts:
  "activatePreviewLocked plID env now st = Some st' \<Longrightarrow> attempts st' = attempts st"
  by (auto simp: activatePreviewLocked_def Let_def bind_eq_Some_conv split: if_splits)

lemma activateFor_ends: "activateFor plID now jid st = Some st' \<Longrightarrow> attemptsEnd st st'"
  by (auto simp: activateFor_def bind_eq_Some_conv intro: attemptsEnd_same dest: activatePreview_attempts split: option.splits)

lemma activateJobs_ends: "foldO (activateFor plID now) jids st = Some st' \<Longrightarrow> attemptsEnd st st'"
  by (erule foldO_attemptsEnd [rotated], erule activateFor_ends)

lemma updatePipeline_ends:
  assumes u: "updatePipelineLocked plID now st = Some st'"
  shows "attemptsEnd st st'"
proof -
  have s: "attemptsEnd st (setPipelineStatus plID s st)" for s by simp
  obtain p r where p: "map_of (pipelines st) plID = Some p"
      "scanStatuses st (pl_JobIDs p) True = Some r"
    using u by (auto simp: updatePipelineLocked_def bind_eq_Some_conv)
  show ?thesis
  proof (cases r)
    case None
    then have "foldO (cancelJobWith writeCancelled now) (pl_JobIDs p)
        (setPipelineStatus plID StateFailed st) = Some st'"
      using u p by (simp add: updatePipelineLocked_def)
    from attemptsEnd_trans [OF s cancelJobs_ends [OF this]] show ?thesis by simp
  next
    case (Some b)
    show ?thesis
    proof (cases b)
      case True
      then have "foldO (activateFor plID now) (pl_JobIDs p)
          (setPipelineStatus plID StateSucceeded st) = Some st'"
        using u p Some by (simp add: updatePipelineLocked_def)
      from attemptsEnd_trans [OF s activateJobs_ends [OF this]] show ?thesis by simp
    next
      case False
      with u p Some have "st' = setPipelineStatus plID StateRunning st" by (simp add: updatePipelineLocked_def)
      with s show ?thesis by simp
    qed
  qed
qed

text \<open>A finished job is not written either.\<close>

definition jobsEnd :: "Store \<Rightarrow> Store \<Rightarrow> bool" where
  "jobsEnd st st' \<longleftrightarrow> (\<forall>k j. map_of (jobs st) k = Some j \<longrightarrow> terminal (job_Status j) \<longrightarrow>
     map_of (jobs st') k = Some j)"

lemma jobsEnd_same [simp]: "jobs st' = jobs st \<Longrightarrow> jobsEnd st st'"
  by (simp add: jobsEnd_def)

lemma jobsEnd_trans: "jobsEnd a b \<Longrightarrow> jobsEnd b c \<Longrightarrow> jobsEnd a c"
  by (simp add: jobsEnd_def)

lemma foldO_jobsEnd:
  "(\<And>x s s'. f x s = Some s' \<Longrightarrow> jobsEnd s s') \<Longrightarrow> foldO f xs s = Some s' \<Longrightarrow> jobsEnd s s'"
  by (rule foldO_related [where f = f and R = jobsEnd]) (blast intro: jobsEnd_trans jobsEnd_same)+

lemma cancelAttempts_jobs: "foldO (cancelAttempt now) aids st = Some st' \<Longrightarrow> jobs st' = jobs st"
proof (rule foldO_related [where f = "cancelAttempt now" and R = "\<lambda>s s'. jobs s' = jobs s"])
  show "cancelAttempt now aid s = Some s' \<Longrightarrow> jobs s' = jobs s" for aid s s'
    by (auto simp: cancelAttempt_def bind_eq_Some_conv split: if_splits)
qed auto

lemma cancelJobWith_jobsEnd: "cancelJobWith write now jid st = Some st' \<Longrightarrow> jobsEnd st st'"
  by (auto simp: cancelJobWith_def bind_eq_Some_conv jobsEnd_def dest!: cancelAttempts_jobs split: if_splits)

lemma activatePreview_jobs: "activatePreviewLocked plID env now st = Some st' \<Longrightarrow> jobs st' = jobs st"
  by (auto simp: activatePreviewLocked_def Let_def bind_eq_Some_conv split: if_splits)

lemma activateFor_jobsEnd: "activateFor plID now jid st = Some st' \<Longrightarrow> jobsEnd st st'"
  by (auto simp: activateFor_def bind_eq_Some_conv intro: jobsEnd_same dest: activatePreview_jobs split: option.splits)

lemma cancelJobs_jobsEnd: "foldO (cancelJobWith write now) jids st = Some st' \<Longrightarrow> jobsEnd st st'"
  by (erule foldO_jobsEnd [rotated], erule cancelJobWith_jobsEnd)

lemma activateJobs_jobsEnd: "foldO (activateFor plID now) jids st = Some st' \<Longrightarrow> jobsEnd st st'"
  by (erule foldO_jobsEnd [rotated], erule activateFor_jobsEnd)

lemma updatePipeline_jobsEnd:
  assumes u: "updatePipelineLocked plID now st = Some st'"
  shows "jobsEnd st st'"
proof -
  obtain s where "foldO (cancelJobWith writeCancelled now) s (setPipelineStatus plID StateFailed st) = Some st' \<or>
      foldO (activateFor plID now) s (setPipelineStatus plID StateSucceeded st) = Some st' \<or>
      st' = setPipelineStatus plID StateRunning st"
    using u by (auto simp: updatePipelineLocked_def bind_eq_Some_conv split: option.splits if_splits)
  moreover have "jobsEnd (setPipelineStatus plID x st) st' \<Longrightarrow> jobsEnd st st'" for x
    by (simp add: jobsEnd_def)
  ultimately show ?thesis
    by (auto dest!: cancelJobs_jobsEnd activateJobs_jobsEnd)
qed

section \<open>Expiry\<close>

definition due :: "Store \<Rightarrow> time \<Rightarrow> Attempt \<Rightarrow> bool" where
  "due st now a \<longleftrightarrow> active (att_Status a) \<and> (att_LeaseExpires a \<le> now \<or>
     (\<exists>j. map_of (jobs st) (att_JobID a) = Some j \<and> jobTimeout j \<le> timeSub now (att_CreatedAt a)))"

lemma jobTimeout_core: "jobCore i = jobCore j \<Longrightarrow> jobTimeout i = jobTimeout j"
  by (drule jobCore_eq) (simp add: jobTimeout_def)

lemma due_sameCore:
  assumes "sameCore st st'"
  shows "due st' now a = due st now a"
proof -
  have "map_option jobCore (map_of (jobs st') k) = map_option jobCore (map_of (jobs st) k)" for k
    using assms by (simp add: sameCore_def)
  from this [of "att_JobID a"] show ?thesis
    by (cases "map_of (jobs st) (att_JobID a)"; cases "map_of (jobs st') (att_JobID a)")
      (auto simp: due_def dest: jobTimeout_core)
qed

lemma expireAttempt_ends:
  assumes e: "expireAttempt now aid (st, c) = Some (st', c')"
  shows "attemptsEnd st st'" and "map_of (attempts st') aid = Some a \<Longrightarrow> st' = st \<and> \<not> due st now a \<or> \<not> active (att_Status a)"
proof -
  have "attemptsEnd st st' \<and> (\<forall>a. map_of (attempts st') aid = Some a \<longrightarrow> st' = st \<and> \<not> due st now a \<or> \<not> active (att_Status a))"
  proof (cases "map_of (attempts st) aid")
    case None
    with e show ?thesis by (simp add: expireAttempt_def)
  next
    case (Some b)
    show ?thesis
    proof (cases "active (att_Status b)")
      case False
      with e Some show ?thesis by (simp add: expireAttempt_def due_def)
    next
      case True
      then obtain j where j: "map_of (jobs st) (att_JobID b) = Some j"
        using e Some by (auto simp: expireAttempt_def bind_eq_Some_conv)
      show ?thesis
      proof (cases "now < att_LeaseExpires b \<and> timeSub now (att_CreatedAt b) < jobTimeout j")
        case True
        with e Some j \<open>active (att_Status b)\<close> show ?thesis by (simp add: expireAttempt_def due_def)
      next
        case late: False
        define failing where "failing = st\<lparr>attempts := mutate aid (\<lambda>a. a\<lparr>att_Status := StateFailed, att_CompletedAt := now,
              att_ResultMessage := ''attempt timeout or retry limit exceeded''\<rparr>) (attempts st),
            jobs := mutate (att_JobID b) (\<lambda>j. j\<lparr>job_Status := StateFailed\<rparr>) (jobs st),
            metrics := (metrics st)\<lparr>m_JobsFailed := m_JobsFailed (metrics st) + 1\<rparr>\<rparr>"
        define lost where "lost = mutate aid (\<lambda>a. a\<lparr>att_Status := StateLost, att_CompletedAt := now\<rparr>) (attempts st)"
        have "(\<exists>st2. updatePipelineLocked (job_PipelineID j) now failing = Some st2 \<and> attempts st' = attempts st2) \<or>
            attempts st' = lost"
          using e Some \<open>active (att_Status b)\<close> j late
          by (auto simp: expireAttempt_def failing_def lost_def Let_def bind_eq_Some_conv split: if_splits)
        then show ?thesis
        proof
          assume "attempts st' = lost"
          with Some \<open>active (att_Status b)\<close> show ?thesis
            by (auto simp: attemptsEnd_def lost_def split: option.split)
        next
          assume "\<exists>st2. updatePipelineLocked (job_PipelineID j) now failing = Some st2 \<and> attempts st' = attempts st2"
          then obtain st2 where "attemptsEnd failing st2" "attempts st' = attempts st2"
            using updatePipeline_ends by blast
          then have f: "attemptsEnd failing st'" by (simp only: attemptsEnd_def simp_thms)
          have "attemptsEnd st failing"
            using Some \<open>active (att_Status b)\<close> by (auto simp: attemptsEnd_def failing_def split: option.split)
          from attemptsEnd_trans [OF this f] attemptsEnd_ended [OF f, of aid] Some show ?thesis
            by (simp add: failing_def)
        qed
      qed
    qed
  qed
  then show "attemptsEnd st st'" and "map_of (attempts st') aid = Some a \<Longrightarrow> st' = st \<and> \<not> due st now a \<or> \<not> active (att_Status a)"
    by blast+
qed

text \<open>After one pass over the attempts no visited attempt holds an expired or timed-out lease.\<close>

lemma reconcileExpired_reclaims:
  assumes w: "wellFormed st" and r: "reconcileExpiredLocked wo now st = Some (st', n)"
    and a: "aid \<in> set (visitAttempts wo)" "map_of (attempts st') aid = Some a"
  shows "\<not> due st' now a"
proof -
  have "wellFormed s \<Longrightarrow> foldO (expireAttempt now) aids (s, c) = Some (s', c') \<Longrightarrow>
      attemptsEnd s s' \<and> sameCore s s' \<and> (\<forall>k \<in> set aids. \<forall>a. map_of (attempts s') k = Some a \<longrightarrow> \<not> due s' now a)"
    for aids s s' c c'
  proof (induction aids arbitrary: s c)
    case Nil
    then show ?case by simp
  next
    case (Cons k aids)
    obtain s1 c1 where s1: "expireAttempt now k (s, c) = Some (s1, c1)" "wellFormed s1" "advance s s1"
      using expireAttempt_wellFormed [OF Cons.prems(1)] by blast
    with Cons have rest: "attemptsEnd s1 s'" "sameCore s1 s'"
        "\<forall>k \<in> set aids. \<forall>a. map_of (attempts s') k = Some a \<longrightarrow> \<not> due s' now a"
      by auto
    have "\<not> due s' now a" if a: "map_of (attempts s') k = Some a" for a
    proof (cases "active (att_Status a)")
      case True
      then have "map_of (attempts s1) k = Some a" using rest(1) a attemptsEnd_live by blast
      with expireAttempt_ends(2) [OF s1(1)] True have "\<not> due s1 now a" by auto
      then show ?thesis using due_sameCore [OF rest(2)] by simp
    qed (simp add: due_def)
    with rest expireAttempt_ends(1) [OF s1(1)] s1(3) show ?case
      by (auto simp: advance_def intro: attemptsEnd_trans sameCore_trans)
  qed
  with w r a show ?thesis unfolding reconcileExpiredLocked_def by blast
qed

section \<open>Committing a result\<close>

text \<open>The holder of a lease may act on it: the token is its own, the lease and the job's timeout run.\<close>

definition holdsLease :: "Store \<Rightarrow> time \<Rightarrow> string \<Rightarrow> string \<Rightarrow> Attempt \<Rightarrow> bool" where
  "holdsLease st now aid token a \<longleftrightarrow> map_of (attempts st) aid = Some a \<and> active (att_Status a) \<and>
     att_LeaseToken a = token \<and> \<not> due st now a"

lemma holdsLease_job:
  assumes b: "base st" and h: "holdsLease st now aid token a"
  obtains j where "map_of (jobs st) (att_JobID a) = Some j" "job_Status j = att_Status a"
    "now < att_LeaseExpires a" "timeSub now (att_CreatedAt a) < jobTimeout j"
proof -
  from h b obtain j where "map_of (jobs st) (att_JobID a) = Some j" "job_Status j = att_Status a"
    by (auto simp: holdsLease_def elim: leasesOK_active)
  with h that show thesis by (auto simp: holdsLease_def due_def)
qed

definition committed ::
  "bool \<Rightarrow> string \<Rightarrow> string \<Rightarrow> string \<Rightarrow> Artefact list \<Rightarrow> time \<Rightarrow> Attempt \<Rightarrow> Attempt" where
  "committed success message digest logKey artefacts now a = a\<lparr>att_ResultDigest := digest,
     att_LogKey := logKey, att_Artefacts := artefacts, att_CompletedAt := now,
     att_ResultMessage := message, att_Status := wantedState success\<rparr>"

lemma wantedState_ended [simp]: "terminal (wantedState success)" "\<not> active (wantedState success)"
  by (simp_all add: wantedState_def)

lemma completeAttempt_commit:
  assumes w: "wellFormed st" and h: "holdsLease st now aid token a"
  shows "\<exists>st'. completeAttemptLocked aid token success message now st =
      Some (Inr (a\<lparr>att_CompletedAt := now, att_ResultMessage := message, att_Status := wantedState success\<rparr>), st') \<and>
    map_of (attempts st') aid =
      Some (a\<lparr>att_CompletedAt := now, att_ResultMessage := message, att_Status := wantedState success\<rparr>) \<and>
    map_option job_Status (map_of (jobs st') (att_JobID a)) = Some (wantedState success)"
proof -
  let ?a = "a\<lparr>att_CompletedAt := now, att_ResultMessage := message, att_Status := wantedState success\<rparr>"
  obtain j where j: "map_of (jobs st) (att_JobID a) = Some j" "job_Status j = att_Status a"
      "now < att_LeaseExpires a" "timeSub now (att_CreatedAt a) < jobTimeout j"
    by (rule holdsLease_job [OF wellFormed_base [OF w] h])
  have a: "map_of (attempts st) aid = Some a" "active (att_Status a)" "att_LeaseToken a = token"
    using h by (simp_all add: holdsLease_def)
  have open': "att_Status a \<noteq> wantedState success" "job_Status j \<noteq> StateCancelled"
    using a j(2) by (auto simp: wantedState_def)
  define m where "m = (if success
      then (metrics st)\<lparr>m_JobsCompleted := m_JobsCompleted (metrics st) + 1\<rparr>
      else (metrics st)\<lparr>m_JobsFailed := m_JobsFailed (metrics st) + 1\<rparr>)"
  define f :: "Attempt \<Rightarrow> Attempt" where "f = (\<lambda>a. a\<lparr>att_CompletedAt := now,
      att_ResultMessage := message, att_Status := wantedState success\<rparr>)"
  define g :: "Job \<Rightarrow> Job" where "g = (\<lambda>j. j\<lparr>job_Status := wantedState success\<rparr>)"
  let ?mv = "moved f g m aid (att_JobID a) st"
  have ok: "jobOK j" using w j(1) by (auto simp: wellFormed_def base_def intro: leasesOK_jobOK)
  have mv: "mayMove st f g aid a j"
    using a j ok by (auto simp: mayMove_def f_def g_def attCore_def jobCore_def jobOK_def wantedState_def)
  obtain st2 where u: "updatePipelineLocked (job_PipelineID j) now ?mv = Some st2"
    using moved_update [OF w mv, of now m] by (cases success) (auto simp: g_def wantedState_def)
  have att: "map_of (attempts st2) aid = Some ?a"
    using attemptsEnd_ended [OF updatePipeline_ends [OF u], of aid ?a] attempts_moved [OF mv, of m aid]
    by (simp add: f_def)
  have job: "map_option job_Status (map_of (jobs st2) (att_JobID a)) = Some (wantedState success)"
    using updatePipeline_jobsEnd [OF u] jobs_moved [OF mv, of m "att_JobID a"]
    by (simp add: jobsEnd_def g_def)
  have "completeAttemptLocked aid token success message now st = Some (Inr ?a, st2)"
    using a j open' u att
    by (simp add: completeAttemptLocked_def moved_def f_def g_def m_def not_le)
  with att job show ?thesis by blast
qed

lemma Finish_commit:
  assumes w: "wellFormed st" and h: "holdsLease st now aid token a"
  shows "\<exists>st'. Finish aid token success message digest logKey artefacts now st =
      Some (Inr (committed success message digest logKey artefacts now a), st') \<and>
    map_of (attempts st') aid = Some (committed success message digest logKey artefacts now a) \<and>
    map_option job_Status (map_of (jobs st') (att_JobID a)) = Some (wantedState success)"
proof -
  let ?f = "\<lambda>a. a\<lparr>att_ResultDigest := digest, att_LogKey := logKey, att_Artefacts := artefacts\<rparr>"
  let ?st = "st\<lparr>attempts := mutate aid ?f (attempts st)\<rparr>"
  have a: "map_of (attempts st) aid = Some a" "active (att_Status a)" "att_LeaseToken a = token"
    using h by (simp_all add: holdsLease_def)
  obtain j where j: "map_of (jobs st) (att_JobID a) = Some j"
      "now < att_LeaseExpires a" "timeSub now (att_CreatedAt a) < jobTimeout j"
    by (rule holdsLease_job [OF wellFormed_base [OF w] h])
  have "wellFormed ?st" by (rule wellFormed_attempts [OF w a(1)]) (simp_all add: attCore_def)
  moreover have "holdsLease ?st now aid token (?f a)" using h by (simp add: holdsLease_def due_def)
  ultimately show ?thesis
    using completeAttempt_commit [of ?st now aid token "?f a" success message] a j active_not_terminal [OF a(2)]
    by (simp add: Finish_def committed_def not_le)
qed

lemma expireAttempts_end:
  assumes "foldO (expireAttempt now) aids sc = Some (st', n)"
  shows "attemptsEnd (fst sc) st'"
proof -
  have "attemptsEnd (fst sc) (fst (st', n))"
  proof (rule foldO_related [where f = "expireAttempt now" and R = "\<lambda>s s'. attemptsEnd (fst s) (fst s')", OF _ _ _ assms])
    show "expireAttempt now x s = Some s' \<Longrightarrow> attemptsEnd (fst s) (fst s')" for x s s'
      using expireAttempt_ends(1) [of now x "fst s" "snd s" "fst s'" "snd s'"] by simp
  qed (auto intro: attemptsEnd_trans)
  then show ?thesis by simp
qed

lemma cancelPipeline_job:
  assumes w: "wellFormed st" and p: "map_of (pipelines st) plID = Some p"
    and c: "cancelPipelineLocked plID now st = Some st'" and jid: "jid \<in> set (pl_JobIDs p)"
    and j: "map_of (jobs st) jid = Some j" "\<not> terminal (job_Status j)" and j': "map_of (jobs st') jid = Some j'"
  shows "job_Status j' = StateCancelled"
proof -
  let ?s = "setPipelineStatus plID StateCancelled st"
  have "base ?s" by (rule setPipelineStatus_base [OF wellFormed_base [OF w]])
  moreover have "\<exists>j. map_of (jobs ?s) k = Some j" if "k \<in> set (pl_JobIDs p)" for k
    using refs_job_of_pipeline [OF wellFormed_refs [OF w] p that] by auto
  ultimately obtain s1 where s1: "foldO (cancelJobWith writePipelineCancelled now) (pl_JobIDs p) ?s = Some s1"
      "cancelEffect writePipelineCancelled now (set (pl_JobIDs p)) ?s s1"
    using cancelJobs_effect [of writePipelineCancelled ?s "pl_JobIDs p" now] by auto
  have "jobs st' = jobs s1"
    using c p s1(1) by (auto simp: cancelPipelineLocked_def markPreviewDeleting_def split: option.splits if_splits)
  with s1(2) jid j j' show ?thesis by (auto simp: cancelEffect_def writePipelineCancelled_def)
qed

section \<open>After an expiry and after a cancellation\<close>

lemma reclaimed_job:
  assumes w: "wellFormed st" and r: "reconcileExpiredLocked wo now st = Some (st', n)"
    and w': "wellFormed st'" and ad: "advance st st'"
    and a: "map_of (attempts st) aid = Some a" "due st now a"
    and d: "\<And>aid a. map_of (attempts st') aid = Some a \<Longrightarrow> \<not> due st' now a"
  shows "\<exists>j. map_of (jobs st') (att_JobID a) = Some j \<and> \<not> active (job_Status j) \<and>
    (job_Status j = StateQueued \<longrightarrow> int (length (job_AttemptIDs j)) < attemptLimit j)"
proof -
  have s: "sameCore st st'" using ad by (simp add: advance_def)
  obtain j where j: "map_of (jobs st) (att_JobID a) = Some j" "job_AttemptIDs j \<noteq> []" "last (job_AttemptIDs j) = aid"
    using leasesOK_active [OF wellFormed_base [OF w] a(1)] a(2) unfolding due_def by metis
  obtain j' where j': "map_of (jobs st') (att_JobID a) = Some j'" "jobCore j' = jobCore j"
    by (rule sameCore_job [OF s j(1)])
  have ids: "job_AttemptIDs j' = job_AttemptIDs j" using jobCore_eq [OF j'(2)] by simp
  obtain a' where a': "map_of (attempts st') aid = Some a'" by (rule sameCore_attempt [OF s a(1)])
  have ends: "attemptsEnd st st'"
    using r unfolding reconcileExpiredLocked_def by (auto dest: expireAttempts_end)
  have "\<not> active (att_Status a')"
    using attemptsEnd_live [OF ends a'] a d [OF a'] due_sameCore [OF s] by auto
  moreover have "active (job_Status j') \<Longrightarrow> active (att_Status a')"
    using w' j' a' ids j(3) by (auto simp: wellFormed_def base_def elim!: leasesOK_job)
  moreover have "jobOK j'" using w' j'(1) by (auto simp: wellFormed_def base_def intro: leasesOK_jobOK)
  ultimately show ?thesis using j'(1) by (auto simp: jobOK_def)
qed

lemma CancelJob_effect:
  assumes w: "wellFormed st" and j: "map_of (jobs st) jid = Some j"
  shows "if terminal (job_Status j) then CancelJob jid now st = Some (Inr j, st)
    else \<exists>j' st'. CancelJob jid now st = Some (Inr j', st') \<and> job_Status j' = StateCancelled \<and>
      map_option pl_Status (map_of (pipelines st') (job_PipelineID j)) = Some StateCancelled \<and>
      (\<forall>k i. map_of (jobs st') k = Some i \<longrightarrow> job_PipelineID i = job_PipelineID j \<longrightarrow>
         terminal (job_Status i) \<and>
         (\<forall>aid a. map_of (attempts st') aid = Some a \<longrightarrow> att_JobID a = k \<longrightarrow> \<not> active (att_Status a)))"
proof (cases "terminal (job_Status j)")
  case True
  with j show ?thesis by (simp add: CancelJob_def)
next
  case False
  obtain p where p: "map_of (pipelines st) (job_PipelineID j) = Some p" "jid \<in> set (pl_JobIDs p)"
    by (rule refs_pipeline_of_job [OF wellFormed_refs [OF w] j])
  have opn: "\<not> terminal (pl_Status p)" by (rule open_of_active_job [OF w j False p(1)])
  obtain st' where st': "cancelPipelineLocked (job_PipelineID j) now st = Some st'" "wellFormed st'" "advance st st'"
      "map_of (pipelines st') (job_PipelineID j) = Some (p\<lparr>pl_Status := StateCancelled\<rparr>)"
    using cancelPipeline_wellFormed [OF w p(1) opn] by blast
  obtain j' where j': "map_of (jobs st') jid = Some j'"
    using st'(3) j by (auto simp: advance_def elim: sameCore_job)
  have all: "terminal (job_Status i)" if "map_of (jobs st') k = Some i" "job_PipelineID i = job_PipelineID j" for k i
  proof -
    have "job_Status i \<in> statusesOf st' (p\<lparr>pl_Status := StateCancelled\<rparr>)"
      using statusesOf_iff [OF wellFormed_refs [OF st'(2)] st'(4)] that by blast
    with terminal_iff [OF st'(2) st'(4)] show ?thesis by simp
  qed
  have "job_Status j' = StateCancelled" using cancelPipeline_job [OF w p(1) st'(1) p(2) j False j'] .
  moreover have "\<not> active (att_Status a)" if "map_of (jobs st') k = Some i" "terminal (job_Status i)"
      "map_of (attempts st') aid = Some a" "att_JobID a = k" for k i aid a
    using leasesOK_active [OF wellFormed_base [OF st'(2)] that(3)] that active_not_terminal by force
  ultimately show ?thesis using False j st' j' all by (auto simp: CancelJob_def)
qed

section \<open>The attempts of a job\<close>

lemma nth_attempt:
  assumes w: "wellFormed st" and j: "map_of (jobs st) jid = Some j" and n: "n < length (job_AttemptIDs j)"
  shows "\<exists>a. map_of (attempts st) (job_AttemptIDs j ! n) = Some a \<and> att_JobID a = jid \<and>
    att_Number a = int n + 1 \<and> (Suc n < length (job_AttemptIDs j) \<longrightarrow> \<not> active (att_Status a))"
proof -
  have r: "refs st" by (rule wellFormed_refs [OF w])
  obtain a where a: "map_of (attempts st) (job_AttemptIDs j ! n) = Some a" "att_JobID a = jid"
    using refs_attempt_of_job [OF r j nth_mem [OF n]] by blast
  have d: "distinct (job_AttemptIDs j)" using refs_job [OF r j] by (simp add: jobRefs_def)
  have "numbered (job_AttemptIDs j ! n) a j"
    using refs_attempt [OF r a(1)] a(2) j by (auto simp: attemptRefs_def)
  then have num: "att_Number a = int n + 1"
    using n d by (auto simp: numbered_def nth_eq_iff_index_eq)
  have "\<not> active (att_Status a)" if "Suc n < length (job_AttemptIDs j)"
  proof
    assume "active (att_Status a)"
    then have "last (job_AttemptIDs j) = job_AttemptIDs j ! n"
      using leasesOK_active [OF wellFormed_base [OF w] a(1)] a(2) j by force
    then have "job_AttemptIDs j ! (length (job_AttemptIDs j) - 1) = job_AttemptIDs j ! n"
      using n by (subst (asm) last_conv_nth) auto
    with d n that show False by (simp add: nth_eq_iff_index_eq)
  qed
  with a num show ?thesis by blast
qed

end
