(* ===== verification/Protocol.thy ===== *)
theory Protocol
  imports Results
begin

text \<open>
  The properties of the worker protocol: who may commit a result, what a commit does, that it happens
  once, how a lease is renewed and how an expired one is reclaimed.
\<close>

section \<open>Committing\<close>

lemma Finish_cases:
  assumes w: "wellFormed st" and a: "map_of (attempts st) aid = Some a" and h: "\<not> holdsLease st now aid token a"
  shows "Finish aid token success message digest logKey artefacts now st = Some
    (if att_LeaseToken a \<noteq> token then Inl ErrStaleLease
     else if terminal (att_Status a) then
       (if att_Status a = wantedState success \<and> att_ResultMessage a = message \<and> att_ResultDigest a = digest \<and>
           att_LogKey a = logKey \<and> att_Artefacts a = artefacts
        then Inr a else Inl ErrConflict)
     else Inl ErrStaleLease, st)"
proof -
  obtain j where "map_of (jobs st) (att_JobID a) = Some j"
    using a w by (auto elim: refs_job_of_attempt [OF wellFormed_refs])
  with a h show ?thesis by (auto simp: Finish_def holdsLease_def due_def not_le)
qed

lemma terminal_token:
  "terminal s \<Longrightarrow> \<not> active s"
  using active_not_terminal by blast

text \<open>
  C31: Only the holder of a running lease can commit a result, and it always can. In every reachable
  state a \<open>Finish\<close> with the attempt's token, before the lease's deadline and the job's timeout, is
  accepted: the attempt then carries exactly the result that was sent, its job has the matching final
  state, and the store is again well formed (in particular the pipeline's state is the aggregate).
\<close>

theorem Finish_accepts:
  assumes "reachable allowed c st" "holdsLease st now aid token a"
  shows "\<exists>st'. Finish aid token success message digest logKey artefacts now st =
      Some (Inr (committed success message digest logKey artefacts now a), st') \<and>
    map_of (attempts st') aid = Some (committed success message digest logKey artefacts now a) \<and>
    map_option job_Status (map_of (jobs st') (att_JobID a)) = Some (wantedState success) \<and> wellFormed st'"
proof -
  have w: "wellFormed st" by (rule reachable_wellFormed [OF assms(1)])
  with Finish_commit [OF w assms(2), of success message digest logKey artefacts] Finish_keeps [OF w, of aid token success message digest logKey artefacts now]
  show ?thesis by (auto simp: keeps_def)
qed

theorem Finish_accepts_witness:
  "\<exists>st'. Finish ''attempt_c1'' ''lease_c0'' False ''exit 1'' ''d'' ''log'' [] 129 demoLeased =
      Some (Inr (committed False ''exit 1'' ''d'' ''log'' [] 129 demoAttempt1), st') \<and>
    map_of (attempts st') ''attempt_c1'' = Some (committed False ''exit 1'' ''d'' ''log'' [] 129 demoAttempt1) \<and>
    map_option job_Status (map_of (jobs st') ''job_b1'') = Some StateFailed \<and> wellFormed st'"
proof -
  have "holdsLease demoLeased 129 ''attempt_c1'' ''lease_c0'' demoAttempt1"
    by (simp add: holdsLease_def due_def demo_states demoAttempt1_def demoAttempt_def demoJob_def
      demoBuild_def jobTimeout_def zeroJobSpec_def durTimes_def wrap64_def Second_def timeSub_def)
  from Finish_accepts [OF demo_reachable(3) this, of False "''exit 1''" "''d''" "''log''" "[]"]
  show ?thesis by (simp add: demoAttempt1_def demoAttempt_def wantedState_def)
qed

text \<open>
  C32: A \<open>Finish\<close> that does not come from the holder of a running lease changes nothing. The answer
  is \<open>ErrStaleLease\<close> for another token, an expired lease or a timed-out job; for an attempt that has
  ended it is the stored result when the call repeats it exactly, and \<open>ErrConflict\<close> otherwise.
\<close>

theorem Finish_rejects:
  assumes "reachable allowed c st" "map_of (attempts st) aid = Some a" "\<not> holdsLease st now aid token a"
  shows "Finish aid token success message digest logKey artefacts now st = Some
    (if att_LeaseToken a \<noteq> token then Inl ErrStaleLease
     else if terminal (att_Status a) then
       (if att_Status a = wantedState success \<and> att_ResultMessage a = message \<and> att_ResultDigest a = digest \<and>
           att_LogKey a = logKey \<and> att_Artefacts a = artefacts
        then Inr a else Inl ErrConflict)
     else Inl ErrStaleLease, st)"
  by (rule Finish_cases [OF reachable_wellFormed [OF assms(1)] assms(2, 3)])

theorem Finish_rejects_witness:
  "Finish ''attempt_c1'' ''forged'' True ''ok'' ''d'' ''log'' [] 40 demoLeased = Some (Inl ErrStaleLease, demoLeased)"
  using Finish_rejects [OF demo_reachable(3), of "''attempt_c1''" demoAttempt1 40 "''forged''" True
      "''ok''" "''d''" "''log''" "[]"]
  by (simp add: holdsLease_def demo_states demoAttempt1_def demoAttempt_def)

text \<open>
  C5: A result is committed once. After an accepted \<open>Finish\<close> the same call, at any later time, is
  answered with the same attempt and changes nothing, and a call with the same token and any other
  result is refused with \<open>ErrConflict\<close>.
\<close>

theorem Finish_once:
  assumes "reachable allowed c st" "holdsLease st now aid token a"
    and "Finish aid token success message digest logKey artefacts now st = Some (r, st')"
  shows "Finish aid token success' message' digest' logKey' artefacts' now' st' =
    Some (if success' = success \<and> message' = message \<and> digest' = digest \<and> logKey' = logKey \<and>
             artefacts' = artefacts then r else Inl ErrConflict, st')"
proof -
  have w: "wellFormed st" by (rule reachable_wellFormed [OF assms(1)])
  let ?b = "committed success message digest logKey artefacts now a"
  have b: "map_of (attempts st') aid = Some ?b" "r = Inr ?b"
    using Finish_commit [OF w assms(2), of success message digest logKey artefacts] assms(3) by auto
  have w': "wellFormed st'"
    using Finish_keeps [OF w, of aid token success message digest logKey artefacts now] assms(3) by (simp add: keeps_def)
  have s: "att_Status ?b = wantedState success" "att_LeaseToken ?b = token"
    using assms(2) by (simp_all add: committed_def holdsLease_def)
  then have "\<not> holdsLease st' now' aid token ?b" by (simp add: holdsLease_def)
  from Finish_cases [OF w' b(1) this] s b(2) show ?thesis
    by (auto simp: committed_def wantedState_def)
qed

theorem Finish_once_witness:
  "Finish ''attempt_c1'' ''lease_c0'' True ''ok'' ''sha256:1'' ''logs'' [] 500 demoBuilt =
     Some (Inr (demoDone ''sha256:1'' 40 demoAttempt1), demoBuilt) \<and>
   Finish ''attempt_c1'' ''lease_c0'' False ''ok'' ''sha256:1'' ''logs'' [] 500 demoBuilt =
     Some (Inl ErrConflict, demoBuilt)"
proof -
  have "holdsLease demoLeased 40 ''attempt_c1'' ''lease_c0'' demoAttempt1"
    by (simp add: holdsLease_def due_def demo_states demoAttempt1_def demoAttempt_def demoJob_def
      demoBuild_def jobTimeout_def zeroJobSpec_def durTimes_def wrap64_def Second_def timeSub_def)
  from Finish_once [OF demo_reachable(3) this demo_finish, of _ "''ok''" "''sha256:1''" "''logs''" "[]" 500]
  show ?thesis by simp
qed

section \<open>Heartbeats\<close>

definition renewed :: "Config \<Rightarrow> time \<Rightarrow> Attempt \<Rightarrow> Attempt" where
  "renewed c now a = a\<lparr>att_Status := StateRunning,
     att_StartedAt := (if att_Status a = StateLeased then now else att_StartedAt a),
     att_LeaseExpires := now + cfg_LeaseTTL c\<rparr>"

lemma HeartbeatAttempt_renewed:
  assumes w: "wellFormed st" and a: "map_of (attempts st) aid = Some a"
  shows "HeartbeatAttempt aid token now st =
    Some (if holdsLease st now aid token a
      then (Inr (renewed (config st) now a),
        st\<lparr>attempts := mutate aid (\<lambda>_. renewed (config st) now a) (attempts st),
           jobs := mutate (att_JobID a) (\<lambda>j. j\<lparr>job_Status := StateRunning\<rparr>) (jobs st)\<rparr>)
      else (Inl ErrStaleLease, st))"
proof (cases "holdsLease st now aid token a")
  case True
  then obtain j where j: "map_of (jobs st) (att_JobID a) = Some j" "job_Status j = att_Status a"
      "now < att_LeaseExpires a" "timeSub now (att_CreatedAt a) < jobTimeout j"
    by (rule holdsLease_job [OF wellFormed_base [OF w]])
  have running: "mutate (att_JobID a) (\<lambda>j. j\<lparr>job_Status := StateRunning\<rparr>) (jobs st) = jobs st"
    if "att_Status a = StateRunning"
  proof -
    have "distinct (keys (jobs st))" using wellFormed_refs [OF w] by (simp add: refs_def distinctKeys_def)
    then have "k = att_JobID a \<Longrightarrow> (k, i) \<in> set (jobs st) \<Longrightarrow> i\<lparr>job_Status := StateRunning\<rparr> = i" for k i
      using j(1,2) that by (auto dest: map_of_is_SomeI)
    then show ?thesis by (force simp: mutate_def mapvals_def intro!: map_idI)
  qed
  have "att_Status a = StateLeased \<or> att_Status a = StateRunning"
    using True by (auto simp: holdsLease_def active_def)
  then show ?thesis
  proof
    assume "att_Status a = StateLeased"
    then show ?thesis using True a j by (simp add: HeartbeatAttempt_def holdsLease_def renewed_def not_le Let_def)
  next
    assume s: "att_Status a = StateRunning"
    then have "renewed (config st) now a = a\<lparr>att_LeaseExpires := now + cfg_LeaseTTL (config st)\<rparr>"
      by (cases a) (simp add: renewed_def)
    with s show ?thesis using True a j running [OF s] by (simp add: HeartbeatAttempt_def holdsLease_def not_le Let_def)
  qed
next
  case False
  obtain j where "map_of (jobs st) (att_JobID a) = Some j"
    using a w by (auto elim: refs_job_of_attempt [OF wellFormed_refs])
  with a False show ?thesis by (auto simp: HeartbeatAttempt_def holdsLease_def due_def not_le)
qed

text \<open>
  A heartbeat of the holder of a running lease moves the deadline to one lease period from now,
  marks attempt and job as running and changes nothing else; any other heartbeat of the attempt is
  answered with \<open>ErrStaleLease\<close> and changes nothing. The job's timeout is never extended.
\<close>

lemma HeartbeatAttempt_renews:
  assumes "reachable allowed c st" "map_of (attempts st) aid = Some a"
  shows "HeartbeatAttempt aid token now st =
    Some (if holdsLease st now aid token a
      then (Inr (renewed (config st) now a),
        st\<lparr>attempts := mutate aid (\<lambda>_. renewed (config st) now a) (attempts st),
           jobs := mutate (att_JobID a) (\<lambda>j. j\<lparr>job_Status := StateRunning\<rparr>) (jobs st)\<rparr>)
      else (Inl ErrStaleLease, st))"
  by (rule HeartbeatAttempt_renewed [OF reachable_wellFormed [OF assms(1)] assms(2)])

lemma HeartbeatAttempt_renews_sample:
  "HeartbeatAttempt ''attempt_c1'' ''lease_c0'' 100 demoLeased =
     Some (Inr (renewed (withDefaults demoConfig) 100 demoAttempt1),
       demoLeased\<lparr>attempts := [(''attempt_c1'', renewed (withDefaults demoConfig) 100 demoAttempt1)],
         jobs := demoJobs StateRunning [''attempt_c1''] StateQueued []\<rparr>)"
proof -
  have h: "holdsLease demoLeased 100 ''attempt_c1'' ''lease_c0'' demoAttempt1"
    by (simp add: holdsLease_def due_def demo_states demoAttempt1_def demoAttempt_def demoJob_def
      demoBuild_def jobTimeout_def zeroJobSpec_def durTimes_def wrap64_def Second_def timeSub_def)
  have a: "map_of (attempts demoLeased) ''attempt_c1'' = Some demoAttempt1" by (simp add: demo_states)
  show ?thesis
    using HeartbeatAttempt_renews [OF demo_reachable(3) a, of "''lease_c0''" 100] h
    by (simp add: demo_states mutate_def mapvals_def demoJob_def demoAttempt1_def demoAttempt_def)
qed

section \<open>Expiry\<close>

text \<open>
  C17: Work on a dead worker is recovered. A pass of \<open>reconcileExpiredLocked\<close> over all attempts never
  panics and leaves no attempt with an expired lease or a timed-out job; the job of a reclaimed
  attempt is no longer held by a worker, and if it is queued again it has an attempt left.
\<close>

theorem reconcileExpired_recovers:
  assumes "reachable allowed c st" "set (keys (attempts st)) \<subseteq> set (visitAttempts w)"
  shows "\<exists>st' n. reconcileExpiredLocked w now st = Some (st', n) \<and>
    (\<forall>aid a. map_of (attempts st') aid = Some a \<longrightarrow> \<not> due st' now a) \<and>
    (\<forall>aid a. map_of (attempts st) aid = Some a \<longrightarrow> due st now a \<longrightarrow>
       (\<exists>j. map_of (jobs st') (att_JobID a) = Some j \<and> \<not> active (job_Status j) \<and>
          (job_Status j = StateQueued \<longrightarrow> int (length (job_AttemptIDs j)) < attemptLimit j)))"
proof -
  have w: "wellFormed st" by (rule reachable_wellFormed [OF assms(1)])
  obtain st' n where r: "reconcileExpiredLocked w now st = Some (st', n)" "wellFormed st'" "advance st st'"
    using reconcileExpired_wellFormed [OF w] by blast
  have d: "\<not> due st' now a" if "map_of (attempts st') aid = Some a" for aid a
  proof -
    have "aid \<in> set (keys (attempts st'))" by (rule map_of_in_keys [OF that])
    moreover have "keys (attempts st') = keys (attempts st)" using r(3) by (simp add: advance_def sameCore_def)
    ultimately have "aid \<in> set (visitAttempts w)" using assms(2) by (metis subsetD)
    with reconcileExpired_reclaims [OF w r(1) _ that] show ?thesis by blast
  qed
  moreover have "\<exists>j. map_of (jobs st') (att_JobID a) = Some j \<and> \<not> active (job_Status j) \<and>
      (job_Status j = StateQueued \<longrightarrow> int (length (job_AttemptIDs j)) < attemptLimit j)"
    if a: "map_of (attempts st) aid = Some a" "due st now a" for aid a
    by (rule reclaimed_job [OF w r a d])
  ultimately show ?thesis using r(1) by blast
qed

theorem reconcileExpired_recovers_witness:
  "\<exists>st' n j. reconcileExpiredLocked (demoWorld ''d'' [''attempt_c1''] []) 130 demoLeased = Some (st', n) \<and>
     map_of (jobs st') ''job_b1'' = Some j \<and> \<not> active (job_Status j)"
proof -
  have k: "set (keys (attempts demoLeased)) \<subseteq> set (visitAttempts (demoWorld ''d'' [''attempt_c1''] []))"
    by (simp add: demo_states demoWorld_def)
  have a: "map_of (attempts demoLeased) ''attempt_c1'' = Some demoAttempt1" "due demoLeased 130 demoAttempt1"
    by (simp_all add: demo_states due_def demoAttempt1_def demoAttempt_def)
  from reconcileExpired_recovers [OF demo_reachable(3) k, of 130] a show ?thesis
    by (fastforce simp: demoAttempt1_def demoAttempt_def)
qed

section \<open>Cancellation\<close>

text \<open>
  Cancelling an unfinished job cancels its pipeline as a whole: the call returns, the pipeline is
  cancelled, all its jobs are in a final state and none of their attempts is active any more.
  Cancelling a finished job returns it and changes nothing.
\<close>

lemma CancelJob_cancels:
  assumes "reachable allowed c st" "map_of (jobs st) jid = Some j"
  shows "if terminal (job_Status j) then CancelJob jid now st = Some (Inr j, st)
    else \<exists>j' st'. CancelJob jid now st = Some (Inr j', st') \<and> job_Status j' = StateCancelled \<and>
      map_option pl_Status (map_of (pipelines st') (job_PipelineID j)) = Some StateCancelled \<and>
      (\<forall>k i. map_of (jobs st') k = Some i \<longrightarrow> job_PipelineID i = job_PipelineID j \<longrightarrow>
         terminal (job_Status i) \<and>
         (\<forall>aid a. map_of (attempts st') aid = Some a \<longrightarrow> att_JobID a = k \<longrightarrow> \<not> active (att_Status a)))"
  by (rule CancelJob_effect [OF reachable_wellFormed [OF assms(1)] assms(2)])

lemma CancelJob_cancels_sample:
  "\<exists>j' st'. CancelJob ''job_b2'' 40 demoLeased = Some (Inr j', st') \<and> job_Status j' = StateCancelled"
proof -
  have "map_of (jobs demoLeased) ''job_b2'' = Some (demoJob ''job_b2'' ''deploy'' demoDeploy 2 StateQueued [])"
    by (simp add: demo_states)
  from CancelJob_cancels [OF demo_reachable(3) this, of 40] show ?thesis
    by (auto simp: demoJob_def)
qed

end
