(* ===== verification/Lifecycle.thy ===== *)
theory Lifecycle
  imports Protocol
begin

text \<open>
  The properties of every reachable state of the store: no operation panics, a job runs at most once
  at a time, the states of a pipeline, its jobs and their attempts agree, what has ended stays ended,
  and the retry budget is respected.
\<close>

text \<open>
  C3: No operation ever panics. From every state reachable by the exported operations every further
  request, whatever its arguments, its time and the order in which Go iterates over its maps, is
  answered (with a result or an error), provided the random identifiers it draws are unused; the
  state it leaves is reachable again.
\<close>

theorem serve_answers:
  assumes "reachable anyRequest c st" "fresh w st"
  shows "\<exists>st'. serve w js now req st = Some st' \<and> reachable anyRequest c st'"
proof -
  obtain st' where s: "serve w js now req st = Some st'"
    using serve_contract [OF reachable_wellFormed [OF assms(1)] assms(2)] by blast
  then have "store_step anyRequest st st'" using assms(2) by (blast intro: store_step.serving)
  with s assms(1) show ?thesis by (blast intro: reachable.step)
qed

theorem serve_answers_witness:
  "\<exists>st'. serve (demoWorld ''f'' [''attempt_e1''] [''pl_b0'', ''missing'']) demoJson 100 ReqReconcile demoDeploying = Some st' \<and>
     reachable anyRequest demoConfig st'"
  by (rule serve_answers [OF demo_reachable(5) demo_fresh2(4)]) simp

text \<open>
  C2: No job is executed twice at the same time. In every reachable state an active attempt is the
  last one of its job, its job is leased or running exactly like it, and no other attempt of the
  same job is active.
\<close>

theorem active_attempt_unique:
  assumes "reachable anyRequest c st" "map_of (attempts st) aid = Some a" "active (att_Status a)"
  shows "\<exists>j. map_of (jobs st) (att_JobID a) = Some j \<and> job_Status j = att_Status a \<and>
    last (job_AttemptIDs j) = aid \<and>
    (\<forall>k b. map_of (attempts st) k = Some b \<longrightarrow> att_JobID b = att_JobID a \<longrightarrow> active (att_Status b) \<longrightarrow> k = aid)"
proof -
  have b: "base st" by (rule wellFormed_base [OF reachable_wellFormed [OF assms(1)]])
  obtain j where j: "map_of (jobs st) (att_JobID a) = Some j" "job_Status j = att_Status a"
      "last (job_AttemptIDs j) = aid"
    using leasesOK_active [OF b assms(2,3)] by metis
  have "k = aid" if "map_of (attempts st) k = Some b" "att_JobID b = att_JobID a" "active (att_Status b)" for k b
    using leasesOK_active [OF \<open>base st\<close> that(1,3)] that(2) j by auto
  with j show ?thesis by blast
qed

theorem active_attempt_unique_witness:
  "\<exists>j. map_of (jobs demoDeploying) ''job_b2'' = Some j \<and> job_Status j = StateLeased \<and>
     last (job_AttemptIDs j) = ''attempt_e1''"
proof -
  have "map_of (attempts demoDeploying) ''attempt_e1'' = Some demoAttempt2" "active (att_Status demoAttempt2)"
    by (simp_all add: demo_states demoAttempt2_def demoAttempt_def)
  from active_attempt_unique [OF demo_reachable(5) this] show ?thesis
    by (auto simp: demoAttempt2_def demoAttempt_def)
qed

text \<open>
  C14: A pipeline's state is the aggregate of its jobs' states, in every reachable state: it has
  succeeded exactly if all its jobs have; it is final exactly if all its jobs are; a failed pipeline
  has a failed job, a cancelled one a cancelled job; and an open one has no failed and no cancelled job.
\<close>

theorem pipeline_aggregate:
  assumes "reachable anyRequest c st" "map_of (pipelines st) plID = Some p"
  shows "(pl_Status p = StateSucceeded \<longleftrightarrow> statusesOf st p = {StateSucceeded}) \<and>
    (terminal (pl_Status p) \<longleftrightarrow> (\<forall>s \<in> statusesOf st p. terminal s)) \<and>
    (pl_Status p = StateFailed \<longrightarrow> StateFailed \<in> statusesOf st p) \<and>
    (pl_Status p = StateCancelled \<longrightarrow> StateCancelled \<in> statusesOf st p) \<and>
    (\<not> terminal (pl_Status p) \<longrightarrow> StateFailed \<notin> statusesOf st p \<and> StateCancelled \<notin> statusesOf st p)"
proof -
  have w: "wellFormed st" by (rule reachable_wellFormed [OF assms(1)])
  have "pl_JobIDs p \<noteq> []" using refs_pipeline [OF wellFormed_refs [OF w] assms(2)] by (simp add: pipelineRefs_def)
  then have "hd (pl_JobIDs p) \<in> set (pl_JobIDs p)" by (rule hd_in_set)
  then obtain j where "map_of (jobs st) (hd (pl_JobIDs p)) = Some j" "hd (pl_JobIDs p) \<in> set (pl_JobIDs p)"
    using refs_job_of_pipeline [OF wellFormed_refs [OF w] assms(2)] by metis
  then have "job_Status j \<in> statusesOf st p" by (auto simp: statusesOf_def)
  then have "statusesOf st p \<noteq> {}" by auto
  have "aggregateOK s S \<Longrightarrow> S \<noteq> {} \<Longrightarrow> (s = StateSucceeded \<longleftrightarrow> S = {StateSucceeded}) \<and>
      (s = StateFailed \<longrightarrow> StateFailed \<in> S) \<and> (s = StateCancelled \<longrightarrow> StateCancelled \<in> S) \<and>
      (\<not> terminal s \<longrightarrow> StateFailed \<notin> S \<and> StateCancelled \<notin> S)" for s S
    unfolding aggregateOK_def by (elim disjE conjE) (simp_all, blast+)
  from this [OF wellFormed_aggregate [OF w assms(2)] \<open>statusesOf st p \<noteq> {}\<close>] terminal_iff [OF w assms(2)]
  show ?thesis by blast
qed

theorem pipeline_aggregate_witness:
  "statusesOf demoDeployed (demoPipeline StateSucceeded) = {StateSucceeded}"
  using pipeline_aggregate [OF demo_reachable(6), of "''pl_b0''" "demoPipeline StateSucceeded"]
  by (simp add: demo_states demoPipeline_def)

text \<open>
  C34: What has ended stays ended. No step of the machine changes the final state of a pipeline or of
  a job, nor the state of an attempt that is no longer active, and no step changes the immutable
  part of a record (the configuration, what a pipeline was submitted with, what a job and an attempt
  belong to); a job's list of attempts only grows at the end.
\<close>

theorem terminal_stable:
  assumes "reachable anyRequest c st" "store_step anyRequest st st'"
  shows "config st' = config st \<and>
    (\<forall>k p p'. map_of (pipelines st) k = Some p \<longrightarrow> map_of (pipelines st') k = Some p' \<longrightarrow>
       plCore p' = plCore p \<and> (terminal (pl_Status p) \<longrightarrow> pl_Status p' = pl_Status p)) \<and>
    (\<forall>k j j'. map_of (jobs st) k = Some j \<longrightarrow> map_of (jobs st') k = Some j' \<longrightarrow>
       job_Spec j' = job_Spec j \<and> job_PipelineID j' = job_PipelineID j \<and>
       (\<exists>ids. job_AttemptIDs j' = job_AttemptIDs j @ ids) \<and>
       (terminal (job_Status j) \<longrightarrow> job_Status j' = job_Status j)) \<and>
    (\<forall>k a a'. map_of (attempts st) k = Some a \<longrightarrow> map_of (attempts st') k = Some a' \<longrightarrow>
       attCore a' = attCore a \<and> (\<not> active (att_Status a) \<longrightarrow> att_Status a' = att_Status a))"
proof -
  obtain w js now req where s: "fresh w st" "serve w js now req st = Some st'"
    using assms(2) by (auto elim: store_stepE)
  have "evolve st st'"
    using serve_contract [OF reachable_wellFormed [OF assms(1)] s(1), of js now req] s(2) by simp
  then show ?thesis unfolding evolve_def by blast
qed

theorem terminal_stable_witness:
  "att_Status (the (map_of (attempts demoDeploying) ''attempt_c1'')) = StateSucceeded \<and> config demoDeploying = config demoBuilt"
proof -
  have "store_step anyRequest demoBuilt demoDeploying"
    by (rule store_step.serving [where req = ReqSchedule and now = 50,
      OF demo_fresh2(3) [of "''e''" "[''attempt_c1'']" "[]"]]) (simp_all add: demo_schedule2)
  from terminal_stable [OF demo_reachable(4) this] show ?thesis
    by (simp add: demo_states demoDone_def demoAttempt1_def demoAttempt_def demoAttempt2_def)
qed

text \<open>
  C35: Retries are bounded. In every reachable state a job has at most \<open>MaxAttempts\<close> attempts (three
  when the specification gives none), they are numbered from one in the order in which they were
  made, all but the last have ended, and a queued job still has an attempt left.
\<close>

theorem retry_budget:
  assumes "reachable anyRequest c st" "map_of (jobs st) jid = Some j"
  shows "int (length (job_AttemptIDs j)) \<le> attemptLimit j \<and>
    (job_Status j = StateQueued \<longrightarrow> int (length (job_AttemptIDs j)) < attemptLimit j) \<and>
    (\<forall>n < length (job_AttemptIDs j). \<exists>a. map_of (attempts st) (job_AttemptIDs j ! n) = Some a \<and>
       att_JobID a = jid \<and> att_Number a = int n + 1 \<and>
       (Suc n < length (job_AttemptIDs j) \<longrightarrow> \<not> active (att_Status a)))"
proof -
  have w: "wellFormed st" by (rule reachable_wellFormed [OF assms(1)])
  have "jobOK j" using w assms(2) by (auto simp: wellFormed_def base_def intro: leasesOK_jobOK)
  moreover have "\<exists>a. map_of (attempts st) (job_AttemptIDs j ! n) = Some a \<and> att_JobID a = jid \<and>
      att_Number a = int n + 1 \<and> (Suc n < length (job_AttemptIDs j) \<longrightarrow> \<not> active (att_Status a))"
    if "n < length (job_AttemptIDs j)" for n
    by (rule nth_attempt [OF w assms(2) that])
  ultimately show ?thesis by (auto simp: jobOK_def)
qed

theorem retry_budget_witness:
  "int (length [''attempt_c1'']) \<le> attemptLimit (demoJob ''job_b1'' ''build'' demoBuild 1 StateLeased [''attempt_c1''])"
  using retry_budget [OF demo_reachable(3), of "''job_b1''"
      "demoJob ''job_b1'' ''build'' demoBuild 1 StateLeased [''attempt_c1'']"]
  by (simp add: demo_states demoJob_def)

end
