(* ===== verification/Bounds.thy ===== *)
theory Bounds
  imports Lifecycle
begin

text \<open>
  Invariants of the machine on top of well-formedness: the queue never exceeds its bound, and no
  tenant ever holds more CPU or memory than its quota. Each is an instance of the interface
  \<open>store_invariant\<close>.
\<close>

section \<open>The kinds of steps\<close>

lemma keeps_advance: "keeps st m \<Longrightarrow> m = Some (r, st') \<Longrightarrow> advance st st'"
  by (simp add: keeps_def)

lemma intake_grows: "intake spec st m \<Longrightarrow> m = Some (r, st') \<Longrightarrow> grows spec st st'"
  by (simp add: intake_def)

lemma Reconcile_split:
  assumes w: "wellFormed st" and r: "Reconcile wo now st = Some (r, st')"
  obtains s where "advance st s" "wellFormed s" "shrinks s st'"
proof -
  obtain st1 n where 1: "reconcileExpiredLocked wo now st = Some (st1, n)" "wellFormed st1" "advance st st1"
    using reconcileExpired_wellFormed [OF w] by blast
  obtain st2 d where 2: "fold (reconcilePreview now) (visitPreviews wo) (st1, 0) = (st2, d)"
    by (cases "fold (reconcilePreview now) (visitPreviews wo) (st1, 0 :: int)")
  have s: "sameWork st1 st2"
    using reconcilePreviews_sameWork [of "(st1, 0)" now "visitPreviews wo"] by (simp add: 2)
  note w2 = sameWork_wellFormed [OF s 1(2)]
  obtain st3 where 3: "pruneLocked wo now st2 = Some st3" "shrinks st2 st3" using prune_ok [OF w2] by blast
  have "st3 = st'" using r 1(1) 2 3(1) by (simp add: Reconcile_def)
  with that [OF advance_trans [OF 1(3) sameWork_advance [OF s]] w2] 3(2) show thesis by simp
qed

fun requestSpec :: "Request \<Rightarrow> PipelineSpec option" where
  "requestSpec (ReqCreate _ _ _ _ _ spec) = Some spec"
| "requestSpec (ReqCreateFor _ _ _ _ _ _ spec) = Some spec"
| "requestSpec (ReqSubmit input) = Some (sub_Spec input)"
| "requestSpec _ = None"

lemma serve_kind:
  assumes w: "wellFormed st" and f: "fresh wo st" and s: "serve wo js now req st = Some st'"
  obtains (advance) "advance st st'"
  | (grow) spec where "requestSpec req = Some spec" "grows spec st st'"
  | (workers) ws where "st' = st\<lparr>workers := ws\<rparr>"
      "(\<exists>wk. req = ReqRegister wk) \<or> (\<exists>wid. req = ReqHeartbeatWorker wid)"
  | (schedule) r where "req = ReqSchedule" "ScheduleOne wo now st = Some (r, st')"
  | (shrink) s where "advance st s" "wellFormed s" "shrinks s st'"
proof -
  note adv = advance
  show thesis
  proof (cases req)
    case (ReqCreate t r c g n spec)
    with s grow intake_grows [OF CreatePipeline_intake [OF w f]] show ?thesis by auto
  next
    case (ReqCreateFor rid t r c g n spec)
    with s grow intake_grows [OF CreatePipelineForDelivery_intake [OF w f]] show ?thesis by auto
  next
    case (ReqSubmit input)
    with s grow intake_grows [OF Submit_intake [OF w f]] show ?thesis by auto
  next
    case (ReqClose rid r n)
    with s adv keeps_advance [OF MarkPreviewDeleting_keeps [OF w]] show ?thesis by auto
  next
    case (ReqRegister worker)
    with s have "st' = st \<or> (\<exists>ws. st' = st\<lparr>workers := ws\<rparr>)"
      by (auto simp: RegisterWorker_def Let_def split: if_splits)
    with adv workers ReqRegister show ?thesis by (metis advance_refl)
  next
    case (ReqHeartbeatWorker wid)
    with s have "st' = st \<or> (\<exists>ws. st' = st\<lparr>workers := ws\<rparr>)"
      by (auto simp: HeartbeatWorker_def split: option.splits)
    with adv workers ReqHeartbeatWorker show ?thesis by (metis advance_refl)
  next
    case (ReqTenantLimit t n)
    with s adv keeps_advance [OF SetTenantLimit_keeps [OF w, of t n]] show ?thesis by (cases "SetTenantLimit t n st") auto
  next
    case ReqSchedule
    with s schedule show ?thesis by auto
  next
    case (ReqHeartbeat aid token)
    with s adv keeps_advance [OF HeartbeatAttempt_keeps [OF w]] show ?thesis by auto
  next
    case (ReqComplete aid token success message)
    with s adv keeps_advance [OF completeAttempt_keeps [OF w]] show ?thesis by (auto simp: CompleteAttempt_def)
  next
    case (ReqFinish aid token success message digest logKey artefacts)
    with s adv keeps_advance [OF Finish_keeps [OF w]] show ?thesis by auto
  next
    case (ReqCancel jid)
    with s adv keeps_advance [OF CancelJob_keeps [OF w]] show ?thesis by auto
  next
    case ReqReconcile
    with s obtain r where "Reconcile wo now st = Some (r, st')" by auto
    then show ?thesis by (rule Reconcile_split [OF w]) (rule shrink)
  next
    case (ReqObserve p actual url lastError)
    with s adv keeps_advance [OF ObservePreview_keeps [OF w, of p actual url lastError]] show ?thesis
      by (cases "ObservePreview p actual url lastError st") auto
  next
    case (ReqRecordCheck plID n x)
    with s adv keeps_advance [OF RecordCheck_keeps [OF w, of plID n x]] show ?thesis
      by (cases "RecordCheck plID n x st") auto
  next
    case ReqEnsure
    with s adv keeps_advance [OF EnsurePreviews_keeps [OF w]] show ?thesis by auto
  qed
qed

section \<open>The queue bound\<close>

lemma jobs_distinct: "wellFormed st \<Longrightarrow> distinct (keys (jobs st))"
  using wellFormed_refs by (simp add: refs_def distinctKeys_def)

lemma queuedCount_mono:
  assumes "wellFormed st" "distinct (keys (jobs st'))"
    and "\<And>k j'. map_of (jobs st') k = Some j' \<Longrightarrow> \<not> terminal (job_Status j') \<Longrightarrow>
      \<exists>j. map_of (jobs st) k = Some j \<and> \<not> terminal (job_Status j)"
  shows "queuedCountLocked st' \<le> queuedCountLocked st"
  unfolding queuedCountLocked_def of_nat_le_iff
  by (rule countv_mono) (use assms jobs_distinct in auto)

lemma advance_queued:
  assumes "wellFormed st" "advance st st'"
  shows "queuedCountLocked st' \<le> queuedCountLocked st"
proof (rule queuedCount_mono [OF assms(1)])
  have "keys (jobs st') = keys (jobs st)" using assms(2) by (simp add: advance_def sameCore_def)
  with jobs_distinct [OF assms(1)] show "distinct (keys (jobs st'))" by simp
next
  fix k j' assume j': "map_of (jobs st') k = Some j'" "\<not> terminal (job_Status j')"
  then obtain j where "map_of (jobs st) k = Some j"
    using assms(2) by (auto simp: advance_def elim: sameCore_sym_job)
  with j' assms(2) show "\<exists>j. map_of (jobs st) k = Some j \<and> \<not> terminal (job_Status j)"
    by (auto simp: advance_def keepsTerminal_def)
qed

lemma shrinks_queued:
  "wellFormed st \<Longrightarrow> wellFormed st' \<Longrightarrow> shrinks st st' \<Longrightarrow> queuedCountLocked st' \<le> queuedCountLocked st"
  by (rule queuedCount_mono) (unfold shrinks_def, auto simp: jobs_distinct simp del: map_of_eq_Some_iff)

lemma extended_queued:
  assumes e: "extended st plID p js st'"
  shows "queuedCountLocked st' = queuedCountLocked st + int (length js)"
proof -
  have "countv (\<lambda>j. \<not> terminal (job_Status j)) js = length js"
    using e by (auto simp: countv_def extended_def intro!: arg_cong [where f = length] filter_True)
  then show ?thesis using e by (simp add: queuedCountLocked_def extended_def countv_def)
qed

lemma leased_queued:
  assumes w: "wellFormed st" and f: "fresh wo st" and l: "leased wo now st ts tenant pre jid s1 job wk l st'"
  shows "queuedCountLocked st' \<le> queuedCountLocked st"
proof -
  note L = leased_state [OF w f l]
  note E = issueLease_effect [OF L(2) L(6) L(5)]
  have s: "sameReasons st s1" using l by (simp add: leased_def)
  show ?thesis
  proof (rule queuedCount_mono [OF w jobs_distinct [OF L(7)]])
    fix k j' assume j': "map_of (jobs st') k = Some j'" "\<not> terminal (job_Status j')"
    then obtain i where "map_of (jobs s1) k = Some i" "\<not> terminal (job_Status i)"
      using L(2,3) by (cases "k = jid") (auto simp: E(1))
    moreover from this(1) obtain j where "map_of (jobs st) k = Some j" "noReason i = noReason j"
      by (rule sameReasons_sym_job [OF s])
    ultimately show "\<exists>j. map_of (jobs st) k = Some j \<and> \<not> terminal (job_Status j)"
      using noReason_eq [of i] by metis
  qed
qed

lemma ScheduleOne_queued:
  assumes w: "wellFormed st" and f: "fresh wo st" and s: "ScheduleOne wo now st = Some (r, st')"
  shows "queuedCountLocked st' \<le> queuedCountLocked st"
  using w
proof (cases rule: ScheduleOne_cases [where wo = wo and now = now])
  case (nowork st1 n st2)
  have "queuedCountLocked st1 \<le> queuedCountLocked st" by (rule advance_queued [OF w nowork(3)])
  moreover have "queuedCountLocked st2 \<le> queuedCountLocked st1"
    by (rule advance_queued [OF nowork(2) sameReasons_advance [OF nowork(4)]])
  ultimately show ?thesis using nowork(5) s by simp
next
  case (lease st1 n ts tenant pre jid s1 job wk l st2)
  have f1: "fresh wo st1" using f lease(3) fresh_sameCore by (auto simp: advance_def)
  have "queuedCountLocked st1 \<le> queuedCountLocked st" by (rule advance_queued [OF w lease(3)])
  moreover have "queuedCountLocked st2 \<le> queuedCountLocked st1" by (rule leased_queued [OF lease(2) f1 lease(4)])
  ultimately show ?thesis using lease(5) s by simp
qed

lemma serve_queued:
  assumes w: "wellFormed st" and w': "wellFormed st'" and f: "fresh wo st"
    and s: "serve wo js now req st = Some st'" and q: "queuedCountLocked st \<le> cfg_MaxQueuedJobs (config st)"
  shows "queuedCountLocked st' \<le> cfg_MaxQueuedJobs (config st)"
  using w f s
proof (cases rule: serve_kind)
  case advance
  from advance_queued [OF w this] q show ?thesis by simp
next
  case (grow spec)
  from grow(2) show ?thesis
    unfolding grows_def
  proof (elim disjE exE conjE)
    assume "advance st st'"
    from advance_queued [OF w this] q show ?thesis by simp
  next
    fix order st2 k p js
    assume b: "queuedCountLocked st + int (length order) \<le> cfg_MaxQueuedJobs (config st)"
      and a: "advance st st2" and e: "extended st2 k p js st'" and n: "length js = length order"
    have "queuedCountLocked st2 \<le> queuedCountLocked st"
      by (rule advance_queued [OF w a])
    with b n extended_queued [OF e] show ?thesis by simp
  qed
next
  case (workers ws)
  with q show ?thesis by (simp add: queuedCountLocked_def)
next
  case (schedule r)
  with ScheduleOne_queued [OF w f] q show ?thesis by fastforce
next
  case (shrink s)
  with advance_queued [OF w] shrinks_queued [OF _ w'] q show ?thesis by fastforce
qed

lemma withDefaults_pos:
  "cfg_MaxQueuedJobs (withDefaults c) > 0" "cfg_TenantCPU (withDefaults c) > 0"
  "cfg_TenantMemoryMB (withDefaults c) > 0"
  by (simp_all add: withDefaults_def)

interpretation bounded: store_invariant anyRequest "\<lambda>_. True"
  "\<lambda>st. queuedCountLocked st \<le> cfg_MaxQueuedJobs (config st)"
proof unfold_locales
  show "queuedCountLocked (New c) \<le> cfg_MaxQueuedJobs (config (New c))" for c
    using withDefaults_pos(1) [of c] by (simp add: New_def queuedCountLocked_def countv_def)
next
  fix st st' w req js now
  assume "wellFormed st" "wellFormed st'" "evolve st st'" "queuedCountLocked st \<le> cfg_MaxQueuedJobs (config st)"
    "fresh w st" "serve w js now req st = Some st'"
  then show "queuedCountLocked st' \<le> cfg_MaxQueuedJobs (config st')"
    using serve_queued by (simp add: evolve_def)
qed

text \<open>
  The queue is bounded. In every reachable state at most \<open>MaxQueuedJobs\<close> jobs are unfinished,
  whatever was submitted, retried, superseded and pruned in between.
\<close>

lemma queue_bounded:
  assumes "reachable anyRequest c st"
  shows "queuedCountLocked st \<le> cfg_MaxQueuedJobs (withDefaults c)"
  using bounded.always [OF assms] reachable_config [OF assms] by simp

lemma queue_bounded_sample: "queuedCountLocked demoQueued \<le> 3"
  using queue_bounded [OF demo_reachable(2)] by (simp add: withDefaults_def demoConfig_def)

end
