(* ===== verification/Quota.thy ===== *)
theory Quota
  imports Bounds
begin

text \<open>
  The tenants' resource quotas as an invariant of the machine. \<open>usage\<close> is the exact sum of what a
  tenant's active attempts hold; the code computes it in 64-bit arithmetic (\<open>usedResourcesLocked\<close>),
  which is exact as long as no single job asks for more than \<open>2 ^ 62\<close> units and the quotas are below
  that bound.
\<close>

section \<open>What a tenant holds\<close>

definition share :: "(Resources \<Rightarrow> int) \<Rightarrow> Store \<Rightarrow> string \<Rightarrow> string \<Rightarrow> int" where
  "share f st t k =
     (case map_of (attempts st) k of
        None \<Rightarrow> 0
      | Some a \<Rightarrow> if \<not> active (att_Status a) then 0
          else (case map_of (jobs st) (att_JobID a) of
                  None \<Rightarrow> 0
                | Some j \<Rightarrow> if job_Tenant j = t then f (spec_Resources (job_Spec j)) else 0))"

definition usage :: "(Resources \<Rightarrow> int) \<Rightarrow> Store \<Rightarrow> string \<Rightarrow> int" where
  "usage f st t = (\<Sum>k \<in> set (keys (attempts st)). share f st t k)"

definition smallSpec :: "JobSpec \<Rightarrow> bool" where
  "smallSpec s \<longleftrightarrow> 0 \<le> res_CPU (spec_Resources s) \<and> res_CPU (spec_Resources s) \<le> 2 ^ 62 \<and>
     0 \<le> res_Memory (spec_Resources s) \<and> res_Memory (spec_Resources s) \<le> 2 ^ 62"

definition smallJobs :: "Store \<Rightarrow> bool" where
  "smallJobs st \<longleftrightarrow> (\<forall>k j. map_of (jobs st) k = Some j \<longrightarrow> smallSpec (job_Spec j))"

definition measured :: "(Resources \<Rightarrow> int) \<Rightarrow> bool" where
  "measured f \<longleftrightarrow> f = res_CPU \<or> f = res_Memory"

lemma smallSpec_nonneg: "measured f \<Longrightarrow> smallSpec s \<Longrightarrow> 0 \<le> f (spec_Resources s) \<and> f (spec_Resources s) \<le> 2 ^ 62"
  by (auto simp: measured_def smallSpec_def)

lemma share_nonneg: "measured f \<Longrightarrow> smallJobs st \<Longrightarrow> 0 \<le> share f st t k"
  by (auto simp: share_def smallJobs_def dest: smallSpec_nonneg split: option.split)

lemma usage_nonneg: "measured f \<Longrightarrow> smallJobs st \<Longrightarrow> 0 \<le> usage f st t"
  unfolding usage_def by (intro sum_nonneg share_nonneg)

lemma share_mono:
  assumes w: "wellFormed st" "wellFormed st'" and e: "evolve st st'" and m: "measured f" "smallJobs st"
    and k: "\<And>a'. map_of (attempts st') k = Some a' \<Longrightarrow> \<exists>a. map_of (attempts st) k = Some a"
  shows "share f st' t k \<le> share f st t k"
proof (cases "map_of (attempts st') k")
  case None
  then have "share f st' t k = 0" by (simp add: share_def)
  then show ?thesis using share_nonneg [OF m] by simp
next
  case (Some b)
  show ?thesis
  proof (cases "active (att_Status b)")
    case False
    with Some have "share f st' t k = 0" by (simp add: share_def)
    then show ?thesis using share_nonneg [OF m] by simp
  next
    case True
    then obtain a where a: "map_of (attempts st) k = Some a" using k [OF Some] by blast
    then have ab: "attCore b = attCore a" "active (att_Status a)"
      using e Some True unfolding evolve_def by metis+
    obtain j where j: "map_of (jobs st) (att_JobID a) = Some j"
      using refs_job_of_attempt [OF wellFormed_refs [OF w(1)] a] by metis
    obtain j' where j': "map_of (jobs st') (att_JobID a) = Some j'"
      using refs_job_of_attempt [OF wellFormed_refs [OF w(2)] Some] attCore_eq [OF ab(1)] by metis
    have "job_Spec j' = job_Spec j" "job_Tenant j' = job_Tenant j"
      using e j j' unfolding evolve_def by metis+
    with a ab j j' Some True attCore_eq [OF ab(1)] show ?thesis by (simp add: share_def)
  qed
qed

lemma usage_mono:
  assumes w: "wellFormed st" "wellFormed st'" and e: "evolve st st'" and m: "measured f" "smallJobs st"
    and k: "set (keys (attempts st')) \<subseteq> set (keys (attempts st))"
  shows "usage f st' t \<le> usage f st t"
proof -
  have "share f st' t k \<le> share f st t k" for k
  proof (rule share_mono [OF w e m])
    fix a' assume "map_of (attempts st') k = Some a'"
    then have "k \<in> set (keys (attempts st'))" by (rule map_of_in_keys)
    then have "k \<in> set (keys (attempts st))" using assms(6) by (rule subsetD [rotated])
    then show "\<exists>a. map_of (attempts st) k = Some a" using map_of_None_keys by (metis not_None_eq)
  qed
  then have "usage f st' t \<le> (\<Sum>k \<in> set (keys (attempts st')). share f st t k)"
    unfolding usage_def by (rule sum_mono)
  also have "\<dots> \<le> usage f st t"
    unfolding usage_def by (rule sum_mono2) (use k share_nonneg [OF m] in auto)
  finally show ?thesis .
qed

section \<open>The code's sum\<close>

lemma addUsed_total:
  assumes r: "refs st" and e: "(k, a) \<in> set (attempts st)" and t: "t \<noteq> []"
  shows "addUsed st t [] (k, a) \<lparr>res_CPU = wrap64 x, res_Memory = wrap64 y\<rparr> =
    Some \<lparr>res_CPU = wrap64 (x + share res_CPU st t k), res_Memory = wrap64 (y + share res_Memory st t k)\<rparr>"
proof -
  have a: "map_of (attempts st) k = Some a" by (rule map_of_mem [OF r e])
  obtain j where "map_of (jobs st) (att_JobID a) = Some j"
    using refs_job_of_attempt [OF r a] by metis
  with a t show ?thesis by (simp add: addUsed_def share_def addResources_def wrap64_add_left)
qed

lemma usedResources_usage:
  assumes r: "refs st" and t: "t \<noteq> []"
  shows "usedResourcesLocked st t [] =
    Some \<lparr>res_CPU = wrap64 (usage res_CPU st t), res_Memory = wrap64 (usage res_Memory st t)\<rparr>"
proof -
  have "foldO (addUsed st t []) xs \<lparr>res_CPU = wrap64 x, res_Memory = wrap64 y\<rparr> =
      Some \<lparr>res_CPU = wrap64 (x + sum_list (map (share res_CPU st t) (keys xs))),
        res_Memory = wrap64 (y + sum_list (map (share res_Memory st t) (keys xs)))\<rparr>"
    if "set xs \<subseteq> set (attempts st)" for xs x y
    using that
  proof (induction xs arbitrary: x y)
    case Nil
    then show ?case by simp
  next
    case (Cons e xs)
    obtain k a where e: "e = (k, a)" by (cases e)
    have "addUsed st t [] (k, a) \<lparr>res_CPU = wrap64 x, res_Memory = wrap64 y\<rparr> =
        Some \<lparr>res_CPU = wrap64 (x + share res_CPU st t k), res_Memory = wrap64 (y + share res_Memory st t k)\<rparr>"
      by (rule addUsed_total [OF r _ t]) (use Cons.prems e in simp)
    with Cons.IH Cons.prems e show ?case by (simp add: add.assoc)
  qed
  from this [of "attempts st" 0 0] have "usedResourcesLocked st t [] =
      Some \<lparr>res_CPU = wrap64 (sum_list (map (share res_CPU st t) (keys (attempts st)))),
        res_Memory = wrap64 (sum_list (map (share res_Memory st t) (keys (attempts st))))\<rparr>"
    by (simp add: usedResourcesLocked_def wrap64_id)
  moreover have "distinct (keys (attempts st))" using r by (simp add: refs_def distinctKeys_def)
  ultimately show ?thesis by (simp only: usage_def sum_list_distinct_conv_sum_set)
qed

section \<open>One lease\<close>

lemma share_new:
  assumes w: "wellFormed s1" and j: "map_of (jobs s1) jid = Some job"
    and i: "issueLease wo now tenant jid job wk s1 = Some (l, st')"
    and fr: "newID ''attempt'' (draw wo 1) \<notin> set (keys (attempts s1))"
  shows "usage f st' t = usage f s1 t + (if t = job_Tenant job then f (spec_Resources (job_Spec job)) else 0)"
proof -
  note E = issueLease_effect [OF j i fr]
  let ?a = "lease_Attempt l"
  have id: "job_ID job = jid" using refs_job [OF wellFormed_refs [OF w] j] by (simp add: jobRefs_def)
  have new: "att_ID ?a \<notin> set (keys (attempts s1))" using fr E(4) by simp
  have none: "map_of (attempts s1) (att_ID ?a) = None" using new map_of_None_keys by metis
  have look: "map_of (attempts st') k = (if k = att_ID ?a then Some ?a else map_of (attempts s1) k)" for k
    using none by (auto simp: E(3) map_add_def split: option.split)
  have J: "map_option (\<lambda>j. (job_Tenant j, job_Spec j)) (map_of (jobs st') k) =
      map_option (\<lambda>j. (job_Tenant j, job_Spec j)) (map_of (jobs s1) k)" for k
    by (simp add: E(1,13) j)
  have same: "share f st' t k = share f s1 t k" if "k \<noteq> att_ID ?a" for k
  proof (cases "map_of (attempts s1) k")
    case None
    with that show ?thesis by (simp add: share_def look)
  next
    case (Some a)
    with that J [of "att_JobID a"] show ?thesis
      by (cases "map_of (jobs st') (att_JobID a)"; cases "map_of (jobs s1) (att_JobID a)")
        (auto simp: share_def look)
  qed
  have own: "share f st' t (att_ID ?a) = (if t = job_Tenant job then f (spec_Resources (job_Spec job)) else 0)"
    by (simp add: share_def look E(1,13,14,15) id)
  have "set (keys (attempts st')) = insert (att_ID ?a) (set (keys (attempts s1)))" by (simp add: E(3))
  then have "usage f st' t = share f st' t (att_ID ?a) + (\<Sum>k \<in> set (keys (attempts s1)). share f st' t k)"
    using new by (simp add: usage_def)
  also have "(\<Sum>k \<in> set (keys (attempts s1)). share f st' t k) = usage f s1 t"
    unfolding usage_def by (rule sum.cong [OF refl]) (use new same in metis)
  finally show ?thesis using own by simp
qed

text \<open>The quotas, and the configurations for which the code's arithmetic is exact.\<close>

definition withinQuotas :: "Store \<Rightarrow> bool" where
  "withinQuotas st \<longleftrightarrow> smallJobs st \<and> cfg_TenantCPU (config st) < 2 ^ 62 \<and>
     cfg_TenantMemoryMB (config st) < 2 ^ 62 \<and> (\<forall>t. t \<noteq> [] \<longrightarrow> usage res_CPU st t \<le> cfg_TenantCPU (config st) \<and>
       usage res_Memory st t \<le> cfg_TenantMemoryMB (config st))"

lemma withinQuotas_mono:
  assumes q: "withinQuotas st" and w: "wellFormed st" "wellFormed st'" and e: "evolve st st'"
    and k: "set (keys (attempts st')) \<subseteq> set (keys (attempts st))" and s: "smallJobs st'"
  shows "withinQuotas st'"
proof -
  have "smallJobs st" "config st' = config st" using q e by (simp_all add: withinQuotas_def evolve_def)
  moreover have "usage res_CPU st' t \<le> usage res_CPU st t" "usage res_Memory st' t \<le> usage res_Memory st t" for t
    by (rule usage_mono [OF w e _ \<open>smallJobs st\<close> k], simp add: measured_def)+
  ultimately show ?thesis using q s unfolding withinQuotas_def by (metis order_trans)
qed

lemma smallJobs_sub:
  assumes "smallJobs st" "evolve st st'"
    and "\<And>k j'. map_of (jobs st') k = Some j' \<Longrightarrow> \<exists>j. map_of (jobs st) k = Some j"
  shows "smallJobs st'"
  using assms unfolding smallJobs_def evolve_def by metis

lemma advance_quotas:
  assumes q: "withinQuotas st" and w: "wellFormed st" "wellFormed st'" and a: "advance st st'"
  shows "withinQuotas st'"
proof (rule withinQuotas_mono [OF q w advance_evolve(1) [OF a]])
  show "set (keys (attempts st')) \<subseteq> set (keys (attempts st))" using a by (simp add: advance_def sameCore_def)
  show "smallJobs st'"
    by (rule smallJobs_sub [OF _ advance_evolve(1) [OF a]])
      (use q a in \<open>auto simp: withinQuotas_def advance_def elim: sameCore_sym_job\<close>)
qed

lemma leased_quotas:
  assumes q: "withinQuotas st" and w: "wellFormed st" and f: "fresh wo st"
    and l: "leased wo now st ts tenant pre jid s1 job wk l st'"
  shows "withinQuotas st'"
proof -
  note L = leased_state [OF w f l]
  note E = issueLease_effect [OF L(2) L(6) L(5)]
  have sr: "sameReasons st s1" and t: "job_Tenant job = tenant" and nq: "\<not> overQuota s1 tenant job"
    using l by (simp_all add: leased_def)
  have q1: "withinQuotas s1" by (rule advance_quotas [OF q w L(1) sameReasons_advance [OF sr]])
  have small: "smallSpec (job_Spec job)" using q1 L(2) by (simp add: withinQuotas_def smallJobs_def)
  have new: "usage f st' u = usage f s1 u + (if u = tenant then f (spec_Resources (job_Spec job)) else 0)" for f u
    using share_new [OF L(1,2,6,5), of f u] t by simp
  have sj: "smallJobs st'" using q1 L(2) by (auto simp: withinQuotas_def smallJobs_def E(1,13))
  have "usage res_CPU st' u \<le> cfg_TenantCPU (config s1) \<and> usage res_Memory st' u \<le> cfg_TenantMemoryMB (config s1)"
    if u: "u \<noteq> []" for u
  proof (cases "u = tenant")
    case False
    with q1 u new show ?thesis by (simp add: withinQuotas_def)
  next
    case True
    let ?c = "usage res_CPU s1 tenant" and ?m = "usage res_Memory s1 tenant"
    let ?r = "spec_Resources (job_Spec job)"
    have b: "0 \<le> ?c" "?c < 2 ^ 62" "0 \<le> ?m" "?m < 2 ^ 62"
      using q1 u True usage_nonneg [of _ s1 tenant] by (auto simp: withinQuotas_def measured_def)
    have r: "0 \<le> res_CPU ?r" "res_CPU ?r \<le> 2 ^ 62" "0 \<le> res_Memory ?r" "res_Memory ?r \<le> 2 ^ 62"
      using small by (simp_all add: smallSpec_def)
    have "wrap64 ?c = ?c" "wrap64 ?m = ?m" "wrap64 (?c + res_CPU ?r) = ?c + res_CPU ?r"
        "wrap64 (?m + res_Memory ?r) = ?m + res_Memory ?r"
      using b r by (simp_all add: wrap64_id)
    with nq have "?c + res_CPU ?r \<le> cfg_TenantCPU (config s1)" "?m + res_Memory ?r \<le> cfg_TenantMemoryMB (config s1)"
      using usedResources_usage [OF wellFormed_refs [OF L(1)], of tenant] u True
      by (simp_all add: overQuota_def)
    with new True show ?thesis by simp
  qed
  with q1 sj show ?thesis by (simp add: withinQuotas_def E(8))
qed

lemma ScheduleOne_quotas:
  assumes q: "withinQuotas st" and w: "wellFormed st" and f: "fresh wo st"
    and s: "ScheduleOne wo now st = Some (r, st')"
  shows "withinQuotas st'"
  using w
proof (cases rule: ScheduleOne_cases [where wo = wo and now = now])
  case (nowork st1 n st2)
  have "withinQuotas st1" by (rule advance_quotas [OF q w nowork(2,3)])
  from advance_quotas [OF this nowork(2) sameReasons_wellFormed [OF nowork(4,2)] sameReasons_advance [OF nowork(4)]]
  show ?thesis using nowork(5) s by simp
next
  case (lease st1 n ts tenant pre jid s1 job wk l st2)
  have "fresh wo st1" using f lease(3) fresh_sameCore by (auto simp: advance_def)
  from leased_quotas [OF advance_quotas [OF q w lease(2,3)] lease(2) this lease(4)] lease(5) s
  show ?thesis by simp
qed

section \<open>The invariant\<close>

text \<open>
  The requests whose jobs ask for at most \<open>2 ^ 62\<close> units: the specifications of the service's own
  clients are far below it (\<open>Executable\<close> allows eight CPUs and 16384 MiB).
\<close>

definition smallRequest :: "Request \<Rightarrow> bool" where
  "smallRequest req \<longleftrightarrow> (\<forall>spec. requestSpec req = Some spec \<longrightarrow>
     (\<forall>(name, s) \<in> set (ps_Jobs spec). res_CPU (spec_Resources s) \<le> 2 ^ 62 \<and> res_Memory (spec_Resources s) \<le> 2 ^ 62))"

definition smallConfig :: "Config \<Rightarrow> bool" where
  "smallConfig c \<longleftrightarrow> cfg_TenantCPU c < 2 ^ 62 \<and> cfg_TenantMemoryMB c < 2 ^ 62"

lemma Validate_small:
  assumes v: "Validate spec = Inr order" and r: "smallRequest req" "requestSpec req = Some spec"
  shows "smallSpec (getd zeroJobSpec (ps_Jobs spec) name)"
proof (cases "map_of (ps_Jobs spec) name")
  case None
  then show ?thesis by (simp add: getd_def smallSpec_def zeroJobSpec_def)
next
  case (Some s)
  then have m: "(name, s) \<in> set (ps_Jobs spec)" by (rule map_of_SomeD)
  have "checkJobs (ps_Jobs spec) = None"
    using v by (auto simp: Validate_def ValidateWith_def split: if_splits option.splits)
  with m have "checkJob name s = None" by (auto simp: checkJobs_None)
  with m r Some show ?thesis
    by (auto simp: getd_def smallSpec_def smallRequest_def checkJob_def split: if_splits)
qed

lemma grows_quotas:
  assumes q: "withinQuotas st" and w: "wellFormed st" "wellFormed st'" and g: "grows spec st st'"
    and r: "smallRequest req" "requestSpec req = Some spec"
  shows "withinQuotas st'"
  using g unfolding grows_def
proof (elim disjE exE conjE)
  assume "advance st st'"
  then show ?thesis by (rule advance_quotas [OF q w])
next
  fix order st2 k p js
  assume v: "Validate spec = Inr order" and a: "advance st st2" and e: "extended st2 k p js st'"
    and js: "\<forall>(i, j) \<in> set js. job_Name j \<in> set order \<and> job_Spec j = getd zeroJobSpec (ps_Jobs spec) (job_Name j)"
  have "attempts st' = attempts st2" "keys (attempts st2) = keys (attempts st)"
    using e a by (simp_all add: extended_def advance_def sameCore_def)
  then have k: "set (keys (attempts st')) \<subseteq> set (keys (attempts st))" by simp
  have "smallSpec (job_Spec j)" if j: "map_of (jobs st') i = Some j" for i j
  proof (cases "map_of js i")
    case (Some j1)
    then have "(i, j) \<in> set js" using j extended_lookup(2) [OF e, of i] by (auto dest: map_of_SomeD)
    with js Validate_small [OF v r] show ?thesis by auto
  next
    case None
    then have "map_of (jobs st2) i = Some j" using j extended_lookup(2) [OF e, of i] by simp
    then obtain j0 where "map_of (jobs st) i = Some j0" "jobCore j = jobCore j0"
      using a by (auto simp: advance_def elim: sameCore_sym_job)
    with q jobCore_eq show ?thesis by (metis withinQuotas_def smallJobs_def)
  qed
  then have "smallJobs st'" unfolding smallJobs_def by blast
  then show ?thesis by (rule withinQuotas_mono [OF q w grows_evolve [OF g] k])
qed

lemma shrinks_quotas:
  assumes q: "withinQuotas st" and w: "wellFormed st" "wellFormed st'" and s: "shrinks st st'"
  shows "withinQuotas st'"
proof (rule withinQuotas_mono [OF q w shrinks_evolve [OF s]])
  show "set (keys (attempts st')) \<subseteq> set (keys (attempts st))"
  proof
    fix k assume "k \<in> set (keys (attempts st'))"
    then obtain a where "map_of (attempts st') k = Some a" using map_of_None_keys by (metis not_None_eq)
    then have "map_of (attempts st) k = Some a" using s by (simp add: shrinks_def)
    then show "k \<in> set (keys (attempts st))" by (rule map_of_in_keys)
  qed
  show "smallJobs st'" using s q unfolding smallJobs_def withinQuotas_def shrinks_def by blast
qed

lemma serve_quotas:
  assumes q: "withinQuotas st" and w: "wellFormed st" "wellFormed st'" and f: "fresh wo st"
    and r: "smallRequest req" and s: "serve wo js now req st = Some st'"
  shows "withinQuotas st'"
  using w(1) f s
proof (cases rule: serve_kind)
  case advance
  then show ?thesis by (rule advance_quotas [OF q w])
next
  case (grow spec)
  from grows_quotas [OF q w grow(2) r grow(1)] show ?thesis .
next
  case (workers ws)
  have "share f (st\<lparr>workers := ws\<rparr>) t k = share f st t k" for f t k
    by (simp add: share_def split: option.split)
  with q workers show ?thesis by (simp add: withinQuotas_def smallJobs_def usage_def)
next
  case (schedule r')
  with ScheduleOne_quotas [OF q w(1) f] show ?thesis by blast
next
  case (shrink s)
  with advance_quotas [OF q w(1)] shrinks_quotas [OF _ _ w(2)] show ?thesis by blast
qed

interpretation quotas: store_invariant smallRequest "\<lambda>c. smallConfig (withDefaults c)" withinQuotas
proof unfold_locales
  show "withinQuotas (New c)" if "smallConfig (withDefaults c)" for c
    using that withDefaults_pos [of c]
    by (simp add: withinQuotas_def smallJobs_def usage_def New_def smallConfig_def)
next
  fix st st' w req js now
  assume "wellFormed st" "wellFormed st'" "evolve st st'" "withinQuotas st" "fresh w st" "smallRequest req"
    "serve w js now req st = Some st'"
  then show "withinQuotas st'" using serve_quotas by blast
qed

text \<open>
  C13: The resource quotas hold at all times. In every state reachable by requests whose jobs ask for at
  most \<open>2 ^ 62\<close> units, with quotas below that bound, the CPUs and the memory of all attempts a tenant
  has active add up to at most its quota; the sum the scheduler computes in 64-bit arithmetic is exact.
\<close>

theorem quotas_hold:
  assumes "reachable smallRequest c st" "smallConfig (withDefaults c)" "t \<noteq> []"
  shows "usage res_CPU st t \<le> cfg_TenantCPU (withDefaults c) \<and>
    usage res_Memory st t \<le> cfg_TenantMemoryMB (withDefaults c) \<and>
    usedResourcesLocked st t [] = Some \<lparr>res_CPU = usage res_CPU st t, res_Memory = usage res_Memory st t\<rparr>"
proof -
  have i: "wellFormed st" "withinQuotas st" using quotas.always [OF assms(1,2)] by blast+
  have c: "config st = withDefaults c" by (rule reachable_config [OF assms(1)])
  have n: "0 \<le> usage res_CPU st t" "0 \<le> usage res_Memory st t"
    using usage_nonneg i(2) by (auto simp: measured_def withinQuotas_def)
  with i(2) assms(2,3) c have "usage res_CPU st t < 2 ^ 62" "usage res_Memory st t < 2 ^ 62"
    by (fastforce simp: withinQuotas_def smallConfig_def)+
  with n have "wrap64 (usage res_CPU st t) = usage res_CPU st t" "wrap64 (usage res_Memory st t) = usage res_Memory st t"
    by (simp_all add: wrap64_id)
  with usedResources_usage [OF wellFormed_refs [OF i(1)] assms(3)] i(2) assms(3) c show ?thesis
    by (simp add: withinQuotas_def)
qed

theorem quotas_hold_witness:
  "usedResourcesLocked demoLeased ''t1'' [] = Some \<lparr>res_CPU = 2, res_Memory = 1024\<rparr> \<and>
   usage res_CPU demoLeased ''t1'' \<le> 4"
proof -
  have "\<forall>req \<in> set demoRequests. smallRequest req"
    by (simp add: demoRequests_def smallRequest_def demoEvent_def demoSpec_def demoDeploy_def demoBuild_def)
  note r = demo_run(3) [OF this]
  have "smallConfig (withDefaults demoConfig)" by (simp add: smallConfig_def withDefaults_def demoConfig_def)
  from quotas_hold [OF r this, of "''t1''"] show ?thesis
    by (simp add: usage_def share_def demo_states demoAttempt1_def demoAttempt_def demoJob_def demoBuild_def
      zeroJobSpec_def withDefaults_def demoConfig_def)
qed

end
