(* ===== verification/Intents.thy ===== *)
theory Intents
  imports Results
begin

text \<open>
  What an accepted event does: the case analysis of \<open>acceptEvent\<close> and the lemmas behind the
  properties of \<open>Submit\<close> and of close deliveries.
\<close>

section \<open>The fences are not touched by work\<close>

text \<open>The pull requests' clocks and the delivery log.\<close>

definition sameFences :: "Store \<Rightarrow> Store \<Rightarrow> bool" where
  "sameFences st st' \<longleftrightarrow> prStates st' = prStates st \<and> deliveries st' = deliveries st \<and>
     requestHashes st' = requestHashes st"

lemma sameFences_refl [simp]: "sameFences st st"
  by (simp add: sameFences_def)

lemma sameFences_trans: "sameFences a b \<Longrightarrow> sameFences b c \<Longrightarrow> sameFences a c"
  by (simp add: sameFences_def)

lemma foldO_sameFences:
  "(\<And>x s s'. f x s = Some s' \<Longrightarrow> sameFences s s') \<Longrightarrow> foldO f xs s = Some s' \<Longrightarrow> sameFences s s'"
  by (rule foldO_related [where f = f and R = sameFences]) (blast intro: sameFences_trans sameFences_refl)+

lemma cancelAttempt_fences: "cancelAttempt now aid st = Some st' \<Longrightarrow> sameFences st st'"
  by (auto simp: cancelAttempt_def bind_eq_Some_conv sameFences_def split: if_splits)

lemma cancelAttempts_fences: "foldO (cancelAttempt now) aids st = Some st' \<Longrightarrow> sameFences st st'"
  by (erule foldO_sameFences [rotated], erule cancelAttempt_fences)

lemma cancelJobWith_fences: "cancelJobWith write now jid st = Some st' \<Longrightarrow> sameFences st st'"
  by (auto simp: cancelJobWith_def bind_eq_Some_conv sameFences_def dest!: cancelAttempts_fences split: if_splits)

lemma cancelJobs_fences: "foldO (cancelJobWith write now) jids st = Some st' \<Longrightarrow> sameFences st st'"
  by (erule foldO_sameFences [rotated], erule cancelJobWith_fences)

lemma markPreviewDeleting_fences [simp]: "sameFences st (markPreviewDeleting key now st)"
  by (simp add: markPreviewDeleting_def sameFences_def split: option.split)

lemma setPipelineStatus_fences [simp]: "sameFences st (setPipelineStatus k s st)"
  by (simp add: setPipelineStatus_def sameFences_def)

lemma cancelPipeline_fences:
  assumes "cancelPipelineLocked plID now st = Some st'"
  shows "sameFences st st'"
proof -
  from assms obtain p where p: "map_of (pipelines st) plID = Some p"
    by (cases "map_of (pipelines st) plID") (simp_all add: cancelPipelineLocked_def)
  from assms p obtain s1 where s1: "foldO (cancelJobWith writePipelineCancelled now) (pl_JobIDs p)
      (setPipelineStatus plID StateCancelled st) = Some s1"
    by (auto simp: cancelPipelineLocked_def bind_eq_Some_conv)
  have "sameFences s1 st'"
    using assms p s1 by (auto simp: cancelPipelineLocked_def split: if_splits)
  with sameFences_trans [OF setPipelineStatus_fences cancelJobs_fences [OF s1]] show ?thesis
    by (rule sameFences_trans)
qed

lemma cancelIfOpen_fences: "cancelIfOpen repo n now k st = Some st' \<Longrightarrow> sameFences st st'"
  by (auto simp: cancelIfOpen_def dest: cancelPipeline_fences split: option.splits if_splits)

lemma cancelAll_fences: "foldO (cancelIfOpen repo n now) ks st = Some st' \<Longrightarrow> sameFences st st'"
  by (erule foldO_sameFences [rotated], erule cancelIfOpen_fences)

section \<open>The outcomes of an accepted event\<close>

definition nextPR :: "Submission \<Rightarrow> PRState \<Rightarrow> PRState" where
  "nextPR input previous = (if sub_PRNumber input > 0
     then \<lparr>pr_UpdatedAt = sub_EventTime input, pr_Closed = sub_Closed input,
        pr_Generation = pr_Generation previous + 1, pr_Commit = sub_CommitSHA input\<rparr>
     else previous)"

text \<open>The state after the clock, the cancellations and the record of the delivery.\<close>

definition accepted :: "World \<Rightarrow> Submission \<Rightarrow> string \<Rightarrow> PRState \<Rightarrow> time \<Rightarrow> Store \<Rightarrow> Store \<Rightarrow> bool" where
  "accepted w input hash previous now st st2 \<longleftrightarrow> (\<exists>st1.
     (if sub_PRNumber input > 0 then supersede w input (nextPR input previous) now st else Some st) = Some st1 \<and>
     st2 = incAccepted (recordDelivery (sub_RequestID input) [] hash st1))"

lemma acceptEvent_eq:
  assumes "accepted w input hash previous now st st2"
  shows "acceptEvent w input hash configHash previous order now st =
    (if sub_Closed input then Some (Inr (zeroPipelineView, False), st2)
     else (case (if sub_Rerun input then None
              else findPipeline (sameRevision input configHash (pr_Generation (nextPR input previous)))
                     (visitPipelines w 2) st2) of
        Some p \<Rightarrow>
          let st3 = st2\<lparr>deliveries := AList.update (sub_RequestID input) (pl_ID p) (deliveries st2)\<rparr>
          in do { v \<leftarrow> pipelineViewLocked st3 (pl_ID p); Some (Inr (v, True), st3) }
      | None \<Rightarrow>
          let (plID, st3) = createPipelineLocked (draw w) (sub_Tenant input) (sub_Repo input)
                (sub_CommitSHA input) (sub_Trigger input) (sub_PRNumber input) (sub_Spec input) order now st2;
              st4 = st3\<lparr>pipelines := mutate plID (\<lambda>p. p\<lparr>pl_SourceRepo := sub_SourceRepo input,
                      pl_Fork := sub_Fork input, pl_Generation := pr_Generation (nextPR input previous),
                      pl_ConfigDigest := configHash,
                      pl_InstallationID := sub_InstallationID input\<rparr>) (pipelines st3),
                    deliveries := AList.update (sub_RequestID input) plID (deliveries st3)\<rparr>
          in do { v \<leftarrow> pipelineViewLocked st4 plID; Some (Inr (v, False), st4) }))"
  using assms unfolding acceptEvent_def accepted_def nextPR_def Let_def by auto

lemma accepted_ex:
  assumes w: "wellFormed st"
  obtains st2 where "accepted wo input hash previous now st st2" "wellFormed st2" "advance st st2"
proof -
  obtain st1 where st1: "(if sub_PRNumber input > 0 then supersede wo input (nextPR input previous) now st
      else Some st) = Some st1" "wellFormed st1" "advance st st1"
    using supersede_ok [OF w, of wo input "nextPR input previous" now] w by (cases "sub_PRNumber input > 0") auto
  let ?st2 = "incAccepted (recordDelivery (sub_RequestID input) [] hash st1)"
  have s2: "sameWork st1 ?st2" by (simp add: recordDelivery_def sameWork_def)
  show thesis
    by (rule that [of ?st2]) (use st1 s2 in \<open>auto simp: accepted_def intro: sameWork_wellFormed advance_trans sameWork_advance\<close>)
qed

definition bornFrom :: "Submission \<Rightarrow> string \<Rightarrow> PRState \<Rightarrow> time \<Rightarrow> Pipeline \<Rightarrow> bool" where
  "bornFrom input configHash previous now p \<longleftrightarrow> pl_Tenant p = sub_Tenant input \<and> pl_Repo p = sub_Repo input \<and>
     pl_CommitSHA p = sub_CommitSHA input \<and> pl_PRNumber p = sub_PRNumber input \<and>
     pl_SourceRepo p = sub_SourceRepo input \<and> pl_Fork p = sub_Fork input \<and>
     pl_ConfigDigest p = configHash \<and> pl_CreatedAt p = now \<and>
     pl_Generation p = pr_Generation (nextPR input previous)"

lemma acceptEvent_cases:
  assumes w: "wellFormed st" and f: "fresh wo st"
    and val: "\<not> sub_Closed input \<longrightarrow> Validate (sub_Spec input) = Inr order"
    and e: "acceptEvent wo input hash configHash previous order now st = Some (r, st')"
  obtains (closed) st2 where "accepted wo input hash previous now st st2" "wellFormed st2" "advance st st2"
      "sub_Closed input" "r = Inr (zeroPipelineView, False)" "st' = st2"
  | (found) st2 k p v where "accepted wo input hash previous now st st2" "wellFormed st2" "advance st st2"
      "\<not> sub_Closed input" "\<not> sub_Rerun input" "map_of (pipelines st2) k = Some p" "pl_ID p = k"
      "sameRevision input configHash (pr_Generation (nextPR input previous)) p"
      "r = Inr (v, True)" "pipelineViewLocked st' k = Some v"
      "st' = st2\<lparr>deliveries := AList.update (sub_RequestID input) k (deliveries st2)\<rparr>"
  | (created) st2 k p js v where "accepted wo input hash previous now st st2" "wellFormed st2" "advance st st2"
      "\<not> sub_Closed input" "extended st2 k p js st'" "bornFrom input configHash previous now p"
      "js = newJobs (draw wo) k (sub_Tenant input) (sub_Spec input) now 1 (sequence st2) order"
      "r = Inr (v, False)" "pipelineViewLocked st' k = Some v"
      "deliveries st' = AList.update (sub_RequestID input) k (deliveries st2)"
      "requestHashes st' = requestHashes st2" "prStates st' = prStates st2" "previews st' = previews st2"
proof -
  obtain st2 where st2: "accepted wo input hash previous now st st2" "wellFormed st2" "advance st st2"
    by (rule accepted_ex [OF w])
  note eq = acceptEvent_eq [OF st2(1), of configHash order]
  show thesis
  proof (cases "sub_Closed input")
    case True
    with eq e st2 closed show ?thesis by simp
  next
    case False
    show ?thesis
    proof (cases "if sub_Rerun input then None
        else findPipeline (sameRevision input configHash (pr_Generation (nextPR input previous))) (visitPipelines wo 2) st2")
      case (Some p)
      then have nr: "\<not> sub_Rerun input" by (auto split: if_splits)
      with Some obtain k where k: "map_of (pipelines st2) k = Some p"
          "sameRevision input configHash (pr_Generation (nextPR input previous)) p"
        using findPipeline_Some by (fastforce split: if_splits)
      have "pl_ID p = k" using refs_pipeline [OF wellFormed_refs [OF st2(2)] k(1)] by (simp add: pipelineRefs_def)
      then show ?thesis
        using e eq Some False found [OF st2 False nr k(1) _ k(2)]
        by (auto simp: Let_def bind_eq_Some_conv simp del: if_split)
    next
      case None
      have f2: "fresh wo st2" using f st2(3) fresh_sameCore [of st st2 wo] by (simp add: advance_def)
      let ?k = "newID ''pl'' (draw wo 0)"
      let ?js = "newJobs (draw wo) ?k (sub_Tenant input) (sub_Spec input) now 1 (sequence st2) order"
      obtain p st3 where c: "createPipelineLocked (draw wo) (sub_Tenant input) (sub_Repo input)
          (sub_CommitSHA input) (sub_Trigger input) (sub_PRNumber input) (sub_Spec input) order now st2 = (?k, st3)"
        and ex: "extended st2 ?k p ?js st3"
        and st3: "st3 = st2\<lparr>sequence := sequence st3, jobs := jobs st3, pipelines := pipelines st3\<rparr>"
        and p: "p = zeroPipeline\<lparr>pl_ID := ?k, pl_Tenant := sub_Tenant input, pl_Repo := sub_Repo input,
          pl_CommitSHA := sub_CommitSHA input, pl_Trigger := sub_Trigger input, pl_PRNumber := sub_PRNumber input,
          pl_Status := StateQueued, pl_CreatedAt := now, pl_JobIDs := keys ?js\<rparr>"
        using createPipeline_extended [OF f2 Validate_nonempty [OF val [rule_format, OF False]]] by metis
      let ?f = "\<lambda>p. p\<lparr>pl_SourceRepo := sub_SourceRepo input, pl_Fork := sub_Fork input,
        pl_Generation := pr_Generation (nextPR input previous), pl_ConfigDigest := configHash,
        pl_InstallationID := sub_InstallationID input\<rparr>"
      let ?st4 = "st3\<lparr>pipelines := mutate ?k ?f (pipelines st3),
        deliveries := AList.update (sub_RequestID input) ?k (deliveries st3)\<rparr>"
      have "mutate ?k ?f (pipelines st3) = pipelines st2 @ [(?k, ?f p)]"
        using ex mutate_new [of ?k "pipelines st2"] by (simp add: extended_def del: set_map)
      then have e4: "extended st2 ?k (?f p) ?js ?st4" using ex by (simp add: extended_def del: set_map)
      have born: "bornFrom input configHash previous now (?f p)" by (simp add: bornFrom_def p)
      have frame: "deliveries st3 = deliveries st2" "requestHashes st3 = requestHashes st2"
          "prStates st3 = prStates st2" "previews st3 = previews st2"
        by (subst st3, simp)+
      from e eq None False c obtain v where "r = Inr (v, False)" "st' = ?st4" "pipelineViewLocked ?st4 ?k = Some v"
        by (auto simp: Let_def bind_eq_Some_conv simp del: if_split)
      with created [OF st2 False _ born] e4 frame show ?thesis by simp
    qed
  qed
qed

section \<open>The delivery log after \<open>Submit\<close>\<close>

lemma pipelineView_cong:
  "pipelines st' = pipelines st \<Longrightarrow> jobs st' = jobs st \<Longrightarrow> attempts st' = attempts st \<Longrightarrow>
     pipelineViewLocked st' k = pipelineViewLocked st k"
  unfolding pipelineViewLocked_def by (simp only:)

definition timed :: "time \<Rightarrow> Submission \<Rightarrow> Submission" where
  "timed now input = (if sub_EventTime input = 0 then input\<lparr>sub_EventTime := now\<rparr> else input)"

lemma timed_simps [simp]:
  "sub_RequestID (timed now i) = sub_RequestID i" "sub_Tenant (timed now i) = sub_Tenant i"
  "sub_Repo (timed now i) = sub_Repo i" "sub_PRNumber (timed now i) = sub_PRNumber i"
  "sub_Closed (timed now i) = sub_Closed i" "sub_Rerun (timed now i) = sub_Rerun i"
  "sub_Spec (timed now i) = sub_Spec i" "sub_CommitSHA (timed now i) = sub_CommitSHA i"
  "sub_SourceRepo (timed now i) = sub_SourceRepo i"
  by (simp_all add: timed_def)

lemma submitNew_cases:
  assumes "submitNew w input hash configHash order now st = Some (r, st')"
  defines "key \<equiv> previewKey (sub_Repo input) (sub_PRNumber input)"
  defines "previous \<equiv> getd zeroPRState (prStates st) key"
  obtains (stale) "sub_PRNumber input > 0" "map_of (prStates st) key = Some previous"
      "sub_EventTime (timed now input) \<le> pr_UpdatedAt previous"
      "\<not> sub_Closed input \<or> pr_Closed previous \<or> sub_EventTime (timed now input) < pr_UpdatedAt previous"
      "r = Inr (zeroPipelineView, True)" "st' = recordDelivery (sub_RequestID input) [] hash st"
  | (full) "\<not> sub_Closed input" "queuedCountLocked st + int (length order) > cfg_MaxQueuedJobs (config st)"
      "r = Inl ErrCapacity" "st' = st"
  | (same) k p v where "map_of (pipelines st) k = Some p" "sameRevision input configHash (pr_Generation previous) p"
      "pipelineViewLocked st' (pl_ID p) = Some v" "r = Inr (v, True)" "\<not> sub_Closed input"
      "pipelines st' = pipelines st" "jobs st' = jobs st" "attempts st' = attempts st" "previews st' = previews st"
      "deliveries st' = AList.update (sub_RequestID input) (pl_ID p) (deliveries st)"
      "requestHashes st' = AList.update (sub_RequestID input) hash (requestHashes st)"
      "sub_PRNumber input > 0 \<Longrightarrow>
        prStates st' = AList.update key (previous\<lparr>pr_UpdatedAt := sub_EventTime (timed now input)\<rparr>) (prStates st)"
      "\<not> sub_PRNumber input > 0 \<Longrightarrow> prStates st' = prStates st"
  | (event) "\<not> sub_Closed input \<Longrightarrow> queuedCountLocked st + int (length order) \<le> cfg_MaxQueuedJobs (config st)"
      "sub_PRNumber input > 0 \<Longrightarrow> map_of (prStates st) key = Some previous \<Longrightarrow>
        pr_UpdatedAt previous \<le> sub_EventTime (timed now input)"
      "acceptEvent w (timed now input) hash configHash previous order now st = Some (r, st')"
proof -
  have s: "sameRevision (timed now input) = sameRevision input"
    by (intro ext) (simp add: sameRevision_def)
  define old where "old \<longleftrightarrow> sub_PRNumber input > 0 \<and> map_of (prStates st) key \<noteq> None \<and>
      \<not> sub_EventTime (timed now input) > pr_UpdatedAt previous \<and>
      (\<not> sub_Closed input \<or> pr_Closed previous \<or> sub_EventTime (timed now input) < pr_UpdatedAt previous)"
  define find where "find = (if \<not> sub_Closed input \<and> \<not> pr_Closed previous \<and> \<not> sub_Rerun input
      then findPipeline (sameRevision input configHash (pr_Generation previous)) (visitPipelines w 0) st else None)"
  have "submitNew w input hash configHash order now st = (if old then Some (Inr (zeroPipelineView, True), recordDelivery (sub_RequestID input) [] hash st)
      else if \<not> sub_Closed input \<and> queuedCountLocked st + int (length order) > cfg_MaxQueuedJobs (config st)
      then Some (Inl ErrCapacity, st)
      else case find of
          Some p \<Rightarrow>
            let st1 = recordDelivery (sub_RequestID input) (pl_ID p) hash st;
                st2 = (if sub_PRNumber input > 0
                  then st1\<lparr>prStates := AList.update key
                    (previous\<lparr>pr_UpdatedAt := sub_EventTime (timed now input)\<rparr>) (prStates st1)\<rparr>
                  else st1)
            in do { v \<leftarrow> pipelineViewLocked st2 (pl_ID p); Some (Inr (v, True), st2) }
        | None \<Rightarrow> acceptEvent w (timed now input) hash configHash previous order now st)"
    unfolding submitNew_def Let_def timed_def [symmetric] old_def find_def previous_def key_def
    by (simp only: timed_simps s)
  note e = this [unfolded assms(1), symmetric]
  show thesis
  proof (cases old)
    case True
    then have "map_of (prStates st) key = Some previous" by (auto simp: old_def previous_def getd_def)
    then show ?thesis by (rule stale [rotated]) (use True e in \<open>auto simp: old_def\<close>)
  next
    case False
    show ?thesis
    proof (cases "\<not> sub_Closed input \<and> queuedCountLocked st + int (length order) > cfg_MaxQueuedJobs (config st)")
      case True
      then have c: "\<not> sub_Closed input" "queuedCountLocked st + int (length order) > cfg_MaxQueuedJobs (config st)"
        by blast+
      from e have "r = Inl ErrCapacity" "st' = st" by (simp_all only: False True if_False if_True option.inject prod.inject simp_thms)
      with c show ?thesis by (rule full)
    next
      case room: False
      show ?thesis
      proof (cases find)
        case None
        with False room e have a: "acceptEvent w (timed now input) hash configHash previous order now st = Some (r, st')"
          by (simp split: if_splits)
        show ?thesis
          by (rule event [OF _ _ a]) (use False room in \<open>auto simp: old_def not_less\<close>)
      next
        case (Some p)
        then obtain k where "map_of (pipelines st) k = Some p" "sameRevision input configHash (pr_Generation previous) p"
            "\<not> sub_Closed input"
          using findPipeline_Some by (fastforce simp: find_def split: if_splits)
        note p = this
        let ?st1 = "recordDelivery (sub_RequestID input) (pl_ID p) hash st"
        let ?st2 = "if sub_PRNumber input > 0
          then ?st1\<lparr>prStates := AList.update key (previous\<lparr>pr_UpdatedAt := sub_EventTime (timed now input)\<rparr>) (prStates ?st1)\<rparr>
          else ?st1"
        from e have "do { v \<leftarrow> pipelineViewLocked ?st2 (pl_ID p); Some (Inr (v, True), ?st2) } = Some (r, st')"
          by (simp only: False room Some if_False option.case Let_def)
        then obtain v where v: "pipelineViewLocked ?st2 (pl_ID p) = Some v" "r = Inr (v, True)" "st' = ?st2"
          by (cases "pipelineViewLocked ?st2 (pl_ID p)") simp_all
        show ?thesis
          by (rule same [OF p(1,2) v(1) [folded v(3)] v(2) p(3)]) (simp_all add: v(3) recordDelivery_def)
      qed
    qed
  qed
qed

end
