(* ===== verification/Delivery.thy ===== *)
theory Delivery
  imports Intents
begin

text \<open>
  The properties of event intake: a delivery has its effect once, an old event is fenced off, a new
  revision supersedes the old one, the queue is bounded, and a closed pull request keeps nothing alive.
\<close>

section \<open>The delivery log\<close>

lemma accepted_log:
  assumes "accepted w input hash previous now st st2"
  shows "map_of (deliveries st2) (sub_RequestID input) = Some [] \<and>
    map_of (requestHashes st2) (sub_RequestID input) = Some hash"
  using assms by (auto simp: accepted_def recordDelivery_def)

lemma submitNew_logged:
  assumes w: "wellFormed st" and f: "fresh wo st"
    and val: "\<not> sub_Closed input \<Longrightarrow> Validate (sub_Spec input) = Inr order"
    and e: "submitNew wo input hash configHash order now st = Some (Inr (v, dup), st')"
  shows "\<exists>plID. map_of (deliveries st') (sub_RequestID input) = Some plID \<and>
    map_of (requestHashes st') (sub_RequestID input) = Some hash \<and>
    (plID \<noteq> [] \<longrightarrow> pipelineViewLocked st' plID = Some v)"
  using e
proof (cases rule: submitNew_cases)
  case event
  have val': "\<not> sub_Closed (timed now input) \<longrightarrow> Validate (sub_Spec (timed now input)) = Inr order"
    using val by simp
  from w f val' event(3) show ?thesis
    by (cases rule: acceptEvent_cases) (auto dest: accepted_log)
qed (auto simp: recordDelivery_def)

definition validRequest :: "Submission \<Rightarrow> bool" where
  "validRequest input \<longleftrightarrow> sub_RequestID input \<noteq> [] \<and> length (sub_RequestID input) \<le> 200"

abbreviation digestOf :: "Json \<Rightarrow> Submission \<Rightarrow> string" where
  "digestOf js input \<equiv> sha256Hex (js_Submission js input)"

lemma Submit_new:
  assumes "validRequest input" "map_of (deliveries st) (sub_RequestID input) = None"
    and "sub_Closed input \<and> order = [] \<or> \<not> sub_Closed input \<and> Validate (sub_Spec input) = Inr order"
  shows "Submit w js input now st =
    submitNew w input (digestOf js input) (sha256Hex (js_Spec js (sub_Spec input))) order now st"
  using assms by (auto simp: Submit_def validRequest_def)

lemma sha256Hex_nonempty [simp]: "sha256Hex s \<noteq> []"
  using length_sha256Hex [of s] by (metis list.size(3) zero_neq_numeral)

text \<open>A successful call is either a replay or the first call of its request.\<close>

lemma Submit_success:
  assumes "Submit w js input now st = Some (Inr (v, dup), st')"
  obtains (replay) plID where "validRequest input" "map_of (deliveries st) (sub_RequestID input) = Some plID"
      "sub_Closed input \<or> (\<exists>order. Validate (sub_Spec input) = Inr order)"
      "getd [] (requestHashes st) (sub_RequestID input) = [] \<or>
       getd [] (requestHashes st) (sub_RequestID input) = digestOf js input"
      "pipelineViewLocked st plID = Some v" "dup = True" "st' = incDuplicate st"
  | (first) order where "validRequest input" "map_of (deliveries st) (sub_RequestID input) = None"
      "sub_Closed input \<and> order = [] \<or> \<not> sub_Closed input \<and> Validate (sub_Spec input) = Inr order"
      "submitNew w input (digestOf js input) (sha256Hex (js_Spec js (sub_Spec input))) order now st =
         Some (Inr (v, dup), st')"
proof -
  have v: "validRequest input" using assms by (auto simp: Submit_def validRequest_def split: if_splits)
  obtain order where o: "sub_Closed input \<and> order = [] \<or> \<not> sub_Closed input \<and> Validate (sub_Spec input) = Inr order"
    using assms by (cases "Validate (sub_Spec input)") (auto simp: Submit_def split: if_splits)
  have view: "pipelineViewLocked (incDuplicate st) k = pipelineViewLocked st k" for k
    by (rule pipelineView_cong) simp_all
  show thesis
  proof (cases "map_of (deliveries st) (sub_RequestID input)")
    case None
    with first [OF v None o] Submit_new [OF v None o] assms show ?thesis by simp
  next
    case (Some plID)
    show ?thesis
      by (rule replay [OF v Some])
        (use assms o Some view in \<open>auto simp: Submit_def Let_def bind_eq_Some_conv split: if_splits\<close>)
  qed
qed

text \<open>
  C15: A delivery has its effect once. Whatever a successful \<open>Submit\<close> did, submitting the same request
  again is answered as a duplicate, with the same pipeline if there is one, and changes nothing but
  the counter of duplicates: no job is created or cancelled twice.
\<close>

theorem Submit_once:
  assumes "reachable anyRequest c st" "fresh w st"
    and "Submit w js input now st = Some (Inr (v, dup), st')"
  shows "\<exists>plID v'. map_of (deliveries st') (sub_RequestID input) = Some plID \<and>
    Submit w' js input now' st' = Some (Inr (v', True), incDuplicate st') \<and> (plID \<noteq> [] \<longrightarrow> v' = v)"
proof -
  have w: "wellFormed st" by (rule reachable_wellFormed [OF assms(1)])
  have w': "wellFormed st'"
    using intake_safe [OF Submit_intake [OF w assms(2), where js = js and input = input and now = now]] assms(3) by (simp add: safe_def)
  have view: "pipelineViewLocked (incDuplicate s) k = pipelineViewLocked s k" for s k
    by (rule pipelineView_cong) simp_all
  have again: "\<exists>v'. Submit w' js input now' st' = Some (Inr (v', True), incDuplicate st') \<and>
      pipelineViewLocked st' plID = Some v'"
    if "validRequest input" "map_of (deliveries st') (sub_RequestID input) = Some plID"
      "sub_Closed input \<or> (\<exists>order. Validate (sub_Spec input) = Inr order)"
      "getd [] (requestHashes st') (sub_RequestID input) = [] \<or>
       getd [] (requestHashes st') (sub_RequestID input) = digestOf js input" for plID
  proof -
    obtain v' where "pipelineViewLocked st' plID = Some v'"
      using pipelineView_total [OF wellFormed_refs [OF w']] by blast
    with that view show ?thesis by (auto simp: Submit_def validRequest_def Let_def)
  qed
  from assms(3) show ?thesis
  proof (cases rule: Submit_success)
    case (replay plID)
    have "pipelineViewLocked st' plID = pipelineViewLocked st plID" using replay(7) view by simp
    with again [of plID] replay show ?thesis by fastforce
  next
    case (first order)
    from first(3) have val: "\<not> sub_Closed input \<Longrightarrow> Validate (sub_Spec input) = Inr order" by blast
    obtain plID where p: "map_of (deliveries st') (sub_RequestID input) = Some plID"
        "map_of (requestHashes st') (sub_RequestID input) = Some (digestOf js input)"
        "plID \<noteq> [] \<longrightarrow> pipelineViewLocked st' plID = Some v"
      using submitNew_logged [OF w assms(2) val first(4)] by blast
    have "getd [] (requestHashes st') (sub_RequestID input) = digestOf js input" using p(2) by (simp add: getd_def)
    with again [OF first(1) p(1)] first(3) p show ?thesis by fastforce
  qed
qed

theorem Submit_once_witness:
  "\<exists>v'. Submit (demoWorld ''c'' [] []) demoJson demoEvent 25 demoQueued = Some (Inr (v', True), incDuplicate demoQueued)"
proof -
  obtain v where "Submit (demoWorld ''b'' [] []) demoJson demoEvent 20 demoIdle = Some (Inr (v, False), demoQueued)"
    using demo_submit by blast
  from Submit_once [OF demo_reachable(1) demo_fresh [of "''b''"] this] show ?thesis by auto
qed

section \<open>Old events\<close>

text \<open>
  An old pull-request event is fenced off. A first delivery whose event time is not after the last
  accepted one of its pull request (equal times only let a close through, once) is recorded and
  answered as a duplicate without a pipeline; no pipeline, job, preview or pull-request clock changes.
\<close>

lemma Submit_stale:
  assumes "validRequest input" "map_of (deliveries st) (sub_RequestID input) = None"
    and "sub_Closed input \<or> (\<exists>order. Validate (sub_Spec input) = Inr order)"
    and "sub_PRNumber input > 0"
    and "map_of (prStates st) (previewKey (sub_Repo input) (sub_PRNumber input)) = Some previous"
    and "sub_EventTime (timed now input) < pr_UpdatedAt previous \<or>
      sub_EventTime (timed now input) = pr_UpdatedAt previous \<and> (\<not> sub_Closed input \<or> pr_Closed previous)"
  shows "Submit w js input now st = Some (Inr (zeroPipelineView, True),
    recordDelivery (sub_RequestID input) [] (digestOf js input) st)"
proof -
  obtain order where o: "sub_Closed input \<and> order = [] \<or> \<not> sub_Closed input \<and> Validate (sub_Spec input) = Inr order"
    using assms(3) by blast
  show ?thesis
    unfolding Submit_new [OF assms(1,2) o] using assms(4-6)
    by (auto simp: submitNew_def Let_def getd_def timed_def)
qed

lemma Submit_stale_sample:
  "Submit (demoWorld ''c'' [] []) demoJson (demoEvent\<lparr>sub_RequestID := ''d0'', sub_EventTime := 4\<rparr>) 25 demoQueued =
     Some (Inr (zeroPipelineView, True), recordDelivery ''d0'' [] (sha256Hex ''abc'') demoQueued)"
proof -
  have "previewKey ''o/r'' 7 = ''o/r#7''" by code_simp
  then show ?thesis
    using Submit_stale [of "demoEvent\<lparr>sub_RequestID := ''d0'', sub_EventTime := 4\<rparr>" demoQueued
        "\<lparr>pr_UpdatedAt = 5, pr_Closed = False, pr_Generation = 1, pr_Commit = ''abc''\<rparr>" 25
        "demoWorld ''c'' [] []" demoJson]
    by (simp add: validRequest_def demoEvent_def demo_states demo_Validate timed_def demoJson_def)
qed

section \<open>Supersession\<close>

lemma mutate_lookup: "map_of (mutate k f m) k = map_option f (map_of m k)"
  by simp

lemma accepted_supersedes:
  assumes w: "wellFormed st" and a: "accepted wo input hash previous now st st2"
    and pr: "sub_PRNumber input > 0" and vis: "set (keys (pipelines st)) \<subseteq> set (visitPipelines wo 1)"
  defines "key \<equiv> previewKey (sub_Repo input) (sub_PRNumber input)"
  shows "\<forall>k p. map_of (pipelines st2) k = Some p \<longrightarrow> pl_Repo p = sub_Repo input \<longrightarrow>
      pl_PRNumber p = sub_PRNumber input \<longrightarrow> terminal (pl_Status p)"
    and "map_of (prStates st2) key = Some (nextPR input previous)"
    and "\<forall>v. map_of (previews st2) key = Some v \<longrightarrow> pv_Desired v = StateDeleting \<and>
      pv_Generation v = pr_Generation (nextPR input previous)"
proof -
  let ?current = "nextPR input previous"
  from a pr obtain st1 where s: "supersede wo input ?current now st = Some st1"
      and st2: "st2 = incAccepted (recordDelivery (sub_RequestID input) [] hash st1)"
    by (auto simp: accepted_def)
  obtain st0 where c: "foldO (cancelIfOpen (sub_Repo input) (sub_PRNumber input) now) (visitPipelines wo 1)
        (st\<lparr>prStates := AList.update key ?current (prStates st)\<rparr>) = Some st0"
      and st1: "st1 = st0\<lparr>previews := mutate key (\<lambda>v. v\<lparr>pv_Desired := StateDeleting,
        pv_Generation := pr_Generation ?current, pv_UpdatedAt := now\<rparr>) (previews st0)\<rparr>"
    using s by (auto simp: supersede_def key_def Let_def bind_eq_Some_conv)
  have "sameFences (st\<lparr>prStates := AList.update key ?current (prStates st)\<rparr>) st0"
    by (rule cancelAll_fences [OF c])
  then show "map_of (prStates st2) key = Some ?current"
    by (simp add: sameFences_def st2 st1 recordDelivery_def)
  show "\<forall>v. map_of (previews st2) key = Some v \<longrightarrow> pv_Desired v = StateDeleting \<and> pv_Generation v = pr_Generation ?current"
    by (auto simp: st2 st1 recordDelivery_def)
  obtain st1' where "supersede wo input ?current now st = Some st1'" "advance st st1'"
      "\<forall>k \<in> set (visitPipelines wo 1). \<forall>p. map_of (pipelines st1') k = Some p \<longrightarrow> pl_Repo p = sub_Repo input \<longrightarrow>
         pl_PRNumber p = sub_PRNumber input \<longrightarrow> terminal (pl_Status p)"
    using supersede_ok [OF w] by blast
  with s have t: "keys (pipelines st1) = keys (pipelines st)"
      "\<forall>k \<in> set (visitPipelines wo 1). \<forall>p. map_of (pipelines st1) k = Some p \<longrightarrow> pl_Repo p = sub_Repo input \<longrightarrow>
         pl_PRNumber p = sub_PRNumber input \<longrightarrow> terminal (pl_Status p)"
    by (auto simp: advance_def sameCore_def)
  have "k \<in> set (visitPipelines wo 1)" if "map_of (pipelines st1) k = Some p" for k p
    using map_of_in_keys [OF that] t(1) vis by auto
  with t(2) have "terminal (pl_Status p)" if "map_of (pipelines st1) k = Some p" "pl_Repo p = sub_Repo input"
      "pl_PRNumber p = sub_PRNumber input" for k p
    using that by blast
  then show "\<forall>k p. map_of (pipelines st2) k = Some p \<longrightarrow> pl_Repo p = sub_Repo input \<longrightarrow>
      pl_PRNumber p = sub_PRNumber input \<longrightarrow> terminal (pl_Status p)"
    by (simp add: st2 recordDelivery_def)
qed

text \<open>
  C16: A new revision supersedes the old one. After an accepted pull-request event every pipeline of
  the same pull request other than the one just created is in a final state, the pull request's clock
  and generation have advanced, and an existing preview is to be deleted. When the event was a close
  no pipeline of the pull request is left open at all.
\<close>

theorem Submit_supersedes:
  assumes "reachable anyRequest c st" "fresh w st" "Submit w js input now st = Some (Inr (v, False), st')"
    and "sub_PRNumber input > 0" "set (keys (pipelines st)) \<subseteq> set (visitPipelines w 1)"
  shows "(\<forall>k p. map_of (pipelines st') k = Some p \<longrightarrow> pl_Repo p = sub_Repo input \<longrightarrow>
      pl_PRNumber p = sub_PRNumber input \<longrightarrow> terminal (pl_Status p) \<or> \<not> sub_Closed input \<and> p = view_Pipeline v) \<and>
    (\<exists>s. map_of (prStates st') (previewKey (sub_Repo input) (sub_PRNumber input)) = Some s \<and>
      pr_UpdatedAt s = sub_EventTime (timed now input) \<and> pr_Closed s = sub_Closed input \<and>
      pr_Generation s = pr_Generation (getd zeroPRState (prStates st)
        (previewKey (sub_Repo input) (sub_PRNumber input))) + 1) \<and>
    (\<forall>q. map_of (previews st') (previewKey (sub_Repo input) (sub_PRNumber input)) = Some q \<longrightarrow>
      pv_Desired q = StateDeleting)"
proof -
  let ?key = "previewKey (sub_Repo input) (sub_PRNumber input)"
  let ?previous = "getd zeroPRState (prStates st) ?key"
  have w: "wellFormed st" by (rule reachable_wellFormed [OF assms(1)])
  have next_: "pr_UpdatedAt (nextPR (timed now input) ?previous) = sub_EventTime (timed now input)"
      "pr_Closed (nextPR (timed now input) ?previous) = sub_Closed input"
      "pr_Generation (nextPR (timed now input) ?previous) = pr_Generation ?previous + 1"
    using assms(4) by (simp_all add: nextPR_def)
  from assms(3) show ?thesis
  proof (cases rule: Submit_success)
    case (first order)
    from first(4) show ?thesis
    proof (cases rule: submitNew_cases)
      case event
      have val: "\<not> sub_Closed (timed now input) \<longrightarrow> Validate (sub_Spec (timed now input)) = Inr order"
        using first(3) by auto
      from w assms(2) val event(3) show ?thesis
      proof (cases rule: acceptEvent_cases)
        case closed
        with accepted_supersedes [OF w closed(1)] assms(4,5) next_ show ?thesis by simp
      next
        case (created st2 k p js v')
        have sup: "\<forall>k p. map_of (pipelines st2) k = Some p \<longrightarrow> pl_Repo p = sub_Repo input \<longrightarrow>
            pl_PRNumber p = sub_PRNumber input \<longrightarrow> terminal (pl_Status p)"
          "map_of (prStates st2) ?key = Some (nextPR (timed now input) ?previous)"
          "\<forall>q. map_of (previews st2) ?key = Some q \<longrightarrow> pv_Desired q = StateDeleting"
          using accepted_supersedes [OF w created(1)] assms(4,5) by simp_all
        have p: "map_of (pipelines st') k = Some p" using extended_lookup(1) [OF created(5)] by simp
        then have "view_Pipeline v = p" using created(8,9) by (auto simp: pipelineViewLocked_def bind_eq_Some_conv)
        with sup next_ created(4,12,13) extended_lookup(1) [OF created(5)] show ?thesis by auto
      qed simp
    qed simp_all
  qed simp
qed

theorem Submit_supersedes_witness:
  "\<exists>s. map_of (prStates demoQueued) (previewKey ''o/r'' 7) = Some s \<and> pr_UpdatedAt s = 5 \<and> pr_Generation s = 1"
proof -
  obtain v where s: "Submit (demoWorld ''b'' [] []) demoJson demoEvent 20 demoIdle = Some (Inr (v, False), demoQueued)"
    using demo_submit by blast
  have "set (keys (pipelines demoIdle)) \<subseteq> set (visitPipelines (demoWorld ''b'' [] []) 1)"
    by (simp add: demo_states)
  from Submit_supersedes [OF demo_reachable(1) demo_fresh s _ this]
  have "\<exists>s. map_of (prStates demoQueued) (previewKey ''o/r'' 7) = Some s \<and> pr_UpdatedAt s = 5 \<and>
      pr_Closed s = False \<and> pr_Generation s = pr_Generation (getd zeroPRState (prStates demoIdle) (previewKey ''o/r'' 7)) + 1"
    by (simp add: demoEvent_def timed_def)
  then show ?thesis by (auto simp: demo_states zeroPRState_def split: if_splits)
qed

section \<open>Closing a pull request\<close>

lemma recordClose_fence:
  "map_of (prStates (tombstone repo n now (recordClose rid repo n now st))) (previewKey repo n) =
     Some ((getd zeroPRState (prStates st) (previewKey repo n))\<lparr>pr_Closed := True, pr_UpdatedAt := now,
       pr_Generation := pr_Generation (getd zeroPRState (prStates st) (previewKey repo n)) + 1\<rparr>)"
  by (simp add: tombstone_def recordClose_def markPreviewDeleting_def Let_def split: option.split)

lemma tombstone_previews:
  "\<exists>q. map_of (previews (tombstone repo n now st)) (previewKey repo n) = Some q \<and> pv_Desired q = StateDeleting"
  by (auto simp: tombstone_def markPreviewDeleting_def Let_def split: option.split)

text \<open>Cancelling pipelines never revives a preview.\<close>

definition keepsDeleting :: "Store \<Rightarrow> Store \<Rightarrow> bool" where
  "keepsDeleting st st' \<longleftrightarrow> (\<forall>k q. map_of (previews st) k = Some q \<longrightarrow> pv_Desired q = StateDeleting \<longrightarrow>
     map_of (previews st') k = Some q)"

lemma keepsDeleting_same [simp]: "previews st' = previews st \<Longrightarrow> keepsDeleting st st'"
  by (simp add: keepsDeleting_def)

lemma keepsDeleting_trans: "keepsDeleting a b \<Longrightarrow> keepsDeleting b c \<Longrightarrow> keepsDeleting a c"
  by (simp add: keepsDeleting_def)

lemma markPreviewDeleting_keeps: "keepsDeleting st (markPreviewDeleting key now st)"
  by (auto simp: keepsDeleting_def markPreviewDeleting_def split: option.split)

lemma cancelPipeline_keepsDeleting:
  assumes w: "wellFormed st" and "cancelPipelineLocked plID now st = Some st'"
  shows "keepsDeleting st st'"
proof -
  from assms obtain p where p: "map_of (pipelines st) plID = Some p"
    by (cases "map_of (pipelines st) plID") (simp_all add: cancelPipelineLocked_def)
  let ?s = "setPipelineStatus plID StateCancelled st"
  have "base ?s" by (rule setPipelineStatus_base [OF wellFormed_base [OF w]])
  moreover have "\<exists>j. map_of (jobs ?s) k = Some j" if "k \<in> set (pl_JobIDs p)" for k
    using refs_job_of_pipeline [OF wellFormed_refs [OF w] p that] by auto
  ultimately obtain s1 where s1: "foldO (cancelJobWith writePipelineCancelled now) (pl_JobIDs p) ?s = Some s1"
      "cancelEffect writePipelineCancelled now (set (pl_JobIDs p)) ?s s1"
    using cancelJobs_effect [of writePipelineCancelled ?s "pl_JobIDs p" now] by auto
  from s1(2) have "s1 = ?s\<lparr>jobs := jobs s1, attempts := attempts s1, metrics := metrics s1\<rparr>"
    by (simp add: cancelEffect_def)
  from arg_cong [OF this, of previews] have "previews s1 = previews ?s" by simp
  then have "keepsDeleting st s1" by simp
  moreover have "st' = s1 \<or> (\<exists>key. st' = markPreviewDeleting key now s1)"
    using assms(2) p s1(1) by (auto simp: cancelPipelineLocked_def split: if_splits)
  ultimately show ?thesis using markPreviewDeleting_keeps keepsDeleting_trans by blast
qed

lemma cancelAll_keepsDeleting:
  assumes "wellFormed st" "foldO (cancelIfOpen repo n now) ks st = Some st'"
  shows "keepsDeleting st st'"
  using assms
proof (induction ks arbitrary: st)
  case Nil
  then show ?case by simp
next
  case (Cons k ks)
  obtain s1 where s1: "cancelIfOpen repo n now k st = Some s1" "wellFormed s1"
    using cancelIfOpen_ok [OF Cons.prems(1)] by blast
  then have "keepsDeleting st s1"
    by (auto simp: cancelIfOpen_def intro: cancelPipeline_keepsDeleting [OF Cons.prems(1)] split: option.splits if_splits)
  with s1 Cons keepsDeleting_trans show ?case by fastforce
qed

text \<open>
  C33: A closed pull request keeps nothing alive. The first close delivery of a pull request always
  succeeds; afterwards every pipeline of the pull request is in a final state, the pull request is
  recorded as closed with a new generation, and its preview (a tombstone if there was none) is to be
  deleted, so that no later preview can be created from the old generation.
\<close>

theorem close_stops:
  assumes "reachable anyRequest c st" "deliveryID \<noteq> []" "map_of (deliveries st) deliveryID = None"
    and "set (keys (pipelines st)) \<subseteq> set (visitPipelines w 0)"
  shows "\<exists>st'. MarkPreviewDeletingForDelivery w deliveryID repo prNumber now st = Some (Inr False, st') \<and>
    (\<forall>k p. map_of (pipelines st') k = Some p \<longrightarrow> pl_Repo p = repo \<longrightarrow> pl_PRNumber p = prNumber \<longrightarrow> terminal (pl_Status p)) \<and>
    (\<exists>s. map_of (prStates st') (previewKey repo prNumber) = Some s \<and> pr_Closed s \<and>
      pr_Generation s = pr_Generation (getd zeroPRState (prStates st) (previewKey repo prNumber)) + 1) \<and>
    (\<exists>q. map_of (previews st') (previewKey repo prNumber) = Some q \<and> pv_Desired q = StateDeleting)"
proof -
  have w: "wellFormed st" by (rule reachable_wellFormed [OF assms(1)])
  let ?s = "tombstone repo prNumber now (recordClose deliveryID repo prNumber now st)"
  have sw: "sameWork st ?s" by (rule tombstone_sameWork)
  have ws: "wellFormed ?s" by (rule sameWork_wellFormed [OF sw w])
  obtain st' where st': "foldO (cancelIfOpen repo prNumber now) (visitPipelines w 0) ?s = Some st'" "advance ?s st'"
      "\<forall>k \<in> set (visitPipelines w 0). \<forall>p. map_of (pipelines st') k = Some p \<longrightarrow> pl_Repo p = repo \<longrightarrow>
         pl_PRNumber p = prNumber \<longrightarrow> terminal (pl_Status p)"
    using cancelAll_ok [OF ws] by blast
  have k: "keys (pipelines st') = keys (pipelines st)"
    using st'(2) sw by (simp add: advance_def sameCore_def sameWork_def)
  have "k \<in> set (visitPipelines w 0)" if "map_of (pipelines st') k = Some p" for k p
    using map_of_in_keys [OF that] k assms(4) by auto
  with st'(3) have t: "\<forall>k p. map_of (pipelines st') k = Some p \<longrightarrow> pl_Repo p = repo \<longrightarrow> pl_PRNumber p = prNumber \<longrightarrow> terminal (pl_Status p)"
    by blast
  have f: "prStates st' = prStates ?s" using cancelAll_fences [OF st'(1)] by (simp add: sameFences_def)
  obtain q where "map_of (previews ?s) (previewKey repo prNumber) = Some q" "pv_Desired q = StateDeleting"
    using tombstone_previews by blast
  with cancelAll_keepsDeleting [OF ws st'(1)] have "map_of (previews st') (previewKey repo prNumber) = Some q"
    by (simp add: keepsDeleting_def)
  with t f recordClose_fence [of repo prNumber now deliveryID st] st'(1) \<open>pv_Desired q = StateDeleting\<close> assms(2,3)
  show ?thesis by (simp add: MarkPreviewDeletingForDelivery_def)
qed

theorem close_stops_witness:
  "\<exists>st'. MarkPreviewDeletingForDelivery (demoWorld ''g'' [] [''pl_b0'']) ''d9'' ''o/r'' 7 70 demoDeploying = Some (Inr False, st') \<and>
     (\<exists>q. map_of (previews st') (previewKey ''o/r'' 7) = Some q \<and> pv_Desired q = StateDeleting)"
proof -
  have "map_of (deliveries demoDeploying) ''d9'' = None"
      "set (keys (pipelines demoDeploying)) \<subseteq> set (visitPipelines (demoWorld ''g'' [] [''pl_b0'']) 0)"
    by (simp_all add: demo_states demoWorld_def)
  from close_stops [OF demo_reachable(5) _ this, of "''o/r''" 7 70] show ?thesis by auto
qed

end
