(* ===== verification/Paths.thy ===== *)
theory Paths
  imports GoStrings
begin

text \<open>
  Lexical confinement of relative paths: \<open>path.Clean\<close> yields \<open>..\<close> or a path below \<open>../\<close> exactly for
  the paths that leave their root when they are walked component by component. The archive check of
  \<open>internal/cache/validate.go\<close> and the build-path check of \<open>internal/planner/config.go\<close> rest on it.
\<close>

text \<open>Walking the components from a directory \<open>d\<close> levels below the root never goes above the root.\<close>

fun staysInside :: "nat \<Rightarrow> string list \<Rightarrow> bool" where
  "staysInside d [] \<longleftrightarrow> True"
| "staysInside d (w # ws) \<longleftrightarrow>
     (if w = [] \<or> w = ''.'' then staysInside d ws
      else if w = ''..'' then 0 < d \<and> staysInside (d - 1) ws
      else staysInside (Suc d) ws)"

definition confined :: "string \<Rightarrow> bool" where
  "confined p \<longleftrightarrow> staysInside 0 (Split p (CHR ''/''))"

lemma cleanParts_inside:
  "''..'' \<notin> set stack \<Longrightarrow> staysInside (length stack) ws \<Longrightarrow> ''..'' \<notin> set (cleanParts False stack ws)"
proof (induction "False" stack ws rule: cleanParts.induct)
  case (2 stack w ws)
  then show ?case by (cases stack) (auto split: if_splits)
qed simp

lemma cleanParts_parent:
  "stack \<noteq> [] \<Longrightarrow> last stack = ''..'' \<Longrightarrow>
     cleanParts False stack ws \<noteq> [] \<and> hd (cleanParts False stack ws) = ''..''"
proof (induction "False" stack ws rule: cleanParts.induct)
  case (1 stack)
  then show ?case by (simp add: hd_rev)
next
  case (2 stack w ws)
  then show ?case by (cases stack) (auto split: if_splits)
qed

lemma cleanParts_outside:
  "''..'' \<notin> set stack \<Longrightarrow> \<not> staysInside (length stack) ws \<Longrightarrow>
     cleanParts False stack ws \<noteq> [] \<and> hd (cleanParts False stack ws) = ''..''"
proof (induction "False" stack ws rule: cleanParts.induct)
  case (2 stack w ws)
  then show ?case by (cases stack) (auto simp: cleanParts_parent split: if_splits)
qed simp

lemma cleanParts_components:
  "w \<in> set (cleanParts r stack ws) \<Longrightarrow> w \<in> set stack \<or> w \<in> set ws \<and> w \<noteq> []"
proof (induction r stack ws arbitrary: w rule: cleanParts.induct)
  case (2 r stack v ws)
  from "2.prems" show ?case
    using "2.IH" by (cases stack) (auto split: if_splits)
qed simp

lemma Join_Cons: "Join (w # ws) sep = (if ws = [] then w else w @ sep @ Join ws sep)"
  by (cases ws) simp_all

lemma append_slash_cong:
  "CHR ''/'' \<notin> set a \<Longrightarrow> CHR ''/'' \<notin> set b \<Longrightarrow> a @ CHR ''/'' # x = b @ CHR ''/'' # y \<Longrightarrow> a = b"
proof (induction a arbitrary: b)
  case Nil
  then show ?case by (cases b) auto
next
  case (Cons c a)
  then show ?case by (cases b) auto
qed

text \<open>The two tests the program makes on a cleaned relative path decide confinement.\<close>

lemma Clean_confined:
  assumes "\<not> HasPrefix p ''/''"
  shows "Clean p \<noteq> ''..'' \<and> \<not> HasPrefix (Clean p) ''../'' \<longleftrightarrow> confined p"
proof -
  let ?ws = "Split p (CHR ''/'')"
  let ?parts = "cleanParts False [] ?ws"
  have clean: "Clean p = (if Join ?parts ''/'' = [] then ''.'' else Join ?parts ''/'')"
    using assms by (simp add: Clean_def)
  show ?thesis
  proof (cases "confined p")
    case False
    then obtain rest where "?parts = ''..'' # rest"
      using cleanParts_outside [of "[]" ?ws] by (cases ?parts) (auto simp: confined_def)
    then have "Clean p = ''..'' \<or> (\<exists>t. Clean p = ''../'' @ t)"
      by (cases rest) (auto simp: clean Join_Cons)
    with False show ?thesis by (auto simp: HasPrefix_iff)
  next
    case True
    then have no: "''..'' \<notin> set ?parts"
      using cleanParts_inside [of "[]" ?ws] by (simp add: confined_def)
    show ?thesis
    proof (cases ?parts)
      case Nil
      with True show ?thesis by (simp add: clean HasPrefix_def)
    next
      case (Cons w rest)
      have w: "w \<noteq> ''..''" "w \<noteq> []" "CHR ''/'' \<notin> set w"
        using no Cons cleanParts_components [of w False "[]" ?ws] Split_components [of w p "CHR ''/''"] by auto
      then have c: "Clean p = (if rest = [] then w else w @ CHR ''/'' # Join rest ''/'')"
        by (simp add: clean Cons Join_Cons)
      have "rest \<noteq> [] \<Longrightarrow> CHR ''/'' \<in> set (Clean p)" using c by simp
      moreover have "CHR ''/'' \<notin> set ''..''" by simp
      ultimately have "Clean p \<noteq> ''..''" using c w(1) by (cases "rest = []") (simp, metis)
      moreover have "Clean p \<noteq> ''../'' @ t" for t
      proof
        assume "Clean p = ''../'' @ t"
        then have "rest \<noteq> [] \<and> w @ CHR ''/'' # Join rest ''/'' = ''..'' @ CHR ''/'' # t"
          using c w(3) by (auto split: if_splits)
        then have "w = ''..''" using append_slash_cong [OF w(3), of "''..''"] by auto
        with w(1) show False by simp
      qed
      ultimately show ?thesis using True by (simp add: HasPrefix_iff)
    qed
  qed
qed

end
