(* ===== verification/Runtime.thy ===== *)
theory Runtime
  imports Planner Paths Sha256
begin

text \<open>
  The runtime policy of \<open>internal/planner/config.go\<close>: the identity patterns and \<open>Executable\<close>, which
  fills in defaults, bounds every job and then plans the specification. \<open>Executable\<close> writes its
  result through a pointer; when it fails its callers drop the specification, so the model returns the
  new specification only on success. The order in which Go iterates over the job map is the argument
  of \<open>ExecutableWith\<close>.
\<close>

section \<open>Patterns\<close>

definition isLower :: "char \<Rightarrow> bool" where
  "isLower c \<longleftrightarrow> CHR ''a'' \<le> c \<and> c \<le> CHR ''z''"

definition isUpper :: "char \<Rightarrow> bool" where
  "isUpper c \<longleftrightarrow> CHR ''A'' \<le> c \<and> c \<le> CHR ''Z''"

definition isNumber :: "char \<Rightarrow> bool" where
  "isNumber c \<longleftrightarrow> CHR ''0'' \<le> c \<and> c \<le> CHR ''9''"

definition RepositoryPattern :: "string \<Rightarrow> bool" where
  "RepositoryPattern s \<longleftrightarrow>
     (case Split s (CHR ''/'') of
        [owner, name] \<Rightarrow> owner \<noteq> [] \<and> name \<noteq> [] \<and>
          (\<forall>c \<in> set (owner @ name). isUpper c \<or> isLower c \<or> isNumber c \<or> c \<in> set ''_.-'')
      | _ \<Rightarrow> False)"

definition CommitPattern :: "string \<Rightarrow> bool" where
  "CommitPattern s \<longleftrightarrow> length s = 40 \<and> (\<forall>c \<in> set s. isLowerHex c)"

definition DigestPattern :: "string \<Rightarrow> bool" where
  "DigestPattern s \<longleftrightarrow> HasPrefix s ''sha256:'' \<and> length (TrimPrefix s ''sha256:'') = 64 \<and>
     (\<forall>c \<in> set (TrimPrefix s ''sha256:''). isLowerHex c)"

definition namePattern :: "string \<Rightarrow> bool" where
  "namePattern s \<longleftrightarrow>
     (case s of
        [] \<Rightarrow> False
      | c # cs \<Rightarrow> isLower c \<and> length cs \<le> 39 \<and>
          (\<forall>d \<in> set cs. isLower d \<or> isNumber d \<or> d = CHR ''-''))"

section \<open>One job\<close>

datatype configError =
    TooManyJobs | BadJobName string | BadTimeout | BadAttempts | BadResources
  | CommandIncomplete | UnexpectedBuildkit | UntrustedBuild | MissingBuildkit | BuildPathEscapes
  | BadDestination | UnknownType | BadTTL | BadExposure | BadPort | BadHealthPath | UnpinnedImage
  | TooManyTargets | PreviewWithoutImage | InvalidPlan planError

definition jobDefaults :: "bool \<Rightarrow> JobSpec \<Rightarrow> JobSpec" where
  "jobDefaults trusted j = j\<lparr>spec_Trusted := trusted,
     spec_Type := (if spec_Type j = [] then ''command'' else spec_Type j),
     spec_TimeoutSeconds := (if spec_TimeoutSeconds j = 0 then 900 else spec_TimeoutSeconds j),
     spec_MaxAttempts := (if spec_MaxAttempts j = 0 then 3 else spec_MaxAttempts j)\<rparr>"

definition pathEscapes :: "string \<Rightarrow> bool" where
  "pathEscapes v \<longleftrightarrow> HasPrefix v ''/'' \<or> Contains v [CHR 0x5C] \<or> Clean v = ''..'' \<or> HasPrefix (Clean v) ''../''"

definition checkBuild :: "Buildkit \<Rightarrow> configError + Buildkit" where
  "checkBuild b0 =
     (let b = b0\<lparr>bk_Context := (if bk_Context b0 = [] then ''.'' else bk_Context b0),
                 bk_Dockerfile := (if bk_Dockerfile b0 = [] then ''Dockerfile'' else bk_Dockerfile b0)\<rparr>
      in if pathEscapes (bk_Context b) \<or> pathEscapes (bk_Dockerfile b) then Inl BuildPathEscapes
         else if bk_Destination b = [] \<or> ContainsAny (bk_Destination b) ('' ,@'' @ [CHR 0x0A, CHR 0x0D, CHR 0x09]) \<or>
           HasPrefix (bk_Destination b) ''-'' then Inl BadDestination
         else Inr b)"

definition checkType :: "bool \<Rightarrow> JobSpec \<Rightarrow> configError + JobSpec" where
  "checkType trusted j =
     (if spec_Type j = ''command'' then
        (if spec_Image j = [] \<or> HasPrefix (spec_Image j) ''-'' \<or>
            ContainsAny (spec_Image j) ('' '' @ [CHR 0x0A, CHR 0x0D, CHR 0x09]) \<or> spec_Command j = []
         then Inl CommandIncomplete
         else if spec_Buildkit j \<noteq> None then Inl UnexpectedBuildkit
         else Inr j)
      else if spec_Type j = ''buildkit'' then
        (if \<not> trusted then Inl UntrustedBuild
         else case spec_Buildkit j of
           None \<Rightarrow> Inl MissingBuildkit
         | Some b \<Rightarrow>
             (case checkBuild b of
                Inl e \<Rightarrow> Inl e
              | Inr b' \<Rightarrow> Inr (j\<lparr>spec_Buildkit := Some b',
                  spec_Capabilities := spec_Capabilities j @ [''buildkit-rootless'']\<rparr>)))
      else Inl UnknownType)"

definition checkEnvironment :: "Environment \<Rightarrow> configError + Environment" where
  "checkEnvironment e0 =
     (if env_TTLMinutes e0 < 1 \<or> env_TTLMinutes e0 > 10080 then Inl BadTTL
      else if env_Exposure e0 \<noteq> ''internal'' \<and> env_Exposure e0 \<noteq> ''public'' then Inl BadExposure
      else
        let e1 = e0\<lparr>env_Port := (if env_Port e0 = 0 then 8080 else env_Port e0)\<rparr>
        in if env_Port e1 < 1024 \<or> env_Port e1 > 65535 then Inl BadPort
           else
             let e = e1\<lparr>env_HealthPath := (if env_HealthPath e1 = [] then ''/'' else env_HealthPath e1)\<rparr>
             in if \<not> HasPrefix (env_HealthPath e) ''/'' \<or> ContainsAny (env_HealthPath e) [CHR 0x0D, CHR 0x0A]
                then Inl BadHealthPath
                else if env_Image e \<noteq> [] \<and>
                  (let pieces = Split (env_Image e) (CHR ''@'')
                   in length pieces \<noteq> 2 \<or> \<not> DigestPattern (pieces ! 1)) then Inl UnpinnedImage
                else Inr e)"

text \<open>The body of the loop over the jobs, up to the assignment \<open>spec.Jobs[name] = j\<close>.\<close>

definition executableJob :: "bool \<Rightarrow> string \<Rightarrow> JobSpec \<Rightarrow> configError + JobSpec" where
  "executableJob trusted name j0 =
     (if \<not> namePattern name then Inl (BadJobName name)
      else
        let j = jobDefaults trusted j0 in
        if spec_TimeoutSeconds j < 10 \<or> spec_TimeoutSeconds j > 3600 then Inl BadTimeout
        else if spec_MaxAttempts j < 1 \<or> spec_MaxAttempts j > 5 then Inl BadAttempts
        else if res_CPU (spec_Resources j) < 1 \<or> res_CPU (spec_Resources j) > 8 \<or>
           res_Memory (spec_Resources j) < 64 \<or> res_Memory (spec_Resources j) > 16384 then Inl BadResources
        else case checkType trusted j of
          Inl e \<Rightarrow> Inl e
        | Inr j1 \<Rightarrow>
            (case spec_Environment j1 of
               None \<Rightarrow> Inr j1
             | Some env \<Rightarrow>
                 (case checkEnvironment env of
                    Inl e \<Rightarrow> Inl e
                  | Inr env' \<Rightarrow> Inr (j1\<lparr>spec_Environment := Some env'\<rparr>))))"

section \<open>The specification\<close>

text \<open>The loop: the jobs written so far, the number of environments and the number of image builds.\<close>

fun executableJobs ::
  "bool \<Rightarrow> (string \<times> JobSpec) list \<Rightarrow> (string, JobSpec) gomap \<times> int \<times> int
   \<Rightarrow> configError + (string, JobSpec) gomap \<times> int \<times> int" where
  "executableJobs trusted [] s = Inr s"
| "executableJobs trusted ((name, j) # es) (m, environments, builders) =
     (case executableJob trusted name j of
        Inl e \<Rightarrow> Inl e
      | Inr j' \<Rightarrow> executableJobs trusted es
          (AList.update name j' m,
           environments + (if spec_Environment j' \<noteq> None then 1 else 0),
           builders + (if spec_Type j' = ''buildkit'' then 1 else 0)))"

definition ExecutableWith :: "(string \<times> JobSpec) list \<Rightarrow> PipelineSpec \<Rightarrow> bool \<Rightarrow> configError + PipelineSpec" where
  "ExecutableWith es spec trusted =
     (if length (ps_Jobs spec) > 32 then Inl TooManyJobs
      else case executableJobs trusted es (ps_Jobs spec, 0, 0) of
        Inl e \<Rightarrow> Inl e
      | Inr (m, environments, builders) \<Rightarrow>
          if environments > 1 \<or> builders > 1 then Inl TooManyTargets
          else if \<exists>(name, j) \<in> set m. (case spec_Environment j of
               None \<Rightarrow> False | Some e \<Rightarrow> env_Image e = [] \<and> builders \<noteq> 1) then Inl PreviewWithoutImage
          else case Validate (spec\<lparr>ps_Jobs := m\<rparr>) of
            Inl e \<Rightarrow> Inl (InvalidPlan e)
          | Inr _ \<Rightarrow> Inr (spec\<lparr>ps_Jobs := m\<rparr>))"

definition Executable :: "PipelineSpec \<Rightarrow> bool \<Rightarrow> configError + PipelineSpec" where
  "Executable spec trusted = ExecutableWith (ps_Jobs spec) spec trusted"

section \<open>What an accepted job satisfies\<close>

definition buildOK :: "Buildkit \<Rightarrow> bool" where
  "buildOK b \<longleftrightarrow> (\<forall>v \<in> {bk_Context b, bk_Dockerfile b}. v \<noteq> [] \<and> \<not> HasPrefix v ''/'' \<and> CHR 0x5C \<notin> set v \<and> confined v) \<and>
     bk_Destination b \<noteq> [] \<and> CHR ''@'' \<notin> set (bk_Destination b)"

definition environmentOK :: "Environment \<Rightarrow> bool" where
  "environmentOK e \<longleftrightarrow> 1 \<le> env_TTLMinutes e \<and> env_TTLMinutes e \<le> 10080 \<and>
     env_Exposure e \<in> {''internal'', ''public''} \<and> 1024 \<le> env_Port e \<and> env_Port e \<le> 65535 \<and>
     HasPrefix (env_HealthPath e) ''/'' \<and>
     (env_Image e \<noteq> [] \<longrightarrow> (\<exists>name digest. env_Image e = name @ CHR ''@'' # digest \<and> DigestPattern digest))"

definition runtimeOK :: "bool \<Rightarrow> string \<Rightarrow> JobSpec \<Rightarrow> bool" where
  "runtimeOK trusted name j \<longleftrightarrow> namePattern name \<and> spec_Trusted j = trusted \<and>
     10 \<le> spec_TimeoutSeconds j \<and> spec_TimeoutSeconds j \<le> 3600 \<and>
     1 \<le> spec_MaxAttempts j \<and> spec_MaxAttempts j \<le> 5 \<and>
     1 \<le> res_CPU (spec_Resources j) \<and> res_CPU (spec_Resources j) \<le> 8 \<and>
     64 \<le> res_Memory (spec_Resources j) \<and> res_Memory (spec_Resources j) \<le> 16384 \<and>
     (spec_Type j = ''command'' \<and> spec_Image j \<noteq> [] \<and> spec_Command j \<noteq> [] \<and> spec_Buildkit j = None \<or>
      spec_Type j = ''buildkit'' \<and> trusted \<and> ''buildkit-rootless'' \<in> set (spec_Capabilities j) \<and>
        (\<exists>b. spec_Buildkit j = Some b \<and> buildOK b)) \<and>
     (\<forall>e. spec_Environment j = Some e \<longrightarrow> environmentOK e)"

lemma pathEscapes_iff:
  "\<not> pathEscapes v \<longleftrightarrow> \<not> HasPrefix v ''/'' \<and> CHR 0x5C \<notin> set v \<and> confined v"
proof -
  have c: "Contains v [CHR 0x5C] \<longleftrightarrow> CHR 0x5C \<in> set v"
    by (simp add: Contains_iff in_set_conv_decomp)
  show ?thesis unfolding pathEscapes_def c using Clean_confined [of v] by blast
qed

lemma checkBuild_OK:
  assumes "checkBuild b0 = Inr b"
  shows "buildOK b"
proof -
  have "\<not> pathEscapes (bk_Context b)" "\<not> pathEscapes (bk_Dockerfile b)" "bk_Context b \<noteq> []" "bk_Dockerfile b \<noteq> []"
      "bk_Destination b \<noteq> []" "\<not> ContainsAny (bk_Destination b) ('' ,@'' @ [CHR 0x0A, CHR 0x0D, CHR 0x09])"
    using assms by (auto simp: checkBuild_def Let_def split: if_splits)
  then show ?thesis by (auto simp: buildOK_def pathEscapes_iff ContainsAny_def)
qed

lemma Split_two: "Split s sep = [a, b] \<Longrightarrow> s = a @ sep # b"
  using Join_Split [of s sep] by simp

lemma checkEnvironment_OK:
  assumes "checkEnvironment e0 = Inr e"
  shows "environmentOK e"
proof -
  have "env_Image e \<noteq> [] \<Longrightarrow> length (Split (env_Image e) (CHR ''@'')) = 2 \<and> DigestPattern (Split (env_Image e) (CHR ''@'') ! 1)"
    using assms by (auto simp: checkEnvironment_def Let_def split: if_splits)
  then have "\<exists>name digest. env_Image e = name @ CHR ''@'' # digest \<and> DigestPattern digest" if "env_Image e \<noteq> []"
  proof -
    from that \<open>env_Image e \<noteq> [] \<Longrightarrow> _\<close> obtain u v where "Split (env_Image e) (CHR ''@'') = [u, v]" "DigestPattern v"
      by (cases "Split (env_Image e) (CHR ''@'')"; cases "tl (Split (env_Image e) (CHR ''@''))") auto
    with Split_two show ?thesis by blast
  qed
  moreover have "1 \<le> env_TTLMinutes e" "env_TTLMinutes e \<le> 10080" "env_Exposure e \<in> {''internal'', ''public''}"
      "1024 \<le> env_Port e" "env_Port e \<le> 65535" "HasPrefix (env_HealthPath e) ''/''"
    using assms by (auto simp: checkEnvironment_def Let_def split: if_splits)
  ultimately show ?thesis by (simp add: environmentOK_def)
qed

lemma executableJob_OK:
  assumes e: "executableJob trusted name j0 = Inr j"
  shows "runtimeOK trusted name j"
proof -
  let ?d = "jobDefaults trusted j0"
  obtain j1 where t: "checkType trusted ?d = Inr j1" and n: "namePattern name"
    and b: "10 \<le> spec_TimeoutSeconds ?d" "spec_TimeoutSeconds ?d \<le> 3600" "1 \<le> spec_MaxAttempts ?d" "spec_MaxAttempts ?d \<le> 5"
      "1 \<le> res_CPU (spec_Resources ?d)" "res_CPU (spec_Resources ?d) \<le> 8"
      "64 \<le> res_Memory (spec_Resources ?d)" "res_Memory (spec_Resources ?d) \<le> 16384"
    and env: "(case spec_Environment j1 of None \<Rightarrow> Inr j1 | Some env \<Rightarrow>
        (case checkEnvironment env of Inl e \<Rightarrow> Inl e | Inr env' \<Rightarrow> Inr (j1\<lparr>spec_Environment := Some env'\<rparr>))) = Inr j"
    using e by (auto simp: executableJob_def Let_def not_less split: if_splits sum.splits)
  have kind: "spec_Type j1 = ''command'' \<and> spec_Image j1 \<noteq> [] \<and> spec_Command j1 \<noteq> [] \<and> spec_Buildkit j1 = None \<or>
      spec_Type j1 = ''buildkit'' \<and> trusted \<and> ''buildkit-rootless'' \<in> set (spec_Capabilities j1) \<and>
        (\<exists>b. spec_Buildkit j1 = Some b \<and> buildOK b)"
    using t by (auto simp: checkType_def checkBuild_OK split: if_splits option.splits sum.splits)
  have same: "spec_Trusted j1 = trusted" "spec_TimeoutSeconds j1 = spec_TimeoutSeconds ?d"
      "spec_MaxAttempts j1 = spec_MaxAttempts ?d" "spec_Resources j1 = spec_Resources ?d"
    using t by (auto simp: checkType_def jobDefaults_def split: if_splits option.splits sum.splits)
  show ?thesis
  proof (cases "spec_Environment j1")
    case None
    with env have "j = j1" by simp
    with None n b kind same show ?thesis by (simp add: runtimeOK_def)
  next
    case (Some env0)
    with env obtain env1 where "checkEnvironment env0 = Inr env1" "j = j1\<lparr>spec_Environment := Some env1\<rparr>"
      by (auto split: sum.splits)
    with checkEnvironment_OK n b kind same show ?thesis by (simp add: runtimeOK_def)
  qed
qed

section \<open>The loop as a map\<close>

definition ran :: "bool \<Rightarrow> string \<Rightarrow> JobSpec \<Rightarrow> JobSpec" where
  "ran trusted name j = (case executableJob trusted name j of Inl _ \<Rightarrow> j | Inr j' \<Rightarrow> j')"

definition allRun :: "bool \<Rightarrow> (string \<times> JobSpec) list \<Rightarrow> bool" where
  "allRun trusted es \<longleftrightarrow> (\<forall>(name, j) \<in> set es. \<not> isl (executableJob trusted name j))"

definition tally :: "(JobSpec \<Rightarrow> bool) \<Rightarrow> bool \<Rightarrow> (string \<times> JobSpec) list \<Rightarrow> int" where
  "tally P trusted es = (\<Sum>(name, j) \<leftarrow> es. if P (ran trusted name j) then 1 else 0)"

abbreviation hasEnvironment :: "JobSpec \<Rightarrow> bool" where
  "hasEnvironment j \<equiv> spec_Environment j \<noteq> None"

abbreviation buildsImage :: "JobSpec \<Rightarrow> bool" where
  "buildsImage j \<equiv> spec_Type j = ''buildkit''"

lemma executableJobs_eq:
  "executableJobs trusted es (m, x, y) = Inr r \<longleftrightarrow> allRun trusted es \<and>
     r = (fold (\<lambda>(name, j). AList.update name (ran trusted name j)) es m,
          x + tally hasEnvironment trusted es, y + tally buildsImage trusted es)"
proof (induction es arbitrary: m x y)
  case Nil
  then show ?case by (auto simp: allRun_def tally_def)
next
  case (Cons e es)
  obtain name j where e: "e = (name, j)" by (cases e)
  show ?case
  proof (cases "executableJob trusted name j")
    case (Inl err)
    then show ?thesis by (simp add: e allRun_def)
  next
    case (Inr j')
    then have "ran trusted name j = j'" by (simp add: ran_def)
    with Inr Cons.IH show ?thesis by (auto simp: e allRun_def tally_def)
  qed
qed

lemma keys_update_old: "k \<in> set (keys m) \<Longrightarrow> keys (AList.update k v m) = keys m"
  by (induction m) auto

lemma fold_update_map:
  assumes "set (keys es) \<subseteq> set (keys m)"
  shows "keys (fold (\<lambda>(k, v). AList.update k (f k v)) es m) = keys m"
  using assms
proof (induction es arbitrary: m)
  case Nil
  then show ?case by simp
next
  case (Cons e es)
  obtain k v where e: "e = (k, v)" by (cases e)
  with Cons.prems have k: "k \<in> set (keys m)" "set (keys es) \<subseteq> set (keys m)" by auto
  note keys_update_old [OF k(1), of "f k v"]
  with Cons.IH [of "AList.update k (f k v) m"] k show ?case by (simp add: e)
qed

lemma fold_update_lookup:
  assumes "distinct (keys es)"
  shows "map_of (fold (\<lambda>(k, v). AList.update k (f k v)) es m) k' =
    (case map_of es k' of None \<Rightarrow> map_of m k' | Some v \<Rightarrow> Some (f k' v))"
  using assms
proof (induction es arbitrary: m)
  case Nil
  then show ?case by simp
next
  case (Cons e es)
  obtain k v where e: "e = (k, v)" by (cases e)
  with Cons.prems have "map_of es k = None" by (simp add: map_of_eq_None_iff)
  with Cons show ?case by (auto simp: e split: option.split)
qed

lemma gomap_eqI:
  assumes "keys m = keys m'" "distinct (keys m)" "map_of m = map_of m'"
  shows "m = m'"
proof (rule nth_equalityI)
  show len: "length m = length m'" using assms(1) by (metis length_map)
  fix i assume i: "i < length m"
  have k: "fst (m ! i) = fst (m' ! i)" using assms(1) i len by (metis nth_map)
  have "map_of m (fst (m ! i)) = Some (snd (m ! i))" using i assms(2) by (intro map_of_is_SomeI) simp_all
  moreover have "map_of m' (fst (m' ! i)) = Some (snd (m' ! i))"
    using i assms(1,2) len by (intro map_of_is_SomeI) simp_all
  ultimately show "m ! i = m' ! i" using assms(3) k by (simp add: prod_eq_iff)
qed

text \<open>In every order the loop rewrites each job in place.\<close>

lemma fold_update_perm:
  assumes d: "distinct (keys m)" and p: "mset es = mset m"
  shows "fold (\<lambda>(k, v). AList.update k (f k v)) es m = mapvals f m"
proof (rule gomap_eqI)
  have k: "set (keys es) = set (keys m)" using mset_eq_setD [OF p] by simp
  then have eq: "keys (fold (\<lambda>(k, v). AList.update k (f k v)) es m) = keys m" by (intro fold_update_map) simp
  then show "keys (fold (\<lambda>(k, v). AList.update k (f k v)) es m) = keys (mapvals f m)" by simp
  show "distinct (keys (fold (\<lambda>(k, v). AList.update k (f k v)) es m))" using d eq by simp
  have de: "distinct (keys es)" using d p by (metis mset_eq_imp_distinct_iff mset_map)
  show "map_of (fold (\<lambda>(k, v). AList.update k (f k v)) es m) = map_of (mapvals f m)"
    using fold_update_lookup [OF de, of f m] map_of_perm [OF d p] by (intro ext) (simp split: option.split)
qed

lemma executableJobs_perm:
  assumes d: "distinct (keys m)" and p: "mset es = mset m"
  shows "executableJobs trusted es (m, 0, 0) = Inr r \<longleftrightarrow> allRun trusted m \<and>
    r = (mapvals (ran trusted) m, tally hasEnvironment trusted m, tally buildsImage trusted m)"
proof -
  have "allRun trusted es = allRun trusted m" using mset_eq_setD [OF p] by (simp add: allRun_def)
  moreover have "tally P trusted es = tally P trusted m" for P
    unfolding tally_def sum_mset_sum_list [symmetric] mset_map p ..
  ultimately show ?thesis using fold_update_perm [OF d p, of "ran trusted"] by (simp add: executableJobs_eq)
qed

lemma ExecutableWith_iff:
  "ExecutableWith es spec trusted = Inr spec' \<longleftrightarrow> length (ps_Jobs spec) \<le> 32 \<and>
     (\<exists>m x y. executableJobs trusted es (ps_Jobs spec, 0, 0) = Inr (m, x, y) \<and> x \<le> 1 \<and> y \<le> 1 \<and>
        (\<forall>(name, j) \<in> set m. \<forall>v. spec_Environment j = Some v \<longrightarrow> env_Image v = [] \<longrightarrow> y = 1) \<and>
        (\<exists>order. Validate (spec\<lparr>ps_Jobs := m\<rparr>) = Inr order) \<and> spec' = spec\<lparr>ps_Jobs := m\<rparr>)"
proof (cases "executableJobs trusted es (ps_Jobs spec, 0, 0)")
  case (Inl e)
  then show ?thesis by (simp add: ExecutableWith_def)
next
  case (Inr r)
  obtain m x y where r: "r = (m, x, y)" by (cases r)
  let ?bad = "\<exists>(name, j) \<in> set m. (case spec_Environment j of None \<Rightarrow> False | Some e \<Rightarrow> env_Image e = [] \<and> y \<noteq> 1)"
  have "\<not> ?bad \<longleftrightarrow> (\<forall>(name, j) \<in> set m. \<forall>v. spec_Environment j = Some v \<longrightarrow> env_Image v = [] \<longrightarrow> y = 1)"
    by (fastforce split: option.splits)
  moreover have "ExecutableWith es spec trusted = Inr spec' \<longleftrightarrow> length (ps_Jobs spec) \<le> 32 \<and> x \<le> 1 \<and> y \<le> 1 \<and> \<not> ?bad \<and>
      (\<exists>order. Validate (spec\<lparr>ps_Jobs := m\<rparr>) = Inr order) \<and> spec' = spec\<lparr>ps_Jobs := m\<rparr>"
    unfolding ExecutableWith_def Inr r by (cases "Validate (spec\<lparr>ps_Jobs := m\<rparr>)") (simp_all add: not_less, blast)
  ultimately show ?thesis using Inr r by simp
qed

lemma ExecutableWith_perm:
  assumes d: "distinct (keys (ps_Jobs spec))" and p: "mset es = mset (ps_Jobs spec)"
  shows "ExecutableWith es spec trusted = Inr spec' \<longleftrightarrow> Executable spec trusted = Inr spec'"
proof -
  have "executableJobs trusted es (ps_Jobs spec, 0, 0) = Inr r \<longleftrightarrow>
      executableJobs trusted (ps_Jobs spec) (ps_Jobs spec, 0, 0) = Inr r" for r
    using executableJobs_perm [OF d p] executableJobs_perm [OF d refl] by simp
  then show ?thesis unfolding Executable_def ExecutableWith_iff by simp
qed

lemma Executable_result:
  assumes d: "distinct (keys (ps_Jobs spec))" and e: "Executable spec trusted = Inr spec'"
  shows "allRun trusted (ps_Jobs spec)" "spec' = spec\<lparr>ps_Jobs := mapvals (ran trusted) (ps_Jobs spec)\<rparr>"
    "length (ps_Jobs spec) \<le> 32" "tally hasEnvironment trusted (ps_Jobs spec) \<le> 1"
    "tally buildsImage trusted (ps_Jobs spec) \<le> 1" "\<exists>order. Validate spec' = Inr order"
    "\<forall>(name, j) \<in> set (ps_Jobs spec'). \<forall>v. spec_Environment j = Some v \<longrightarrow> env_Image v = [] \<longrightarrow>
       tally buildsImage trusted (ps_Jobs spec) = 1"
proof -
  let ?m = "mapvals (ran trusted) (ps_Jobs spec)"
  let ?t = "tally hasEnvironment trusted (ps_Jobs spec)" and ?u = "tally buildsImage trusted (ps_Jobs spec)"
  obtain m x y where r: "executableJobs trusted (ps_Jobs spec) (ps_Jobs spec, 0, 0) = Inr (m, x, y)"
      "length (ps_Jobs spec) \<le> 32" "x \<le> 1" "y \<le> 1"
      "\<forall>(name, j) \<in> set m. \<forall>v. spec_Environment j = Some v \<longrightarrow> env_Image v = [] \<longrightarrow> y = 1"
      "\<exists>order. Validate (spec\<lparr>ps_Jobs := m\<rparr>) = Inr order" "spec' = spec\<lparr>ps_Jobs := m\<rparr>"
    using e unfolding Executable_def ExecutableWith_iff by blast
  then have "allRun trusted (ps_Jobs spec)" "m = ?m" "x = ?t" "y = ?u"
    using executableJobs_perm [OF d refl, of trusted "(m, x, y)"] by simp_all
  with r show "allRun trusted (ps_Jobs spec)" "spec' = spec\<lparr>ps_Jobs := ?m\<rparr>" "length (ps_Jobs spec) \<le> 32"
      "?t \<le> 1" "?u \<le> 1" "\<exists>order. Validate spec' = Inr order"
      "\<forall>(name, j) \<in> set (ps_Jobs spec'). \<forall>v. spec_Environment j = Some v \<longrightarrow> env_Image v = [] \<longrightarrow> ?u = 1"
    by simp_all
qed

section \<open>Properties\<close>

lemma tally_filter: "tally P trusted es = int (length (filter (\<lambda>(name, j). P j) (mapvals (ran trusted) es)))"
  by (induction es) (auto simp: tally_def mapvals_def)

text \<open>
  C38: What \<open>Executable\<close> accepts is safe to run. On success the job names are kept, there are at most
  32 jobs, at most one preview and one image build, and every job, with its defaults filled in, meets
  the runtime bounds: timeout, attempts, CPU and memory in their ranges, the operator's trust flag, an
  image and a command or (in trusted repositories only) a build whose paths never leave the checkout,
  and a preview with bounded lifetime, port and a pinned or freshly built image. The specification has
  a plan.
\<close>

theorem Executable_runtime:
  assumes "distinct (keys (ps_Jobs spec))" "Executable spec trusted = Inr spec'"
  shows "keys (ps_Jobs spec') = keys (ps_Jobs spec) \<and> length (ps_Jobs spec') \<le> 32 \<and>
    length (filter (\<lambda>(name, j). hasEnvironment j) (ps_Jobs spec')) \<le> 1 \<and>
    length (filter (\<lambda>(name, j). buildsImage j) (ps_Jobs spec')) \<le> 1 \<and>
    (\<forall>(name, j) \<in> set (ps_Jobs spec'). runtimeOK trusted name j \<and>
       (\<forall>v. spec_Environment j = Some v \<longrightarrow> env_Image v = [] \<longrightarrow> (\<exists>(n, i) \<in> set (ps_Jobs spec'). buildsImage i))) \<and>
    (\<exists>order. Validate spec' = Inr order)"
proof -
  note R = Executable_result [OF assms]
  have jobs: "ps_Jobs spec' = mapvals (ran trusted) (ps_Jobs spec)" by (simp add: R(2))
  have ok: "runtimeOK trusted name j" if j: "(name, j) \<in> set (ps_Jobs spec')" for name j
  proof -
    obtain j0 where j0: "(name, j0) \<in> set (ps_Jobs spec)" "j = ran trusted name j0"
      using j by (auto simp: jobs mapvals_def)
    then obtain j1 where "executableJob trusted name j0 = Inr j1"
      using R(1) by (cases "executableJob trusted name j0") (auto simp: allRun_def)
    with executableJob_OK j0(2) show ?thesis by (simp add: ran_def)
  qed
  have built: "\<exists>(n, i) \<in> set (ps_Jobs spec'). buildsImage i"
    if "(name, j) \<in> set (ps_Jobs spec')" "spec_Environment j = Some v" "env_Image v = []" for name j v
  proof -
    have "tally buildsImage trusted (ps_Jobs spec) = 1" using R(7) that by blast
    then have "filter (\<lambda>(name, j). buildsImage j) (ps_Jobs spec') \<noteq> []" by (auto simp: tally_filter jobs)
    then show ?thesis by (auto simp: filter_empty_conv)
  qed
  have "length (filter (\<lambda>(name, j). hasEnvironment j) (ps_Jobs spec')) \<le> 1"
      "length (filter (\<lambda>(name, j). buildsImage j) (ps_Jobs spec')) \<le> 1"
    using R(4,5) by (simp_all add: tally_filter jobs)
  moreover have "keys (ps_Jobs spec') = keys (ps_Jobs spec)" by (simp add: jobs)
  moreover have "length (ps_Jobs spec') \<le> 32" using R(3) by (simp add: jobs mapvals_def)
  ultimately show ?thesis using ok built R(6) by blast
qed

text \<open>An image build and the preview of what it built.\<close>

definition releaseSpec :: PipelineSpec where
  "releaseSpec = \<lparr>ps_Version = 1, ps_Jobs =
     [(''preview'', zeroJobSpec\<lparr>spec_Image := ''go'', spec_Command := [''true''], spec_Needs := [''image''],
         spec_Resources := \<lparr>res_CPU = 1, res_Memory = 64\<rparr>, spec_Environment := Some
           \<lparr>env_TTLMinutes = 60, env_Exposure = ''public'', env_Image = [], env_Port = 0, env_HealthPath = []\<rparr>\<rparr>),
      (''image'', zeroJobSpec\<lparr>spec_Type := ''buildkit'', spec_Resources := \<lparr>res_CPU = 2, res_Memory = 512\<rparr>,
         spec_Buildkit := Some \<lparr>bk_Context = ''a/../b'', bk_Dockerfile = [], bk_Destination = ''reg/app''\<rparr>\<rparr>)]\<rparr>"

lemma release_accepted: "\<not> isl (Executable releaseSpec True)"
  by code_simp

theorem Executable_runtime_witness:
  "\<exists>spec'. Executable releaseSpec True = Inr spec' \<and> keys (ps_Jobs spec') = [''preview'', ''image''] \<and>
     (\<exists>order. Validate spec' = Inr order)"
proof -
  obtain spec' where e: "Executable releaseSpec True = Inr spec'"
    using release_accepted by (cases "Executable releaseSpec True") auto
  have "distinct (keys (ps_Jobs releaseSpec))" "keys (ps_Jobs releaseSpec) = [''preview'', ''image'']"
    by (simp_all add: releaseSpec_def)
  with Executable_runtime [OF _ e] e show ?thesis by simp
qed

text \<open>
  The order in which Go iterates over the job map does not matter to \<open>Executable\<close>: in every order
  the same specifications are accepted, with the same result (only which error is reported first may
  differ).
\<close>

lemma Executable_order_independent:
  assumes "distinct (keys (ps_Jobs spec))" "mset es = mset (ps_Jobs spec)"
  shows "ExecutableWith es spec trusted = Inr spec' \<longleftrightarrow> Executable spec trusted = Inr spec'"
  by (rule ExecutableWith_perm [OF assms])

lemma Executable_order_independent_sample:
  "\<exists>spec'. ExecutableWith (rev (ps_Jobs releaseSpec)) releaseSpec True = Inr spec'"
proof -
  obtain spec' where e: "Executable releaseSpec True = Inr spec'"
    using release_accepted by (cases "Executable releaseSpec True") auto
  have "distinct (keys (ps_Jobs releaseSpec))" "mset (rev (ps_Jobs releaseSpec)) = mset (ps_Jobs releaseSpec)"
    by (simp_all add: releaseSpec_def)
  from Executable_order_independent [OF this] e show ?thesis by blast
qed

end
