(* ===== verification/Access.thy ===== *)
theory Access
  imports Runtime
begin

text \<open>
  Principals and repository policies (\<open>internal/auth/auth.go\<close>): the validation of the access file and
  the authentication of a bearer token. \<open>Load\<close>, which reads and decodes the file and then calls
  \<open>Validate\<close>, is in \<open>Startup\<close>. \<open>subtle.ConstantTimeCompare\<close> is equality.
\<close>

record Principal =
  prin_Token :: string
  prin_Role :: string
  prin_Tenant :: string
  prin_Worker :: "Worker option"

record Repository =
  repo_Tenant :: string
  repo_Trusted :: bool
  repo_AllowForks :: bool
  repo_InstallationID :: int
  repo_ImagePrefix :: string

record AccessConfig =
  acc_Principals :: "Principal list"
  acc_Repositories :: "(string, Repository) gomap"

definition zeroPrincipal :: Principal where
  "zeroPrincipal = \<lparr>prin_Token = [], prin_Role = [], prin_Tenant = [], prin_Worker = None\<rparr>"

datatype accessError = BadToken | TenantMissing | BadWorker | BadRole | NoAdmin | BadRepository

text \<open>The loop over the principals, with the tokens and worker identities seen so far.\<close>

fun checkPrincipals :: "string list \<Rightarrow> string list \<Rightarrow> bool \<Rightarrow> Principal list \<Rightarrow> accessError + bool" where
  "checkPrincipals seen workers admin [] = Inr admin"
| "checkPrincipals seen workers admin (p # ps) =
     (if length (prin_Token p) < 32 \<or> prin_Token p \<in> set seen then Inl BadToken
      else
        let seen' = prin_Token p # seen in
        if prin_Role p = ''admin'' then checkPrincipals seen' workers True ps
        else if prin_Role p = ''tenant'' then
          (if prin_Tenant p = [] then Inl TenantMissing else checkPrincipals seen' workers admin ps)
        else if prin_Role p = ''controller'' then checkPrincipals seen' workers admin ps
        else if prin_Role p = ''worker'' then
          (case prin_Worker p of
             None \<Rightarrow> Inl BadWorker
           | Some w \<Rightarrow>
               if wk_ID w = [] \<or> wk_ID w \<in> set workers \<or> wk_Capacity w < 1 \<or> wk_Capacity w > 64 \<or>
                  res_CPU (wk_Resources w) < 1 \<or> res_Memory (wk_Resources w) < 64
               then Inl BadWorker
               else checkPrincipals seen' (wk_ID w # workers) admin ps)
        else Inl BadRole)"

definition ValidateAccess :: "AccessConfig \<Rightarrow> accessError option" where
  "ValidateAccess c =
     (case checkPrincipals [] [] False (acc_Principals c) of
        Inl e \<Rightarrow> Some e
      | Inr admin \<Rightarrow>
          if \<not> admin then Some NoAdmin
          else if \<exists>(repo, policy) \<in> set (acc_Repositories c). \<not> RepositoryPattern repo \<or> repo_Tenant policy = []
          then Some BadRepository
          else None)"

definition tokenHash :: "string \<Rightarrow> u8 list" where
  "tokenHash token = sha256 (bytes token)"

definition Authenticate :: "AccessConfig \<Rightarrow> string \<Rightarrow> Principal \<times> bool" where
  "Authenticate c header =
     (if \<not> HasPrefix header ''Bearer '' then (zeroPrincipal, False)
      else
        let hash = tokenHash (TrimPrefix header ''Bearer '');
            (found, ok) = fold (\<lambda>p r. if hash = tokenHash (prin_Token p) then (p, True) else r)
              (acc_Principals c) (zeroPrincipal, False)
        in (found\<lparr>prin_Token := []\<rparr>, ok))"

section \<open>Validation\<close>

definition principalOK :: "Principal \<Rightarrow> bool" where
  "principalOK p \<longleftrightarrow> 32 \<le> length (prin_Token p) \<and>
     (prin_Role p = ''admin'' \<or> prin_Role p = ''tenant'' \<and> prin_Tenant p \<noteq> [] \<or> prin_Role p = ''controller'' \<or>
      prin_Role p = ''worker'' \<and> (\<exists>w. prin_Worker p = Some w \<and> wk_ID w \<noteq> [] \<and> 1 \<le> wk_Capacity w \<and>
        wk_Capacity w \<le> 64 \<and> 1 \<le> res_CPU (wk_Resources w) \<and> 64 \<le> res_Memory (wk_Resources w)))"

definition workerIDs :: "Principal list \<Rightarrow> string list" where
  "workerIDs ps = map (\<lambda>p. wk_ID (the (prin_Worker p))) (filter (\<lambda>p. prin_Role p = ''worker'') ps)"

lemma workerIDs_simps [simp]:
  "workerIDs [] = []"
  "workerIDs (p # ps) = (if prin_Role p = ''worker'' then wk_ID (the (prin_Worker p)) # workerIDs ps else workerIDs ps)"
  by (simp_all add: workerIDs_def)

lemma role_distinct:
  "''admin'' \<noteq> ''worker''" "''tenant'' \<noteq> ''worker''" "''controller'' \<noteq> ''worker''"
  "''admin'' \<noteq> ''tenant''" "''admin'' \<noteq> ''controller''" "''tenant'' \<noteq> ''controller''"
  by simp_all

lemma checkPrincipals_iff:
  "checkPrincipals seen workers admin ps = Inr b \<longleftrightarrow>
     (\<forall>p \<in> set ps. principalOK p) \<and> distinct (map prin_Token ps) \<and> set (map prin_Token ps) \<inter> set seen = {} \<and>
     distinct (workerIDs ps) \<and> set (workerIDs ps) \<inter> set workers = {} \<and>
     b = (admin \<or> (\<exists>p \<in> set ps. prin_Role p = ''admin''))"
proof (induction ps arbitrary: seen workers admin)
  case Nil
  then show ?case by auto
next
  case (Cons p ps)
  consider "length (prin_Token p) < 32 \<or> prin_Token p \<in> set seen"
    | "\<not> (length (prin_Token p) < 32 \<or> prin_Token p \<in> set seen)" "prin_Role p = ''admin''"
    | "\<not> (length (prin_Token p) < 32 \<or> prin_Token p \<in> set seen)" "prin_Role p = ''tenant''"
    | "\<not> (length (prin_Token p) < 32 \<or> prin_Token p \<in> set seen)" "prin_Role p = ''controller''"
    | "\<not> (length (prin_Token p) < 32 \<or> prin_Token p \<in> set seen)" "prin_Role p = ''worker''"
    | "\<not> (length (prin_Token p) < 32 \<or> prin_Token p \<in> set seen)"
      "prin_Role p \<notin> {''admin'', ''tenant'', ''controller'', ''worker''}" by blast
  then show ?case
  proof cases
    case 1
    then show ?thesis by (auto simp: principalOK_def)
  next
    case 2
    with Cons.IH show ?thesis by (auto simp: principalOK_def)
  next
    case 3
    with Cons.IH show ?thesis by (auto simp: principalOK_def)
  next
    case 4
    with Cons.IH show ?thesis by (auto simp: principalOK_def)
  next
    case 5
    with Cons.IH show ?thesis by (cases "prin_Worker p") (auto simp: principalOK_def)
  next
    case 6
    then have "checkPrincipals seen workers admin (p # ps) = Inl BadRole" "\<not> principalOK p"
      by (auto simp: principalOK_def)
    then show ?thesis by simp
  qed
qed

text \<open>
  The access file is accepted exactly if every token has at least 32 bytes and is used once, every
  principal has a known role with what the role requires, worker identities are unique, there is an
  administrator, and every repository policy names a repository and a tenant.
\<close>

lemma ValidateAccess_iff:
  "ValidateAccess c = None \<longleftrightarrow> (\<forall>p \<in> set (acc_Principals c). principalOK p) \<and>
     distinct (map prin_Token (acc_Principals c)) \<and> distinct (workerIDs (acc_Principals c)) \<and>
     (\<exists>p \<in> set (acc_Principals c). prin_Role p = ''admin'') \<and>
     (\<forall>(repo, policy) \<in> set (acc_Repositories c). RepositoryPattern repo \<and> repo_Tenant policy \<noteq> [])"
proof (cases "checkPrincipals [] [] False (acc_Principals c)")
  case (Inl e)
  then have "\<not> (\<exists>b. checkPrincipals [] [] False (acc_Principals c) = Inr b)" by simp
  with Inl show ?thesis unfolding checkPrincipals_iff by (auto simp: ValidateAccess_def)
next
  case (Inr b)
  with checkPrincipals_iff [of "[]" "[]" False "acc_Principals c" b] show ?thesis
    by (auto simp: ValidateAccess_def)
qed

definition demoAccess :: AccessConfig where
  "demoAccess = \<lparr>acc_Principals =
     [zeroPrincipal\<lparr>prin_Token := replicate 32 (CHR ''a''), prin_Role := ''admin''\<rparr>,
      zeroPrincipal\<lparr>prin_Token := replicate 32 (CHR ''b''), prin_Role := ''tenant'', prin_Tenant := ''t1''\<rparr>],
     acc_Repositories = [(''o/r'', \<lparr>repo_Tenant = ''t1'', repo_Trusted = True, repo_AllowForks = False,
       repo_InstallationID = 9, repo_ImagePrefix = ''reg''\<rparr>)]\<rparr>"

lemma ValidateAccess_iff_sample: "distinct (map prin_Token (acc_Principals demoAccess))"
proof -
  have "ValidateAccess demoAccess = None" by code_simp
  then show ?thesis using ValidateAccess_iff [of demoAccess] by blast
qed

section \<open>Authentication\<close>

lemma find_snoc: "find P (xs @ [x]) = (case find P xs of None \<Rightarrow> (if P x then Some x else None) | Some y \<Rightarrow> Some y)"
  by (induction xs) auto

lemma fold_last_match:
  "fold (\<lambda>p r. if P p then (p, True) else r) ps r = (case find P (rev ps) of None \<Rightarrow> r | Some p \<Rightarrow> (p, True))"
  by (induction ps arbitrary: r) (auto simp: find_snoc split: option.split)

lemma find_rev_unique:
  assumes "distinct (map f ps)" "\<And>p. p \<in> set ps \<Longrightarrow> P p \<longleftrightarrow> f p = x"
  shows "find P (rev ps) = find (\<lambda>p. f p = x) ps"
proof (cases "\<exists>p \<in> set ps. f p = x")
  case False
  then have "find P (rev ps) = None" "find (\<lambda>p. f p = x) ps = None"
    using assms(2) by (auto simp: find_None_iff)
  then show ?thesis by simp
next
  case True
  then obtain p where p: "p \<in> set ps" "f p = x" by blast
  have u: "q = p" if "q \<in> set ps" "f q = x" for q
    using assms(1) p that by (auto simp: distinct_map inj_on_def)
  have P: "P p" using p assms(2) by blast
  have "find P (rev ps) \<noteq> None" using p(1) P by (auto simp: find_None_iff)
  then obtain q where q: "find P (rev ps) = Some q" by blast
  then obtain as bs where "rev ps = as @ q # bs" "P q" by (auto simp: find_Some_iff_split)
  then have "q \<in> set (rev ps)" "P q" by simp_all
  then have "q \<in> set ps" "P q" by simp_all
  then have "q = p" using u assms(2) by blast
  have "find (\<lambda>p. f p = x) ps \<noteq> None" using p by (auto simp: find_None_iff)
  then obtain r where r: "find (\<lambda>p. f p = x) ps = Some r" by blast
  then have "r \<in> set ps" "f r = x" by (auto simp: find_Some_iff_split)
  then have "r = p" using u by blast
  with \<open>q = p\<close> q r show ?thesis by simp
qed

text \<open>
  Authentication recognises exactly the configured tokens. With an accepted access file and no
  SHA-256 collision between the presented token and a configured one, the header \<open>Bearer\<close> followed by a
  token is answered with the one principal that has the token, its own token removed, and refused if
  there is none.
\<close>

lemma Authenticate_exact:
  assumes "ValidateAccess c = None"
    and "\<forall>p \<in> set (acc_Principals c). tokenHash token = tokenHash (prin_Token p) \<longrightarrow> token = prin_Token p"
  shows "Authenticate c (''Bearer '' @ token) =
    (case find (\<lambda>p. prin_Token p = token) (acc_Principals c) of
       None \<Rightarrow> (zeroPrincipal, False)
     | Some p \<Rightarrow> (p\<lparr>prin_Token := []\<rparr>, True))"
proof -
  have d: "distinct (map prin_Token (acc_Principals c))"
    using assms(1) by (auto simp: ValidateAccess_def checkPrincipals_iff split: sum.splits)
  have "find (\<lambda>p. tokenHash token = tokenHash (prin_Token p)) (rev (acc_Principals c)) =
      find (\<lambda>p. prin_Token p = token) (acc_Principals c)"
    by (rule find_rev_unique [OF d]) (use assms(2) in auto)
  moreover have "zeroPrincipal\<lparr>prin_Token := []\<rparr> = zeroPrincipal" by (simp add: zeroPrincipal_def)
  ultimately show ?thesis
    unfolding Authenticate_def TrimPrefix_append Let_def fold_last_match
    by (simp only: HasPrefix_append not_True_eq_False if_False) (simp split: option.split)
qed

lemma Authenticate_exact_sample:
  "snd (Authenticate (demoAccess\<lparr>acc_Principals := [hd (acc_Principals demoAccess)]\<rparr>)
     (''Bearer '' @ replicate 32 (CHR ''a'')))"
proof -
  let ?c = "demoAccess\<lparr>acc_Principals := [hd (acc_Principals demoAccess)]\<rparr>"
  have "ValidateAccess ?c = None" by code_simp
  moreover have "\<forall>p \<in> set (acc_Principals ?c). tokenHash (replicate 32 (CHR ''a'')) = tokenHash (prin_Token p) \<longrightarrow>
      replicate 32 (CHR ''a'') = prin_Token p"
    by (simp add: demoAccess_def)
  ultimately have "Authenticate ?c (''Bearer '' @ replicate 32 (CHR ''a'')) =
      (case find (\<lambda>p. prin_Token p = replicate 32 (CHR ''a'')) (acc_Principals ?c) of
         None \<Rightarrow> (zeroPrincipal, False) | Some p \<Rightarrow> (p\<lparr>prin_Token := []\<rparr>, True))"
    by (rule Authenticate_exact)
  moreover have "find (\<lambda>p. prin_Token p = replicate 32 (CHR ''a'')) (acc_Principals ?c) = Some (hd (acc_Principals demoAccess))"
    by (simp add: demoAccess_def)
  ultimately show ?thesis by (simp only: option.case snd_conv)
qed

end
