(* ===== verification/Policy.thy ===== *)
theory Policy
  imports Quota Delivery Access
begin

text \<open>
  The operator's policy as an invariant of the machine: with requests that the access file admits, every
  pipeline belongs to its repository's tenant, every job is within the runtime bounds and is trusted
  only if its repository is and it does not come from a fork, and a job's attempts are on workers of
  the access file with the job's trust level.
\<close>

section \<open>Requests under the policy\<close>

definition policySubmission :: "AccessConfig \<Rightarrow> Submission \<Rightarrow> bool" where
  "policySubmission access sub \<longleftrightarrow> (\<exists>policy. map_of (acc_Repositories access) (sub_Repo sub) = Some policy \<and>
     sub_Tenant sub = repo_Tenant policy \<and> sub_Fork sub = (sub_SourceRepo sub \<noteq> sub_Repo sub) \<and>
     distinct (keys (ps_Jobs (sub_Spec sub))) \<and>
     (\<forall>(name, s) \<in> set (ps_Jobs (sub_Spec sub)). runtimeOK (repo_Trusted policy \<and> \<not> sub_Fork sub) name s))"

definition registered :: "AccessConfig \<Rightarrow> Worker \<Rightarrow> bool" where
  "registered access wk \<longleftrightarrow>
     (\<exists>p \<in> set (acc_Principals access). prin_Role p = ''worker'' \<and> prin_Worker p = Some wk)"

fun policed :: "AccessConfig \<Rightarrow> Request \<Rightarrow> bool" where
  "policed access (ReqSubmit sub) = policySubmission access sub"
| "policed access (ReqRegister wk) = registered access wk"
| "policed access (ReqCreate _ _ _ _ _ _) = False"
| "policed access (ReqCreateFor _ _ _ _ _ _ _) = False"
| "policed access _ = True"

lemma policed_small: "policed access req \<Longrightarrow> smallRequest req"
proof (cases req)
  case (ReqSubmit sub)
  assume "policed access req"
  with ReqSubmit show ?thesis
    by (fastforce simp: policySubmission_def smallRequest_def runtimeOK_def)
qed (auto simp: smallRequest_def)

lemma store_step_weaken:
  "(\<And>req. P req \<Longrightarrow> Q req) \<Longrightarrow> store_step P st st' \<Longrightarrow> store_step Q st st'"
  by (auto elim!: store_stepE intro!: store_step.serving)

lemma reachable_weaken:
  assumes "\<And>req. P req \<Longrightarrow> Q req"
  shows "reachable P c st \<Longrightarrow> reachable Q c st"
proof (induction rule: reachable.induct)
  case (step st st')
  show ?case by (rule reachable.step [OF step.IH store_step_weaken [OF assms step.hyps(2)]])
qed (rule reachable.start)

lemma reachable_serve:
  assumes "reachable P c st" "fresh w st" "P req" "serve w js now req st = Some st'"
  shows "reachable P c st'"
proof -
  have "store_step P st st'" using assms(2-4) by (rule store_step.serving)
  with assms(1) show ?thesis by (rule reachable.step)
qed

lemma policed_reachable_small: "reachable (policed access) c st \<Longrightarrow> reachable smallRequest c st"
  by (erule reachable_weaken [rotated]) (rule policed_small)

section \<open>The invariant\<close>

definition pipelinePolicy :: "AccessConfig \<Rightarrow> Pipeline \<Rightarrow> bool" where
  "pipelinePolicy access p \<longleftrightarrow> (\<exists>policy. map_of (acc_Repositories access) (pl_Repo p) = Some policy \<and>
     pl_Tenant p = repo_Tenant policy \<and> pl_Fork p = (pl_SourceRepo p \<noteq> pl_Repo p))"

definition jobPolicy :: "AccessConfig \<Rightarrow> Pipeline \<Rightarrow> Job \<Rightarrow> bool" where
  "jobPolicy access p j \<longleftrightarrow> job_Tenant j = pl_Tenant p \<and>
     (\<exists>policy name. map_of (acc_Repositories access) (pl_Repo p) = Some policy \<and>
        runtimeOK (repo_Trusted policy \<and> \<not> pl_Fork p) name (job_Spec j))"

definition workerPolicy :: "AccessConfig \<Rightarrow> bool \<Rightarrow> string \<Rightarrow> bool" where
  "workerPolicy access trusted wid \<longleftrightarrow> (\<exists>wk. registered access wk \<and> wk_ID wk = wid \<and> wk_Trusted wk = trusted)"

definition underPolicy :: "AccessConfig \<Rightarrow> Store \<Rightarrow> bool" where
  "underPolicy access st \<longleftrightarrow>
     (\<forall>k p. map_of (pipelines st) k = Some p \<longrightarrow> pipelinePolicy access p) \<and>
     (\<forall>i j p. map_of (jobs st) i = Some j \<longrightarrow> map_of (pipelines st) (job_PipelineID j) = Some p \<longrightarrow>
        jobPolicy access p j) \<and>
     (\<forall>k wk. map_of (workers st) k = Some wk \<longrightarrow> workerPolicy access (wk_Trusted wk) (wk_ID wk)) \<and>
     (\<forall>k a j. map_of (attempts st) k = Some a \<longrightarrow> map_of (jobs st) (att_JobID a) = Some j \<longrightarrow>
        workerPolicy access (spec_Trusted (job_Spec j)) (att_WorkerID a))"

lemma pipelinePolicy_core: "plCore p = plCore q \<Longrightarrow> pipelinePolicy access p = pipelinePolicy access q"
  by (cases p; cases q) (simp add: plCore_def pipelinePolicy_def)

lemma jobPolicy_core:
  "plCore p = plCore q \<Longrightarrow> job_Spec j = job_Spec i \<Longrightarrow> job_Tenant j = job_Tenant i \<Longrightarrow>
     jobPolicy access p j = jobPolicy access q i"
  by (cases p; cases q) (simp add: plCore_def jobPolicy_def)

lemma attCore_worker: "attCore a = attCore b \<Longrightarrow> att_WorkerID a = att_WorkerID b \<and> att_JobID a = att_JobID b"
  by (cases a; cases b) (simp add: attCore_def)

lemma evolve_pipeline:
  "evolve st st' \<Longrightarrow> map_of (pipelines st) k = Some p \<Longrightarrow> map_of (pipelines st') k = Some p' \<Longrightarrow> plCore p' = plCore p"
  unfolding evolve_def by blast

lemma evolve_job:
  "evolve st st' \<Longrightarrow> map_of (jobs st) k = Some j \<Longrightarrow> map_of (jobs st') k = Some j' \<Longrightarrow>
     job_Spec j' = job_Spec j \<and> job_PipelineID j' = job_PipelineID j \<and> job_Tenant j' = job_Tenant j"
  unfolding evolve_def by blast

lemma evolve_attempt:
  "evolve st st' \<Longrightarrow> map_of (attempts st) k = Some a \<Longrightarrow> map_of (attempts st') k = Some a' \<Longrightarrow> attCore a' = attCore a"
  unfolding evolve_def by blast

text \<open>The records that an operation adds decide whether it keeps the invariant.\<close>

lemma underPolicy_evolve:
  assumes u: "underPolicy access st" and w: "wellFormed st" "wellFormed st'" and e: "evolve st st'"
    and pl: "\<And>k p. map_of (pipelines st) k = None \<Longrightarrow> map_of (pipelines st') k = Some p \<Longrightarrow> pipelinePolicy access p"
    and jb: "\<And>i j p. map_of (jobs st) i = None \<Longrightarrow> map_of (jobs st') i = Some j \<Longrightarrow>
      map_of (pipelines st') (job_PipelineID j) = Some p \<Longrightarrow> jobPolicy access p j"
    and wk: "\<And>k x. map_of (workers st') k = Some x \<Longrightarrow> workerPolicy access (wk_Trusted x) (wk_ID x)"
    and at: "\<And>k a j. map_of (attempts st) k = None \<Longrightarrow> map_of (attempts st') k = Some a \<Longrightarrow>
      map_of (jobs st') (att_JobID a) = Some j \<Longrightarrow> workerPolicy access (spec_Trusted (job_Spec j)) (att_WorkerID a)"
  shows "underPolicy access st'"
  unfolding underPolicy_def
proof (intro conjI allI impI)
  fix k p assume p: "map_of (pipelines st') k = Some p"
  show "pipelinePolicy access p"
  proof (cases "map_of (pipelines st) k")
    case None
    with p pl show ?thesis by blast
  next
    case (Some q)
    from evolve_pipeline [OF e Some p] have "plCore p = plCore q" .
    with pipelinePolicy_core u Some show ?thesis unfolding underPolicy_def by blast
  qed
next
  fix i j p assume j: "map_of (jobs st') i = Some j" and p: "map_of (pipelines st') (job_PipelineID j) = Some p"
  show "jobPolicy access p j"
  proof (cases "map_of (jobs st) i")
    case None
    with j p jb show ?thesis by blast
  next
    case (Some j0)
    from evolve_job [OF e Some j] have s: "job_Spec j = job_Spec j0" "job_PipelineID j = job_PipelineID j0" "job_Tenant j = job_Tenant j0" by simp_all
    obtain q where q: "map_of (pipelines st) (job_PipelineID j0) = Some q"
      by (rule refs_pipeline_of_job [OF wellFormed_refs [OF w(1)] Some])
    from evolve_pipeline [OF e q] p s(2) have "plCore p = plCore q" by simp
    moreover have "jobPolicy access q j0" using u Some q by (simp add: underPolicy_def)
    ultimately show ?thesis using jobPolicy_core [of p q j j0] s by blast
  qed
next
  fix k x assume "map_of (workers st') k = Some x"
  then show "workerPolicy access (wk_Trusted x) (wk_ID x)" by (rule wk)
next
  fix k a j assume a: "map_of (attempts st') k = Some a" and j: "map_of (jobs st') (att_JobID a) = Some j"
  show "workerPolicy access (spec_Trusted (job_Spec j)) (att_WorkerID a)"
  proof (cases "map_of (attempts st) k")
    case None
    with a j at show ?thesis by blast
  next
    case (Some a0)
    from evolve_attempt [OF e Some a] have c: "attCore a = attCore a0" .
    obtain j0 where j0: "map_of (jobs st) (att_JobID a0) = Some j0"
      by (rule refs_job_of_attempt [OF wellFormed_refs [OF w(1)] Some])
    from evolve_job [OF e j0] j attCore_worker [OF c] have "job_Spec j = job_Spec j0" by simp
    moreover have "workerPolicy access (spec_Trusted (job_Spec j0)) (att_WorkerID a0)"
      using u Some j0 by (simp add: underPolicy_def)
    ultimately show ?thesis using attCore_worker [OF c] by simp
  qed
qed

lemma underPolicy_sub:
  assumes "underPolicy access st" "wellFormed st" "wellFormed st'" "evolve st st'" "workers st' = workers st"
    and "\<And>k p. map_of (pipelines st') k = Some p \<Longrightarrow> map_of (pipelines st) k \<noteq> None"
    and "\<And>k j. map_of (jobs st') k = Some j \<Longrightarrow> map_of (jobs st) k \<noteq> None"
    and "\<And>k a. map_of (attempts st') k = Some a \<Longrightarrow> map_of (attempts st) k \<noteq> None"
  shows "underPolicy access st'"
proof (rule underPolicy_evolve [OF assms(1-4)])
  show "map_of (pipelines st) k = None \<Longrightarrow> map_of (pipelines st') k = Some p \<Longrightarrow> pipelinePolicy access p" for k p
    using assms(6) by blast
  show "map_of (jobs st) i = None \<Longrightarrow> map_of (jobs st') i = Some j \<Longrightarrow> jobPolicy access p j" for i j p
    using assms(7) by blast
  show "map_of (attempts st) k = None \<Longrightarrow> map_of (attempts st') k = Some a \<Longrightarrow>
      workerPolicy access (spec_Trusted (job_Spec j)) (att_WorkerID a)" for k a j
    using assms(8) by blast
  show "map_of (workers st') k = Some x \<Longrightarrow> workerPolicy access (wk_Trusted x) (wk_ID x)" for k x
    using assms(1,5) by (simp add: underPolicy_def)
qed

lemma advance_policy:
  assumes "underPolicy access st" "wellFormed st" "wellFormed st'" "advance st st'"
  shows "underPolicy access st'"
proof (rule underPolicy_sub [OF assms(1-3) advance_evolve(1) [OF assms(4)]])
  have c: "sameCore st st'" using assms(4) by (simp add: advance_def)
  then show "workers st' = workers st" by (simp add: sameCore_def)
  show "map_of (pipelines st') k = Some p \<Longrightarrow> map_of (pipelines st) k \<noteq> None" for k p
    using c unfolding sameCore_def by (metis option.distinct(1) option.map_disc_iff)
  show "map_of (jobs st') k = Some j \<Longrightarrow> map_of (jobs st) k \<noteq> None" for k j
    using c unfolding sameCore_def by (metis option.distinct(1) option.map_disc_iff)
  show "map_of (attempts st') k = Some a \<Longrightarrow> map_of (attempts st) k \<noteq> None" for k a
    using c unfolding sameCore_def by (metis option.distinct(1) option.map_disc_iff)
qed

lemma shrinks_policy:
  assumes "underPolicy access st" "wellFormed st" "wellFormed st'" "shrinks st st'"
  shows "underPolicy access st'"
proof (rule underPolicy_sub [OF assms(1-3) shrinks_evolve [OF assms(4)]])
  show "workers st' = workers st" using assms(4) by (simp add: shrinks_def)
  show "map_of (pipelines st') k = Some p \<Longrightarrow> map_of (pipelines st) k \<noteq> None" for k p
    using assms(4) by (simp add: shrinks_def)
  show "map_of (jobs st') k = Some j \<Longrightarrow> map_of (jobs st) k \<noteq> None" for k j
    using assms(4) by (simp add: shrinks_def)
  show "map_of (attempts st') k = Some a \<Longrightarrow> map_of (attempts st) k \<noteq> None" for k a
    using assms(4) by (simp add: shrinks_def)
qed

section \<open>Every request keeps it\<close>

lemma plan_spec:
  assumes "distinct (keys (ps_Jobs spec))" "Validate spec = Inr order" "name \<in> set order"
  shows "(name, getd zeroJobSpec (ps_Jobs spec) name) \<in> set (ps_Jobs spec)"
proof -
  have "name \<in> set (keys (ps_Jobs spec))"
    using assms Validate_iff [OF assms(1)] by (auto simp: planOf_def simp del: set_map)
  then obtain s where "map_of (ps_Jobs spec) name = Some s"
    using map_of_None_keys [of "ps_Jobs spec" name] by (cases "map_of (ps_Jobs spec) name") auto
  then show ?thesis by (simp add: getd_def map_of_SomeD)
qed

text \<open>The only pipeline \<open>Submit\<close> adds is the one of its submission.\<close>

lemma Submit_adds:
  assumes w: "wellFormed st" and f: "fresh wo st" and s: "Submit wo js sub now st = Some (r, st')"
    and k: "map_of (pipelines st) k = None" and p: "map_of (pipelines st') k = Some p"
  shows "pl_Repo p = sub_Repo sub \<and> pl_Tenant p = sub_Tenant sub \<and> pl_Fork p = sub_Fork sub \<and>
    pl_SourceRepo p = sub_SourceRepo sub"
proof -
  have keep: "pipelines st' \<noteq> pipelines st" using k p by auto
  have core: "pipelines st'' \<noteq> pipelines st'" if "advance st st''" for st''
    using that k p by (auto simp: advance_def sameCore_def dest: spec [of _ k])
  from s keep obtain order where "submitNew wo sub (digestOf js sub) (sha256Hex (js_Spec js (sub_Spec sub))) order now st = Some (r, st')"
      "\<not> sub_Closed sub \<longrightarrow> Validate (sub_Spec sub) = Inr order"
    by (auto simp: Submit_def Let_def bind_eq_Some_conv split: if_splits sum.splits option.splits)
  then show ?thesis
  proof (cases rule: submitNew_cases [consumes 1])
    case stale
    with keep show ?thesis by (simp add: recordDelivery_def)
  next
    case event
    have "\<not> sub_Closed (timed now sub) \<longrightarrow> Validate (sub_Spec (timed now sub)) = Inr order"
      using \<open>\<not> sub_Closed sub \<longrightarrow> _\<close> by simp
    from acceptEvent_cases [OF w f this event(3)] show ?thesis
    proof cases
      case (1 st2)
      with core show ?thesis by blast
    next
      case (2 st2 k p v)
      with core show ?thesis by auto
    next
      case created: (3 st2 k' p' js v)
      have "map_of (pipelines st2) k = None" using created(3) k
        by (auto simp: advance_def sameCore_def dest: spec [of _ k])
      then have "p = p'" using extended_lookup(1) [OF created(5), of k] p by (auto split: if_splits)
      with created(6) show ?thesis by (simp add: bornFrom_def timed_def)
    qed
  qed (use keep in simp_all)
qed

lemma Submit_adds_jobs:
  assumes w: "wellFormed st" and f: "fresh wo st" and s: "Submit wo js sub now st = Some (r, st')"
    and k: "map_of (jobs st) k = None" and j: "map_of (jobs st') k = Some j"
  shows "job_Tenant j = sub_Tenant sub"
proof -
  have keep: "jobs st' \<noteq> jobs st" using k j by auto
  have core: "jobs st'' \<noteq> jobs st'" if "advance st st''" for st''
    using that k j by (auto simp: advance_def sameCore_def dest: spec [of _ k])
  from s keep obtain order where "submitNew wo sub (digestOf js sub) (sha256Hex (js_Spec js (sub_Spec sub))) order now st = Some (r, st')"
      "\<not> sub_Closed sub \<longrightarrow> Validate (sub_Spec sub) = Inr order"
    by (auto simp: Submit_def Let_def bind_eq_Some_conv split: if_splits sum.splits option.splits)
  then show ?thesis
  proof (cases rule: submitNew_cases [consumes 1])
    case stale
    with keep show ?thesis by (simp add: recordDelivery_def)
  next
    case event
    have "\<not> sub_Closed (timed now sub) \<longrightarrow> Validate (sub_Spec (timed now sub)) = Inr order"
      using \<open>\<not> sub_Closed sub \<longrightarrow> _\<close> by simp
    from acceptEvent_cases [OF w f this event(3)] show ?thesis
    proof cases
      case (1 st2)
      with core show ?thesis by blast
    next
      case (2 st2 k p v)
      with core show ?thesis by auto
    next
      case created: (3 st2 k' p' jl v)
      have "map_of (jobs st2) k = None" using created(3) k
        by (auto simp: advance_def sameCore_def dest: spec [of _ k])
      then have "(k, j) \<in> set jl" using extended_lookup(2) [OF created(5), of k] j
        by (auto split: option.splits dest: map_of_SomeD)
      with created(7) newJobs_mem show ?thesis by (metis timed_simps(2))
    qed
  qed (use keep in simp_all)
qed

lemma Submit_policy:
  assumes u: "underPolicy access st" and w: "wellFormed st" "wellFormed st'" and f: "fresh wo st"
    and p: "policySubmission access sub" and s: "Submit wo js sub now st = Some (r, st')"
  shows "underPolicy access st'"
proof -
  have "grows (sub_Spec sub) st st'" by (rule intake_grows [OF Submit_intake [OF w(1) f] s])
  then consider "advance st st'" | order st2 k q jl where "Validate (sub_Spec sub) = Inr order"
      "advance st st2" "extended st2 k q jl st'"
      "\<forall>(i, j) \<in> set jl. job_Name j \<in> set order \<and> job_Spec j = getd zeroJobSpec (ps_Jobs (sub_Spec sub)) (job_Name j)"
    unfolding grows_def by blast
  then show ?thesis
  proof cases
    case 1
    then show ?thesis by (rule advance_policy [OF u w])
  next
    case 2
    note X = extended_lookup [OF 2(3)]
    have core: "sameCore st st2" using 2(2) by (simp add: advance_def)
    have none: "map_of (pipelines st2) i = None \<longleftrightarrow> map_of (pipelines st) i = None"
        "map_of (jobs st2) i = None \<longleftrightarrow> map_of (jobs st) i = None" for i
      using core by (auto simp: sameCore_def dest: spec [of _ i])
    obtain policy where pol: "map_of (acc_Repositories access) (sub_Repo sub) = Some policy"
        "sub_Tenant sub = repo_Tenant policy" "sub_Fork sub = (sub_SourceRepo sub \<noteq> sub_Repo sub)"
        "distinct (keys (ps_Jobs (sub_Spec sub)))"
        "\<forall>(name, s) \<in> set (ps_Jobs (sub_Spec sub)). runtimeOK (repo_Trusted policy \<and> \<not> sub_Fork sub) name s"
      using p unfolding policySubmission_def by blast
    have at: "attempts st' = attempts st2" "workers st' = workers st2" using 2(3) by (simp_all add: extended_def)
    show ?thesis
    proof (rule underPolicy_evolve [OF u w])
      show "evolve st st'" by (rule grows_evolve) fact
    next
      fix i p' assume "map_of (pipelines st) i = None" "map_of (pipelines st') i = Some p'"
      from Submit_adds [OF w(1) f s this] pol show "pipelinePolicy access p'" by (simp add: pipelinePolicy_def)
    next
      fix i j p' assume i: "map_of (jobs st) i = None" "map_of (jobs st') i = Some j"
        and p': "map_of (pipelines st') (job_PipelineID j) = Some p'"
      have "map_of jl i = Some j" using i none(2) [of i] X(2) [of i] by (auto split: option.splits)
      then have j: "(i, j) \<in> set jl" "job_PipelineID j = k"
        using extended_new_job [OF 2(3)] map_of_SomeD by fast+
      have "map_of (pipelines st) k = None" using X(4) none(1) by blast
      from Submit_adds [OF w(1) f s this] p' j(2)
      have q: "pl_Repo p' = sub_Repo sub" "pl_Fork p' = sub_Fork sub" "pl_Tenant p' = sub_Tenant sub" by auto
      have "(job_Name j, job_Spec j) \<in> set (ps_Jobs (sub_Spec sub))"
        using 2(4) j(1) plan_spec [OF pol(4) 2(1)] by fastforce
      then show "jobPolicy access p' j"
        using pol(1,5) q Submit_adds_jobs [OF w(1) f s i] unfolding jobPolicy_def by fastforce
    next
      fix i x assume "map_of (workers st') i = Some x"
      then show "workerPolicy access (wk_Trusted x) (wk_ID x)"
        using u core at(2) by (simp add: underPolicy_def sameCore_def)
    next
      fix i a j assume "map_of (attempts st) i = None" "map_of (attempts st') i = Some a"
      then show "workerPolicy access (spec_Trusted (job_Spec j)) (att_WorkerID a)"
        using core at(1) by (auto simp: sameCore_def dest: spec [of _ i])
    qed
  qed
qed

lemma leased_policy:
  assumes u: "underPolicy access st" and w: "wellFormed st" and f: "fresh wo st"
    and l: "leased wo now st ts tenant pre jid s1 job wk l st'"
  shows "underPolicy access st'"
proof -
  note L = leased_state [OF w f l]
  note E = issueLease_effect [OF L(2) L(6) L(5)]
  note X = issueLease_lookup [OF L(1) L(2) L(6) L(5)]
  have sr: "sameReasons st s1" using l by (simp add: leased_def)
  have u1: "underPolicy access s1" by (rule advance_policy [OF u w L(1) sameReasons_advance [OF sr]])
  have sel: "selectWorkerLocked s1 job now = Some (Some wk)" using l by (simp add: leased_def)
  then have wk: "map_of (workers s1) (wk_ID wk) = Some wk" "workerFits s1 job now wk = Some True"
    using selectWorker_spec [OF wellFormed_refs [OF L(1)], of job now] by auto
  then have t: "wk_Trusted wk = spec_Trusted (job_Spec job)"
    by (auto simp: workerFits_def split: if_splits)
  have "workerPolicy access (wk_Trusted wk) (wk_ID wk)" using u1 wk(1) by (simp add: underPolicy_def)
  with t have placed: "workerPolicy access (spec_Trusted (job_Spec job)) (wk_ID wk)" by simp
  have lj: "job_Spec (lease_Job l) = job_Spec job" "job_PipelineID (lease_Job l) = job_PipelineID job"
      "job_Tenant (lease_Job l) = job_Tenant job"
    by (simp_all add: E(13))
  show ?thesis
    unfolding underPolicy_def
  proof (intro conjI allI impI)
    fix k p assume "map_of (pipelines st') k = Some p"
    then obtain p0 where "map_of (pipelines s1) k = Some p0" "plCore p = plCore p0" by (auto simp: X(4))
    with u1 pipelinePolicy_core show "pipelinePolicy access p" unfolding underPolicy_def by blast
  next
    fix i j p assume j: "map_of (jobs st') i = Some j" and p: "map_of (pipelines st') (job_PipelineID j) = Some p"
    obtain j0 where j0: "map_of (jobs s1) i = Some j0" "job_Spec j = job_Spec j0" "job_PipelineID j = job_PipelineID j0" "job_Tenant j = job_Tenant j0"
      using j L(2) lj by (cases "i = jid") (auto simp: X(1))
    from p obtain p0 where p0: "map_of (pipelines s1) (job_PipelineID j0) = Some p0" "plCore p = plCore p0"
      unfolding j0(3) by (auto simp: X(4))
    have "jobPolicy access p0 j0" using u1 j0(1) p0(1) by (simp add: underPolicy_def)
    with jobPolicy_core [OF p0(2)] j0 show "jobPolicy access p j" by simp
  next
    fix k x assume "map_of (workers st') k = Some x"
    with u1 E(7) show "workerPolicy access (wk_Trusted x) (wk_ID x)" by (simp add: underPolicy_def)
  next
    fix k a j assume a: "map_of (attempts st') k = Some a" and j: "map_of (jobs st') (att_JobID a) = Some j"
    show "workerPolicy access (spec_Trusted (job_Spec j)) (att_WorkerID a)"
    proof (cases "k = att_ID (lease_Attempt l)")
      case True
      then have "a = lease_Attempt l" using a by (simp add: X(2))
      then have "att_WorkerID a = wk_ID wk" "att_JobID a = job_ID job"
        using L(6) by (auto simp: issueLease_def Let_def bind_eq_Some_conv)
      with placed j X(1) X(5) lj show ?thesis by (auto split: if_splits)
    next
      case False
      then have a1: "map_of (attempts s1) k = Some a" using a by (simp add: X(2))
      obtain j0 where j0: "map_of (jobs s1) (att_JobID a) = Some j0"
        by (rule refs_job_of_attempt [OF wellFormed_refs [OF L(1)] a1])
      have "job_Spec j = job_Spec j0" using j j0 L(2) lj by (auto simp: X(1) split: if_splits)
      with u1 a1 j0 show ?thesis by (simp add: underPolicy_def)
    qed
  qed
qed

lemma workers_policy:
  assumes u: "underPolicy access st"
    and k: "\<And>k x. map_of ws k = Some x \<Longrightarrow> workerPolicy access (wk_Trusted x) (wk_ID x)"
  shows "underPolicy access (st\<lparr>workers := ws\<rparr>)"
  using u k by (simp add: underPolicy_def)

lemma RegisterWorker_policy:
  assumes "underPolicy access st" "registered access wk"
  shows "underPolicy access (snd (RegisterWorker wk now st))"
proof -
  have "workerPolicy access (wk_Trusted wk) (wk_ID wk)" using assms(2) by (auto simp: workerPolicy_def)
  then have "workerPolicy access (wk_Trusted x) (wk_ID x)"
    if "map_of (AList.update (wk_ID wk) (wk\<lparr>wk_Heartbeat := now\<rparr>) (workers st)) k = Some x" for k x
    using that assms(1) by (auto simp: update_conv' underPolicy_def split: if_splits)
  with assms(1) show ?thesis unfolding RegisterWorker_def Let_def by (auto intro: workers_policy)
qed

lemma HeartbeatWorker_policy:
  assumes "underPolicy access st"
  shows "underPolicy access (snd (HeartbeatWorker wid now st))"
proof -
  have "workerPolicy access (wk_Trusted x) (wk_ID x)"
    if "map_of (mutate wid (\<lambda>w. w\<lparr>wk_Heartbeat := now\<rparr>) (workers st)) k = Some x" for k x
    using that assms by (auto simp: mutate_lookup underPolicy_def split: if_splits)
  with assms show ?thesis by (auto simp: HeartbeatWorker_def split: option.split intro: workers_policy)
qed

lemma ScheduleOne_policy:
  assumes u: "underPolicy access st" and w: "wellFormed st" and f: "fresh wo st"
    and s: "ScheduleOne wo now st = Some (r, st')"
  shows "underPolicy access st'"
proof (rule ScheduleOne_cases [OF w, of wo now])
  fix st1 n st2
  assume 1: "wellFormed st1" "advance st st1" "sameReasons st1 st2" "ScheduleOne wo now st = Some (Inl ErrNoWork, st2)"
  have "underPolicy access st1" by (rule advance_policy [OF u w 1(1,2)])
  then have "underPolicy access st2"
    by (rule advance_policy) (rule 1(1) sameReasons_wellFormed [OF 1(3,1)] sameReasons_advance [OF 1(3)])+
  with 1(4) s show ?thesis by simp
next
  fix st1 n ts tenant pre jid s1 job wk l st2
  assume 1: "wellFormed st1" "advance st st1" "leased wo now st1 ts tenant pre jid s1 job wk l st2"
    and e: "ScheduleOne wo now st = Some (Inr l, st2)"
  have u1: "underPolicy access st1" by (rule advance_policy [OF u w 1(1,2)])
  have f1: "fresh wo st1" using f fresh_sameCore 1(2) by (auto simp: advance_def)
  from leased_policy [OF u1 1(1) f1 1(3)] e s show ?thesis by simp
qed

lemma serve_policy:
  assumes u: "underPolicy access st" and w: "wellFormed st" "wellFormed st'" and f: "fresh wo st"
    and p: "policed access req" and s: "serve wo js now req st = Some st'"
  shows "underPolicy access st'"
proof -
  consider (submit) sub r where "req = ReqSubmit sub" "Submit wo js sub now st = Some (r, st')"
    | (register) wk where "req = ReqRegister wk" | (beat) wid where "req = ReqHeartbeatWorker wid"
    | (other) "\<forall>spec. requestSpec req \<noteq> Some spec" "\<forall>wk. req \<noteq> ReqRegister wk" "\<forall>wid. req \<noteq> ReqHeartbeatWorker wid"
    using s p by (cases req) auto
  then show ?thesis
  proof cases
    case submit
    with p Submit_policy [OF u w f] show ?thesis by simp
  next
    case register
    with s p RegisterWorker_policy [OF u, of wk now] show ?thesis by simp
  next
    case beat
    with s HeartbeatWorker_policy [OF u, of wid now] show ?thesis by simp
  next
    case other
    from w(1) f s show ?thesis
    proof (cases rule: serve_kind)
      case advance
      then show ?thesis by (rule advance_policy [OF u w])
    next
      case (grow spec)
      with other(1) show ?thesis by (metis option.inject)
    next
      case (workers ws)
      with other show ?thesis by blast
    next
      case (schedule r)
      then show ?thesis using ScheduleOne_policy [OF u w(1) f] by blast
    next
      case (shrink s)
      have "underPolicy access s" by (rule advance_policy [OF u w(1) shrink(2,1)])
      then show ?thesis by (rule shrinks_policy [OF _ shrink(2) w(2) shrink(3)])
    qed
  qed
qed

interpretation policy: store_invariant "policed access" "\<lambda>_. True" "underPolicy access" for access
proof
  show "underPolicy access (New c)" for c by (simp add: underPolicy_def New_def)
next
  fix st st' w js now req
  assume "wellFormed st" "wellFormed st'" "underPolicy access st" "fresh w st" "policed access req"
    "serve w js now req st = Some st'"
  then show "underPolicy access st'" using serve_policy by blast
qed

section \<open>A run under the policy\<close>

text \<open>The demo's repository with a trusted worker: it registers, a job is submitted and leased.\<close>

definition policyWorker :: Worker where
  "policyWorker = demoWorker\<lparr>wk_Trusted := True\<rparr>"

definition policyAccess :: AccessConfig where
  "policyAccess = demoAccess\<lparr>acc_Principals := acc_Principals demoAccess @
     [zeroPrincipal\<lparr>prin_Token := replicate 32 (CHR ''w''), prin_Role := ''worker'', prin_Worker := Some policyWorker\<rparr>]\<rparr>"

definition policyJob :: JobSpec where
  "policyJob = demoBuild\<lparr>spec_Trusted := True, spec_TimeoutSeconds := 900, spec_MaxAttempts := 3\<rparr>"

definition policyEvent :: Submission where
  "policyEvent = demoEvent\<lparr>sub_Spec := \<lparr>ps_Version = 1, ps_Jobs = [(''build'', policyJob)]\<rparr>\<rparr>"

definition policyIdle :: Store where
  "policyIdle = (New demoConfig)\<lparr>workers := [(''w1'', policyWorker)]\<rparr>"

definition policyQueued :: Store where
  "policyQueued = policyIdle\<lparr>pipelines := [(''pl_b0'', (demoPipeline StateQueued)\<lparr>pl_JobIDs := [''job_b1'']\<rparr>)],
     jobs := [(''job_b1'', demoJob ''job_b1'' ''build'' policyJob 1 StateQueued [])],
     deliveries := [(''d1'', ''pl_b0'')], sequence := 1,
     prStates := [(''o/r#7'', \<lparr>pr_UpdatedAt = 5, pr_Closed = False, pr_Generation = 1, pr_Commit = ''abc''\<rparr>)],
     requestHashes := [(''d1'', ''ba7816bf8f01cfea414140de5dae2223b00361a396177a9cb410ff61f20015ad'')],
     metrics := zeroMetrics\<lparr>m_WebhookAccepted := 1\<rparr>\<rparr>"

definition policyLeased :: Store where
  "policyLeased = policyQueued\<lparr>pipelines := [(''pl_b0'', (demoPipeline StateRunning)\<lparr>pl_JobIDs := [''job_b1'']\<rparr>)],
     jobs := [(''job_b1'', demoJob ''job_b1'' ''build'' policyJob 1 StateLeased [''attempt_c1''])],
     attempts := [(''attempt_c1'', demoAttempt1)], lastTenant := ''t1'',
     metrics := (metrics policyQueued)\<lparr>m_LeasesIssued := 1\<rparr>\<rparr>"

lemmas policy_states = policyIdle_def policyQueued_def policyLeased_def New_def

lemma policy_serve1: "serve (demoWorld ''a'' [] []) demoJson 10 (ReqRegister policyWorker) (New demoConfig) = Some policyIdle"
  by code_simp

lemma policy_Validate: "Validate (sub_Spec policyEvent) = Inr [''build'']"
  by code_simp

lemma policy_serve2: "serve (demoWorld ''b'' [] []) demoJson 20 (ReqSubmit policyEvent) policyIdle = Some policyQueued"
proof -
  let ?new = "submitNew (demoWorld ''b'' [] []) policyEvent
        ''ba7816bf8f01cfea414140de5dae2223b00361a396177a9cb410ff61f20015ad''
        ''d4f02eaafd1a9e9de7d10972ca8e47fa7a985825c3c9c1e249c72683cb3e4f19'' [''build''] 20 policyIdle"
  have e: "sub_RequestID policyEvent = ''d1''" "sub_CommitSHA policyEvent = ''abc''" "\<not> sub_Closed policyEvent"
    by (simp_all add: policyEvent_def demoEvent_def)
  have "Submit (demoWorld ''b'' [] []) demoJson policyEvent 20 policyIdle = ?new"
    unfolding Submit_def policy_Validate
    by (simp add: e demoJson_def demo_hash demo_configHash policy_states)
  moreover have "map_option snd ?new = Some policyQueued" by code_simp
  ultimately show ?thesis by simp
qed

lemma policy_serve3: "serve (demoWorld ''c'' [] []) demoJson 30 ReqSchedule policyQueued = Some policyLeased"
  by code_simp

lemma policy_submission: "policed policyAccess (ReqSubmit policyEvent)"
proof -
  have "namePattern ''build''" by code_simp
  then have "runtimeOK True ''build'' policyJob"
    by (simp add: runtimeOK_def policyJob_def demoBuild_def zeroJobSpec_def)
  then show ?thesis
    by (simp add: policySubmission_def policyEvent_def demoEvent_def policyAccess_def demoAccess_def)
qed

lemma policy_register: "policed policyAccess (ReqRegister policyWorker)"
  by (simp add: registered_def policyAccess_def)

lemma policy_fresh:
  "fresh (demoWorld ''a'' [] []) (New demoConfig)" "fresh (demoWorld ''b'' [] []) policyIdle"
  "fresh (demoWorld ''c'' [] []) policyQueued"
  by (auto simp: fresh_def demoWorld_def policy_states newID_def inj_on_def dest: utoa_inj)

lemma policy_reachable:
  "reachable (policed policyAccess) demoConfig policyIdle"
  "reachable (policed policyAccess) demoConfig policyQueued"
  "reachable (policed policyAccess) demoConfig policyLeased"
proof -
  show 1: "reachable (policed policyAccess) demoConfig policyIdle"
    by (rule reachable_serve [where P = "policed policyAccess", OF reachable.start policy_fresh(1) policy_register policy_serve1])
  show 2: "reachable (policed policyAccess) demoConfig policyQueued"
    by (rule reachable_serve [where P = "policed policyAccess", OF 1 policy_fresh(2) policy_submission policy_serve2])
  show "reachable (policed policyAccess) demoConfig policyLeased"
    by (rule reachable_serve [where P = "policed policyAccess", OF 2 policy_fresh(3) _ policy_serve3]) simp
qed

section \<open>What runs, and where\<close>

text \<open>
  C11: Untrusted code never runs with trust. In every state that the requests admitted by the access file
  can reach, every attempt belongs to a job whose tenant is its repository's, whose trust is exactly
  the operator's trust in the repository and lost in a fork, and which builds an image only if it is
  trusted; it runs on a worker of the access file that has the same trust level.
\<close>

theorem attempts_under_policy:
  assumes "reachable (policed access) c st" "map_of (attempts st) aid = Some a"
  shows "\<exists>j p policy wk. map_of (jobs st) (att_JobID a) = Some j \<and>
    map_of (pipelines st) (job_PipelineID j) = Some p \<and>
    map_of (acc_Repositories access) (pl_Repo p) = Some policy \<and>
    job_Tenant j = repo_Tenant policy \<and>
    spec_Trusted (job_Spec j) = (repo_Trusted policy \<and> pl_SourceRepo p = pl_Repo p) \<and>
    (spec_Buildkit (job_Spec j) \<noteq> None \<longrightarrow> spec_Trusted (job_Spec j)) \<and>
    registered access wk \<and> wk_ID wk = att_WorkerID a \<and> wk_Trusted wk = spec_Trusted (job_Spec j)"
proof -
  have w: "wellFormed st" and u: "underPolicy access st" using policy.always [OF assms(1)] by auto
  obtain j where j: "map_of (jobs st) (att_JobID a) = Some j"
    by (rule refs_job_of_attempt [OF wellFormed_refs [OF w] assms(2)])
  obtain p where p: "map_of (pipelines st) (job_PipelineID j) = Some p"
    by (rule refs_pipeline_of_job [OF wellFormed_refs [OF w] j])
  have jp: "jobPolicy access p j" and pp: "pipelinePolicy access p"
      and wp: "workerPolicy access (spec_Trusted (job_Spec j)) (att_WorkerID a)"
    using u j p assms(2) by (auto simp: underPolicy_def)
  from jp pp j p wp show ?thesis
    by (auto simp: jobPolicy_def pipelinePolicy_def workerPolicy_def runtimeOK_def)
qed

theorem attempts_under_policy_witness:
  "\<exists>wk. registered policyAccess wk \<and> wk_ID wk = ''w1'' \<and> wk_Trusted wk"
proof -
  have "map_of (attempts policyLeased) ''attempt_c1'' = Some demoAttempt1" by (simp add: policyLeased_def)
  from attempts_under_policy [OF policy_reachable(3) this] show ?thesis
    by (auto simp: policyLeased_def demoAttempt1_def demoAttempt_def demoJob_def policyJob_def)
qed

end
