(* ===== verification/Persist.thy ===== *)
theory Persist
  imports Machine Demo
begin

text \<open>
  Persistence: the versioned snapshots of a store (\<open>Snapshot\<close>, \<open>Copy\<close> and \<open>Restore\<close> in
  \<open>internal/control/workflow.go\<close>) and the two backends that run a callback as one transaction
  (\<open>internal/persistence/backend.go\<close>). \<open>encoding/gob\<close>, the AEAD and the database are arguments: a
  codec, a cipher (over any type of bytes), and an environment that says which statements of a
  transaction fail. An error that
  is not one of the store's is \<open>ErrInfrastructure\<close>; \<open>None\<close> is a panic of the callback.
\<close>

section \<open>Snapshots\<close>

record Snapshot =
  snap_Version :: int
  snap_Pipelines :: "(string, Pipeline) gomap"
  snap_Jobs :: "(string, Job) gomap"
  snap_Attempts :: "(string, Attempt) gomap"
  snap_Workers :: "(string, Worker) gomap"
  snap_Previews :: "(string, Preview) gomap"
  snap_Deliveries :: "(string, string) gomap"
  snap_TenantLimits :: "(string, int) gomap"
  snap_PRStates :: "(string, PRState) gomap"
  snap_RequestHashes :: "(string, string) gomap"
  snap_LastTenant :: string
  snap_Sequence :: "64 word"
  snap_Metrics :: Metrics

record 'byte Gob =
  gob_Encode :: "Snapshot \<Rightarrow> 'byte list option"
  gob_Decode :: "'byte list \<Rightarrow> Snapshot option"

definition snapshotOf :: "Store \<Rightarrow> Snapshot" where
  "snapshotOf st = \<lparr>snap_Version = 1, snap_Pipelines = pipelines st, snap_Jobs = jobs st,
     snap_Attempts = attempts st, snap_Workers = workers st, snap_Previews = previews st,
     snap_Deliveries = deliveries st, snap_TenantLimits = tenantLimits st, snap_PRStates = prStates st,
     snap_RequestHashes = requestHashes st, snap_LastTenant = lastTenant st,
     snap_Sequence = sequence st, snap_Metrics = metrics st\<rparr>"

definition TakeSnapshot :: "'byte Gob \<Rightarrow> Store \<Rightarrow> 'byte list option" where
  "TakeSnapshot gob st = gob_Encode gob (snapshotOf st)"

definition Restore :: "'byte Gob \<Rightarrow> Config \<Rightarrow> 'byte list \<Rightarrow> Store option" where
  "Restore gob c data =
     (let s = New c in
      if data = [] then Some s
      else case gob_Decode gob data of
        None \<Rightarrow> None
      | Some snap \<Rightarrow>
          if snap_Version snap \<noteq> 1 then None
          else Some (s\<lparr>pipelines := snap_Pipelines snap, jobs := snap_Jobs snap,
            attempts := snap_Attempts snap, workers := snap_Workers snap,
            previews := snap_Previews snap, deliveries := snap_Deliveries snap,
            tenantLimits := snap_TenantLimits snap, prStates := snap_PRStates snap,
            requestHashes := snap_RequestHashes snap, lastTenant := snap_LastTenant snap,
            sequence := snap_Sequence snap, metrics := snap_Metrics snap\<rparr>))"

definition Copy :: "'byte Gob \<Rightarrow> Store \<Rightarrow> Store option" where
  "Copy gob st = do { data \<leftarrow> TakeSnapshot gob st; Restore gob (config st) data }"

section \<open>Backends\<close>

datatype apiError = ErrForbidden | StoreErr error | ErrInfrastructure

type_synonym 'r callback = "time \<Rightarrow> Store \<Rightarrow> ((apiError + 'r) \<times> Store) option"

text \<open>\<open>done\<close> is the state of the request's context: a finished context refuses the transaction.\<close>

definition memoryTransact ::
  "'byte Gob \<Rightarrow> bool \<times> time \<Rightarrow> bool \<Rightarrow> string \<Rightarrow> 'r callback \<Rightarrow> Store \<Rightarrow> ((apiError + 'r) \<times> Store) option" where
  "memoryTransact gob env write action f st =
     (let (finished, now) = env in
      if finished then Some (Inl ErrInfrastructure, st)
      else if \<not> write then f now st
      else case Copy gob st of
        None \<Rightarrow> Some (Inl ErrInfrastructure, st)
      | Some copy \<Rightarrow> do {
          (r, st') \<leftarrow> f now copy;
          Some (case r of Inl e \<Rightarrow> (Inl e, st) | Inr x \<Rightarrow> (Inr x, st')) })"

record 'byte Aead =
  aead_NonceSize :: nat
  aead_Seal :: "'byte list \<Rightarrow> 'byte list \<Rightarrow> 'byte list"
  aead_Open :: "'byte list \<Rightarrow> 'byte list \<Rightarrow> 'byte list option"

definition seal :: "'byte Aead \<Rightarrow> 'byte list \<Rightarrow> 'byte list \<Rightarrow> 'byte list" where
  "seal aead nonce raw = nonce @ aead_Seal aead nonce raw"

definition unseal :: "'byte Aead \<Rightarrow> 'byte list \<Rightarrow> 'byte list option" where
  "unseal aead raw =
     (let n = aead_NonceSize aead in
      if length raw < n then None else aead_Open aead (take n raw) (drop n raw))"

text \<open>The database: the single row of \<open>control_state\<close> and the log \<open>control_audit\<close>.\<close>

record 'byte Database =
  db_Payload :: "'byte list option"
  db_Audit :: "string list"

text \<open>
  What happens to one transaction: which statements succeed, the database's clock, the random nonce,
  and the fate of the commit. A commit whose answer is lost takes effect although it reports an error.
\<close>

datatype commitFate = Committed | CommitRefused | CommitUnknown

record 'byte PgEnv =
  pg_Begin :: bool
  pg_Select :: bool
  pg_Clock :: "time option"
  pg_Update :: bool
  pg_Insert :: bool
  pg_Commit :: commitFate
  pg_Nonce :: "'byte list"

record 'byte Postgres =
  pg_Config :: Config
  pg_Aead :: "'byte Aead"
  pg_Gob :: "'byte Gob"

definition commit :: "'byte PgEnv \<Rightarrow> 'r \<Rightarrow> 'byte Database \<Rightarrow> 'byte Database \<Rightarrow> (apiError + 'r) \<times> 'byte Database" where
  "commit env x before after =
     (case pg_Commit env of
        Committed \<Rightarrow> (Inr x, after)
      | CommitRefused \<Rightarrow> (Inl ErrInfrastructure, before)
      | CommitUnknown \<Rightarrow> (Inl ErrInfrastructure, after))"

text \<open>What a write transaction stores once its callback has succeeded.\<close>

definition store ::
  "'byte Postgres \<Rightarrow> 'byte PgEnv \<Rightarrow> string \<Rightarrow> 'r \<Rightarrow> Store \<Rightarrow> 'byte Database \<Rightarrow> (apiError + 'r) \<times> 'byte Database" where
  "store pg env action x st db =
     (case TakeSnapshot (pg_Gob pg) st of
        None \<Rightarrow> (Inl ErrInfrastructure, db)
      | Some payload \<Rightarrow>
          if \<not> pg_Update env then (Inl ErrInfrastructure, db)
          else
            let db1 = db\<lparr>db_Payload := Some (seal (pg_Aead pg) (pg_Nonce env) payload)\<rparr>
            in if action = [] then commit env x db db1
               else if \<not> pg_Insert env then (Inl ErrInfrastructure, db)
               else commit env x db (db1\<lparr>db_Audit := db_Audit db1 @ [action]\<rparr>))"

definition load :: "'byte Postgres \<Rightarrow> 'byte Database \<Rightarrow> Store option" where
  "load pg db = do {
     encrypted \<leftarrow> db_Payload db;
     raw \<leftarrow> unseal (pg_Aead pg) encrypted;
     Restore (pg_Gob pg) (pg_Config pg) raw }"

definition postgresTransact ::
  "'byte Postgres \<Rightarrow> 'byte PgEnv \<Rightarrow> bool \<Rightarrow> string \<Rightarrow> 'r callback \<Rightarrow> 'byte Database \<Rightarrow> ((apiError + 'r) \<times> 'byte Database) option" where
  "postgresTransact pg env write action f db =
     (if \<not> pg_Begin env \<or> \<not> pg_Select env then Some (Inl ErrInfrastructure, db)
      else case load pg db of
        None \<Rightarrow> Some (Inl ErrInfrastructure, db)
      | Some st \<Rightarrow>
          (case pg_Clock env of
             None \<Rightarrow> Some (Inl ErrInfrastructure, db)
           | Some now \<Rightarrow> do {
               (r, st') \<leftarrow> f now st;
               Some (case r of
                 Inl e \<Rightarrow> (Inl e, db)
               | Inr x \<Rightarrow> if write then store pg env action x st' db else commit env x db db) }))"

text \<open>The first row is written when the table is created; an existing row is kept.\<close>

definition migrate :: "'byte Postgres \<Rightarrow> 'byte PgEnv \<Rightarrow> 'byte Database \<Rightarrow> (apiError + unit) \<times> 'byte Database" where
  "migrate pg env db =
     (if \<not> pg_Begin env then (Inl ErrInfrastructure, db)
      else case TakeSnapshot (pg_Gob pg) (New (pg_Config pg)) of
        None \<Rightarrow> (Inl ErrInfrastructure, db)
      | Some raw \<Rightarrow>
          if \<not> pg_Insert env then (Inl ErrInfrastructure, db)
          else commit env () db
            (case db_Payload db of
               None \<Rightarrow> db\<lparr>db_Payload := Some (seal (pg_Aead pg) (pg_Nonce env) raw)\<rparr>
             | Some _ \<Rightarrow> db))"

definition Open :: "'byte Postgres \<Rightarrow> 'byte PgEnv \<Rightarrow> 'byte PgEnv \<Rightarrow> u8 list \<Rightarrow> 'byte Database \<Rightarrow> ((apiError + unit) \<times> 'byte Database) option" where
  "Open pg env1 env2 key db =
     (if length key \<noteq> 32 then Some (Inl ErrInfrastructure, db)
      else case migrate pg env1 db of
        (Inl e, db') \<Rightarrow> Some (Inl e, db')
      | (Inr _, db') \<Rightarrow> postgresTransact pg env2 False [] (\<lambda>now st. Some (Inr (), st)) db')"


section \<open>The contract of a backend\<close>

text \<open>What the callbacks of the program do: they never panic, keep the configuration, and only write when they may.\<close>

definition decent :: "bool \<Rightarrow> 'r callback \<Rightarrow> Store \<Rightarrow> bool" where
  "decent wr f st \<longleftrightarrow> (\<forall>now. \<exists>r st'. f now st = Some (r, st') \<and> config st' = config st \<and> (\<not> wr \<longrightarrow> st' = st))"

text \<open>
  \<open>holds b st\<close>: the backend's state \<open>b\<close> represents \<open>st\<close>. A transaction either changes nothing and
  reports an error, or makes exactly the state of its callback's success durable; an infrastructure
  error may hide such a success, but a reported success is always one.
\<close>

locale backend =
  fixes holds :: "'b \<Rightarrow> Store \<Rightarrow> bool" and fair :: "'e \<Rightarrow> bool"
    and transact :: "'e \<Rightarrow> bool \<Rightarrow> string \<Rightarrow> 'r callback \<Rightarrow> 'b \<Rightarrow> ((apiError + 'r) \<times> 'b) option"
  assumes atomic: "holds b st \<Longrightarrow> fair env \<Longrightarrow> decent wr f st \<Longrightarrow>
      \<exists>res b'. transact env wr action f b = Some (res, b') \<and>
        ((\<exists>e. res = Inl e \<and> holds b' st \<and> (e = ErrInfrastructure \<or> (\<exists>now st'. f now st = Some (Inl e, st')))) \<or>
         (\<exists>now x st'. f now st = Some (Inr x, st') \<and> holds b' st' \<and> res \<in> {Inr x, Inl ErrInfrastructure}))"
begin

lemma answers: "holds b st \<Longrightarrow> fair env \<Longrightarrow> decent wr f st \<Longrightarrow> transact env wr action f b \<noteq> None"
  using atomic by fastforce

lemma success:
  assumes "holds b st" "fair env" "decent wr f st" "transact env wr action f b = Some (Inr x, b')"
  obtains now st' where "f now st = Some (Inr x, st')" "holds b' st'"
  using atomic [OF assms(1-3), of action] assms(4) by auto

text \<open>A predicate that successful callbacks preserve holds of what the backend represents, whatever the answer.\<close>

lemma durable:
  assumes "holds b st" "fair env" "decent wr f st" "transact env wr action f b = Some (res, b')" "Q st"
    and "\<And>now x st'. f now st = Some (Inr x, st') \<Longrightarrow> Q st'"
  shows "\<exists>st'. holds b' st' \<and> Q st'"
  using atomic [OF assms(1-3), of action] assms(4-6) by fastforce

lemma read_unchanged:
  assumes "holds b st" "fair env" "decent False f st" "transact env False action f b = Some (res, b')"
  shows "holds b' st"
proof -
  have "\<exists>st'. holds b' st' \<and> st' = st"
  proof (rule durable [OF assms refl])
    fix now x st'
    assume "f now st = Some (Inr x, st')"
    with assms(3) show "st' = st" unfolding decent_def by (metis option.inject prod.inject)
  qed
  then show ?thesis by simp
qed

end

section \<open>Both backends meet it\<close>

definition lossless :: "'byte Gob \<Rightarrow> bool" where
  "lossless gob \<longleftrightarrow> (\<forall>snap. \<exists>data. gob_Encode gob snap = Some data \<and> data \<noteq> [] \<and> gob_Decode gob data = Some snap)"

definition opens :: "'byte Aead \<Rightarrow> bool" where
  "opens aead \<longleftrightarrow> (\<forall>nonce raw. length nonce = aead_NonceSize aead \<longrightarrow>
     aead_Open aead nonce (aead_Seal aead nonce raw) = Some raw)"

lemma withDefaults_idem [simp]: "withDefaults (withDefaults c) = withDefaults c"
  by (auto simp: withDefaults_def)

lemma Restore_TakeSnapshot:
  assumes "lossless gob" "config st = withDefaults c"
  obtains data where "TakeSnapshot gob st = Some data" "Restore gob c data = Some st"
proof -
  obtain data where d: "gob_Encode gob (snapshotOf st) = Some data" "data \<noteq> []" "gob_Decode gob data = Some (snapshotOf st)"
    using assms(1) unfolding lossless_def by blast
  have "Restore gob c data = Some st"
    using d(2,3) assms(2) by (cases st) (simp add: Restore_def snapshotOf_def New_def)
  with d(1) show ?thesis by (intro that) (simp_all add: TakeSnapshot_def)
qed

lemma Copy_id: "lossless gob \<Longrightarrow> config st = withDefaults c \<Longrightarrow> Copy gob st = Some st"
  by (rule Restore_TakeSnapshot [of gob st "config st"]) (simp_all add: Copy_def)

definition holdsMemory :: "'byte Gob \<Rightarrow> Config \<Rightarrow> Store \<Rightarrow> Store \<Rightarrow> bool" where
  "holdsMemory gob c b st \<longleftrightarrow> lossless gob \<and> b = st \<and> config st = withDefaults c"

interpretation memory: backend "holdsMemory gob c" "\<lambda>env. True" "memoryTransact gob" for gob c
proof
  fix b st wr f action and env :: "bool \<times> time"
  assume "holdsMemory gob c b st" and f: "decent wr (f :: 'r callback) st"
  then have h: "b = st" "Copy gob st = Some st" "lossless gob" "config st = withDefaults c"
    using Copy_id by (auto simp: holdsMemory_def)
  obtain finished now where env: "env = (finished, now)" by fastforce
  obtain r st' where r: "f now st = Some (r, st')" "config st' = config st" "\<not> wr \<longrightarrow> st' = st"
    using f unfolding decent_def by blast
  have "memoryTransact gob env wr action f b =
      Some (if finished then (Inl ErrInfrastructure, st) else case r of Inl e \<Rightarrow> (Inl e, st) | Inr x \<Rightarrow> (Inr x, st'))"
    using r by (auto simp: memoryTransact_def env h(1,2) split: sum.splits)
  with r h show "\<exists>res b'. memoryTransact gob env wr action f b = Some (res, b') \<and>
        ((\<exists>e. res = Inl e \<and> holdsMemory gob c b' st \<and> (e = ErrInfrastructure \<or> (\<exists>now st'. f now st = Some (Inl e, st')))) \<or>
         (\<exists>now x st'. f now st = Some (Inr x, st') \<and> holdsMemory gob c b' st' \<and> res \<in> {Inr x, Inl ErrInfrastructure}))"
    by (cases finished; cases r) (auto simp: holdsMemory_def)
qed

definition holdsPostgres :: "'byte Postgres \<Rightarrow> 'byte Database \<Rightarrow> Store \<Rightarrow> bool" where
  "holdsPostgres pg db st \<longleftrightarrow> lossless (pg_Gob pg) \<and> opens (pg_Aead pg) \<and>
     load pg db = Some st \<and> config st = withDefaults (pg_Config pg)"

definition fairEnv :: "'byte Postgres \<Rightarrow> 'byte PgEnv \<Rightarrow> bool" where
  "fairEnv pg env \<longleftrightarrow> length (pg_Nonce env) = aead_NonceSize (pg_Aead pg)"

lemma unseal_seal: "opens aead \<Longrightarrow> length nonce = aead_NonceSize aead \<Longrightarrow> unseal aead (seal aead nonce raw) = Some raw"
  by (simp add: seal_def unseal_def opens_def)

lemma store_holds:
  assumes "holdsPostgres pg db st" "fairEnv pg env" "config st' = config st" "store pg env action x st' db = (res, db')"
  shows "res = Inl ErrInfrastructure \<and> holdsPostgres pg db' st \<or>
    holdsPostgres pg db' st' \<and> res \<in> {Inr x, Inl ErrInfrastructure}"
proof -
  from assms(1,3) have pg: "lossless (pg_Gob pg)" "opens (pg_Aead pg)" "config st' = withDefaults (pg_Config pg)"
    by (simp_all add: holdsPostgres_def)
  obtain payload where p: "TakeSnapshot (pg_Gob pg) st' = Some payload"
      "Restore (pg_Gob pg) (pg_Config pg) payload = Some st'"
    by (rule Restore_TakeSnapshot [OF pg(1,3)])
  have written: "holdsPostgres pg (db\<lparr>db_Payload := Some (seal (pg_Aead pg) (pg_Nonce env) payload), db_Audit := audit\<rparr>) st'" for audit
    using pg p(2) assms(2) by (simp add: holdsPostgres_def load_def unseal_seal fairEnv_def)
  from written [of "db_Audit db"] have plain: "holdsPostgres pg (db\<lparr>db_Payload := Some (seal (pg_Aead pg) (pg_Nonce env) payload)\<rparr>) st'"
    by simp
  show ?thesis
    using assms(1,4) written plain p(1) by (auto simp: store_def Let_def commit_def split: if_splits commitFate.splits)
qed

text \<open>A write is all or nothing.\<close>

lemma store_outcome:
  assumes "holdsPostgres pg db st" "fairEnv pg env" "config st' = config st" "store pg env action x st' db = (res, db')"
  shows "if \<not> pg_Update env \<or> action \<noteq> [] \<and> \<not> pg_Insert env \<or> pg_Commit env = CommitRefused
    then res = Inl ErrInfrastructure \<and> db' = db
    else holdsPostgres pg db' st' \<and> db_Audit db' = db_Audit db @ (if action \<noteq> [] then [action] else []) \<and>
      res = (if pg_Commit env = Committed then Inr x else Inl ErrInfrastructure)"
proof -
  from assms(1,3) have pg: "lossless (pg_Gob pg)" "opens (pg_Aead pg)" "config st' = withDefaults (pg_Config pg)"
    by (simp_all add: holdsPostgres_def)
  obtain payload where p: "TakeSnapshot (pg_Gob pg) st' = Some payload"
      "Restore (pg_Gob pg) (pg_Config pg) payload = Some st'"
    by (rule Restore_TakeSnapshot [OF pg(1,3)])
  have written: "holdsPostgres pg (db\<lparr>db_Payload := Some (seal (pg_Aead pg) (pg_Nonce env) payload), db_Audit := audit\<rparr>) st'" for audit
    using pg p(2) assms(2) by (simp add: holdsPostgres_def load_def unseal_seal fairEnv_def)
  from written [of "db_Audit db"] have plain: "holdsPostgres pg (db\<lparr>db_Payload := Some (seal (pg_Aead pg) (pg_Nonce env) payload)\<rparr>) st'"
    by simp
  show ?thesis
    using assms(4) written plain p(1)
    by (cases "pg_Commit env") (auto simp: store_def Let_def commit_def split: if_splits)
qed

interpretation postgres: backend "holdsPostgres pg" "fairEnv pg" "postgresTransact pg" for pg
proof
  fix b st env wr f action
  assume h: "holdsPostgres pg b st" and e: "fairEnv pg env" and f: "decent wr (f :: 'r callback) st"
  then have l: "load pg b = Some st" by (simp add: holdsPostgres_def)
  show "\<exists>res b'. postgresTransact pg env wr action f b = Some (res, b') \<and>
        ((\<exists>e. res = Inl e \<and> holdsPostgres pg b' st \<and> (e = ErrInfrastructure \<or> (\<exists>now st'. f now st = Some (Inl e, st')))) \<or>
         (\<exists>now x st'. f now st = Some (Inr x, st') \<and> holdsPostgres pg b' st' \<and> res \<in> {Inr x, Inl ErrInfrastructure}))"
  proof (cases "\<not> pg_Begin env \<or> \<not> pg_Select env \<or> pg_Clock env = None")
    case True
    then show ?thesis using h by (auto simp: postgresTransact_def l split: option.split)
  next
    case False
    then obtain now where now: "pg_Clock env = Some now" "pg_Begin env" "pg_Select env" by auto
    obtain r st' where r: "f now st = Some (r, st')" "config st' = config st" "\<not> wr \<longrightarrow> st' = st"
      using f unfolding decent_def by blast
    have t: "postgresTransact pg env wr action f b = Some (case r of Inl e \<Rightarrow> (Inl e, b)
        | Inr x \<Rightarrow> if wr then store pg env action x st' b else commit env x b b)"
      using now r(1) by (simp add: postgresTransact_def l)
    show ?thesis
    proof (cases r)
      case (Inl e)
      then show ?thesis using t h r(1) by auto
    next
      case (Inr x)
      show ?thesis
      proof (cases wr)
        case True
        obtain res db' where s: "store pg env action x st' b = (res, db')" by fastforce
        from store_holds [OF h e r(2) s] t Inr True s r(1) show ?thesis by auto
      next
        case False
        then show ?thesis using t Inr h r by (auto simp: commit_def split: commitFate.splits)
      qed
    qed
  qed
qed

section \<open>Refinement\<close>

text \<open>
  C12: The production backend refines the in-memory one, and a transaction is atomic. Run on a database
  that represents a state, a transaction of Postgres compares with the in-memory transaction on that
  state at the database's time. When the transaction cannot begin, the row or the clock cannot be read,
  a write's update or audit record fails, or the commit is refused, it reports an infrastructure error
  and the database is what it was. When the callback fails, it reports that error and the database is
  what it was. Otherwise the database represents the in-memory result, a write with an action has
  appended exactly that action to the audit log and a read has changed nothing; the answer is the
  in-memory answer, which only a commit whose own answer is lost hides behind an infrastructure error.
\<close>

theorem postgres_refines_memory:
  assumes "holdsPostgres pg db st" "fairEnv pg env" "decent wr f st"
  shows "\<exists>res db'. postgresTransact pg env wr action f db = Some (res, db') \<and>
    (if \<not> pg_Begin env \<or> \<not> pg_Select env then res = Inl ErrInfrastructure \<and> db' = db
     else case pg_Clock env of
       None \<Rightarrow> res = Inl ErrInfrastructure \<and> db' = db
     | Some now \<Rightarrow>
         \<exists>res' st'. memoryTransact (pg_Gob pg) (False, now) wr action f st = Some (res', st') \<and>
           (case res' of
              Inl err \<Rightarrow> res = Inl err \<and> db' = db
            | Inr x \<Rightarrow>
                if wr \<and> (\<not> pg_Update env \<or> action \<noteq> [] \<and> \<not> pg_Insert env) \<or> pg_Commit env = CommitRefused
                then res = Inl ErrInfrastructure \<and> db' = db
                else holdsPostgres pg db' st' \<and>
                  db_Audit db' = db_Audit db @ (if wr \<and> action \<noteq> [] then [action] else []) \<and>
                  (wr \<or> db' = db) \<and>
                  res = (if pg_Commit env = Committed then Inr x else Inl ErrInfrastructure)))"
proof (cases "pg_Begin env \<and> pg_Select env \<and> pg_Clock env \<noteq> None")
  case False
  with assms(1) show ?thesis by (auto simp: postgresTransact_def holdsPostgres_def split: option.split)
next
  case True
  then obtain now where now: "pg_Begin env" "pg_Select env" "pg_Clock env = Some now" by blast
  obtain r st1 where r: "f now st = Some (r, st1)" "config st1 = config st" "\<not> wr \<longrightarrow> st1 = st"
    using assms(3) unfolding decent_def by blast
  have "Copy (pg_Gob pg) st = Some st" using assms(1) Copy_id by (auto simp: holdsPostgres_def)
  with r have m: "memoryTransact (pg_Gob pg) (False, now) wr action f st =
      Some (r, case r of Inl e \<Rightarrow> st | Inr x \<Rightarrow> st1)"
    by (auto simp: memoryTransact_def split: sum.splits)
  have t: "postgresTransact pg env wr action f db = Some (case r of Inl e \<Rightarrow> (Inl e, db)
      | Inr x \<Rightarrow> if wr then store pg env action x st1 db else commit env x db db)"
    using now r(1) assms(1) by (simp add: postgresTransact_def holdsPostgres_def)
  show ?thesis
  proof (cases r)
    case (Inl e)
    with t m now show ?thesis by simp
  next
    case (Inr x)
    show ?thesis
    proof (cases wr)
      case False
      with t m now Inr assms(1) r(3) show ?thesis by (cases "pg_Commit env") (simp_all add: commit_def)
    next
      case True
      obtain res db' where s: "store pg env action x st1 db = (res, db')" by fastforce
      with store_outcome [OF assms(1,2) r(2) s] t m now Inr True show ?thesis by simp
    qed
  qed
qed

text \<open>Opening creates the first state once and keeps an existing one.\<close>

lemma migrate_holds:
  assumes "lossless (pg_Gob pg)" "opens (pg_Aead pg)" "fairEnv pg env" "migrate pg env db = (Inr u, db')"
    and "db_Payload db = None \<or> holdsPostgres pg db st"
  shows "holdsPostgres pg db' (if db_Payload db = None then New (pg_Config pg) else st)"
proof -
  obtain data where d: "TakeSnapshot (pg_Gob pg) (New (pg_Config pg)) = Some data"
      "Restore (pg_Gob pg) (pg_Config pg) data = Some (New (pg_Config pg))"
    by (rule Restore_TakeSnapshot [OF assms(1), of "New (pg_Config pg)" "pg_Config pg"]) (simp add: New_def)
  show ?thesis
  proof (cases "db_Payload db")
    case None
    then have "load pg db' = Some (New (pg_Config pg))"
      using assms(2-4) d by (auto simp: migrate_def commit_def load_def fairEnv_def unseal_seal
          split: if_splits commitFate.splits)
    with None assms(1,2) show ?thesis by (simp add: holdsPostgres_def New_def)
  next
    case (Some p)
    then have "db' = db" using assms(4) by (auto simp: migrate_def commit_def split: if_splits commitFate.splits option.splits)
    with Some assms(5) show ?thesis by simp
  qed
qed

section \<open>A concrete database\<close>

definition demoPg :: "Snapshot Postgres" where
  "demoPg = \<lparr>pg_Config = demoConfig,
     pg_Aead = \<lparr>aead_NonceSize = 0, aead_Seal = (\<lambda>n raw. raw), aead_Open = (\<lambda>n c. Some c)\<rparr>,
     pg_Gob = \<lparr>gob_Encode = (\<lambda>snap. Some [snap]), gob_Decode = (\<lambda>data. case data of [] \<Rightarrow> None | snap # _ \<Rightarrow> Some snap)\<rparr>\<rparr>"

definition demoEnv :: "Snapshot PgEnv" where
  "demoEnv = \<lparr>pg_Begin = True, pg_Select = True, pg_Clock = Some 30, pg_Update = True, pg_Insert = True,
     pg_Commit = Committed, pg_Nonce = []\<rparr>"

definition demoDatabase :: "Store \<Rightarrow> Snapshot Database" where
  "demoDatabase st = \<lparr>db_Payload = Some [snapshotOf st], db_Audit = []\<rparr>"

lemma demo_holds: "config st = withDefaults demoConfig \<Longrightarrow> holdsPostgres demoPg (demoDatabase st) st"
  by (cases st) (simp add: holdsPostgres_def demoPg_def demoDatabase_def lossless_def opens_def load_def unseal_def
    Restore_def snapshotOf_def New_def)

lemma demo_fair: "fairEnv demoPg demoEnv"
  by (simp add: fairEnv_def demoPg_def demoEnv_def)

text \<open>The heartbeat of the demo's worker as a transaction.\<close>

definition demoBeat :: "unit callback" where
  "demoBeat now st = (case HeartbeatWorker ''w1'' now st of (r, st') \<Rightarrow> Some (map_sum StoreErr id r, st'))"

lemma demo_decent: "decent True demoBeat st"
  by (auto simp: decent_def demoBeat_def HeartbeatWorker_def split: prod.split option.split)

theorem postgres_refines_memory_witness:
  "\<exists>res db' st'. postgresTransact demoPg demoEnv True ''beat'' demoBeat (demoDatabase demoIdle) = Some (res, db') \<and>
     memoryTransact (pg_Gob demoPg) (False, 30) True ''beat'' demoBeat demoIdle = Some (res, st') \<and>
     holdsPostgres demoPg db' st' \<and> db_Audit db' = [''beat'']"
proof -
  have h: "holdsPostgres demoPg (demoDatabase demoIdle) demoIdle"
    by (rule demo_holds) (simp add: demoIdle_def New_def)
  have beat: "demoBeat 30 demoIdle = Some (Inr (), demoIdle\<lparr>workers := mutate ''w1'' (\<lambda>w. w\<lparr>wk_Heartbeat := 30\<rparr>) (workers demoIdle)\<rparr>)"
    by (simp add: demoBeat_def HeartbeatWorker_def demoIdle_def)
  have "Copy (pg_Gob demoPg) demoIdle = Some demoIdle"
    using h Copy_id by (auto simp: holdsPostgres_def)
  with beat have "memoryTransact (pg_Gob demoPg) (False, 30) True ''beat'' demoBeat demoIdle =
      Some (Inr (), demoIdle\<lparr>workers := mutate ''w1'' (\<lambda>w. w\<lparr>wk_Heartbeat := 30\<rparr>) (workers demoIdle)\<rparr>)"
    by (simp add: memoryTransact_def)
  with postgres_refines_memory [OF h demo_fair demo_decent, of "''beat''"] show ?thesis
    by (auto simp: demoEnv_def demoDatabase_def)
qed

end
