(* ===== verification/Objects.thy ===== *)
theory Objects
  imports Access
begin

text \<open>
  The object store client (\<open>internal/objectstore/s3.go\<close>): bounded, content-addressed operations signed
  with AWS signature version 4. The HTTP exchange is the argument \<open>http\<close>, which answers a call or fails;
  \<open>url.Parse\<close> of the endpoint has been applied already (\<open>None\<close> is a parse error), and the two forms of
  the current time that the signature uses are the arguments \<open>stamp\<close> and \<open>day\<close>.
\<close>

record URL =
  url_Scheme :: string
  url_Host :: string
  url_User :: "string option"
  url_RawQuery :: string
  url_Path :: string

record S3 =
  s3_Endpoint :: "URL option"
  s3_Bucket :: string
  s3_Region :: string
  s3_AccessKey :: string
  s3_SecretKey :: string

record HttpCall =
  call_Method :: string
  call_URL :: URL
  call_Date :: string
  call_ContentSha :: string
  call_Authorization :: string
  call_Body :: "u8 list"

text \<open>An answer: its status, the bytes of its body, and whether reading the body fails after them.\<close>

record HttpResult =
  res_Status :: int
  res_Body :: "u8 list"
  res_Broken :: bool

type_synonym Http = "HttpCall \<Rightarrow> HttpResult option"

datatype objectError =
    BadEndpoint | BadCredentials | InvalidKey | Unreachable | BadStatus int | ObjectTooLarge
  | WrongDigest | ReadFailed

definition ValidateS3 :: "S3 \<Rightarrow> objectError + S3" where
  "ValidateS3 s =
     (case s3_Endpoint s of
        None \<Rightarrow> Inl BadEndpoint
      | Some u \<Rightarrow>
          if url_Host u = [] \<or> url_Scheme u \<noteq> ''http'' \<and> url_Scheme u \<noteq> ''https'' \<or> url_User u \<noteq> None \<or>
             url_RawQuery u \<noteq> [] \<or> url_Path u \<noteq> [] then Inl BadEndpoint
          else if s3_Bucket s = [] \<or> Contains (s3_Bucket s) ''/'' \<or> s3_AccessKey s = [] \<or> s3_SecretKey s = []
          then Inl BadCredentials
          else Inr (if s3_Region s = [] then s\<lparr>s3_Region := ''us-east-1''\<rparr> else s))"

definition hash :: "u8 list \<Rightarrow> string" where
  "hash b = hexEncode (sha256 b)"

definition mac :: "u8 list \<Rightarrow> string \<Rightarrow> u8 list" where
  "mac key v = hmacSha256 key (bytes v)"

text \<open>\<open>URL.EscapedPath\<close>: all bytes but the unreserved and the path's reserved ones are percent-encoded.\<close>

definition upperHex :: "nat \<Rightarrow> char" where
  "upperHex n = (if n < 10 then char_of (48 + n) else char_of (55 + n))"

definition escapedPath :: "string \<Rightarrow> string" where
  "escapedPath p = concat (map (\<lambda>c.
     if isUpper c \<or> isLower c \<or> isNumber c \<or> c \<in> set ''-_.~$&+,/:;=@'' then [c]
     else let n = (of_char c :: nat) in [CHR ''%'', upperHex (n div 16), upperHex (n mod 16)]) p)"

abbreviation newline :: string where
  "newline \<equiv> [CHR 0x0A]"

abbreviation signedHeaders :: string where
  "signedHeaders \<equiv> ''host;x-amz-content-sha256;x-amz-date''"

definition canonicalRequest :: "string \<Rightarrow> URL \<Rightarrow> string \<Rightarrow> string \<Rightarrow> string" where
  "canonicalRequest method u digest stamp =
     method @ newline @ escapedPath (url_Path u) @ newline @ newline @ ''host:'' @ url_Host u @ newline @
     ''x-amz-content-sha256:'' @ digest @ newline @ ''x-amz-date:'' @ stamp @ newline @ newline @
     signedHeaders @ newline @ digest"

definition signature :: "S3 \<Rightarrow> string \<Rightarrow> string \<Rightarrow> string \<Rightarrow> string \<Rightarrow> string" where
  "signature s canonical stamp day scope =
     (let toSign = ''AWS4-HMAC-SHA256'' @ newline @ stamp @ newline @ scope @ newline @ hash (bytes canonical);
          signingKey = mac (mac (mac (mac (bytes (''AWS4'' @ s3_SecretKey s)) day) (s3_Region s)) ''s3'') ''aws4_request''
      in hexEncode (mac signingKey toSign))"

definition signedCall :: "S3 \<Rightarrow> URL \<Rightarrow> string \<Rightarrow> string \<Rightarrow> string \<Rightarrow> u8 list \<Rightarrow> HttpCall" where
  "signedCall s u stamp day method body =
     (let digest = hash body;
          canonical = canonicalRequest method u digest stamp;
          scope = day @ ''/'' @ s3_Region s @ ''/s3/aws4_request'';
          credential = ''AWS4-HMAC-SHA256 Credential='' @ s3_AccessKey s @ ''/'' @ scope @
            '', SignedHeaders='' @ signedHeaders @ '', Signature='' @ signature s canonical stamp day scope
      in \<lparr>call_Method = method, call_URL = u, call_Date = stamp, call_ContentSha = digest,
          call_Authorization = credential, call_Body = body\<rparr>)"

definition request ::
  "S3 \<Rightarrow> Http \<Rightarrow> string \<Rightarrow> string \<Rightarrow> string \<Rightarrow> string \<Rightarrow> u8 list \<Rightarrow> objectError + HttpResult" where
  "request s http stamp day method key body =
     (if Contains key ''..'' \<or> HasPrefix key ''/'' then Inl InvalidKey
      else case s3_Endpoint s of
        None \<Rightarrow> Inl BadEndpoint
      | Some u \<Rightarrow>
          (case http (signedCall s (u\<lparr>url_Path := ''/'' @ s3_Bucket s @ ''/'' @ key\<rparr>) stamp day method body) of
             None \<Rightarrow> Inl Unreachable
           | Some res \<Rightarrow>
               if res_Status res < 200 \<or> res_Status res \<ge> 300 then Inl (BadStatus (res_Status res))
               else Inr res))"

definition Put :: "S3 \<Rightarrow> Http \<Rightarrow> string \<Rightarrow> string \<Rightarrow> string \<Rightarrow> u8 list \<Rightarrow> objectError + string" where
  "Put s http stamp day pre data =
     (let key = pre @ ''/'' @ hash data
      in case request s http stamp day ''PUT'' key data of Inl e \<Rightarrow> Inl e | Inr _ \<Rightarrow> Inr key)"

abbreviation MiB16 :: nat where
  "MiB16 \<equiv> 16777216"

definition Get :: "S3 \<Rightarrow> Http \<Rightarrow> string \<Rightarrow> string \<Rightarrow> string \<Rightarrow> objectError + u8 list" where
  "Get s http stamp day key =
     (case request s http stamp day ''GET'' key [] of
        Inl e \<Rightarrow> Inl e
      | Inr r \<Rightarrow>
          let b = take (MiB16 + 1) (res_Body r);
              failed = res_Broken r \<and> length (res_Body r) < MiB16 + 1
          in if length b > MiB16 then Inl ObjectTooLarge
             else if failed then Inl ReadFailed
             else if hash b \<noteq> last (Split key (CHR ''/'')) then Inl WrongDigest
             else Inr b)"

definition PingS3 :: "S3 \<Rightarrow> Http \<Rightarrow> string \<Rightarrow> string \<Rightarrow> objectError option" where
  "PingS3 s http stamp day = (case request s http stamp day ''HEAD'' [] [] of Inl e \<Rightarrow> Some e | Inr _ \<Rightarrow> None)"

section \<open>Keys\<close>

lemma signedCall_simps [simp]:
  "call_Method (signedCall s u stamp day method body) = method"
  "call_URL (signedCall s u stamp day method body) = u"
  "call_Body (signedCall s u stamp day method body) = body"
  by (simp_all add: signedCall_def Let_def)

lemma length_hash [simp]: "length (hash b) = 64"
  by (simp add: hash_def)

lemma hash_lower: "c \<in> set (hash b) \<Longrightarrow> isLowerHex c"
  unfolding hash_def by (rule hexEncode_lower)

lemma hash_inj: "hash a = hash b \<longleftrightarrow> sha256 a = sha256 b"
  by (auto simp: hash_def dest: hexEncode_inj)

lemma hash_no_slash: "CHR ''/'' \<notin> set (hash b)"
  using hash_lower [of "CHR ''/''" b] by (auto simp: isLowerHex_def)

lemma hash_no_dot: "CHR ''.'' \<notin> set (hash b)"
  using hash_lower [of "CHR ''.''" b] by (auto simp: isLowerHex_def)

lemma Split_append_sep: "Split (p @ sep # s) sep = Split p sep @ Split s sep"
proof (induction p)
  case (Cons c p)
  then show ?case by (cases "Split p sep") auto
qed simp

lemma last_Split: "last (Split (p @ sep # s) sep) = last (Split s sep)"
  by (simp add: Split_append_sep)

lemma Split_key: "last (Split (pre @ ''/'' @ hash b) (CHR ''/'')) = hash b"
  using last_Split [of pre "CHR ''/''" "hash b"] Split_no_sep [OF hash_no_slash [of b]] by simp

lemma no_dots_append:
  assumes "\<not> Contains p ''..''" "CHR ''.'' \<notin> set q"
  shows "\<not> Contains (p @ q) ''..''"
proof
  assume "Contains (p @ q) ''..''"
  then obtain a b where "p @ q = a @ ''..'' @ b" by (auto simp: Contains_iff)
  then consider us where "p = a @ us" "us @ q = ''..'' @ b" | us where "q = us @ ''..'' @ b"
    by (auto simp: append_eq_append_conv2)
  then show False
  proof cases
    case 1
    then show False using assms
      by (cases us; cases "tl us") (auto simp: Contains_iff Cons_eq_append_conv)
  next
    case 2
    then show False using assms(2) by simp
  qed
qed


section \<open>Integrity\<close>

lemma Put_key:
  "Put s http stamp day pre data = Inr key \<Longrightarrow> key = pre @ ''/'' @ hash data"
  by (auto simp: Put_def Let_def split: sum.splits)

lemma Get_body:
  assumes "Get s http stamp day key = Inr b"
  shows "length b \<le> MiB16" "hash b = last (Split key (CHR ''/''))"
  using assms by (auto simp: Get_def Let_def split: sum.splits if_splits)

text \<open>An object store that answers a later download with what an upload left under the same path.\<close>

definition remembers :: "Http \<Rightarrow> Http \<Rightarrow> bool" where
  "remembers before after \<longleftrightarrow> (\<forall>put get res. call_Method put = ''PUT'' \<longrightarrow> call_Method get = ''GET'' \<longrightarrow>
     url_Path (call_URL get) = url_Path (call_URL put) \<longrightarrow> before put = Some res \<longrightarrow>
     200 \<le> res_Status res \<longrightarrow> res_Status res < 300 \<longrightarrow>
     after get = Some \<lparr>res_Status = 200, res_Body = call_Body put, res_Broken = False\<rparr>)"

lemma request_key: "request s http stamp day method key body = Inr res \<Longrightarrow>
    \<not> Contains key ''..'' \<and> \<not> HasPrefix key ''/'' \<and> (\<exists>u. s3_Endpoint s = Some u)"
  by (auto simp: request_def Let_def split: if_splits option.splits)

lemma request_remembered:
  assumes put: "request s http1 stamp1 day1 ''PUT'' key data = Inr res" and store: "remembers http1 http2"
  shows "request s http2 stamp2 day2 ''GET'' key [] = Inr \<lparr>res_Status = 200, res_Body = data, res_Broken = False\<rparr>"
proof -
  obtain u where u: "s3_Endpoint s = Some u" using request_key [OF put] by blast
  let ?u = "u\<lparr>url_Path := ''/'' @ s3_Bucket s @ ''/'' @ key\<rparr>"
  have "http1 (signedCall s ?u stamp1 day1 ''PUT'' data) = Some res" "200 \<le> res_Status res" "res_Status res < 300"
    using put u by (auto simp: request_def split: if_splits option.splits)
  then have "http2 (signedCall s ?u stamp2 day2 ''GET'' []) = Some \<lparr>res_Status = 200, res_Body = data, res_Broken = False\<rparr>"
    using store unfolding remembers_def by (metis signedCall_simps)
  with request_key [OF put] u show ?thesis by (simp add: request_def)
qed

text \<open>
  C40: Objects are content addressed. Whatever was stored under a key is what a later download of the
  key returns, from any store that remembers its uploads; and whatever the store answers, a download
  of that key yields bytes with the stored SHA-256 digest and at most 16 MiB, or an error.
\<close>

theorem Put_Get:
  assumes put: "Put s http1 stamp1 day1 pre data = Inr key" and small: "length data \<le> MiB16"
  shows "(remembers http1 http2 \<longrightarrow> Get s http2 stamp2 day2 key = Inr data) \<and>
    (Get s http3 stamp3 day3 key = Inr b \<longrightarrow> sha256 b = sha256 data \<and> length b \<le> MiB16)"
proof (intro conjI impI)
  have key: "key = pre @ ''/'' @ hash data" by (rule Put_key [OF put])
  then have last: "last (Split key (CHR ''/'')) = hash data" by (simp only: Split_key)
  show "Get s http2 stamp2 day2 key = Inr data" if "remembers http1 http2"
  proof -
    obtain res where "request s http1 stamp1 day1 ''PUT'' key data = Inr res"
      using put key by (auto simp: Put_def Let_def split: sum.splits)
    from request_remembered [OF this that] small show ?thesis by (simp add: Get_def last)
  qed
  assume "Get s http3 stamp3 day3 key = Inr b"
  from Get_body [OF this] show "sha256 b = sha256 data" "length b \<le> MiB16" by (simp_all add: last hash_inj)
qed

definition demoBucket :: S3 where
  "demoBucket = \<lparr>s3_Endpoint = Some \<lparr>url_Scheme = ''http'', url_Host = ''s3:9000'', url_User = None,
     url_RawQuery = [], url_Path = []\<rparr>, s3_Bucket = ''ci'', s3_Region = ''us-east-1'', s3_AccessKey = ''ak'',
     s3_SecretKey = ''sk''\<rparr>"

text \<open>A store that has been given one object and a store that holds it.\<close>

definition demoPut :: Http where
  "demoPut call = (if url_Path (call_URL call) = ''/ci/logs/'' @ hash [1, 2] \<and> call_Body call = [1, 2]
     then Some \<lparr>res_Status = 200, res_Body = [], res_Broken = False\<rparr> else None)"

definition demoGet :: Http where
  "demoGet call = Some \<lparr>res_Status = 200, res_Body = [1, 2], res_Broken = False\<rparr>"

lemma demo_remembers: "remembers demoPut demoGet"
  by (auto simp: remembers_def demoPut_def demoGet_def split: if_splits)

lemma demo_Put: "Put demoBucket demoPut ''20260101T000000Z'' ''20260101'' ''logs'' [1, 2] = Inr (''logs/'' @ hash [1, 2])"
proof -
  have "\<not> Contains (''logs/'' @ hash [1, 2]) ''..''"
    by (rule no_dots_append [OF _ hash_no_dot]) code_simp
  then show ?thesis
    by (simp add: Put_def request_def demoBucket_def demoPut_def HasPrefix_def)
qed

theorem Put_Get_witness:
  "Get demoBucket demoGet ''20260101T000100Z'' ''20260101'' (''logs/'' @ hash [1, 2]) = Inr [1, 2]"
  using Put_Get [OF demo_Put, where ?http2.0 = demoGet] demo_remembers by simp

end
