(* ===== verification/Guards.thy ===== *)
theory Guards
  imports Paths Sha256
begin

text \<open>
  The stateless guards: the cache key and the archive-entry check of \<open>internal/cache/validate.go\<close>, and
  the webhook signature check of \<open>internal/github/signature.go\<close>. An error is a value of the guard's
  own error type, \<open>None\<close> is Go's nil.
\<close>

section \<open>Cache\<close>

definition Key :: "string \<Rightarrow> string \<Rightarrow> string \<Rightarrow> string \<Rightarrow> string" where
  "Key repository toolchain lockDigest version =
     hexEncode (sha256 (bytes (Join [repository, toolchain, lockDigest, version] [CHR 0x00])))"

datatype archiveError = EntryNameEmpty | EntryEscapes | EntryTooLarge

definition ValidateArchiveEntry :: "string \<Rightarrow> int \<Rightarrow> int \<Rightarrow> archiveError option" where
  "ValidateArchiveEntry name sz maxSize =
     (if name = [] then Some EntryNameEmpty
      else
        let normalized = ReplaceByte name (CHR 0x5C) (CHR ''/'');
            cleaned = Clean normalized
        in if HasPrefix normalized ''/'' \<or> cleaned = ''..'' \<or> HasPrefix cleaned ''../'' \<or> Contains cleaned '':''
           then Some EntryEscapes
           else if sz < 0 \<or> sz > maxSize then Some EntryTooLarge
           else None)"

section \<open>Signatures\<close>

datatype signatureError = SecretMissing | SignatureScheme | SignatureEncoding | SignatureMismatch

definition VerifySignature :: "string \<Rightarrow> u8 list \<Rightarrow> string \<Rightarrow> signatureError option" where
  "VerifySignature secret body header =
     (if secret = [] then Some SecretMissing
      else if \<not> HasPrefix header ''sha256='' then Some SignatureScheme
      else case hexDecode (TrimPrefix header ''sha256='') of
        None \<Rightarrow> Some SignatureEncoding
      | Some provided \<Rightarrow>
          if hmacSha256 (bytes secret) body \<noteq> provided then Some SignatureMismatch else None)"

section \<open>Properties\<close>

text \<open>
  An archive entry is accepted exactly if it has a name, walking it component by component (with
  backslashes read as slashes) never leaves the extraction root, its cleaned form has no colon, and its
  size is within the limit. In particular no accepted entry is absolute or traverses upwards.
\<close>

lemma ValidateArchiveEntry_confined:
  "ValidateArchiveEntry name sz maxSize = None \<longleftrightarrow> name \<noteq> [] \<and>
     \<not> HasPrefix (ReplaceByte name (CHR 0x5C) (CHR ''/'')) ''/'' \<and>
     confined (ReplaceByte name (CHR 0x5C) (CHR ''/'')) \<and>
     CHR '':'' \<notin> set (Clean (ReplaceByte name (CHR 0x5C) (CHR ''/''))) \<and> 0 \<le> sz \<and> sz \<le> maxSize"
proof -
  have colon: "Contains s '':'' \<longleftrightarrow> CHR '':'' \<in> set s" for s
    by (auto simp: Contains_iff in_set_conv_decomp)
  show ?thesis
    using Clean_confined [of "ReplaceByte name (CHR 0x5C) (CHR ''/'')"]
    by (auto simp: ValidateArchiveEntry_def Let_def colon)
qed

text \<open>
  Signature checking accepts exactly the HMAC-SHA256 of the body under the configured secret, in
  hexadecimal after the prefix \<open>sha256=\<close>: the header the sender computes is always accepted, and an
  accepted header decodes to that very tag.
\<close>

lemma VerifySignature_exact:
  assumes "secret \<noteq> []"
  shows "VerifySignature secret body (''sha256='' @ hexEncode (hmacSha256 (bytes secret) body)) = None \<and>
    (VerifySignature secret body header = None \<longleftrightarrow>
      (\<exists>h. header = ''sha256='' @ h \<and> hexDecode h = Some (hmacSha256 (bytes secret) body)))"
proof -
  have iff: "VerifySignature secret body header = None \<longleftrightarrow>
      (\<exists>h. header = ''sha256='' @ h \<and> hexDecode h = Some (hmacSha256 (bytes secret) body))" for header
  proof (cases "HasPrefix header ''sha256=''")
    case True
    then obtain h where h: "header = ''sha256='' @ h" by (auto simp: HasPrefix_iff)
    then have "TrimPrefix header ''sha256='' = h" by (simp only: TrimPrefix_append)
    with True assms have "VerifySignature secret body header =
        (case hexDecode h of None \<Rightarrow> Some SignatureEncoding
         | Some provided \<Rightarrow> if hmacSha256 (bytes secret) body \<noteq> provided then Some SignatureMismatch else None)"
      by (simp only: VerifySignature_def if_False not_True_eq_False)
    then have "VerifySignature secret body header = None \<longleftrightarrow> hexDecode h = Some (hmacSha256 (bytes secret) body)"
      by (simp split: option.split)
    moreover have "header = ''sha256='' @ h' \<longleftrightarrow> h' = h" for h' unfolding h same_append_eq by (rule eq_commute)
    ultimately show ?thesis by metis
  next
    case False
    then have "VerifySignature secret body header = Some SignatureScheme"
      using assms by (simp only: VerifySignature_def if_False if_True not_False_eq_True)
    moreover have "\<not> (\<exists>h. header = ''sha256='' @ h \<and> hexDecode h = Some (hmacSha256 (bytes secret) body))"
      using False HasPrefix_append by blast
    ultimately show ?thesis by (simp only: option.distinct simp_thms)
  qed
  from iff [THEN iffD2, OF exI, OF conjI, OF refl hexDecode_hexEncode] iff show ?thesis by (rule conjI)
qed

lemma VerifySignature_exact_sample:
  "VerifySignature ''key'' [] (''sha256='' @ hexEncode (hmacSha256 (bytes ''key'') [])) = None"
  using VerifySignature_exact [of "''key''" "[]"] by simp

lemma bytes_inj: "bytes s = bytes t \<longleftrightarrow> s = t"
proof -
  have "inj (\<lambda>c :: char. word_of_nat (of_char c) :: u8)"
  proof (rule injI)
    fix c d :: char
    assume "(word_of_nat (of_char c) :: u8) = word_of_nat (of_char d)"
    then have "unat (word_of_nat (of_char c) :: u8) = unat (word_of_nat (of_char d) :: u8)" by simp
    then have "(of_char c :: nat) mod 256 = of_char d mod 256" by (simp only: unat_of_nat) simp
    then have "(of_char c :: nat) = of_char d" by (simp only: of_char_mod_256)
    then show "c = d" by simp
  qed
  then show ?thesis by (simp add: bytes_def inj_map_eq_map)
qed

lemma Join_sep_inj:
  "sep \<notin> set a \<Longrightarrow> sep \<notin> set b \<Longrightarrow> a @ [sep] @ x = b @ [sep] @ y \<Longrightarrow> a = b \<and> x = y"
proof (induction a arbitrary: b)
  case Nil
  then show ?case by (cases b) auto
next
  case (Cons c a)
  then show ?case by (cases b) auto
qed

text \<open>
  Cache keys separate their scopes. Two keys agree only if repository, toolchain, lock digest and
  version all agree, unless SHA-256 collides on the two encodings or a component contains a NUL byte.
\<close>

lemma Key_separates:
  assumes "Key r t l v = Key r' t' l' v'"
    and "sha256 (bytes (Join [r, t, l, v] [CHR 0x00])) = sha256 (bytes (Join [r', t', l', v'] [CHR 0x00])) \<Longrightarrow>
      bytes (Join [r, t, l, v] [CHR 0x00]) = bytes (Join [r', t', l', v'] [CHR 0x00])"
    and "\<forall>s \<in> {r, t, l, v, r', t', l', v'}. CHR 0x00 \<notin> set s"
  shows "r = r' \<and> t = t' \<and> l = l' \<and> v = v'"
proof -
  have "bytes (Join [r, t, l, v] [CHR 0x00]) = bytes (Join [r', t', l', v'] [CHR 0x00])"
    using assms(1) by (intro assms(2) hexEncode_inj) (simp add: Key_def)
  then have e: "r @ [CHR 0x00] @ (t @ [CHR 0x00] @ (l @ [CHR 0x00] @ v)) =
      r' @ [CHR 0x00] @ (t' @ [CHR 0x00] @ (l' @ [CHR 0x00] @ v'))"
    by (simp add: bytes_inj)
  show ?thesis
  proof -
    have "r = r' \<and> t @ [CHR 0x00] @ (l @ [CHR 0x00] @ v) = t' @ [CHR 0x00] @ (l' @ [CHR 0x00] @ v')"
      by (rule Join_sep_inj [OF _ _ e]) (use assms(3) in simp_all)
    moreover from this have "t = t' \<and> l @ [CHR 0x00] @ v = l' @ [CHR 0x00] @ v'"
      by (intro Join_sep_inj [of "CHR 0x00"]) (use assms(3) in simp_all)
    moreover from this have "l = l' \<and> v = v'"
      by (intro Join_sep_inj [of "CHR 0x00"]) (use assms(3) in simp_all)
    ultimately show ?thesis by simp
  qed
qed

lemma Key_separates_witness:
  "(''o/r'' :: string) = ''o/r'' \<and> (''go1'' :: string) = ''go1'' \<and> (''d'' :: string) = ''d'' \<and> (''2'' :: string) = ''2''"
  by (rule Key_separates) simp_all

end
