(* ===== verification/Api.thy ===== *)
theory Api
  imports Persist Objects Guards
begin

text \<open>
  The HTTP API (\<open>internal/api/server.go\<close>): routing, authentication, the role of every route, the checks
  of a request's input, the transaction of every route on the store, and the external calls after it.
  \<open>net/http\<close>'s parsing has been applied: a request is its method, its path's components, its headers and
  its body. The JSON decoders, the GitHub App and the object store are arguments. Texts of error
  messages are not modelled: an error reply is its status.
\<close>

section \<open>Requests and replies\<close>

record HttpRequest =
  rq_Method :: string
  rq_Path :: "string list"
  rq_Headers :: "(string, string) gomap"
  rq_Body :: "u8 list"

definition header :: "HttpRequest \<Rightarrow> string \<Rightarrow> string" where
  "header r k = getd [] (rq_Headers r) k"

record completion =
  fin_LeaseToken :: string
  fin_Success :: bool
  fin_Message :: string
  fin_Digest :: string
  fin_LogKey :: string
  fin_Artefacts :: "Artefact list"

record observation =
  obs_Preview :: Preview
  obs_Actual :: State
  obs_URL :: string
  obs_Error :: string

datatype Content =
    Failure
  | Done
  | Ignored
  | Submitted PipelineView bool
  | Pipelines "Pipeline list"
  | View PipelineView
  | JobOut Job
  | WorkerOut Worker
  | Assignments "AttemptLease list"
  | AttemptOut Attempt
  | Previews "Preview list"
  | MetricsOut Metrics
  | AttemptIDs "string list"
  | SourceToken string
  | Stored Artefact
  | Blob "u8 list"

datatype Reply = Reply (reply_Status: int) (reply_Content: Content)

abbreviation refuse :: "int \<Rightarrow> Reply" where
  "refuse status \<equiv> Reply status Failure"

section \<open>Routes\<close>

datatype Route =
    GetMetrics | ListPipelines | SubmitPipeline | ShowPipeline | CancelPipeline | CancelOneJob | ListPreviews
  | RegisterRoute | WorkerHeartbeat | WorkerAssignments | AttemptHeartbeat | AttemptComplete | SourceTokenRoute
  | PutObject | GetObject | InternalPreviews | ObserveRoute | ActiveAttempts

definition routes :: "(Route \<times> string \<times> string) list" where
  "routes =
    [(GetMetrics, ''GET /metrics'', ''admin''),
     (ListPipelines, ''GET /v1/pipelines'', ''admin tenant''),
     (SubmitPipeline, ''POST /v1/pipelines'', ''admin tenant''),
     (ShowPipeline, ''GET /v1/pipelines/{id}'', ''admin tenant''),
     (CancelPipeline, ''POST /v1/pipelines/{id}/cancel'', ''admin tenant''),
     (CancelOneJob, ''POST /v1/jobs/{id}/cancel'', ''admin tenant''),
     (ListPreviews, ''GET /v1/previews'', ''admin tenant''),
     (RegisterRoute, ''POST /v1/workers/register'', ''worker''),
     (WorkerHeartbeat, ''POST /v1/workers/{id}/heartbeat'', ''worker''),
     (WorkerAssignments, ''GET /v1/workers/{id}/assignments'', ''worker''),
     (AttemptHeartbeat, ''POST /v1/attempts/{id}/heartbeat'', ''worker''),
     (AttemptComplete, ''POST /v1/attempts/{id}/complete'', ''worker''),
     (SourceTokenRoute, ''GET /v1/attempts/{id}/source-token'', ''worker''),
     (PutObject, ''PUT /v1/attempts/{id}/objects/{name}'', ''worker''),
     (GetObject, ''GET /v1/attempts/{id}/objects/{name}'', ''admin tenant''),
     (InternalPreviews, ''GET /v1/internal/previews'', ''controller''),
     (ObserveRoute, ''POST /v1/internal/previews/observe'', ''controller''),
     (ActiveAttempts, ''GET /v1/internal/active-attempts'', ''controller'')]"

definition pattern :: "Route \<Rightarrow> string" where
  "pattern r = fst (the (map_of routes r))"

definition roles :: "Route \<Rightarrow> string" where
  "roles r = snd (the (map_of routes r))"

text \<open>\<open>ServeMux\<close>: a wildcard matches one nonempty component, and a GET pattern also serves HEAD.\<close>

fun matchPath :: "string list \<Rightarrow> string list \<Rightarrow> (string \<times> string) list option" where
  "matchPath [] [] = Some []"
| "matchPath (p # ps) (s # ss) =
     (if HasPrefix p ''{'' then
        (if s = [] then None
         else map_option (\<lambda>bs. (TrimByte (TrimByte p (CHR ''{'')) (CHR ''}''), s) # bs) (matchPath ps ss))
      else if p = s then matchPath ps ss else None)"
| "matchPath _ _ = None"

definition matchRoute :: "string \<Rightarrow> string \<Rightarrow> string list \<Rightarrow> (string \<times> string) list option" where
  "matchRoute pat method path =
     (case Split pat (CHR '' '') of
        [m, p] \<Rightarrow> if method = m \<or> m = ''GET'' \<and> method = ''HEAD''
                  then matchPath (tl (Split p (CHR ''/''))) path else None
      | _ \<Rightarrow> None)"

definition findRoute :: "HttpRequest \<Rightarrow> (Route \<times> (string \<times> string) list) option" where
  "findRoute r =
     (case filter (\<lambda>(route, bs). bs \<noteq> None)
             (map (\<lambda>(route, pat, _). (route, matchRoute pat (rq_Method r) (rq_Path r))) routes) of
        (route, Some bs) # _ \<Rightarrow> Some (route, bs)
      | _ \<Rightarrow> None)"

section \<open>Checks\<close>

definition allowed :: "Principal \<Rightarrow> string \<Rightarrow> bool" where
  "allowed p tenant \<longleftrightarrow> prin_Role p = ''admin'' \<or> prin_Role p = ''tenant'' \<and> prin_Tenant p = tenant"

definition failStatus :: "apiError \<Rightarrow> int" where
  "failStatus e =
     (case e of
        ErrForbidden \<Rightarrow> 403
      | StoreErr ErrNotFound \<Rightarrow> 404
      | StoreErr ErrStaleLease \<Rightarrow> 409
      | StoreErr ErrConflict \<Rightarrow> 409
      | StoreErr ErrCapacity \<Rightarrow> 429
      | _ \<Rightarrow> 503)"

definition validObjectName :: "string \<Rightarrow> bool" where
  "validObjectName name \<longleftrightarrow> name = ''logs'' \<or> name = ''artifacts.tar'' \<or> name = ''provenance.json'' \<or>
     name = ''build-metadata.json''"

definition validObjectKey :: "string \<Rightarrow> string \<Rightarrow> bool" where
  "validObjectKey key pre \<longleftrightarrow> HasPrefix key pre \<and> length (TrimPrefix key pre) = 64 \<and>
     DigestPattern (''sha256:'' @ TrimPrefix key pre)"

datatype normalizeError = AccessDenied | BadIdentity | NotExecutable configError | OutsidePrefix

definition validateDestinations :: "PipelineSpec \<Rightarrow> Repository \<Rightarrow> bool" where
  "validateDestinations spec p \<longleftrightarrow> (\<forall>(name, j) \<in> set (ps_Jobs spec).
     case spec_Buildkit j of
       None \<Rightarrow> True
     | Some b \<Rightarrow> repo_ImagePrefix p \<noteq> [] \<and> HasPrefix (bk_Destination b) (repo_ImagePrefix p @ ''/''))"

definition normalize :: "AccessConfig \<Rightarrow> Principal \<Rightarrow> Submission \<Rightarrow> normalizeError + Submission" where
  "normalize access p sub0 =
     (case map_of (acc_Repositories access) (sub_Repo sub0) of
        None \<Rightarrow> Inl AccessDenied
      | Some policy \<Rightarrow>
          if \<not> allowed p (repo_Tenant policy) then Inl AccessDenied
          else
            let source = (if sub_SourceRepo sub0 = [] then sub_Repo sub0 else sub_SourceRepo sub0);
                sub = sub0\<lparr>sub_Tenant := repo_Tenant policy, sub_Trigger := ''manual'', sub_Closed := False,
                  sub_InstallationID := repo_InstallationID policy, sub_EventTime := 0,
                  sub_SourceRepo := source, sub_Fork := (source \<noteq> sub_Repo sub0)\<rparr>
            in if \<not> RepositoryPattern (sub_SourceRepo sub) \<or> \<not> CommitPattern (sub_CommitSHA sub) \<or>
                  sub_PRNumber sub < 0 \<or> sub_PRNumber sub > 99999999 then Inl BadIdentity
               else if sub_Fork sub \<and> \<not> repo_AllowForks policy then Inl AccessDenied
               else case Executable (sub_Spec sub) (repo_Trusted policy \<and> \<not> sub_Fork sub) of
                 Inl e \<Rightarrow> Inl (NotExecutable e)
               | Inr spec \<Rightarrow>
                   if \<not> validateDestinations spec policy then Inl OutsidePrefix
                   else Inr (sub\<lparr>sub_Spec := spec\<rparr>))"

record Decoders =
  de_Submission :: "u8 list \<Rightarrow> Submission option"
  de_Completion :: "u8 list \<Rightarrow> completion option"
  de_Observation :: "u8 list \<Rightarrow> observation option"

definition decode :: "(u8 list \<Rightarrow> 'a option) \<Rightarrow> u8 list \<Rightarrow> 'a option" where
  "decode de body = (if length body > 1048576 then None else de body)"

text \<open>What \<open>dispatch\<close> reads before its transaction; \<open>Inl\<close> is the status it answers at once.\<close>

datatype Input = NoInput | InSubmission Submission | InCompletion completion | InObservation observation

definition readSubmission :: "AccessConfig \<Rightarrow> Decoders \<Rightarrow> Principal \<Rightarrow> HttpRequest \<Rightarrow> int + Input" where
  "readSubmission access de p r =
     (case decode (de_Submission de) (rq_Body r) of
        None \<Rightarrow> Inl 400
      | Some sub0 \<Rightarrow>
          let sub = sub0\<lparr>sub_RequestID := header r ''Idempotency-Key''\<rparr>
          in if sub_RequestID sub = [] \<or> length (sub_RequestID sub) > 200 then Inl 400
             else case normalize access p sub of
               Inl AccessDenied \<Rightarrow> Inl (failStatus ErrForbidden)
             | Inl _ \<Rightarrow> Inl 400
             | Inr sub' \<Rightarrow> Inr (InSubmission sub'))"

definition badArtefact :: "string \<Rightarrow> Artefact \<Rightarrow> bool" where
  "badArtefact pre a \<longleftrightarrow> \<not> validObjectName (art_Name a) \<or> \<not> validObjectKey (art_Key a) (pre @ art_Name a @ ''/'') \<or>
     art_Size a < 0 \<or> art_Size a > 16777216"

definition readCompletion :: "Decoders \<Rightarrow> string \<Rightarrow> HttpRequest \<Rightarrow> int + Input" where
  "readCompletion de aid r =
     (case decode (de_Completion de) (rq_Body r) of
        None \<Rightarrow> Inl 400
      | Some fin \<Rightarrow>
          let pre = ''attempts/'' @ aid @ ''/'' in
          if length (fin_Message fin) > 4096 \<or> length (fin_Artefacts fin) > 8 \<or>
             fin_Digest fin \<noteq> [] \<and> \<not> DigestPattern (fin_Digest fin) then Inl 400
          else if fin_LogKey fin \<noteq> [] \<and> \<not> validObjectKey (fin_LogKey fin) (pre @ ''logs/'') then Inl 400
          else if \<exists>a \<in> set (fin_Artefacts fin). badArtefact pre a then Inl 400
          else Inr (InCompletion fin))"

definition readObservation :: "Decoders \<Rightarrow> HttpRequest \<Rightarrow> int + Input" where
  "readObservation de r =
     (case decode (de_Observation de) (rq_Body r) of
        None \<Rightarrow> Inl 400
      | Some obs \<Rightarrow>
          if obs_Actual obs \<noteq> StateActive \<and> obs_Actual obs \<noteq> StatePending \<and> obs_Actual obs \<noteq> StateDeleted \<or>
             length (obs_Error obs) > 4096 then Inl 400
          else Inr (InObservation obs))"

definition readInput ::
  "AccessConfig \<Rightarrow> Decoders \<Rightarrow> Principal \<Rightarrow> Route \<Rightarrow> string \<Rightarrow> HttpRequest \<Rightarrow> int + Input" where
  "readInput access de p route aid r =
     (if route = SubmitPipeline then readSubmission access de p r
      else if HasPrefix (pattern route) ''POST /v1/attempts/'' then readCompletion de aid r
      else if route = ObserveRoute then readObservation de r
      else Inr NoInput)"

section \<open>The transaction of a route\<close>

text \<open>What the transaction leaves for the rest of the handler: the reply, the pipeline and an object key.\<close>

record Outcome =
  oc_Status :: int
  oc_Content :: Content
  oc_Pipeline :: "Pipeline option"
  oc_Key :: string

definition replying :: "Content \<Rightarrow> Outcome" where
  "replying c = \<lparr>oc_Status = 200, oc_Content = c, oc_Pipeline = None, oc_Key = []\<rparr>"

definition outcome :: "('a \<Rightarrow> Content) \<Rightarrow> error + 'a \<Rightarrow> apiError + Outcome" where
  "outcome f r = (case r of Inl e \<Rightarrow> Inl (StoreErr e) | Inr x \<Rightarrow> Inr (replying (f x)))"

record Call =
  cl_Route :: Route
  cl_ID :: string
  cl_Name :: string
  cl_Lease :: string
  cl_Principal :: Principal
  cl_Input :: Input

type_synonym answer = "((apiError + Outcome) \<times> Store) option"

definition submitAct :: "World \<Rightarrow> Json \<Rightarrow> Submission \<Rightarrow> time \<Rightarrow> Store \<Rightarrow> answer" where
  "submitAct w js sub now st = do {
     (r, st') \<leftarrow> Submit w js sub now st;
     Some (case r of
         Inl e \<Rightarrow> Inl (StoreErr e)
       | Inr (v, dup) \<Rightarrow> Inr ((replying (Submitted v dup))\<lparr>oc_Status := if dup then 200 else 201\<rparr>), st') }"

fun cancelJobs :: "time \<Rightarrow> string list \<Rightarrow> Store \<Rightarrow> ((error + unit) \<times> Store) option" where
  "cancelJobs now [] st = Some (Inr (), st)"
| "cancelJobs now (jid # jids) st = do {
     (r, st') \<leftarrow> CancelJob jid now st;
     (case r of Inl e \<Rightarrow> Some (Inl e, st') | Inr _ \<Rightarrow> cancelJobs now jids st') }"

definition showAct :: "Principal \<Rightarrow> string \<Rightarrow> Store \<Rightarrow> answer" where
  "showAct p plID st = do {
     r \<leftarrow> GetPipeline st plID;
     Some (case r of
         Inl e \<Rightarrow> Inl (StoreErr e)
       | Inr v \<Rightarrow> if \<not> allowed p (pl_Tenant (view_Pipeline v)) then Inl ErrForbidden
                  else Inr (replying (View v)), st) }"

definition cancelAct :: "Principal \<Rightarrow> string \<Rightarrow> time \<Rightarrow> Store \<Rightarrow> answer" where
  "cancelAct p plID now st = do {
     r \<leftarrow> GetPipeline st plID;
     (case r of
         Inl e \<Rightarrow> Some (Inl (StoreErr e), st)
       | Inr v \<Rightarrow>
           if \<not> allowed p (pl_Tenant (view_Pipeline v)) then Some (Inl ErrForbidden, st)
           else do {
             (c, st') \<leftarrow> cancelJobs now (map job_ID (view_Jobs v)) st;
             (case c of
                Inl e \<Rightarrow> Some (Inl (StoreErr e), st')
              | Inr _ \<Rightarrow> do { r' \<leftarrow> GetPipeline st' plID; Some (outcome View r', st') }) }) }"

definition cancelJobAct :: "Principal \<Rightarrow> string \<Rightarrow> time \<Rightarrow> Store \<Rightarrow> answer" where
  "cancelJobAct p jid now st =
     (case JobView st jid of
        Inl e \<Rightarrow> Some (Inl (StoreErr e), st)
      | Inr j \<Rightarrow>
          if \<not> allowed p (job_Tenant j) then Some (Inl ErrForbidden, st)
          else do { (r, st') \<leftarrow> CancelJob jid now st; Some (outcome JobOut r, st') })"

definition objectKey :: "Attempt \<Rightarrow> string \<Rightarrow> string" where
  "objectKey a name =
     (if name = ''logs'' then att_LogKey a
      else fold (\<lambda>x key. if art_Name x = name then art_Key x else key) (att_Artefacts a) [])"

text \<open>The routes of an attempt, once it has been looked up and the caller may see it.\<close>

definition attemptAct :: "Call \<Rightarrow> Attempt \<Rightarrow> Job \<Rightarrow> Pipeline \<Rightarrow> time \<Rightarrow> Store \<Rightarrow> answer" where
  "attemptAct c attempt job pipeline now st =
     (case (cl_Route c, cl_Input c) of
        (AttemptHeartbeat, InCompletion fin) \<Rightarrow> do {
          (r, st') \<leftarrow> HeartbeatAttempt (cl_ID c) (fin_LeaseToken fin) now st;
          Some (outcome AttemptOut r, st') }
      | (AttemptComplete, InCompletion fin) \<Rightarrow>
          if fin_Success fin \<and> spec_Buildkit (job_Spec job) \<noteq> None \<and> fin_Digest fin = []
          then Some (Inl (StoreErr ErrConflict), st)
          else do {
            (r, st') \<leftarrow> Finish (cl_ID c) (fin_LeaseToken fin) (fin_Success fin) (fin_Message fin) (fin_Digest fin)
              (fin_LogKey fin) (fin_Artefacts fin) now st;
            Some (outcome AttemptOut r, st') }
      | (GetObject, _) \<Rightarrow>
          Some (if objectKey attempt (cl_Name c) = [] then Inl (StoreErr ErrNotFound)
                else Inr ((replying Done)\<lparr>oc_Key := objectKey attempt (cl_Name c), oc_Pipeline := Some pipeline\<rparr>), st)
      | _ \<Rightarrow>
          \<comment> \<open>\<open>SourceTokenRoute\<close> and \<open>PutObject\<close>\<close>
          Some (if att_LeaseToken attempt \<noteq> cl_Lease c \<or> \<not> now < att_LeaseExpires attempt \<or>
                   att_Status attempt \<noteq> StateRunning \<and> att_Status attempt \<noteq> StateLeased
                then Inl (StoreErr ErrStaleLease)
                else Inr ((replying Done)\<lparr>oc_Pipeline := Some pipeline\<rparr>), st))"

definition attemptRoute :: "Call \<Rightarrow> time \<Rightarrow> Store \<Rightarrow> answer" where
  "attemptRoute c now st = do {
     v \<leftarrow> AttemptView st (cl_ID c);
     (case v of
        Inl e \<Rightarrow> Some (Inl (StoreErr e), st)
      | Inr (attempt, job, pipeline) \<Rightarrow>
          if prin_Role (cl_Principal c) = ''worker'' then do {
            wk \<leftarrow> prin_Worker (cl_Principal c);
            if att_WorkerID attempt \<noteq> wk_ID wk then Some (Inl ErrForbidden, st)
            else attemptAct c attempt job pipeline now st }
          else if \<not> allowed (cl_Principal c) (pl_Tenant pipeline) then Some (Inl ErrForbidden, st)
          else attemptAct c attempt job pipeline now st) }"

definition previewsFor :: "Principal \<Rightarrow> Store \<Rightarrow> Preview list" where
  "previewsFor p st = filter (\<lambda>v. prin_Role p = ''controller'' \<or> allowed p (pv_Tenant v)) (PreviewList st)"

text \<open>The other routes. A nil worker is a panic.\<close>

definition act :: "World \<Rightarrow> Json \<Rightarrow> Call \<Rightarrow> time \<Rightarrow> Store \<Rightarrow> answer" where
  "act w js c now st =
     (let p = cl_Principal c in
      case (cl_Route c, cl_Input c) of
        (SubmitPipeline, InSubmission sub) \<Rightarrow> submitAct w js sub now st
      | (ListPipelines, _) \<Rightarrow>
          Some (Inr (replying (Pipelines (PipelineList st (if prin_Role p = ''admin'' then [] else prin_Tenant p)))), st)
      | (ShowPipeline, _) \<Rightarrow> showAct p (cl_ID c) st
      | (CancelPipeline, _) \<Rightarrow> cancelAct p (cl_ID c) now st
      | (CancelOneJob, _) \<Rightarrow> cancelJobAct p (cl_ID c) now st
      | (RegisterRoute, _) \<Rightarrow> do {
          wk \<leftarrow> prin_Worker p;
          Some (case RegisterWorker wk now st of (r, st') \<Rightarrow> (outcome WorkerOut r, st')) }
      | (WorkerHeartbeat, _) \<Rightarrow>
          Some (case HeartbeatWorker (cl_ID c) now st of (r, st') \<Rightarrow> (outcome (\<lambda>_. Done) r, st'))
      | (WorkerAssignments, _) \<Rightarrow> do { r \<leftarrow> AssignedLeases st (cl_ID c); Some (outcome Assignments r, st) }
      | (ListPreviews, _) \<Rightarrow> Some (Inr (replying (Previews (previewsFor p st))), st)
      | (InternalPreviews, _) \<Rightarrow> Some (Inr (replying (Previews (previewsFor p st))), st)
      | (ObserveRoute, InObservation obs) \<Rightarrow>
          Some (case ObservePreview (obs_Preview obs) (obs_Actual obs) (obs_URL obs) (obs_Error obs) st of
                  (r, st') \<Rightarrow> (outcome (\<lambda>_. Done) r, st'))
      | (GetMetrics, _) \<Rightarrow> Some (Inr (replying (MetricsOut (metrics st))), st)
      | (ActiveAttempts, _) \<Rightarrow> Some (Inr (replying (AttemptIDs (ActiveAttemptIDs st))), st)
      | _ \<Rightarrow> Some (Inr (replying Done), st))"

definition callback :: "World \<Rightarrow> Json \<Rightarrow> Call \<Rightarrow> time \<Rightarrow> Store \<Rightarrow> answer" where
  "callback w js c now st =
     (if Contains (pattern (cl_Route c)) ''/workers/{id}'' then do {
        wk \<leftarrow> prin_Worker (cl_Principal c);
        if wk_ID wk \<noteq> cl_ID c then Some (Inl ErrForbidden, st) else act w js c now st }
      else if Contains (pattern (cl_Route c)) ''/attempts/{id}'' then attemptRoute c now st
      else act w js c now st)"

section \<open>After the transaction\<close>

text \<open>External I/O happens outside the transaction; \<open>gh_Token\<close> is \<open>App.Token\<close>.\<close>

record GitHubApp =
  gh_Token :: "int \<Rightarrow> string option"
  gh_Config :: "int \<Rightarrow> string \<Rightarrow> string \<Rightarrow> u8 list option"

record Services =
  sv_GitHub :: "GitHubApp option"
  sv_Objects :: "(S3 \<times> Http) option"
  sv_Stamp :: string
  sv_Day :: string

definition tokenReply :: "Services \<Rightarrow> Pipeline option \<Rightarrow> Reply" where
  "tokenReply sv pipeline =
     (case (sv_GitHub sv, pipeline) of
        (Some gh, Some p) \<Rightarrow>
          if pl_InstallationID p \<noteq> 0 \<and> \<not> pl_Fork p then
            (case gh_Token gh (pl_InstallationID p) of
               None \<Rightarrow> refuse (failStatus ErrInfrastructure)
             | Some token \<Rightarrow> Reply 200 (SourceToken token))
          else Reply 200 (SourceToken [])
      | _ \<Rightarrow> Reply 200 (SourceToken []))"

definition putReply :: "Services \<Rightarrow> string \<Rightarrow> string \<Rightarrow> u8 list \<Rightarrow> Reply" where
  "putReply sv aid name body =
     (if \<not> validObjectName name then refuse 400
      else case sv_Objects sv of
        None \<Rightarrow> refuse 503
      | Some (s3, http) \<Rightarrow>
          if length body > (if name = ''logs'' then 1048576 else 16777216) then refuse 413
          else case Put s3 http (sv_Stamp sv) (sv_Day sv) (''attempts/'' @ aid @ ''/'' @ name) body of
            Inl _ \<Rightarrow> refuse (failStatus ErrInfrastructure)
          | Inr key \<Rightarrow> Reply 201 (Stored \<lparr>art_Name = name, art_Digest = ''sha256:'' @ hash body,
              art_Size = int (length body), art_Key = key\<rparr>))"

definition getReply :: "Services \<Rightarrow> string \<Rightarrow> Reply" where
  "getReply sv key =
     (case sv_Objects sv of
        None \<Rightarrow> refuse 503
      | Some (s3, http) \<Rightarrow>
          (case Get s3 http (sv_Stamp sv) (sv_Day sv) key of
             Inl _ \<Rightarrow> refuse (failStatus ErrInfrastructure)
           | Inr b \<Rightarrow> Reply 200 (Blob b)))"

definition reply :: "Services \<Rightarrow> Call \<Rightarrow> u8 list \<Rightarrow> Outcome \<Rightarrow> Reply" where
  "reply sv c body out =
     (case cl_Route c of
        SourceTokenRoute \<Rightarrow> tokenReply sv (oc_Pipeline out)
      | PutObject \<Rightarrow> putReply sv (cl_ID c) (cl_Name c) body
      | GetObject \<Rightarrow> getReply sv (oc_Key out)
      | _ \<Rightarrow> Reply (oc_Status out) (oc_Content out))"

section \<open>The handler\<close>

record Server =
  srv_Access :: AccessConfig
  srv_Secret :: string
  srv_Services :: Services
  srv_Decoders :: Decoders

text \<open>The transaction a backend runs for the server: whether it writes, its audit line, its callback.\<close>

type_synonym 'b runner = "bool \<Rightarrow> string \<Rightarrow> Outcome callback \<Rightarrow> 'b \<Rightarrow> ((apiError + Outcome) \<times> 'b) option"

definition dispatch ::
  "Server \<Rightarrow> 'b runner \<Rightarrow> World \<Rightarrow> Json \<Rightarrow> HttpRequest \<Rightarrow> Principal \<Rightarrow> Route \<Rightarrow> (string \<times> string) list
   \<Rightarrow> 'b \<Rightarrow> (Reply \<times> 'b) option" where
  "dispatch srv transact w js r p route bs b =
     (let aid = getd [] bs ''id'' in
      case readInput (srv_Access srv) (srv_Decoders srv) p route aid r of
        Inl status \<Rightarrow> Some (refuse status, b)
      | Inr inp \<Rightarrow>
          let c = \<lparr>cl_Route = route, cl_ID = aid, cl_Name = getd [] bs ''name'', cl_Lease = header r ''X-Lease-Token'',
                cl_Principal = p, cl_Input = inp\<rparr>;
              wr = (rq_Method r = ''POST'');
              action = (if wr then prin_Role p @ '':'' @ prin_Tenant p @ '' '' @ rq_Method r @ '' /'' @ Join (rq_Path r) ''/''
                        else [])
          in do {
            (res, b') \<leftarrow> transact wr action (callback w js c) b;
            Some (case res of Inl e \<Rightarrow> refuse (failStatus e) | Inr out \<Rightarrow> reply (srv_Services srv) c (rq_Body r) out, b') })"

definition serveRoute ::
  "Server \<Rightarrow> 'b runner \<Rightarrow> World \<Rightarrow> Json \<Rightarrow> HttpRequest \<Rightarrow> Route \<Rightarrow> (string \<times> string) list
   \<Rightarrow> 'b \<Rightarrow> (Reply \<times> 'b) option" where
  "serveRoute srv transact w js r route bs b =
     (case Authenticate (srv_Access srv) (header r ''Authorization'') of
        (p, known) \<Rightarrow>
          if \<not> known then Some (refuse 401, b)
          else if \<not> Contains ('' '' @ roles route @ '' '') ('' '' @ prin_Role p @ '' '') then Some (refuse 403, b)
          else dispatch srv transact w js r p route bs b)"

end
