(* ===== verification/Webhook.thy ===== *)
theory Webhook
  imports Api
begin

text \<open>
  GitHub deliveries (\<open>internal/api/webhook.go\<close>) and the whole handler of the server: a delivery becomes
  a submission only if its signature, its installation and its content are accepted. The payload and
  the configuration are decoded by arguments.
\<close>

record githubPayload =
  gp_Action :: string
  gp_After :: string
  gp_Deleted :: bool
  gp_InstallationID :: int
  gp_FullName :: string
  gp_Number :: int
  gp_UpdatedAt :: time
  gp_HeadSHA :: string
  gp_HeadRepo :: string

text \<open>\<open>planner.Parse\<close>: a bounded document, decoded by the YAML and JSON decoders.\<close>

definition Parse :: "(u8 list \<Rightarrow> PipelineSpec option) \<Rightarrow> u8 list \<Rightarrow> PipelineSpec option" where
  "Parse yaml data = (if length data > 1048576 then None else yaml data)"

record WebhookDecoders =
  wd_Payload :: "u8 list \<Rightarrow> githubPayload option"
  wd_Yaml :: "u8 list \<Rightarrow> PipelineSpec option"

text \<open>The submission of an event before its configuration is read; \<open>Inl\<close> is the reply given at once.\<close>

definition eventSubmission ::
  "string \<Rightarrow> string \<Rightarrow> githubPayload \<Rightarrow> Repository \<Rightarrow> Reply + Submission" where
  "eventSubmission event delivery payload policy =
     (let repo = gp_FullName payload;
          sub = \<lparr>sub_RequestID = ''github:'' @ delivery, sub_Tenant = repo_Tenant policy, sub_Repo = repo,
            sub_SourceRepo = repo, sub_CommitSHA = [], sub_Trigger = event, sub_PRNumber = 0, sub_Fork = False,
            sub_Rerun = False, sub_Closed = False, sub_EventTime = 0,
            sub_InstallationID = repo_InstallationID policy, sub_Spec = \<lparr>ps_Version = 0, ps_Jobs = []\<rparr>\<rparr>
      in if delivery = [] \<or> length (sub_RequestID sub) > 200 then Inl (refuse 400)
         else if event = ''push'' then
           (if gp_Deleted payload then Inl (Reply 202 Ignored)
            else Inr (sub\<lparr>sub_CommitSHA := gp_After payload\<rparr>))
         else if event = ''pull_request'' then
           (if gp_Action payload \<notin> {''opened'', ''reopened'', ''synchronize'', ''closed''} then Inl (Reply 202 Ignored)
            else if gp_Number payload < 1 \<or> gp_Number payload > 99999999 \<or> gp_UpdatedAt payload = 0 then Inl (refuse 400)
            else Inr (sub\<lparr>sub_CommitSHA := gp_HeadSHA payload, sub_SourceRepo := gp_HeadRepo payload,
              sub_PRNumber := gp_Number payload, sub_EventTime := gp_UpdatedAt payload,
              sub_Closed := (gp_Action payload = ''closed''), sub_Fork := (gp_HeadRepo payload \<noteq> repo)\<rparr>))
         else Inl (Reply 202 Ignored))"

text \<open>The configuration of an open event: it is fetched at the commit, parsed and bounded.\<close>

definition configure ::
  "GitHubApp \<Rightarrow> (u8 list \<Rightarrow> PipelineSpec option) \<Rightarrow> Repository \<Rightarrow> Submission \<Rightarrow> Reply + Submission" where
  "configure gh yaml policy sub =
     (if \<not> RepositoryPattern (sub_SourceRepo sub) \<or> \<not> CommitPattern (sub_CommitSHA sub) then Inl (refuse 400)
      else if sub_Fork sub \<and> \<not> repo_AllowForks policy then Inl (Reply 202 Ignored)
      else case gh_Config gh (repo_InstallationID policy) (sub_SourceRepo sub) (sub_CommitSHA sub) of
        None \<Rightarrow> Inl (refuse (failStatus ErrInfrastructure))
      | Some document \<Rightarrow>
          (case Parse yaml document of
             None \<Rightarrow> Inl (refuse 422)
           | Some spec0 \<Rightarrow>
               (case Executable spec0 (repo_Trusted policy \<and> \<not> sub_Fork sub) of
                  Inl _ \<Rightarrow> Inl (refuse 422)
                | Inr spec \<Rightarrow>
                    if \<not> validateDestinations spec policy then Inl (refuse 422)
                    else Inr (sub\<lparr>sub_Spec := spec\<rparr>))))"

definition readDelivery :: "Server \<Rightarrow> WebhookDecoders \<Rightarrow> HttpRequest \<Rightarrow> Reply + Submission" where
  "readDelivery srv wd r =
     (case sv_GitHub (srv_Services srv) of
        None \<Rightarrow> Inl (refuse 503)
      | Some gh \<Rightarrow>
          if srv_Secret srv = [] then Inl (refuse 503)
          else if length (rq_Body r) > 1048576 then Inl (refuse 413)
          else if VerifySignature (srv_Secret srv) (rq_Body r) (header r ''X-Hub-Signature-256'') \<noteq> None
          then Inl (refuse 401)
          else case wd_Payload wd (rq_Body r) of
            None \<Rightarrow> Inl (refuse 400)
          | Some payload \<Rightarrow>
              (case map_of (acc_Repositories (srv_Access srv)) (gp_FullName payload) of
                 None \<Rightarrow> Inl (refuse 403)
               | Some policy \<Rightarrow>
                   if repo_InstallationID policy = 0 \<or> repo_InstallationID policy \<noteq> gp_InstallationID payload
                   then Inl (refuse 403)
                   else case eventSubmission (header r ''X-GitHub-Event'') (header r ''X-GitHub-Delivery'') payload policy of
                     Inl answered \<Rightarrow> Inl answered
                   | Inr sub \<Rightarrow>
                       if sub_Closed sub then Inr sub else configure gh (wd_Yaml wd) policy sub))"

definition deliver :: "World \<Rightarrow> Json \<Rightarrow> Submission \<Rightarrow> Outcome callback" where
  "deliver w js sub now st = do {
     (r, st') \<leftarrow> Submit w js sub now st;
     Some (case r of
         Inl e \<Rightarrow> Inl (StoreErr e)
       | Inr (v, dup) \<Rightarrow> Inr ((replying (Submitted v dup))\<lparr>oc_Status := if dup then 200 else 202\<rparr>), st') }"

definition webhook ::
  "Server \<Rightarrow> WebhookDecoders \<Rightarrow> 'b runner \<Rightarrow> World \<Rightarrow> Json \<Rightarrow> HttpRequest \<Rightarrow> 'b \<Rightarrow> (Reply \<times> 'b) option" where
  "webhook srv wd transact w js r b =
     (case readDelivery srv wd r of
        Inl answered \<Rightarrow> Some (answered, b)
      | Inr sub \<Rightarrow> do {
          (res, b') \<leftarrow> transact True (''github delivery '' @ sub_RequestID sub) (deliver w js sub) b;
          Some (case res of Inl e \<Rightarrow> refuse (failStatus e) | Inr out \<Rightarrow> Reply (oc_Status out) (oc_Content out), b') })"

section \<open>The server\<close>

text \<open>\<open>ready\<close>: both pings; \<open>pingDB\<close> is the backend's answer.\<close>

definition ready :: "Services \<Rightarrow> bool \<Rightarrow> Reply" where
  "ready sv pingDB =
     (if \<not> pingDB then refuse 503
      else case sv_Objects sv of
        None \<Rightarrow> Reply 200 Done
      | Some (s3, http) \<Rightarrow>
          if PingS3 s3 http (sv_Stamp sv) (sv_Day sv) \<noteq> None then refuse 503 else Reply 200 Done)"

text \<open>
  The whole handler. \<open>busy\<close> is the number of requests in progress; at 64 the server sheds load. A path
  without a route is the multiplexer's own refusal (its 405 for a known path is not told apart).
\<close>

definition ServeHTTP ::
  "Server \<Rightarrow> WebhookDecoders \<Rightarrow> nat \<Rightarrow> bool \<Rightarrow> 'b runner \<Rightarrow> World \<Rightarrow> Json \<Rightarrow> HttpRequest \<Rightarrow> 'b \<Rightarrow> (Reply \<times> 'b) option" where
  "ServeHTTP srv wd busy pingDB transact w js r b =
     (if busy \<ge> 64 then Some (refuse 429, b)
      else if matchRoute ''GET /healthz'' (rq_Method r) (rq_Path r) \<noteq> None then Some (Reply 200 Done, b)
      else if matchRoute ''GET /readyz'' (rq_Method r) (rq_Path r) \<noteq> None then Some (ready (srv_Services srv) pingDB, b)
      else if matchRoute ''POST /v1/webhooks/github'' (rq_Method r) (rq_Path r) \<noteq> None then webhook srv wd transact w js r b
      else case findRoute r of
        None \<Rightarrow> Some (refuse 404, b)
      | Some (route, bs) \<Rightarrow> serveRoute srv transact w js r route bs b)"

end
