(* ===== verification/ControlPlane.thy ===== *)
theory ControlPlane
  imports Policy Webhook
begin

text \<open>
  The API server on top of the store: what its callbacks do is a sequence of steps of the machine, with
  requests that the access file admits. So whatever the server answers, on either backend, the state it
  keeps is one the machine reaches under the operator's policy, and all invariants hold of it.
\<close>

section \<open>Routes and roles\<close>

definition writes :: "Route \<Rightarrow> bool" where
  "writes route \<longleftrightarrow> route \<in> {SubmitPipeline, CancelPipeline, CancelOneJob, RegisterRoute, WorkerHeartbeat,
     AttemptHeartbeat, AttemptComplete, ObserveRoute}"

definition workerRoute :: "Route \<Rightarrow> bool" where
  "workerRoute route \<longleftrightarrow> route \<in> {RegisterRoute, WorkerHeartbeat, WorkerAssignments, AttemptHeartbeat,
     AttemptComplete, SourceTokenRoute, PutObject}"

definition attemptsRoute :: "Route \<Rightarrow> bool" where
  "attemptsRoute route \<longleftrightarrow> route \<in> {AttemptHeartbeat, AttemptComplete, SourceTokenRoute, PutObject, GetObject}"

lemma routes_table:
  "\<forall>(route, pat, rs) \<in> set routes. length (Split pat (CHR '' '')) = 2 \<and>
     (hd (Split pat (CHR '' '')) = ''POST'' \<longleftrightarrow> writes route) \<and> pattern route = pat"
  by code_simp

lemma pattern_attempts:
  "Contains (pattern route) ''/attempts/{id}'' \<longleftrightarrow> attemptsRoute route"
  "Contains (pattern route) ''/workers/{id}'' \<longleftrightarrow> route = WorkerHeartbeat \<or> route = WorkerAssignments"
  "HasPrefix (pattern route) ''POST /v1/attempts/'' \<longleftrightarrow> route = AttemptHeartbeat \<or> route = AttemptComplete"
  by (induction route; code_simp)+

lemma roles_of_route:
  "\<forall>role \<in> {''admin'', ''tenant'', ''controller'', ''worker''}.
     Contains ('' '' @ roles route @ '' '') ('' '' @ role @ '' '') \<longleftrightarrow>
     (if workerRoute route then role = ''worker''
      else if route \<in> {InternalPreviews, ObserveRoute, ActiveAttempts} then role = ''controller''
      else if route = GetMetrics then role = ''admin''
      else role = ''admin'' \<or> role = ''tenant'')"
  by (induction route; code_simp)

lemma findRoute_method:
  assumes "findRoute r = Some (route, bs)"
  shows "rq_Method r = ''POST'' \<longleftrightarrow> writes route"
proof -
  let ?ms = "map (\<lambda>(route, pat, _). (route, matchRoute pat (rq_Method r) (rq_Path r))) routes"
  obtain rest where "filter (\<lambda>(route, bs). bs \<noteq> None) ?ms = (route, Some bs) # rest"
    using assms unfolding findRoute_def by (cases "filter (\<lambda>(route, bs). bs \<noteq> None) ?ms") (auto split: option.splits prod.splits)
  then have "(route, Some bs) \<in> set (filter (\<lambda>(route, bs). bs \<noteq> None) ?ms)" by (metis list.set_intros(1))
  then obtain pat rs where e: "(route, pat, rs) \<in> set routes" "matchRoute pat (rq_Method r) (rq_Path r) = Some bs"
    by auto
  then have t: "length (Split pat (CHR '' '')) = 2" "hd (Split pat (CHR '' '')) = ''POST'' \<longleftrightarrow> writes route"
    using routes_table by fastforce+
  then obtain m p where s: "Split pat (CHR '' '') = [m, p]"
    by (cases "Split pat (CHR '' '')"; cases "tl (Split pat (CHR '' ''))") auto
  have "rq_Method r = m \<or> m = ''GET'' \<and> rq_Method r = ''HEAD''"
    using e(2) by (auto simp: matchRoute_def s split: if_splits)
  with t(2) s show ?thesis by auto
qed

section \<open>Who calls\<close>

definition caller :: "AccessConfig \<Rightarrow> Principal \<Rightarrow> bool" where
  "caller access p \<longleftrightarrow> (\<exists>q \<in> set (acc_Principals access). p = q\<lparr>prin_Token := []\<rparr>)"

lemma fold_found:
  "fold (\<lambda>p r. if P p then (p, True) else r) ps r = (q, True) \<Longrightarrow> r = (q, True) \<or> q \<in> set ps \<and> P q"
proof (induction ps arbitrary: r)
  case (Cons a ps)
  from Cons.prems have "fold (\<lambda>p r. if P p then (p, True) else r) ps (if P a then (a, True) else r) = (q, True)" by simp
  from Cons.IH [OF this] show ?case by (auto split: if_splits)
qed simp

lemma Authenticate_caller:
  assumes "Authenticate access h = (p, True)"
  shows "caller access p"
proof (cases "HasPrefix h ''Bearer ''")
  case True
  let ?f = "fold (\<lambda>p r. if tokenHash (TrimPrefix h ''Bearer '') = tokenHash (prin_Token p) then (p, True) else r)
    (acc_Principals access) (zeroPrincipal, False)"
  have "Authenticate access h = ((fst ?f)\<lparr>prin_Token := []\<rparr>, snd ?f)"
    unfolding Authenticate_def Let_def using True by (simp only: not_True_eq_False if_False split_def)
  moreover define f where "f = ?f"
  ultimately have s: "snd f" and p: "p = (fst f)\<lparr>prin_Token := []\<rparr>" using assms by simp_all
  have "?f = (fst f, True)" using s by (simp only: f_def [symmetric]) (cases f, simp)
  from fold_found [OF this] have "fst f \<in> set (acc_Principals access)" by blast
  with p show ?thesis unfolding caller_def by blast
next
  case False
  then have "Authenticate access h = (zeroPrincipal, False)" unfolding Authenticate_def by (simp only: if_True not_False_eq_True)
  with assms show ?thesis by simp
qed

lemma caller_OK:
  assumes "ValidateAccess access = None" "caller access p"
  shows "prin_Role p \<in> {''admin'', ''tenant'', ''controller'', ''worker''}"
    and "prin_Role p = ''worker'' \<Longrightarrow> \<exists>wk. prin_Worker p = Some wk \<and> registered access wk"
    and "prin_Role p = ''tenant'' \<Longrightarrow> prin_Tenant p \<noteq> []"
proof -
  obtain q where q: "q \<in> set (acc_Principals access)" "p = q\<lparr>prin_Token := []\<rparr>" using assms(2) by (auto simp: caller_def)
  have "checkPrincipals [] [] False (acc_Principals access) = Inr True"
    using assms(1) by (auto simp: ValidateAccess_def split: sum.splits if_splits)
  then have "principalOK q" using q(1) unfolding checkPrincipals_iff by blast
  with q show "prin_Role p \<in> {''admin'', ''tenant'', ''controller'', ''worker''}"
    and "prin_Role p = ''worker'' \<Longrightarrow> \<exists>wk. prin_Worker p = Some wk \<and> registered access wk"
    and "prin_Role p = ''tenant'' \<Longrightarrow> prin_Tenant p \<noteq> []"
    by (auto simp: principalOK_def registered_def)
qed

section \<open>What a checked input is\<close>

text \<open>Decoded specifications are Go maps.\<close>

definition goMaps :: "Decoders \<Rightarrow> bool" where
  "goMaps de \<longleftrightarrow> (\<forall>body sub. de_Submission de body = Some sub \<longrightarrow> distinct (keys (ps_Jobs (sub_Spec sub))))"

lemma Executable_jobs:
  assumes "distinct (keys (ps_Jobs spec))" "Executable spec trusted = Inr spec'"
  shows "distinct (keys (ps_Jobs spec'))" "\<forall>(name, s) \<in> set (ps_Jobs spec'). runtimeOK trusted name s"
proof -
  note R = Executable_result [OF assms]
  show "distinct (keys (ps_Jobs spec'))" using assms(1) by (simp add: R(2) del: set_map)
  have "runtimeOK trusted name (ran trusted name s)" if "(name, s) \<in> set (ps_Jobs spec)" for name s
    using R(1) that executableJob_OK by (cases "executableJob trusted name s") (auto simp: allRun_def ran_def)
  then show "\<forall>(name, s) \<in> set (ps_Jobs spec'). runtimeOK trusted name s" by (auto simp: R(2) mapvals_def)
qed

lemma normalize_policy:
  assumes "normalize access p sub0 = Inr sub" "distinct (keys (ps_Jobs (sub_Spec sub0)))"
  shows "policySubmission access sub" "allowed p (sub_Tenant sub)"
    "\<not> sub_Closed sub" "sub_RequestID sub = sub_RequestID sub0"
proof -
  obtain policy spec where 1: "map_of (acc_Repositories access) (sub_Repo sub0) = Some policy" "allowed p (repo_Tenant policy)"
    and 2: "Executable (sub_Spec sub0) (repo_Trusted policy \<and> \<not> sub_Fork sub) = Inr spec"
    and 3: "sub_Repo sub = sub_Repo sub0" "sub_Tenant sub = repo_Tenant policy" "sub_Spec sub = spec"
      "sub_Fork sub = (sub_SourceRepo sub \<noteq> sub_Repo sub)" "\<not> sub_Closed sub" "sub_RequestID sub = sub_RequestID sub0"
    using assms(1) by (auto simp: normalize_def Let_def split: option.splits if_splits sum.splits)
  from Executable_jobs [OF assms(2) 2] 1 3 show "policySubmission access sub" by (simp add: policySubmission_def)
  show "allowed p (sub_Tenant sub)" "\<not> sub_Closed sub" "sub_RequestID sub = sub_RequestID sub0" using 1 3 by simp_all
qed

text \<open>The calls that reach a callback.\<close>

definition goodCall :: "AccessConfig \<Rightarrow> Call \<Rightarrow> bool" where
  "goodCall access c \<longleftrightarrow>
     (workerRoute (cl_Route c) \<longrightarrow> prin_Role (cl_Principal c) = ''worker'' \<and>
        (\<exists>wk. prin_Worker (cl_Principal c) = Some wk \<and> registered access wk)) \<and>
     (\<not> workerRoute (cl_Route c) \<longrightarrow> prin_Role (cl_Principal c) \<noteq> ''worker'') \<and>
     (cl_Route c = SubmitPipeline \<longrightarrow> (\<exists>sub. cl_Input c = InSubmission sub \<and> policySubmission access sub \<and>
        allowed (cl_Principal c) (sub_Tenant sub))) \<and>
     (cl_Route c \<in> {AttemptHeartbeat, AttemptComplete} \<longrightarrow> (\<exists>fin. cl_Input c = InCompletion fin)) \<and>
     (cl_Route c = ObserveRoute \<longrightarrow> (\<exists>obs. cl_Input c = InObservation obs))"

lemma readInput_good:
  assumes "readInput access de p route aid r = Inr inp" "goMaps de"
  shows "(route = SubmitPipeline \<longrightarrow> (\<exists>sub. inp = InSubmission sub \<and> policySubmission access sub \<and> allowed p (sub_Tenant sub))) \<and>
     (route \<in> {AttemptHeartbeat, AttemptComplete} \<longrightarrow> (\<exists>fin. inp = InCompletion fin)) \<and>
     (route = ObserveRoute \<longrightarrow> (\<exists>obs. inp = InObservation obs))"
proof (cases "route = SubmitPipeline")
  case True
  with assms(1) obtain sub0 sub where s: "decode (de_Submission de) (rq_Body r) = Some sub0"
      "normalize access p (sub0\<lparr>sub_RequestID := header r ''Idempotency-Key''\<rparr>) = Inr sub" "inp = InSubmission sub"
    by (auto simp: readInput_def readSubmission_def Let_def split: option.splits if_splits sum.splits normalizeError.splits)
  have "distinct (keys (ps_Jobs (sub_Spec sub0)))"
    using s(1) assms(2) by (auto simp: goMaps_def decode_def split: if_splits)
  with normalize_policy [OF s(2)] s(3) True show ?thesis by simp
next
  case False
  with assms(1) show ?thesis
    by (auto simp: readInput_def pattern_attempts readCompletion_def readObservation_def Let_def
        split: option.splits if_splits)
qed

section \<open>A callback is a run of the machine\<close>

definition lawful :: "(Request \<Rightarrow> bool) \<Rightarrow> Config \<Rightarrow> bool \<Rightarrow> Store \<Rightarrow> ('r \<times> Store) option \<Rightarrow> bool" where
  "lawful P conf wr st m \<longleftrightarrow> (\<exists>r st'. m = Some (r, st') \<and> reachable P conf st' \<and> (\<not> wr \<longrightarrow> st' = st))"

lemma lawful_pure [simp]: "reachable P conf st \<Longrightarrow> lawful P conf wr st (Some (r, st))"
  by (simp add: lawful_def)

lemma lawful_write: "lawful P conf True st m \<longleftrightarrow> (\<exists>r st'. m = Some (r, st') \<and> reachable P conf st')"
  by (simp add: lawful_def)

lemma serve_reaches:
  assumes "reachable P conf st" "fresh w st" "P req"
  obtains st' where "serve w js now req st = Some st'" "reachable P conf st'"
  using serve_contract [OF reachable_wellFormed [OF assms(1)] assms(2), of js now req]
    reachable_serve [OF assms] by blast

lemma lawful_serve:
  assumes "reachable P conf st" "fresh w st" "P req" "serve w js now req st = map_option snd m"
  shows "lawful P conf True st (do { (r, st') \<leftarrow> m; Some (g r, st') })"
proof -
  obtain st' where "serve w js now req st = Some st'" "reachable P conf st'"
    by (rule serve_reaches [OF assms(1-3)])
  with assms(4) show ?thesis by (cases m) (auto simp: lawful_write)
qed

lemma lawful_pair:
  assumes "reachable P conf st" "fresh w st" "P req" "serve w js now req st = Some (snd m)"
  shows "lawful P conf True st (Some (case m of (r, st') \<Rightarrow> (g r, st')))"
proof -
  obtain st' where "serve w js now req st = Some st'" "reachable P conf st'"
    by (rule serve_reaches [OF assms(1-3)])
  with assms(4) show ?thesis by (cases m) (auto simp: lawful_write)
qed

lemma cancelJobs_lawful:
  assumes "reachable P conf st" "fresh w st" "\<And>jid. P (ReqCancel jid)"
  shows "\<exists>r st'. cancelJobs now jids st = Some (r, st') \<and> reachable P conf st'"
  using assms(1,2)
proof (induction jids arbitrary: st)
  case (Cons jid jids)
  have k: "keeps st (CancelJob jid now st)" by (rule CancelJob_keeps [OF reachable_wellFormed [OF Cons.prems(1)]])
  then obtain r st1 where c: "CancelJob jid now st = Some (r, st1)" "advance st st1"
    by (auto simp: keeps_def ok_def)
  have s: "serve w undefined now (ReqCancel jid) st = Some st1" using c(1) by simp
  have 1: "reachable P conf st1" by (rule reachable_serve [OF Cons.prems(1,2) assms(3) s])
  have "fresh w st1" using Cons.prems(2) fresh_sameCore c(2) by (auto simp: advance_def)
  with Cons.IH 1 c(1) show ?case by (cases r) auto
qed simp

lemma reachable_refs: "reachable P conf st \<Longrightarrow> refs st"
  by (rule wellFormed_refs [OF reachable_wellFormed])

lemma GetPipeline_total: "reachable P conf st \<Longrightarrow> \<exists>r. GetPipeline st k = Some r"
  using pipelineView_total [OF reachable_refs, of P conf st k] by (auto simp: GetPipeline_def)

lemma showAct_lawful: "reachable P conf st \<Longrightarrow> lawful P conf wr st (showAct p k st)"
  using GetPipeline_total [of P conf st k] by (auto simp: showAct_def)

lemma cancelAct_lawful:
  assumes r: "reachable P conf st" "fresh w st" and c: "\<And>jid. P (ReqCancel jid)"
  shows "lawful P conf True st (cancelAct p k now st)"
proof -
  obtain g where g: "GetPipeline st k = Some g" using GetPipeline_total [OF r(1)] by blast
  show ?thesis
  proof (cases g)
    case (Inr v)
    obtain x st' where x: "cancelJobs now (map job_ID (view_Jobs v)) st = Some (x, st')" "reachable P conf st'"
      using cancelJobs_lawful [OF r c] by blast
    obtain g' where "GetPipeline st' k = Some g'" using GetPipeline_total [OF x(2)] by blast
    with g Inr x r(1) show ?thesis by (cases x) (auto simp: cancelAct_def lawful_write)
  qed (use g r in \<open>simp add: cancelAct_def\<close>)
qed

lemma cancelJobAct_lawful:
  assumes r: "reachable P conf st" "fresh w st" and c: "\<And>jid. P (ReqCancel jid)"
  shows "lawful P conf True st (cancelJobAct p jid now st)"
  using r lawful_serve [OF r c, of undefined now jid "CancelJob jid now st" "outcome JobOut"]
  by (auto simp: cancelJobAct_def split: sum.split)

lemma attemptAct_lawful:
  assumes r: "reachable (policed access) conf st" "fresh w st"
    and i: "cl_Route c \<in> {AttemptHeartbeat, AttemptComplete} \<longrightarrow> (\<exists>fin. cl_Input c = InCompletion fin)"
    and a: "attemptsRoute (cl_Route c)"
  shows "lawful (policed access) conf (writes (cl_Route c)) st (attemptAct c attempt job pipeline now st)"
proof (cases "cl_Route c \<in> {AttemptHeartbeat, AttemptComplete}")
  case True
  with i obtain fin where fin: "cl_Input c = InCompletion fin" by blast
  have h: "lawful (policed access) conf True st (do { (r, st') \<leftarrow> HeartbeatAttempt (cl_ID c) (fin_LeaseToken fin) now st; Some (outcome AttemptOut r, st') })"
    by (rule lawful_serve [OF r, where req = "ReqHeartbeat (cl_ID c) (fin_LeaseToken fin)" and js = undefined]) simp_all
  have f: "lawful (policed access) conf True st (do {
            (r, st') \<leftarrow> Finish (cl_ID c) (fin_LeaseToken fin) (fin_Success fin) (fin_Message fin) (fin_Digest fin)
              (fin_LogKey fin) (fin_Artefacts fin) now st;
            Some (outcome AttemptOut r, st') })"
    by (rule lawful_serve [OF r, where req = "ReqFinish (cl_ID c) (fin_LeaseToken fin) (fin_Success fin)
      (fin_Message fin) (fin_Digest fin) (fin_LogKey fin) (fin_Artefacts fin)" and js = undefined]) simp_all
  from True h f r(1) show ?thesis by (auto simp: attemptAct_def fin writes_def)
next
  case False
  with a r(1) show ?thesis
    by (cases "cl_Route c"; cases "cl_Input c") (auto simp: attemptAct_def attemptsRoute_def)
qed

lemma attemptRoute_lawful:
  assumes r: "reachable (policed access) conf st" "fresh w st" and g: "goodCall access c" and a: "attemptsRoute (cl_Route c)"
  shows "lawful (policed access) conf (writes (cl_Route c)) st (attemptRoute c now st)"
proof -
  obtain v where v: "AttemptView st (cl_ID c) = Some v" using AttemptView_total [OF reachable_refs [OF r(1)]] by blast
  have "workerRoute (cl_Route c) \<or> prin_Role (cl_Principal c) \<noteq> ''worker''" using g by (auto simp: goodCall_def)
  moreover have "lawful (policed access) conf (writes (cl_Route c)) st (attemptAct c x y z now st)" for x y z
    by (rule attemptAct_lawful [OF r _ a]) (use g in \<open>simp add: goodCall_def\<close>)
  ultimately show ?thesis using g r(1) by (auto simp: attemptRoute_def v goodCall_def split: sum.split)
qed

lemma act_lawful:
  assumes r: "reachable (policed access) conf st" "fresh w st" and g: "goodCall access c" and a: "\<not> attemptsRoute (cl_Route c)"
  shows "lawful (policed access) conf (writes (cl_Route c)) st (act w js c now st)"
proof (cases "cl_Route c")
  case SubmitPipeline
  with g obtain sub where sub: "cl_Input c = InSubmission sub" "policySubmission access sub" by (auto simp: goodCall_def)
  have "lawful (policed access) conf True st (submitAct w js sub now st)"
    unfolding submitAct_def by (rule lawful_serve [OF r, where req = "ReqSubmit sub" and js = js]) (use sub in simp_all)
  with SubmitPipeline sub show ?thesis by (simp add: act_def writes_def)
next
  case RegisterRoute
  with g obtain wk where wk: "prin_Worker (cl_Principal c) = Some wk" "registered access wk"
    by (auto simp: goodCall_def workerRoute_def)
  have "lawful (policed access) conf True st (Some (case RegisterWorker wk now st of (r, st') \<Rightarrow> (outcome WorkerOut r, st')))"
    by (rule lawful_pair [OF r, where req = "ReqRegister wk" and js = js and now = now]) (use wk in simp_all)
  with RegisterRoute wk show ?thesis by (simp add: act_def writes_def)
next
  case WorkerHeartbeat
  have "lawful (policed access) conf True st (Some (case HeartbeatWorker (cl_ID c) now st of (r, st') \<Rightarrow> (outcome (\<lambda>_. Done) r, st')))"
    by (rule lawful_pair [OF r, where req = "ReqHeartbeatWorker (cl_ID c)" and js = js and now = now]) simp_all
  with WorkerHeartbeat show ?thesis by (simp add: act_def writes_def)
next
  case ObserveRoute
  with g obtain obs where obs: "cl_Input c = InObservation obs" by (auto simp: goodCall_def)
  have "lawful (policed access) conf True st (Some (case ObservePreview (obs_Preview obs) (obs_Actual obs) (obs_URL obs)
      (obs_Error obs) st of (r, st') \<Rightarrow> (outcome (\<lambda>_. Done) r, st')))"
    by (rule lawful_pair [OF r, where req = "ReqObserve (obs_Preview obs) (obs_Actual obs) (obs_URL obs) (obs_Error obs)"
      and js = js and now = now]) simp_all
  with ObserveRoute obs show ?thesis by (simp add: act_def writes_def)
next
  case WorkerAssignments
  obtain l where "AssignedLeases st (cl_ID c) = Some l" using AssignedLeases_total [OF reachable_refs [OF r(1)]] by blast
  with WorkerAssignments r(1) show ?thesis by (simp add: act_def)
next
  case CancelPipeline
  with cancelAct_lawful [OF r] show ?thesis by (simp add: act_def writes_def)
next
  case CancelOneJob
  with cancelJobAct_lawful [OF r] show ?thesis by (simp add: act_def writes_def)
next
  case ShowPipeline
  with showAct_lawful [OF r(1)] show ?thesis by (simp add: act_def)
qed (use a r(1) in \<open>simp_all add: act_def attemptsRoute_def Let_def\<close>)

lemma callback_lawful:
  assumes r: "reachable (policed access) conf st" "fresh w st" and g: "goodCall access c"
  shows "lawful (policed access) conf (writes (cl_Route c)) st (callback w js c now st)"
proof -
  let ?W = "cl_Route c = WorkerHeartbeat \<or> cl_Route c = WorkerAssignments"
  have no: "\<not> attemptsRoute (cl_Route c)" if ?W using that by (elim disjE) (simp_all add: attemptsRoute_def)
  consider (worker) ?W | (attempt) "\<not> ?W" "attemptsRoute (cl_Route c)" | (other) "\<not> ?W" "\<not> attemptsRoute (cl_Route c)"
    by argo
  then show ?thesis
  proof cases
    case attempt
    with attemptRoute_lawful [OF r g] show ?thesis unfolding callback_def pattern_attempts by simp
  next
    case worker
    then have "workerRoute (cl_Route c)" by (elim disjE) (simp_all add: workerRoute_def)
    then obtain wk where wk: "prin_Worker (cl_Principal c) = Some wk" using g by (auto simp: goodCall_def)
    have "callback w js c now st = (if wk_ID wk \<noteq> cl_ID c then Some (Inl ErrForbidden, st) else act w js c now st)"
      unfolding callback_def pattern_attempts using worker wk by simp
    with act_lawful [OF r g no [OF worker]] r(1) show ?thesis by simp
  next
    case other
    with act_lawful [OF r g] show ?thesis unfolding callback_def pattern_attempts by simp
  qed
qed

lemma deliver_lawful:
  assumes "reachable (policed access) conf st" "fresh w st" "policySubmission access sub"
  shows "lawful (policed access) conf True st (deliver w js sub now st)"
  unfolding deliver_def by (rule lawful_serve [OF assms(1,2), where req = "ReqSubmit sub" and js = js]) (use assms(3) in simp_all)

lemma lawful_decent:
  assumes "reachable P conf st" "\<And>now. lawful P conf wr st (f now st)"
  shows "decent wr f st"
  unfolding decent_def
proof
  fix now
  from assms(2) [of now] obtain r st' where "f now st = Some (r, st')" "reachable P conf st'" "\<not> wr \<longrightarrow> st' = st"
    by (auto simp: lawful_def)
  with reachable_config [OF assms(1)] reachable_config [of P conf st']
  show "\<exists>r st'. f now st = Some (r, st') \<and> config st' = config st \<and> (\<not> wr \<longrightarrow> st' = st)" by auto
qed

section \<open>GitHub deliveries\<close>

definition yamlMaps :: "WebhookDecoders \<Rightarrow> bool" where
  "yamlMaps wd \<longleftrightarrow> (\<forall>data spec. wd_Yaml wd data = Some spec \<longrightarrow> distinct (keys (ps_Jobs spec)))"

lemma eventSubmission_result:
  assumes "eventSubmission event delivery payload policy = Inr sub"
  shows "delivery \<noteq> []" "sub_RequestID sub = ''github:'' @ delivery" "sub_Tenant sub = repo_Tenant policy"
    "sub_Repo sub = gp_FullName payload" "sub_InstallationID sub = repo_InstallationID policy"
    "sub_Fork sub = (sub_SourceRepo sub \<noteq> sub_Repo sub)" "ps_Jobs (sub_Spec sub) = []"
    "sub_Closed sub \<longrightarrow> gp_Action payload = ''closed''" "\<not> sub_Rerun sub"
  using assms by (auto simp: eventSubmission_def Let_def split: if_splits)

lemma configure_result:
  assumes "configure gh yaml policy sub0 = Inr sub"
  obtains document spec0 spec where "gh_Config gh (repo_InstallationID policy) (sub_SourceRepo sub0) (sub_CommitSHA sub0) = Some document"
    "Parse yaml document = Some spec0" "Executable spec0 (repo_Trusted policy \<and> \<not> sub_Fork sub0) = Inr spec"
    "validateDestinations spec policy" "sub = sub0\<lparr>sub_Spec := spec\<rparr>"
    "CommitPattern (sub_CommitSHA sub0)" "sub_Fork sub0 \<longrightarrow> repo_AllowForks policy"
  using assms by (auto simp: configure_def split: if_splits option.splits sum.splits)

lemma readDelivery_steps:
  assumes "readDelivery srv wd r = Inr sub"
  obtains gh payload policy sub0 where "sv_GitHub (srv_Services srv) = Some gh" "srv_Secret srv \<noteq> []"
    "VerifySignature (srv_Secret srv) (rq_Body r) (header r ''X-Hub-Signature-256'') = None"
    "wd_Payload wd (rq_Body r) = Some payload"
    "map_of (acc_Repositories (srv_Access srv)) (gp_FullName payload) = Some policy"
    "repo_InstallationID policy = gp_InstallationID payload" "repo_InstallationID policy \<noteq> 0"
    "eventSubmission (header r ''X-GitHub-Event'') (header r ''X-GitHub-Delivery'') payload policy = Inr sub0"
    "if sub_Closed sub0 then sub = sub0 else configure gh (wd_Yaml wd) policy sub0 = Inr sub"
  using assms by (auto simp: readDelivery_def split: if_splits option.splits sum.splits)

lemma readDelivery_policy:
  assumes "readDelivery srv wd r = Inr sub" "yamlMaps wd"
  shows "policySubmission (srv_Access srv) sub"
proof -
  from assms(1) obtain gh payload policy sub0 where d:
    "map_of (acc_Repositories (srv_Access srv)) (gp_FullName payload) = Some policy"
    "eventSubmission (header r ''X-GitHub-Event'') (header r ''X-GitHub-Delivery'') payload policy = Inr sub0"
    "if sub_Closed sub0 then sub = sub0 else configure gh (wd_Yaml wd) policy sub0 = Inr sub"
    by (rule readDelivery_steps)
  note E = eventSubmission_result [OF d(2)]
  show ?thesis
  proof (cases "sub_Closed sub0")
    case True
    with d E show ?thesis by (simp add: policySubmission_def)
  next
    case False
    with d(3) have "configure gh (wd_Yaml wd) policy sub0 = Inr sub" by simp
    then obtain document spec0 spec where c: "Parse (wd_Yaml wd) document = Some spec0"
      "Executable spec0 (repo_Trusted policy \<and> \<not> sub_Fork sub0) = Inr spec" "sub = sub0\<lparr>sub_Spec := spec\<rparr>"
      by (rule configure_result)
    have "distinct (keys (ps_Jobs spec0))"
      using c(1) assms(2) by (auto simp: Parse_def yamlMaps_def split: if_splits)
    from Executable_jobs [OF this c(2)] c(3) d(1) E show ?thesis by (simp add: policySubmission_def)
  qed
qed

section \<open>The server on a backend\<close>

text \<open>A success of an attempt's route is the caller's own attempt, or one of the caller's tenant.\<close>

lemma attemptRoute_success:
  assumes "attemptRoute c now st = Some (Inr out, st')"
  obtains a j p where "AttemptView st (cl_ID c) = Some (Inr (a, j, p))" "attemptAct c a j p now st = Some (Inr out, st')"
    "if prin_Role (cl_Principal c) = ''worker''
     then \<exists>wk. prin_Worker (cl_Principal c) = Some wk \<and> att_WorkerID a = wk_ID wk
     else allowed (cl_Principal c) (pl_Tenant p)"
proof -
  from assms obtain v where v: "AttemptView st (cl_ID c) = Some v" by (auto simp: attemptRoute_def bind_eq_Some_conv)
  show ?thesis
  proof (cases v)
    case (Inr x)
    obtain a j p where x: "x = (a, j, p)" by (cases x)
    show ?thesis
    proof (rule that [of a j p])
      show "AttemptView st (cl_ID c) = Some (Inr (a, j, p))" using v Inr x by simp
      show "attemptAct c a j p now st = Some (Inr out, st')"
        "if prin_Role (cl_Principal c) = ''worker''
         then \<exists>wk. prin_Worker (cl_Principal c) = Some wk \<and> att_WorkerID a = wk_ID wk
         else allowed (cl_Principal c) (pl_Tenant p)"
        using assms by (auto simp: attemptRoute_def v Inr x bind_eq_Some_conv split: if_splits)
    qed
  qed (use assms v in \<open>simp add: attemptRoute_def\<close>)
qed

lemma submitAct_success:
  assumes "submitAct w js sub now st = Some (Inr out, st')"
  obtains v dup where "Submit w js sub now st = Some (Inr (v, dup), st')"
    "out = (replying (Submitted v dup))\<lparr>oc_Status := if dup then 200 else 201\<rparr>"
proof -
  from assms obtain r where r: "Submit w js sub now st = Some (r, st')"
    by (auto simp: submitAct_def bind_eq_Some_conv)
  with assms show ?thesis by (cases r) (auto simp: submitAct_def intro: that)
qed

lemma showAct_success:
  assumes "showAct p k st = Some (Inr out, st')"
  obtains v where "GetPipeline st k = Some (Inr v)" "allowed p (pl_Tenant (view_Pipeline v))"
    "out = replying (View v)" "st' = st"
proof -
  from assms obtain r where r: "GetPipeline st k = Some r" by (auto simp: showAct_def bind_eq_Some_conv)
  with assms show ?thesis by (cases r) (auto simp: showAct_def intro: that split: if_splits)
qed

lemma cancelAct_success:
  assumes "cancelAct p k now st = Some (Inr out, st')"
  obtains v v' where "GetPipeline st k = Some (Inr v)" "allowed p (pl_Tenant (view_Pipeline v))"
    "cancelJobs now (map job_ID (view_Jobs v)) st = Some (Inr (), st')"
    "GetPipeline st' k = Some (Inr v')" "out = replying (View v')"
proof -
  from assms obtain r where r: "GetPipeline st k = Some r" by (auto simp: cancelAct_def bind_eq_Some_conv)
  show ?thesis
  proof (cases r)
    case (Inr v)
    with assms r have a: "allowed p (pl_Tenant (view_Pipeline v))" by (auto simp: cancelAct_def split: if_splits)
    obtain d s1 where d: "cancelJobs now (map job_ID (view_Jobs v)) st = Some (d, s1)"
      using assms r Inr a by (auto simp: cancelAct_def bind_eq_Some_conv)
    show ?thesis
    proof (cases d)
      case (Inr u)
      obtain r' where r': "GetPipeline s1 k = Some r'" "outcome View r' = Inr out" "s1 = st'"
        using assms r \<open>r = Inr v\<close> a d Inr by (auto simp: cancelAct_def bind_eq_Some_conv)
      then show ?thesis using r \<open>r = Inr v\<close> a d Inr
        by (cases r') (auto simp: outcome_def intro: that)
    qed (use assms r Inr a d in \<open>simp add: cancelAct_def\<close>)
  qed (use assms r in \<open>simp add: cancelAct_def\<close>)
qed

lemma cancelJobAct_success:
  assumes "cancelJobAct p k now st = Some (Inr out, st')"
  obtains j j' where "JobView st k = Inr j" "allowed p (job_Tenant j)" "CancelJob k now st = Some (Inr j', st')"
    "out = replying (JobOut j')"
proof (cases "JobView st k")
  case (Inr j)
  with assms have a: "allowed p (job_Tenant j)" by (auto simp: cancelJobAct_def split: if_splits)
  obtain r where r: "CancelJob k now st = Some (r, st')" "outcome JobOut r = Inr out"
    using assms Inr a by (auto simp: cancelJobAct_def bind_eq_Some_conv)
  then show ?thesis using Inr a by (cases r) (auto simp: outcome_def intro: that)
qed (use assms in \<open>simp add: cancelJobAct_def\<close>)

lemma deliver_success:
  assumes "deliver w js sub now st = Some (Inr out, st')"
  obtains v dup where "Submit w js sub now st = Some (Inr (v, dup), st')"
    "out = (replying (Submitted v dup))\<lparr>oc_Status := if dup then 200 else 202\<rparr>"
proof -
  from assms obtain r where r: "Submit w js sub now st = Some (r, st')"
    by (auto simp: deliver_def bind_eq_Some_conv)
  with assms show ?thesis by (cases r) (auto simp: deliver_def intro: that)
qed

lemma matchRoute_webhook:
  "matchRoute ''POST /v1/webhooks/github'' method path \<noteq> None \<Longrightarrow> method = ''POST''"
proof -
  have "Split ''POST /v1/webhooks/github'' (CHR '' '') = [''POST'', ''/v1/webhooks/github'']" by code_simp
  then show "matchRoute ''POST /v1/webhooks/github'' method path \<noteq> None \<Longrightarrow> method = ''POST''"
    by (simp add: matchRoute_def split: if_splits)
qed

text \<open>The routes that write answer with a success status.\<close>

lemma callback_status:
  assumes "callback w js c now st = Some (Inr out, st')"
  shows "oc_Status out = 200 \<or> oc_Status out = 201"
proof -
  have o: "outcome g x = Inr out \<Longrightarrow> oc_Status out = 200" for g x out
    by (auto simp: outcome_def replying_def split: sum.splits)
  have a: "attemptAct c x y z now st = Some (Inr out, st') \<Longrightarrow> oc_Status out = 200" for x y z
    by (auto simp: attemptAct_def replying_def bind_eq_Some_conv dest: o split: Route.splits Input.splits if_splits)
  have b: "attemptRoute c now st = Some (Inr out, st') \<Longrightarrow> oc_Status out = 200"
    by (erule attemptRoute_success) (rule a)
  have s: "submitAct w js sub now st = Some (Inr out, st') \<Longrightarrow> oc_Status out = 200 \<or> oc_Status out = 201" for sub
    by (erule submitAct_success) (simp add: replying_def)
  have v: "showAct p k st = Some (Inr out, st') \<Longrightarrow> oc_Status out = 200" for p k
    by (erule showAct_success) (simp add: replying_def)
  have k: "cancelAct p k now st = Some (Inr out, st') \<Longrightarrow> oc_Status out = 200" for p k
    by (erule cancelAct_success) (simp add: replying_def)
  have j: "cancelJobAct p k now st = Some (Inr out, st') \<Longrightarrow> oc_Status out = 200" for p k
    by (erule cancelJobAct_success) (simp add: replying_def)
  have "act w js c now st = Some (Inr out, st') \<Longrightarrow> oc_Status out = 200 \<or> oc_Status out = 201"
    unfolding act_def Let_def
    by (cases "cl_Route c"; cases "cl_Input c")
      (auto simp: replying_def bind_eq_Some_conv case_prod_beta dest: o s v k j)
  with assms b show ?thesis unfolding callback_def
    by (auto simp: bind_eq_Some_conv split: if_splits)
qed

text \<open>A request that passes the role check and the input check is a good call.\<close>

lemma role_good:
  assumes "ValidateAccess access = None" "Authenticate access h = (p, True)"
    "Contains ('' '' @ roles route @ '' '') ('' '' @ prin_Role p @ '' '')"
  shows "workerRoute route \<longrightarrow> prin_Role p = ''worker'' \<and> (\<exists>wk. prin_Worker p = Some wk \<and> registered access wk)"
    "\<not> workerRoute route \<longrightarrow> prin_Role p \<noteq> ''worker''"
proof -
  note p = caller_OK [OF assms(1) Authenticate_caller [OF assms(2)]]
  from p(1) assms(3) roles_of_route [of route]
  have "workerRoute route \<longleftrightarrow> prin_Role p = ''worker''" by (auto split: if_splits)
  with p(2) show "workerRoute route \<longrightarrow> prin_Role p = ''worker'' \<and> (\<exists>wk. prin_Worker p = Some wk \<and> registered access wk)"
    "\<not> workerRoute route \<longrightarrow> prin_Role p \<noteq> ''worker''" by simp_all
qed

lemma reply_plain:
  "writes (cl_Route c) \<Longrightarrow> reply sv c body out = Reply (oc_Status out) (oc_Content out)"
  unfolding writes_def by (auto simp: reply_def)

text \<open>The replies that are given without looking at the store.\<close>

definition quiet :: "Reply \<Rightarrow> bool" where
  "quiet rep \<longleftrightarrow> reply_Content rep \<in> {Failure, Done, Ignored}"

lemma quiet_simps [simp]: "quiet (refuse s)" "quiet (Reply s Done)" "quiet (Reply s Ignored)"
  by (simp_all add: quiet_def)

lemma readDelivery_quiet: "readDelivery srv wd r = Inl rep \<Longrightarrow> quiet rep"
  by (auto simp: readDelivery_def configure_def eventSubmission_def Let_def split: if_splits option.splits sum.splits)

lemma ready_quiet: "quiet (ready sv pingDB)"
  by (auto simp: ready_def split: option.split)

lemma failStatus_infrastructure [simp]: "failStatus ErrInfrastructure = 503"
  by (simp add: failStatus_def)

text \<open>A request is answered, and the reply and the state that the backend then represents satisfy \<open>Q\<close>.\<close>

definition answered :: "('b \<Rightarrow> Store \<Rightarrow> bool) \<Rightarrow> (Reply \<Rightarrow> Store \<Rightarrow> bool) \<Rightarrow> (Reply \<times> 'b) option \<Rightarrow> bool" where
  "answered holds Q m \<longleftrightarrow> (\<exists>rep b' st'. m = Some (rep, b') \<and> holds b' st' \<and> Q rep st')"

locale control_plane = backend holds fair transact
  for holds :: "'b \<Rightarrow> Store \<Rightarrow> bool" and fair :: "'e \<Rightarrow> bool"
    and transact :: "'e \<Rightarrow> bool \<Rightarrow> string \<Rightarrow> Outcome callback \<Rightarrow> 'b \<Rightarrow> ((apiError + Outcome) \<times> 'b) option"
begin

text \<open>One lawful transaction, as the handlers run it.\<close>

lemma transaction:
  assumes h: "holds b st" "fair env" and r: "reachable P conf st" and l: "\<And>now. lawful P conf wr st (f now st)"
    and Q: "\<And>rep. quiet rep \<Longrightarrow> Q rep st"
      "\<And>now out st'. f now st = Some (Inr out, st') \<Longrightarrow> Q (g out) st' \<and> Q (refuse 503) st'"
  shows "answered holds Q (do {
    (res, b') \<leftarrow> transact env wr action f b;
    Some (case res of Inl e \<Rightarrow> refuse (failStatus e) | Inr out \<Rightarrow> g out, b') })"
proof -
  have d: "decent wr f st" by (rule lawful_decent [where f = f, OF r l])
  from atomic [OF h d, of action] obtain res b' where t: "transact env wr action f b = Some (res, b')"
    and c: "(\<exists>e. res = Inl e \<and> holds b' st) \<or>
      (\<exists>now x st'. f now st = Some (Inr x, st') \<and> holds b' st' \<and> res \<in> {Inr x, Inl ErrInfrastructure})" by blast
  from c show ?thesis
  proof (elim disjE exE conjE)
    fix e assume "res = Inl e" "holds b' st"
    with t Q(1) show ?thesis by (auto simp: answered_def)
  next
    fix now x st'
    assume "f now st = Some (Inr x, st')" "holds b' st'" "res \<in> {Inr x, Inl ErrInfrastructure}"
    with t Q(2) show ?thesis by (auto simp: answered_def)
  qed
qed

lemma answered_at_once [simp]: "holds b st \<Longrightarrow> Q rep st \<Longrightarrow> answered holds Q (Some (rep, b))"
  by (auto simp: answered_def)

lemma dispatch_answered:
  assumes h: "holds b st" "fair env" and r: "reachable (policed (srv_Access srv)) conf st" "fresh w st"
    and a: "ValidateAccess (srv_Access srv) = None" "goMaps (srv_Decoders srv)"
    and p: "Authenticate (srv_Access srv) token = (p, True)"
      "Contains ('' '' @ roles route @ '' '') ('' '' @ prin_Role p @ '' '')"
    and m: "rq_Method q = ''POST'' \<longleftrightarrow> writes route" and Q: "\<And>rep. quiet rep \<Longrightarrow> Q rep st"
    and c: "\<And>c now out st'. goodCall (srv_Access srv) c \<Longrightarrow> cl_Route c = route \<Longrightarrow> cl_Principal c = p \<Longrightarrow>
      callback w js c now st = Some (Inr out, st') \<Longrightarrow>
      readInput (srv_Access srv) (srv_Decoders srv) p route (getd [] bs ''id'') q = Inr (cl_Input c) \<Longrightarrow>
      Q (reply (srv_Services srv) c (rq_Body q) out) st' \<and> Q (refuse 503) st'"
  shows "answered holds Q (dispatch srv (transact env) w js q p route bs b)"
proof (cases "readInput (srv_Access srv) (srv_Decoders srv) p route (getd [] bs ''id'') q")
  case (Inl e)
  with h(1) Q show ?thesis by (simp add: dispatch_def)
next
  case (Inr inp)
  let ?c = "\<lparr>cl_Route = route, cl_ID = getd [] bs ''id'', cl_Name = getd [] bs ''name'',
    cl_Lease = header q ''X-Lease-Token'', cl_Principal = p, cl_Input = inp\<rparr>"
  have g: "goodCall (srv_Access srv) ?c"
    using role_good [OF a(1) p] readInput_good [OF Inr a(2)] by (simp add: goodCall_def)
  have l: "lawful (policed (srv_Access srv)) conf (rq_Method q = ''POST'') st (callback w js ?c now st)" for now
    using callback_lawful [OF r g, of js now] m by simp
  show ?thesis
    unfolding dispatch_def Let_def Inr sum.case
    by (rule transaction [where f = "callback w js ?c" and g = "reply (srv_Services srv) ?c (rq_Body q)" and Q = Q,
          OF h r(1) l Q]) (assumption, rule c [OF g], simp_all add: Inr)
qed

text \<open>
  The rule for statements about the whole server: \<open>Q\<close> holds of what it does to a request if it holds
  after a refusal, after the delivery of an authentic event, and after the callback of a route that the
  caller may use, on the input that was read from the request.
\<close>

theorem serve_answered:
  assumes h: "holds b st" "fair env" and r: "reachable (policed (srv_Access srv)) conf st" "fresh w st"
    and a: "ValidateAccess (srv_Access srv) = None" "goMaps (srv_Decoders srv)" "yamlMaps wd"
    and Q: "\<And>rep. quiet rep \<Longrightarrow> Q rep st"
    and d: "\<And>sub now out st'. rq_Method q = ''POST'' \<Longrightarrow>
      matchRoute ''POST /v1/webhooks/github'' (rq_Method q) (rq_Path q) \<noteq> None \<Longrightarrow> readDelivery srv wd q = Inr sub \<Longrightarrow>
      policySubmission (srv_Access srv) sub \<Longrightarrow> deliver w js sub now st = Some (Inr out, st') \<Longrightarrow>
      Q (Reply (oc_Status out) (oc_Content out)) st' \<and> Q (refuse 503) st'"
    and c: "\<And>route bs p c now out st'. findRoute q = Some (route, bs) \<Longrightarrow> (rq_Method q = ''POST'' \<longleftrightarrow> writes route) \<Longrightarrow>
      Authenticate (srv_Access srv) (header q ''Authorization'') = (p, True) \<Longrightarrow>
      Contains ('' '' @ roles route @ '' '') ('' '' @ prin_Role p @ '' '') \<Longrightarrow>
      goodCall (srv_Access srv) c \<Longrightarrow> cl_Route c = route \<Longrightarrow> cl_Principal c = p \<Longrightarrow>
      callback w js c now st = Some (Inr out, st') \<Longrightarrow>
      readInput (srv_Access srv) (srv_Decoders srv) p route (getd [] bs ''id'') q = Inr (cl_Input c) \<Longrightarrow>
      Q (reply (srv_Services srv) c (rq_Body q) out) st' \<and> Q (refuse 503) st'"
  shows "answered holds Q (ServeHTTP srv wd busy pingDB (transact env) w js q b)"
proof -
  have wh: "answered holds Q (webhook srv wd (transact env) w js q b)"
    if m: "matchRoute ''POST /v1/webhooks/github'' (rq_Method q) (rq_Path q) \<noteq> None"
  proof (cases "readDelivery srv wd q")
    case (Inl e)
    with h(1) Q readDelivery_quiet show ?thesis by (simp add: webhook_def)
  next
    case (Inr sub)
    note p = readDelivery_policy [OF Inr a(3)]
    have l: "lawful (policed (srv_Access srv)) conf True st (deliver w js sub now st)" for now
      by (rule deliver_lawful [OF r p])
    show ?thesis
      unfolding webhook_def Inr sum.case
      by (rule transaction [where f = "deliver w js sub" and g = "\<lambda>out. Reply (oc_Status out) (oc_Content out)" and Q = Q,
            OF h r(1) l Q]) (assumption, rule d [OF matchRoute_webhook [OF m] m Inr p])
  qed
  have sv: "answered holds Q (serveRoute srv (transact env) w js q route bs b)" if f: "findRoute q = Some (route, bs)" for route bs
  proof -
    obtain p known where p: "Authenticate (srv_Access srv) (header q ''Authorization'') = (p, known)" by fastforce
    have m: "rq_Method q = ''POST'' \<longleftrightarrow> writes route" by (rule findRoute_method [OF f])
    show ?thesis
    proof (cases "known \<and> Contains ('' '' @ roles route @ '' '') ('' '' @ prin_Role p @ '' '')")
      case True
      with p have t: "Authenticate (srv_Access srv) (header q ''Authorization'') = (p, True)"
          "Contains ('' '' @ roles route @ '' '') ('' '' @ prin_Role p @ '' '')" by simp_all
      have "answered holds Q (dispatch srv (transact env) w js q p route bs b)"
        by (rule dispatch_answered [where Q = Q, OF h r a(1,2) t m Q]) (assumption, rule c [OF f m t])
      with t show ?thesis by (simp add: serveRoute_def)
    next
      case False
      then show ?thesis using h(1) Q p by (cases known) (simp_all add: serveRoute_def)
    qed
  qed
  from wh sv h(1) Q ready_quiet show ?thesis by (auto simp: ServeHTTP_def split: option.split)
qed

text \<open>A request leaves a reachable state, and changes it only by a write that it reports as done or as unknown.\<close>

lemma serve_reachable:
  assumes h: "holds b st" "fair env" and r: "reachable (policed (srv_Access srv)) conf st" "fresh w st"
    and a: "ValidateAccess (srv_Access srv) = None" "goMaps (srv_Decoders srv)" "yamlMaps wd"
  shows "answered holds (\<lambda>rep st'. reachable (policed (srv_Access srv)) conf st' \<and>
      (st' \<noteq> st \<longrightarrow> rq_Method q = ''POST'' \<and> reply_Status rep \<in> {200, 201, 202, 503}))
    (ServeHTTP srv wd busy pingDB (transact env) w js q b)"
proof (rule serve_answered [where Q = "\<lambda>rep st'. reachable (policed (srv_Access srv)) conf st' \<and>
      (st' \<noteq> st \<longrightarrow> rq_Method q = ''POST'' \<and> reply_Status rep \<in> {200, 201, 202, 503})", OF h r a], goal_cases)
  case (1 rep)
  with r(1) show ?case by simp
next
  case (2 sub now out st')
  have "lawful (policed (srv_Access srv)) conf True st (deliver w js sub now st)"
    by (rule deliver_lawful [OF r 2(4)])
  moreover have "oc_Status out = 200 \<or> oc_Status out = 202"
    using 2(5) by (rule deliver_success) (simp add: replying_def)
  ultimately show ?case using 2 by (auto simp: lawful_def)
next
  case (3 route bs p c now out st')
  have "lawful (policed (srv_Access srv)) conf (writes route) st (callback w js c now st)"
    using callback_lawful [OF r 3(5)] 3(6) by simp
  then have "reachable (policed (srv_Access srv)) conf st'" "\<not> writes route \<longrightarrow> st' = st"
    using 3(8) by (auto simp: lawful_def)
  then show ?case using callback_status [OF 3(8)] reply_plain [of c] 3(2,6) by auto
qed

end

text \<open>Both backends run the server.\<close>

interpretation server: control_plane "holdsPostgres pg" "fairEnv pg" "postgresTransact pg" for pg
  by unfold_locales

interpretation local: control_plane "holdsMemory gob c" "\<lambda>env. True" "memoryTransact gob" for gob c
  by unfold_locales

end
