(* ===== verification/Scheduling.thy ===== *)
theory Scheduling
  imports Demo
begin

text \<open>
  The properties of \<open>ScheduleOne\<close> in every reachable state: what it leases is allowed to run, runs
  where it may run and within its tenant's quotas; it finds work when there is some; and it is fair.
\<close>

definition demoLease1 :: AttemptLease where
  "demoLease1 = \<lparr>lease_Attempt = demoAttempt1, lease_LeaseToken = ''lease_c0'',
     lease_Job = demoJob ''job_b1'' ''build'' demoBuild 1 StateLeased [''attempt_c1''],
     lease_Pipeline = demoPipeline StateRunning, lease_Deadline = 130\<rparr>"

definition demoLease2 :: AttemptLease where
  "demoLease2 = \<lparr>lease_Attempt = demoAttempt2, lease_LeaseToken = ''lease_e0'',
     lease_Job = demoJob ''job_b2'' ''deploy'' demoDeploy 2 StateLeased [''attempt_e1''],
     lease_Pipeline = demoPipeline StateRunning, lease_Deadline = 150\<rparr>"

lemmas demo_lease1 = demo_schedule [folded demoLease1_def]
lemmas demo_lease2 = demo_schedule2 [folded demoLease2_def]

text \<open>
  A job runs only after everything it needs. When \<open>ScheduleOne\<close> returns a lease, the leased job
  is stored as leased and for every name in its \<open>needs\<close> a job of that name in the same pipeline has
  succeeded.
\<close>

lemma lease_dependencies:
  assumes "reachable anyRequest c st" "fresh w st" "ScheduleOne w now st = Some (Inr l, st')"
  shows "map_of (jobs st') (job_ID (lease_Job l)) = Some (lease_Job l) \<and>
    job_Status (lease_Job l) = StateLeased \<and>
    (\<forall>n \<in> set (spec_Needs (job_Spec (lease_Job l))). \<exists>k i. map_of (jobs st') k = Some i \<and>
      job_PipelineID i = job_PipelineID (lease_Job l) \<and> job_Name i = n \<and> job_Status i = StateSucceeded)"
  using ScheduleOne_dependencies [OF reachable_wellFormed [OF assms(1)] assms(2,3)] by blast

text \<open>
  A lease is only given to a worker that may run it: the worker is registered, its heartbeat is
  not older than the worker TTL, its trust level is the job's, it has every capability the job asks
  for, and with the new attempt it stays within its capacity and its declared CPU and memory.
\<close>

lemma lease_placement:
  assumes "reachable anyRequest c st" "fresh w st" "ScheduleOne w now st = Some (Inr l, st')"
  shows "\<exists>wk. wk_ID wk = att_WorkerID (lease_Attempt l) \<and> placedOn st' now (lease_Job l) wk"
  by (rule ScheduleOne_placement [OF reachable_wellFormed [OF assms(1)] assms(2,3)])

text \<open>
  A lease respects the tenant's quotas: with the new attempt counted, the tenant's active jobs
  stay within its concurrency limit and their CPU and memory within the configured quota.
\<close>

lemma lease_quota:
  assumes "reachable anyRequest c st" "fresh w st" "ScheduleOne w now st = Some (Inr l, st')"
  shows "withinQuota st' (job_Tenant (lease_Job l))"
  by (rule ScheduleOne_quota [OF reachable_wellFormed [OF assms(1)] assms(2,3)])

text \<open>
  C20: What is leased may run where it is placed. When \<open>ScheduleOne\<close> returns a lease, the job is stored
  as leased and for every name in its \<open>needs\<close> a job of that name in the same pipeline has succeeded;
  the lease goes to a registered worker with a recent heartbeat, the job's trust and every capability
  it asks for, which with the new attempt stays within its capacity, CPU and memory; and with the new
  attempt the tenant stays within its concurrency limit and quotas.
\<close>

theorem lease_sound:
  assumes "reachable anyRequest c st" "fresh w st" "ScheduleOne w now st = Some (Inr l, st')"
  shows "map_of (jobs st') (job_ID (lease_Job l)) = Some (lease_Job l) \<and>
    job_Status (lease_Job l) = StateLeased \<and>
    (\<forall>n \<in> set (spec_Needs (job_Spec (lease_Job l))). \<exists>k i. map_of (jobs st') k = Some i \<and>
      job_PipelineID i = job_PipelineID (lease_Job l) \<and> job_Name i = n \<and> job_Status i = StateSucceeded) \<and>
    (\<exists>wk. wk_ID wk = att_WorkerID (lease_Attempt l) \<and> placedOn st' now (lease_Job l) wk) \<and>
    withinQuota st' (job_Tenant (lease_Job l))"
  using lease_dependencies [OF assms] lease_placement [OF assms] lease_quota [OF assms] by blast

theorem lease_sound_witness:
  "(\<exists>k i. map_of (jobs demoDeploying) k = Some i \<and> job_Name i = ''build'' \<and> job_Status i = StateSucceeded) \<and>
   withinQuota demoDeploying (job_Tenant (lease_Job demoLease2))"
  using lease_sound [OF demo_reachable(4) demo_fresh2(3) [of "''e''"] demo_lease2]
  by (auto simp: demoLease2_def demoJob_def demoDeploy_def)

text \<open>
  C22: Work is found when it exists. \<open>ScheduleOne\<close> always returns; the only error is \<open>ErrNoWork\<close>, and
  then every queued job whose needs have succeeded is held back for a reason: its tenant has reached
  its concurrency limit or its CPU or memory quota, or no registered worker fits it.
\<close>

theorem schedule_complete:
  assumes "reachable anyRequest c st" "fresh w st"
  shows "\<exists>r st'. ScheduleOne w now st = Some (r, st') \<and>
    (\<forall>e. r = Inl e \<longrightarrow> e = ErrNoWork \<and> (\<forall>jid j. isRunnable st' jid j \<longrightarrow>
       saturated st' (job_Tenant j) \<or> overQuota st' (job_Tenant j) j \<or> noWorker st' j now))"
proof -
  have w: "wellFormed st" by (rule reachable_wellFormed [OF assms(1)])
  obtain r st' where "ScheduleOne w now st = Some (r, st')"
    using ScheduleOne_safe [OF w assms(2), of now] by (auto simp: safe_def ok_def)
  with ScheduleOne_complete [OF w] show ?thesis by blast
qed

theorem schedule_complete_witness:
  "\<exists>r st'. ScheduleOne (demoWorld ''d'' [] []) 40 demoLeased = Some (r, st')"
  using schedule_complete [OF demo_reachable(3) demo_fresh2(2) [of "''d''" "[]" "[]"], of 40] by blast

lemma jobRank_less:
  "spec_Priority (job_Spec b) < spec_Priority (job_Spec a) \<or>
     spec_Priority (job_Spec b) = spec_Priority (job_Spec a) \<and>
       (job_CreatedAt a < job_CreatedAt b \<or> job_CreatedAt a = job_CreatedAt b \<and> job_Sequence a < job_Sequence b) \<Longrightarrow>
   jobRank a < jobRank b"
  by (auto simp: jobRank_def less_JobRank_def)

text \<open>
  C21: Scheduling is fair. The tenants take turns in alphabetical order starting after the tenant that
  was served last: a tenant whose turn comes before the served one had no candidate, or each was held
  back. Within the served tenant a candidate with a higher priority than the leased job, or with the
  same priority and an earlier submission (creation time, then sequence number), was held back by the
  resource quota or the lack of a worker. The served tenant is remembered as the last one.
\<close>

theorem schedule_fair:
  assumes "reachable anyRequest c st" "fresh w st" "reconcileExpiredLocked w now st = Some (st1, n)"
    and "ScheduleOne w now st = Some (Inr l, st')" "isRunnable st1 jid j"
  shows "(earlierTurn (lastTenant st1) (job_Tenant j) (job_Tenant (lease_Job l)) \<longrightarrow>
      saturated st1 (job_Tenant j) \<or> overQuota st1 (job_Tenant j) j \<or> noWorker st1 j now) \<and>
    (job_Tenant j = job_Tenant (lease_Job l) \<and>
       (spec_Priority (job_Spec (lease_Job l)) < spec_Priority (job_Spec j) \<or>
        spec_Priority (job_Spec (lease_Job l)) = spec_Priority (job_Spec j) \<and>
          (job_CreatedAt j < job_CreatedAt (lease_Job l) \<or>
           job_CreatedAt j = job_CreatedAt (lease_Job l) \<and> job_Sequence j < job_Sequence (lease_Job l))) \<longrightarrow>
      overQuota st1 (job_Tenant (lease_Job l)) j \<or> noWorker st1 j now) \<and>
    lastTenant st' = job_Tenant (lease_Job l)"
  using ScheduleOne_order [OF reachable_wellFormed [OF assms(1)] assms(2,3,4,5)] jobRank_less [of "lease_Job l" j] by blast

theorem schedule_fair_witness: "lastTenant demoLeased = ''t1''"
proof -
  have r: "reconcileExpiredLocked (demoWorld ''c'' [] []) 30 demoQueued = Some (demoQueued, 0)"
    by (simp add: reconcileExpiredLocked_def demoWorld_def)
  have "isRunnable demoQueued ''job_b1'' (demoJob ''job_b1'' ''build'' demoBuild 1 StateQueued [])"
    by (simp add: isRunnable_def demo_states demoJob_def dependenciesSucceededLocked_def demoBuild_def zeroJobSpec_def)
  from schedule_fair [OF demo_reachable(2) demo_fresh2(1) [of "''c''"] r demo_lease1 this] show ?thesis
    by (simp add: demoLease1_def demoJob_def)
qed

end
