(* ===== verification/Service.thy ===== *)
theory Service
  imports ControlPlane Scheduling
begin

text \<open>
  The control-plane process (\<open>cmd/api/main.go\<close>): its configuration, the transaction its scheduler
  loop runs every second, and the reports of its check loop. A tick is a run of the machine; it always
  returns, and it ends with the queue exhausted or with 64 leases issued.
\<close>

section \<open>Definitions\<close>

definition serviceConfig :: Config where
  "serviceConfig = \<lparr>cfg_LeaseTTL = 30 * Second, cfg_WorkerTTL = 45 * Second, cfg_DefaultTenantLimit = 2,
     cfg_PreviewBaseDomain = [], cfg_PreviewDeleteDelay = 0, cfg_MaxQueuedJobs = 1000, cfg_TenantCPU = 16,
     cfg_TenantMemoryMB = 32768, cfg_Retention = 0\<rparr>"

text \<open>Every call has its own world; \<open>n\<close> counts the calls that are left.\<close>

fun scheduleLoop :: "(nat \<Rightarrow> World) \<Rightarrow> nat \<Rightarrow> time \<Rightarrow> Store \<Rightarrow> ((apiError + unit) \<times> Store) option" where
  "scheduleLoop ws 0 now st = Some (Inr (), st)"
| "scheduleLoop ws (Suc n) now st = do {
     (r, st') \<leftarrow> ScheduleOne (ws n) now st;
     (case r of
        Inl e \<Rightarrow> if e = ErrNoWork then Some (Inr (), st') else Some (Inl (StoreErr e), st')
      | Inr _ \<Rightarrow> scheduleLoop ws n now st') }"

definition tick :: "(nat \<Rightarrow> World) \<Rightarrow> unit callback" where
  "tick ws now st = do {
     (_, st1) \<leftarrow> Reconcile (ws 65) now st;
     st2 \<leftarrow> EnsurePreviews (ws 64) now st1;
     scheduleLoop ws 64 now st2 }"

text \<open>The check loop: \<open>check\<close> is \<open>App.Check\<close>; every report is a transaction of its own.\<close>

definition checkDue :: "Pipeline \<Rightarrow> bool" where
  "checkDue p \<longleftrightarrow> \<not> (pl_InstallationID p = 0 \<or> pl_CheckState p = pl_Status p)"

definition listPipelines :: "Pipeline list callback" where
  "listPipelines now st = Some (Inr (PipelineList st []), st)"

definition recordOne :: "Pipeline \<Rightarrow> int \<Rightarrow> unit callback" where
  "recordOne p checkID now st =
     Some (case RecordCheck (pl_ID p) checkID (pl_Status p) st of (r, st') \<Rightarrow> (map_sum StoreErr id r, st'))"

fun recordChecks ::
  "(Pipeline \<Rightarrow> int option) \<Rightarrow> (Pipeline \<Rightarrow> bool \<Rightarrow> string \<Rightarrow> unit callback \<Rightarrow> 'b \<Rightarrow> ((apiError + unit) \<times> 'b) option)
   \<Rightarrow> Pipeline list \<Rightarrow> 'b \<Rightarrow> 'b option" where
  "recordChecks check transact [] b = Some b"
| "recordChecks check transact (p # ps) b =
     (if \<not> checkDue p then recordChecks check transact ps b
      else case check p of
        None \<Rightarrow> recordChecks check transact ps b
      | Some checkID \<Rightarrow> do {
          (_, b') \<leftarrow> transact p True ''github check update'' (recordOne p checkID) b;
          recordChecks check transact ps b' })"

section \<open>Worlds\<close>

text \<open>The calls of one transaction draw different random identifiers, none of which is in the store.\<close>

definition freshWorlds :: "(nat \<Rightarrow> World) \<Rightarrow> nat \<Rightarrow> Store \<Rightarrow> bool" where
  "freshWorlds ws n st \<longleftrightarrow> (\<forall>i < n. fresh (ws i) st) \<and>
     (\<forall>i < n. \<forall>j < n. i \<noteq> j \<longrightarrow> (\<forall>l m. draw (ws i) l \<noteq> draw (ws j) m))"

lemma fresh_sub:
  assumes "fresh w st"
    and "\<And>k p. map_of (pipelines st') k = Some p \<Longrightarrow> map_of (pipelines st) k \<noteq> None"
    and "\<And>k j. map_of (jobs st') k = Some j \<Longrightarrow> map_of (jobs st) k \<noteq> None"
    and "\<And>k a. map_of (attempts st') k = Some a \<Longrightarrow> map_of (attempts st) k \<noteq> None \<or> (\<forall>n. k \<noteq> newID ''attempt'' (draw w n))"
  shows "fresh w st'"
proof -
  have new: "map_of (pipelines st') (newID ''pl'' (draw w n)) = None"
      "map_of (jobs st') (newID ''job'' (draw w n)) = None"
      "map_of (attempts st') (newID ''attempt'' (draw w n)) = None" for n
    using assms unfolding fresh_def map_of_None_keys [symmetric] by (metis option.exhaust)+
  then show ?thesis using assms(1) unfolding fresh_def map_of_None_keys [symmetric] by blast
qed

lemma freshWorlds_sub:
  assumes "freshWorlds ws n st"
    and "\<And>k p. map_of (pipelines st') k = Some p \<Longrightarrow> map_of (pipelines st) k \<noteq> None"
    and "\<And>k j. map_of (jobs st') k = Some j \<Longrightarrow> map_of (jobs st) k \<noteq> None"
    and "\<And>k a. map_of (attempts st') k = Some a \<Longrightarrow> map_of (attempts st) k \<noteq> None"
  shows "freshWorlds ws n st'"
  using assms(1) fresh_sub [of _ st st'] assms(2-4) unfolding freshWorlds_def by blast

lemma freshWorlds_advance: "freshWorlds ws n st \<Longrightarrow> advance st st' \<Longrightarrow> freshWorlds ws n st'"
  using fresh_sameCore by (auto simp: freshWorlds_def advance_def)

lemma freshWorlds_shrinks: "freshWorlds ws n st \<Longrightarrow> shrinks st st' \<Longrightarrow> freshWorlds ws n st'"
  by (erule freshWorlds_sub) (auto simp: shrinks_def)

text \<open>What a call of \<open>ScheduleOne\<close> adds.\<close>

lemma ScheduleOne_attempts:
  assumes w: "wellFormed st" and f: "fresh wo st" and s: "ScheduleOne wo now st = Some (r, st')"
  shows "keys (pipelines st') = keys (pipelines st) \<and> keys (jobs st') = keys (jobs st) \<and>
    keys (attempts st') = keys (attempts st) @ (case r of Inl _ \<Rightarrow> [] | Inr _ \<Rightarrow> [newID ''attempt'' (draw wo 1)])"
  using w
proof (cases rule: ScheduleOne_cases [where wo = wo and now = now])
  case (nowork st1 n st2)
  have "advance st st2" by (rule advance_trans [OF nowork(3) sameReasons_advance [OF nowork(4)]])
  with nowork(5) s show ?thesis by (simp add: advance_def sameCore_def)
next
  case (lease st1 n ts tenant pre jid s1 job wk l st2)
  have f1: "fresh wo st1" using f lease(3) fresh_sameCore by (auto simp: advance_def)
  note L = leased_state [OF lease(2) f1 lease(4)]
  note E = issueLease_effect [OF L(2) L(6) L(5)]
  have "sameReasons st1 s1" using lease(4) by (simp add: leased_def)
  then have "advance st s1" using advance_trans [OF lease(3) sameReasons_advance] by blast
  with lease(5) s E(2,3,4,6) show ?thesis by (simp add: advance_def sameCore_def)
qed

lemma freshWorlds_less: "freshWorlds ws (Suc n) st \<Longrightarrow> freshWorlds ws n st"
  by (simp add: freshWorlds_def)

lemma freshWorlds_fresh: "freshWorlds ws (Suc n) st \<Longrightarrow> fresh (ws n) st"
  by (simp add: freshWorlds_def)

lemma freshWorlds_schedule:
  assumes w: "wellFormed st" and f: "freshWorlds ws (Suc n) st" and s: "ScheduleOne (ws n) now st = Some (r, st')"
  shows "freshWorlds ws n st'"
proof -
  note A = ScheduleOne_attempts [OF w freshWorlds_fresh [OF f] s]
  have "fresh (ws i) st'" if i: "i < n" for i
  proof (rule fresh_sub)
    show "fresh (ws i) st" using f i by (simp add: freshWorlds_def)
    show "map_of (pipelines st') k = Some p \<Longrightarrow> map_of (pipelines st) k \<noteq> None" for k p
      using A map_of_None_keys [of "pipelines st" k] map_of_None_keys [of "pipelines st'" k] by auto
    show "map_of (jobs st') k = Some p \<Longrightarrow> map_of (jobs st) k \<noteq> None" for k p
      using A map_of_None_keys [of "jobs st" k] map_of_None_keys [of "jobs st'" k] by auto
    fix k a assume "map_of (attempts st') k = Some a"
    then have "k \<in> set (keys (attempts st'))" using map_of_None_keys [of "attempts st'" k] by auto
    then have "k \<in> set (keys (attempts st)) \<or> k = newID ''attempt'' (draw (ws n) 1)"
      using A by (auto simp del: set_map split: sum.splits)
    moreover have "draw (ws i) m \<noteq> draw (ws n) 1" for m using f i by (simp add: freshWorlds_def)
    ultimately show "map_of (attempts st) k \<noteq> None \<or> (\<forall>m. k \<noteq> newID ''attempt'' (draw (ws i) m))"
      using map_of_None_keys [of "attempts st" k] by (auto simp del: set_map)
  qed
  with f show ?thesis by (simp add: freshWorlds_def)
qed

section \<open>The scheduler loop\<close>

definition heldBack :: "Store \<Rightarrow> time \<Rightarrow> bool" where
  "heldBack st now \<longleftrightarrow> (\<forall>jid j. isRunnable st jid j \<longrightarrow>
     saturated st (job_Tenant j) \<or> overQuota st (job_Tenant j) j \<or> noWorker st j now)"

text \<open>A step for the steps of the machine that schedule.\<close>

lemma scheduleLoop_spec:
  assumes "reachable P conf st" "freshWorlds ws n st" "P ReqSchedule"
  shows "\<exists>st'. scheduleLoop ws n now st = Some (Inr (), st') \<and> reachable P conf st' \<and>
    (heldBack st' now \<or> length (attempts st') = length (attempts st) + n)"
  using assms(1,2)
proof (induction n arbitrary: st)
  case (Suc n)
  have w: "wellFormed st" by (rule reachable_wellFormed [OF Suc.prems(1)])
  note f = freshWorlds_fresh [OF Suc.prems(2)]
  from ScheduleOne_safe [OF w f, of now] obtain r st1 where s: "ScheduleOne (ws n) now st = Some (r, st1)"
    by (auto simp: safe_def ok_def)
  have r1: "reachable P conf st1"
    by (rule reachable_serve [where js = undefined and now = now, OF Suc.prems(1) f assms(3)]) (simp add: s)
  show ?case
  proof (cases r)
    case (Inl e)
    have "e = ErrNoWork" "heldBack st1 now"
      using ScheduleOne_complete [OF w] s Inl by (auto simp: heldBack_def)
    with s Inl r1 show ?thesis by simp
  next
    case (Inr l)
    have len: "length (attempts st1) = Suc (length (attempts st))"
      using ScheduleOne_attempts [OF w f s] Inr by (metis append_Nil2 length_append_singleton length_map sum.simps(6))
    from Suc.IH [OF r1 freshWorlds_schedule [OF w Suc.prems(2) s]] obtain st' where
      "scheduleLoop ws n now st1 = Some (Inr (), st')" "reachable P conf st'"
      "heldBack st' now \<or> length (attempts st') = length (attempts st1) + n" by blast
    with s Inr len show ?thesis by auto
  qed
qed simp

text \<open>A tick is a run of the machine, and ends with the queue exhausted or with 64 leases.\<close>

definition ticked :: "(Request \<Rightarrow> bool) \<Rightarrow> Config \<Rightarrow> (nat \<Rightarrow> World) \<Rightarrow> time \<Rightarrow> Store \<Rightarrow> bool" where
  "ticked P conf ws now st \<longleftrightarrow> (\<exists>r st1 st2 st'. Reconcile (ws 65) now st = Some (r, st1) \<and>
     EnsurePreviews (ws 64) now st1 = Some st2 \<and> tick ws now st = Some (Inr (), st') \<and> reachable P conf st' \<and>
     (heldBack st' now \<or> length (attempts st') = length (attempts st2) + 64))"

lemma tick_spec:
  assumes r: "reachable P conf st" and f: "freshWorlds ws 66 st"
    and P: "P ReqReconcile" "P ReqEnsure" "P ReqSchedule"
  shows "ticked P conf ws now st"
proof -
  have f65: "fresh (ws 65) st" "freshWorlds ws 65 st" using f by (simp_all add: freshWorlds_def)
  obtain x st1 where 1: "Reconcile (ws 65) now st = Some (x, st1)" "reachable P conf st1"
  proof -
    obtain st1 where "serve (ws 65) undefined now ReqReconcile st = Some st1" "reachable P conf st1"
      by (rule serve_reaches [OF r f65(1) P(1)])
    then show thesis using that by auto
  qed
  obtain s where s: "advance st s" "wellFormed s" "shrinks s st1"
    by (rule Reconcile_split [OF reachable_wellFormed [OF r] 1(1)])
  have f1: "freshWorlds ws 65 st1"
    by (rule freshWorlds_shrinks [OF freshWorlds_advance [OF f65(2) s(1)] s(3)])
  then have f64: "fresh (ws 64) st1" "freshWorlds ws 64 st1" by (simp_all add: freshWorlds_def)
  obtain st2 where 2: "EnsurePreviews (ws 64) now st1 = Some st2" "reachable P conf st2"
  proof -
    obtain st2 where "serve (ws 64) undefined now ReqEnsure st1 = Some st2" "reachable P conf st2"
      by (rule serve_reaches [OF 1(2) f64(1) P(2)])
    then show thesis using that by auto
  qed
  have "advance st1 st2"
    using EnsurePreviews_keeps [OF reachable_wellFormed [OF 1(2)], of "ws 64" now] 2(1) by (auto simp: keeps_def)
  then have f2: "freshWorlds ws 64 st2" by (rule freshWorlds_advance [OF f64(2)])
  from scheduleLoop_spec [OF 2(2) f2 P(3), of now] 1(1) 2(1) show ?thesis
    by (auto simp: ticked_def tick_def)
qed

section \<open>A tick always ends\<close>

text \<open>
  C27: The scheduler's tick returns without an error from every reachable state and leaves a reachable
  one; it stops because every queued job whose needs have succeeded is held back by its tenant's limits
  or by the lack of a worker, or because it has issued 64 leases.
\<close>

theorem tick_exhausts:
  assumes "reachable anyRequest c st" "freshWorlds ws 66 st"
  shows "\<exists>r st1 st2 st'. Reconcile (ws 65) now st = Some (r, st1) \<and> EnsurePreviews (ws 64) now st1 = Some st2 \<and>
    tick ws now st = Some (Inr (), st') \<and> reachable anyRequest c st' \<and>
    ((\<forall>jid j. isRunnable st' jid j \<longrightarrow>
        saturated st' (job_Tenant j) \<or> overQuota st' (job_Tenant j) j \<or> noWorker st' j now) \<or>
     length (attempts st') = length (attempts st2) + 64)"
  using tick_spec [OF assms, of now] by (simp add: ticked_def heldBack_def)

definition demoWorlds :: "nat \<Rightarrow> World" where
  "demoWorlds i = demoWorld (replicate i (CHR ''x'') @ ''-'') [] []"

lemma replicate_apart: "replicate i x @ y # s = replicate j x @ y # t \<Longrightarrow> x \<noteq> y \<Longrightarrow> i = j"
proof (induction i arbitrary: j)
  case 0
  then show ?case by (cases j) auto
next
  case (Suc i)
  then show ?case by (cases j) auto
qed

lemma demo_freshWorlds: "freshWorlds demoWorlds n demoQueued"
proof -
  have "replicate i (CHR ''x'') @ CHR ''-'' # s \<noteq> CHR ''b'' # t" for i s t by (cases i) simp_all
  then have "fresh (demoWorlds i) demoQueued" for i
    by (auto simp: fresh_def demoWorlds_def demoWorld_def demo_states newID_def inj_on_def dest: utoa_inj)
  moreover have "draw (demoWorlds i) l \<noteq> draw (demoWorlds j) m" if "i \<noteq> j" for i j l m
    using that by (auto simp: demoWorlds_def demoWorld_def dest: replicate_apart)
  ultimately show ?thesis by (simp add: freshWorlds_def)
qed

theorem tick_exhausts_witness: "\<exists>st'. tick demoWorlds 30 demoQueued = Some (Inr (), st') \<and> reachable anyRequest demoConfig st'"
  using tick_exhausts [OF demo_reachable(2) demo_freshWorlds, of 30] by blast

end
