(* ===== verification/Submissions.thy ===== *)
theory Submissions
  imports Policy
begin

text \<open>
  The history of submissions: the store only keeps the digest of the request that recorded a delivery.
  \<open>served\<close> is the machine together with the submissions it has been asked to make, and \<open>recorded\<close> says
  that a delivery with a pipeline carries the digest of a submission of the pipeline's tenant. So the answer to a
  submission shows the submitting tenant's pipeline, unless an earlier submission of another tenant had
  the same digest.
\<close>

section \<open>What leaves the delivery log alone\<close>

lemma activatePreview_fences: "activatePreviewLocked plID env now st = Some st' \<Longrightarrow> sameFences st st'"
  by (auto simp: activatePreviewLocked_def bind_eq_Some_conv Let_def sameFences_def split: if_splits option.splits)

lemma activateFor_fences: "activateFor plID now jid st = Some st' \<Longrightarrow> sameFences st st'"
  by (auto simp: activateFor_def bind_eq_Some_conv dest: activatePreview_fences split: option.splits)

lemma updatePipeline_fences:
  assumes "updatePipelineLocked plID now st = Some st'"
  shows "sameFences st st'"
proof -
  have all: "sameFences s s'" if "foldO (activateFor plID now) ks s = Some s'" for ks s s'
    by (rule foldO_sameFences [OF activateFor_fences that])
  from assms consider (cancel) ks where "foldO (cancelJobWith writeCancelled now) ks (setPipelineStatus plID StateFailed st) = Some st'"
    | (activate) ks where "foldO (activateFor plID now) ks (setPipelineStatus plID StateSucceeded st) = Some st'"
    | (run) "st' = setPipelineStatus plID StateRunning st"
    by (auto simp: updatePipelineLocked_def bind_eq_Some_conv split: option.splits if_splits)
  then show ?thesis
  proof cases
    case cancel
    from sameFences_trans [OF setPipelineStatus_fences cancelJobs_fences [OF cancel]] show ?thesis .
  next
    case activate
    from sameFences_trans [OF setPipelineStatus_fences all [OF activate]] show ?thesis .
  qed simp
qed

lemma updatePipeline_log:
  "updatePipelineLocked plID now s = Some st' \<Longrightarrow> deliveries s = deliveries st \<Longrightarrow>
     requestHashes s = requestHashes st \<Longrightarrow> prStates s = prStates st \<Longrightarrow> sameFences st st'"
  using updatePipeline_fences [of plID now s st'] by (simp add: sameFences_def)

lemma expireAttempt_fences: "expireAttempt now aid sc = Some sc' \<Longrightarrow> sameFences (fst sc) (fst sc')"
  by (cases sc) (auto simp: expireAttempt_def Let_def bind_eq_Some_conv sameFences_def
      dest!: updatePipeline_fences split: option.splits if_splits)

lemma reconcileExpired_fences:
  assumes "reconcileExpiredLocked w now st = Some (st', n)"
  shows "sameFences st st'"
proof -
  note run = assms [unfolded reconcileExpiredLocked_def]
  have "sameFences (fst (st, 0 :: int)) (fst (st', n))"
    by (rule foldO_related [where f = "expireAttempt now" and R = "\<lambda>a b. sameFences (fst a) (fst b)",
          OF _ _ _ run]) (erule expireAttempt_fences, simp, erule (1) sameFences_trans)
  then show ?thesis by simp
qed

lemma completeAttempt_fences: "completeAttemptLocked aid token success message now st = Some (r, st') \<Longrightarrow> sameFences st st'"
proof -
  assume c: "completeAttemptLocked aid token success message now st = Some (r, st')"
  have moved: "sameFences st s" if "updatePipelineLocked k now (st\<lparr>attempts := as, jobs := js, metrics := ms\<rparr>) = Some s"
    for k as js ms s
    using updatePipeline_fences [OF that] by (simp add: sameFences_def)
  have stale: "sameFences st (incStale st)" by (simp add: sameFences_def)
  show ?thesis
    using c moved stale unfolding completeAttemptLocked_def
    by (auto simp: bind_eq_Some_conv simp del: if_split split: option.splits if_split_asm)
qed

lemma Finish_fences: "Finish aid token success message digest logKey artefacts now st = Some (r, st') \<Longrightarrow> sameFences st st'"
  by (auto simp: Finish_def bind_eq_Some_conv sameFences_def dest!: completeAttempt_fences split: option.splits if_splits)

lemma HeartbeatAttempt_fences: "HeartbeatAttempt aid token now st = Some (r, st') \<Longrightarrow> sameFences st st'"
  by (auto simp: HeartbeatAttempt_def bind_eq_Some_conv sameFences_def Let_def split: option.splits if_splits)

lemma CancelJob_fences: "CancelJob jid now st = Some (r, st') \<Longrightarrow> sameFences st st'"
  by (auto simp: CancelJob_def bind_eq_Some_conv dest: cancelPipeline_fences split: option.splits if_splits)

lemma ensurePreview_fences: "ensurePreview now plID st = Some st' \<Longrightarrow> sameFences st st'"
proof -
  have "ensureJob plID now jid s = Some s' \<Longrightarrow> sameFences s s'" for jid s s'
    by (auto simp: ensureJob_def bind_eq_Some_conv dest: activatePreview_fences split: option.splits if_splits)
  then have "foldO (ensureJob plID now) ks s = Some s' \<Longrightarrow> sameFences s s'" for ks s s'
    by (rule foldO_sameFences)
  then show "ensurePreview now plID st = Some st' \<Longrightarrow> sameFences st st'"
    by (auto simp: ensurePreview_def split: option.splits if_splits)
qed

lemma reconcilePreviews_fences: "sameFences (fst sd) (fst (fold (reconcilePreview now) ks sd))"
proof (induction ks arbitrary: sd)
  case (Cons k ks)
  have "sameFences (fst sd) (fst (reconcilePreview now k sd))"
    by (cases sd) (auto simp: reconcilePreview_def Let_def sameFences_def split: option.split)
  from sameFences_trans [OF this Cons.IH] show ?case by simp
qed simp

lemma Reconcile_fences:
  assumes w: "wellFormed st" and r: "Reconcile wo now st = Some (r, st')"
  shows "sameFences st st'"
proof -
  obtain st1 n where 1: "reconcileExpiredLocked wo now st = Some (st1, n)" "wellFormed st1"
    using reconcileExpired_wellFormed [OF w] by blast
  obtain st2 d where 2: "fold (reconcilePreview now) (visitPreviews wo) (st1, 0) = (st2, d)"
    by (cases "fold (reconcilePreview now) (visitPreviews wo) (st1, 0 :: int)")
  have "sameWork st1 st2"
    using reconcilePreviews_sameWork [of "(st1, 0)" now "visitPreviews wo"] by (simp add: 2)
  from sameWork_wellFormed [OF this 1(2)] obtain st3 where 3: "pruneLocked wo now st2 = Some st3" "shrinks st2 st3"
    using prune_ok by blast
  have "st3 = st'" using r 1(1) 2 3(1) by (simp add: Reconcile_def)
  moreover have "sameFences st1 st2"
    using reconcilePreviews_fences [of "(st1, 0)" now "visitPreviews wo"] by (simp add: 2)
  ultimately show ?thesis using reconcileExpired_fences [OF 1(1)] 3(2) by (simp add: sameFences_def shrinks_def)
qed

lemma sameReasons_fences: "sameReasons st st' \<Longrightarrow> sameFences st st'"
  by (simp add: sameFences_def sameReasons_simps)

lemma issueLease_fences: "issueLease wo now tenant jid job wk st = Some (l, st') \<Longrightarrow> sameFences st st'"
  by (auto simp: issueLease_def Let_def bind_eq_Some_conv sameFences_def setPipelineStatus_def)

lemma ScheduleOne_fences:
  assumes w: "wellFormed st" and s: "ScheduleOne wo now st = Some (r, st')"
  shows "sameFences st st'"
  using w
proof (cases rule: ScheduleOne_cases [where wo = wo and now = now])
  case (nowork st1 n st2)
  with s sameReasons_fences sameFences_trans [OF reconcileExpired_fences [OF nowork(1)]] show ?thesis by simp
next
  case (lease st1 n ts tenant pre jid s1 job wk l st2)
  then have "sameReasons st1 s1" "issueLease wo now tenant jid job wk s1 = Some (l, st2)" by (simp_all add: leased_def)
  with reconcileExpired_fences [OF lease(1)] sameReasons_fences issueLease_fences have "sameFences st st2"
    by (metis sameFences_trans)
  with lease(5) s show ?thesis by simp
qed

lemma tombstone_fences [simp]: "sameFences st (tombstone repo n now st)"
  by (simp add: tombstone_def Let_def sameFences_def markPreviewDeleting_def split: option.split)

text \<open>A close delivery is recorded without a pipeline.\<close>

lemma closing_log:
  assumes "MarkPreviewDeletingForDelivery w rid repo n now st = Some (r, st')"
  shows "requestHashes st' = requestHashes st \<and>
    (deliveries st' = deliveries st \<or> deliveries st' = AList.update rid [] (deliveries st))"
proof -
  let ?s = "tombstone repo n now (recordClose rid repo n now st)"
  have "deliveries ?s = AList.update rid [] (deliveries st)" "requestHashes ?s = requestHashes st"
    using tombstone_fences [of "recordClose rid repo n now st" repo n now]
    by (simp_all add: sameFences_def recordClose_def Let_def)
  moreover have "sameFences ?s s'" if "foldO (cancelIfOpen repo n now) ks ?s = Some s'" for ks s'
    by (rule cancelAll_fences [OF that])
  ultimately show ?thesis
    using assms by (auto simp: MarkPreviewDeletingForDelivery_def bind_eq_Some_conv sameFences_def split: if_splits)
qed

text \<open>Of the admitted requests, only a submission and a close touch the log.\<close>

lemma serve_log:
  assumes w: "wellFormed st" and p: "policed access req" and s: "serve wo js now req st = Some st'"
    and n: "\<And>sub. req \<noteq> ReqSubmit sub"
  shows "requestHashes st' = requestHashes st \<and>
    (\<forall>rid k. map_of (deliveries st') rid = Some k \<longrightarrow> k = [] \<or> map_of (deliveries st) rid = Some k)"
proof -
  have log: ?thesis if "sameFences st st'" using that by (simp add: sameFences_def)
  show ?thesis
  proof (cases req)
    case (ReqClose rid repo m)
    with s obtain r where "MarkPreviewDeletingForDelivery wo rid repo m now st = Some (r, st')" by auto
    from closing_log [OF this] show ?thesis by (auto split: if_splits)
  next
    case ReqSchedule
    with s have "sameFences st st'" using ScheduleOne_fences [OF w] by auto
    then show ?thesis by (rule log)
  next
    case ReqReconcile
    with s obtain r where "Reconcile wo now st = Some (r, st')" by auto
    from log [OF Reconcile_fences [OF w this]] show ?thesis .
  next
    case (ReqHeartbeat aid token)
    with s have "sameFences st st'" using HeartbeatAttempt_fences by auto
    then show ?thesis by (rule log)
  next
    case (ReqComplete aid token success message)
    with s have "sameFences st st'" using completeAttempt_fences by (auto simp: CompleteAttempt_def)
    then show ?thesis by (rule log)
  next
    case (ReqFinish aid token success message digest logKey artefacts)
    with s have "sameFences st st'" using Finish_fences by auto
    then show ?thesis by (rule log)
  next
    case (ReqCancel jid)
    with s have "sameFences st st'" using CancelJob_fences by auto
    then show ?thesis by (rule log)
  next
    case ReqEnsure
    with s have "sameFences st st'" using foldO_sameFences [OF ensurePreview_fences] by (auto simp: EnsurePreviews_def)
    then show ?thesis by (rule log)
  qed (use p n s in \<open>auto simp: RegisterWorker_def HeartbeatWorker_def SetTenantLimit_def ObservePreview_def
    RecordCheck_def Let_def split: if_splits option.splits\<close>)
qed

section \<open>The machine with its history of submissions\<close>

text \<open>The random identifiers of this call are not those of a pipeline that a delivery still names.\<close>

definition unissued :: "World \<Rightarrow> Store \<Rightarrow> bool" where
  "unissued w st \<longleftrightarrow> (\<forall>rid n. map_of (deliveries st) rid \<noteq> Some (newID ''pl'' (draw w n)))"

fun submissionsOf :: "Request \<Rightarrow> Submission list" where
  "submissionsOf (ReqSubmit sub) = [sub]"
| "submissionsOf req = []"

inductive served :: "Json \<Rightarrow> AccessConfig \<Rightarrow> Config \<Rightarrow> Submission list \<Rightarrow> Store \<Rightarrow> bool"
  for js access c where
  start: "served js access c [] (New c)"
| step: "served js access c subs st \<Longrightarrow> fresh w st \<Longrightarrow> unissued w st \<Longrightarrow> policed access req \<Longrightarrow>
    serve w js now req st = Some st' \<Longrightarrow> served js access c (submissionsOf req @ subs) st'"

lemma served_reachable: "served js access c subs st \<Longrightarrow> reachable (policed access) c st"
proof (induction rule: served.induct)
  case (step subs st w req now st')
  show ?case by (rule reachable_serve [OF step.IH step.hyps(2,4,5)])
qed (rule reachable.start)

definition recorded :: "Json \<Rightarrow> Submission list \<Rightarrow> Store \<Rightarrow> bool" where
  "recorded js subs st \<longleftrightarrow> map_of (pipelines st) [] = None \<and>
     (\<forall>rid k p. map_of (deliveries st) rid = Some k \<longrightarrow> map_of (pipelines st) k = Some p \<longrightarrow>
        (\<exists>a \<in> set subs. map_of (requestHashes st) rid = Some (digestOf js a) \<and> sub_Tenant a = pl_Tenant p))"

text \<open>No pipeline is new or has changed hands.\<close>

definition sameOwners :: "Store \<Rightarrow> Store \<Rightarrow> bool" where
  "sameOwners st st' \<longleftrightarrow> (\<forall>k p. map_of (pipelines st') k = Some p \<longrightarrow>
     (\<exists>p0. map_of (pipelines st) k = Some p0 \<and> pl_Tenant p0 = pl_Tenant p))"

lemma sameOwners_refl [simp]: "sameOwners st st"
  by (simp add: sameOwners_def)

lemma sameOwners_trans: "sameOwners a b \<Longrightarrow> sameOwners b c \<Longrightarrow> sameOwners a c"
  unfolding sameOwners_def by metis

lemma plCore_tenant: "plCore p = plCore q \<Longrightarrow> pl_Tenant p = pl_Tenant q"
  by (cases p; cases q) (simp add: plCore_def)

lemma advance_owners:
  assumes "advance st st'"
  shows "sameOwners st st'"
  unfolding sameOwners_def
proof (intro allI impI)
  fix k p assume p: "map_of (pipelines st') k = Some p"
  have "map_option plCore (map_of (pipelines st') k) = map_option plCore (map_of (pipelines st) k)"
    using assms by (simp add: advance_def sameCore_def)
  with p obtain p0 where "map_of (pipelines st) k = Some p0" "plCore p = plCore p0"
    by (cases "map_of (pipelines st) k") auto
  with plCore_tenant show "\<exists>p0. map_of (pipelines st) k = Some p0 \<and> pl_Tenant p0 = pl_Tenant p" by metis
qed

lemma ScheduleOne_owners:
  assumes w: "wellFormed st" and f: "fresh wo st" and s: "ScheduleOne wo now st = Some (r, st')"
  shows "sameOwners st st'"
  using w
proof (cases rule: ScheduleOne_cases [where wo = wo and now = now])
  case (nowork st1 n st2)
  with s sameOwners_trans [OF advance_owners [OF nowork(3)] advance_owners [OF sameReasons_advance [OF nowork(4)]]]
  show ?thesis by simp
next
  case (lease st1 n ts tenant pre jid s1 job wk l st2)
  have f1: "fresh wo st1" using f lease(3) fresh_sameCore [of st st1 wo] by (simp add: advance_def)
  note L = leased_state [OF lease(2) f1 lease(4)]
  note X = issueLease_lookup [OF L(1) L(2) L(6) L(5)]
  have "sameReasons st1 s1" using lease(4) by (simp add: leased_def)
  from sameOwners_trans [OF advance_owners [OF lease(3)] advance_owners [OF sameReasons_advance [OF this]]]
  have "sameOwners st s1" .
  moreover have "sameOwners s1 st2"
    unfolding sameOwners_def
  proof (intro allI impI)
    fix k p assume "map_of (pipelines st2) k = Some p"
    then obtain p0 where "map_of (pipelines s1) k = Some p0" "plCore p = plCore p0" by (auto simp: X(4))
    with plCore_tenant show "\<exists>p0. map_of (pipelines s1) k = Some p0 \<and> pl_Tenant p0 = pl_Tenant p" by metis
  qed
  ultimately have "sameOwners st st2" by (rule sameOwners_trans)
  with lease(5) s show ?thesis by simp
qed

lemma serve_owners:
  assumes w: "wellFormed st" and f: "fresh wo st" and s: "serve wo js now req st = Some st'"
    and n: "requestSpec req = None"
  shows "sameOwners st st'"
  using w f s
proof (cases rule: serve_kind)
  case advance
  then show ?thesis by (rule advance_owners)
next
  case (grow spec)
  with n show ?thesis by simp
next
  case (workers ws)
  then show ?thesis by (simp add: sameOwners_def)
next
  case (schedule r)
  then show ?thesis using ScheduleOne_owners [OF w f] by blast
next
  case (shrink s)
  have "sameOwners s st'" using shrink(3) by (auto simp: shrinks_def sameOwners_def)
  with advance_owners [OF shrink(1)] show ?thesis by (rule sameOwners_trans)
qed

lemma recorded_sub:
  assumes r: "recorded js subs st" and o: "sameOwners st st'" and h: "requestHashes st' = requestHashes st"
    and d: "\<And>rid k. map_of (deliveries st') rid = Some k \<Longrightarrow> k = [] \<or> map_of (deliveries st) rid = Some k"
    and s: "set subs \<subseteq> set subs'"
  shows "recorded js subs' st'"
proof -
  have none: "map_of (pipelines st') [] = None"
    using r o unfolding recorded_def sameOwners_def by (metis option.distinct(1) option.exhaust)
  have "\<exists>a \<in> set subs'. map_of (requestHashes st') rid = Some (digestOf js a) \<and> sub_Tenant a = pl_Tenant p"
    if k: "map_of (deliveries st') rid = Some k" "map_of (pipelines st') k = Some p" for rid k p
  proof -
    have "k \<noteq> []" using k(2) none by auto
    with d [OF k(1)] have "map_of (deliveries st) rid = Some k" by simp
    moreover obtain p0 where "map_of (pipelines st) k = Some p0" "pl_Tenant p0 = pl_Tenant p"
      using o k(2) unfolding sameOwners_def by blast
    ultimately show ?thesis using r h s unfolding recorded_def by (metis subsetD)
  qed
  with none show ?thesis by (simp add: recorded_def)
qed

text \<open>Recording a delivery under the digest of a submission.\<close>

lemma recorded_delivery:
  assumes r: "recorded js subs st" and o: "sameOwners st st'"
    and d: "deliveries st' = AList.update (sub_RequestID sub) k (deliveries st)"
      "requestHashes st' = AList.update (sub_RequestID sub) (digestOf js sub) (requestHashes st)"
    and p: "\<And>p. map_of (pipelines st') k = Some p \<Longrightarrow> pl_Tenant p = sub_Tenant sub"
  shows "recorded js (sub # subs) st'"
proof -
  have "map_of (pipelines st') [] = None"
    using r o unfolding recorded_def sameOwners_def by (metis option.distinct(1) option.exhaust)
  moreover have "\<exists>a \<in> set (sub # subs). map_of (requestHashes st') rid = Some (digestOf js a) \<and> sub_Tenant a = pl_Tenant q"
    if q: "map_of (deliveries st') rid = Some i" "map_of (pipelines st') i = Some q" for rid i q
  proof (cases "rid = sub_RequestID sub")
    case True
    with q d p show ?thesis by simp
  next
    case False
    obtain q0 where "map_of (pipelines st) i = Some q0" "pl_Tenant q0 = pl_Tenant q"
      using o q(2) unfolding sameOwners_def by blast
    moreover have "map_of (deliveries st) rid = Some i" "map_of (requestHashes st') rid = map_of (requestHashes st) rid"
      using False q(1) d by simp_all
    ultimately show ?thesis using r unfolding recorded_def by (metis list.set_intros(2))
  qed
  ultimately show ?thesis by (simp add: recorded_def)
qed

lemma accepted_deliveries:
  assumes "accepted w input hash previous now st st2"
  shows "deliveries st2 = AList.update (sub_RequestID input) [] (deliveries st)"
    and "requestHashes st2 = AList.update (sub_RequestID input) hash (requestHashes st)"
proof -
  let ?cur = "nextPR input previous" and ?key = "previewKey (sub_Repo input) (sub_PRNumber input)"
  obtain st1 where st1: "(if sub_PRNumber input > 0 then supersede w input ?cur now st else Some st) = Some st1"
      "st2 = incAccepted (recordDelivery (sub_RequestID input) [] hash st1)"
    using assms unfolding accepted_def by blast
  have "deliveries st1 = deliveries st \<and> requestHashes st1 = requestHashes st"
  proof (cases "sub_PRNumber input > 0")
    case True
    with st1(1) obtain s where "foldO (cancelIfOpen (sub_Repo input) (sub_PRNumber input) now) (visitPipelines w 1)
          (st\<lparr>prStates := AList.update ?key ?cur (prStates st)\<rparr>) = Some s"
        "deliveries st1 = deliveries s" "requestHashes st1 = requestHashes s"
      by (auto simp: supersede_def Let_def bind_eq_Some_conv)
    with cancelAll_fences [OF this(1)] show ?thesis by (simp add: sameFences_def)
  qed (use st1 in simp)
  with st1(2) show "deliveries st2 = AList.update (sub_RequestID input) [] (deliveries st)"
    "requestHashes st2 = AList.update (sub_RequestID input) hash (requestHashes st)"
    by (simp_all add: recordDelivery_def)
qed

text \<open>The identifier of a new pipeline is the one drawn.\<close>

lemma created_key:
  assumes a: "accepted w input hash previous now st st2" and c: "\<not> sub_Closed input"
    and e: "acceptEvent w input hash configHash previous order now st = Some (Inr (v, False), st')"
  shows "map_of (deliveries st') (sub_RequestID input) = Some (newID ''pl'' (draw w 0))"
proof -
  have k: "fst (createPipelineLocked (draw w) t r g tr n spec order now st2) = newID ''pl'' (draw w 0)" for t r g tr n spec
    by (simp add: createPipelineLocked_def Let_def split: prod.split)
  from e c show ?thesis
    using k [of "sub_Tenant input" "sub_Repo input" "sub_CommitSHA input" "sub_Trigger input" "sub_PRNumber input" "sub_Spec input"]
    by (auto simp: acceptEvent_eq [OF a] Let_def bind_eq_Some_conv split: option.splits prod.splits if_splits)
qed

lemma submitNew_recorded:
  assumes w: "wellFormed st" and f: "fresh wo st" and u: "unissued wo st" and r: "recorded js subs st"
    and val: "\<not> sub_Closed sub \<Longrightarrow> Validate (sub_Spec sub) = Inr order"
    and e: "submitNew wo sub (digestOf js sub) configHash order now st = Some (x, st')"
  shows "recorded js (sub # subs) st'"
  using e
proof (cases rule: submitNew_cases)
  case stale
  show ?thesis
    by (rule recorded_delivery [OF r, of _ _ "[]"]) (use r in \<open>auto simp: stale recordDelivery_def sameOwners_def recorded_def\<close>)
next
  case full
  then show ?thesis using recorded_sub [OF r sameOwners_refl refl, of "sub # subs"] by auto
next
  case (same k p v)
  have "pl_ID p = k" using refs_pipeline [OF wellFormed_refs [OF w] same(1)] by (simp add: pipelineRefs_def)
  with same(1,2) show ?thesis
    by (intro recorded_delivery [OF r _ same(10,11)]) (auto simp: same(6) sameOwners_def sameRevision_def)
next
  case event
  let ?in = "timed now sub"
  have val': "\<not> sub_Closed ?in \<longrightarrow> Validate (sub_Spec ?in) = Inr order" using val by simp
  have acc: "recorded js (sub # subs) s" "deliveries s = AList.update (sub_RequestID sub) [] (deliveries st)"
      "requestHashes s = AList.update (sub_RequestID sub) (digestOf js sub) (requestHashes st)"
    if a: "accepted wo ?in (digestOf js sub) prev now st s" "advance st s" for prev s
  proof -
    show d: "deliveries s = AList.update (sub_RequestID sub) [] (deliveries st)"
      "requestHashes s = AList.update (sub_RequestID sub) (digestOf js sub) (requestHashes st)"
      using accepted_deliveries [OF a(1)] by simp_all
    have o: "sameOwners st s" by (rule advance_owners [OF a(2)])
    have "map_of (pipelines s) [] = None"
      using r o unfolding recorded_def sameOwners_def by (metis option.distinct(1) option.exhaust)
    then show "recorded js (sub # subs) s" by (intro recorded_delivery [OF r o d]) simp
  qed
  from acceptEvent_cases [OF w f val' event(3)] show ?thesis
  proof cases
    case (1 s)
    with acc(1) show ?thesis by blast
  next
    case (2 s k p v)
    note A = acc [OF 2(1,3)]
    show ?thesis
    proof (rule recorded_delivery [OF r])
      show "sameOwners st st'" using advance_owners [OF 2(3)] 2(11) by (simp add: sameOwners_def)
      show "deliveries st' = AList.update (sub_RequestID sub) k (deliveries st)" using 2(11) A(2) by simp
      show "requestHashes st' = AList.update (sub_RequestID sub) (digestOf js sub) (requestHashes st)" using 2(11) A(3) by simp
      show "map_of (pipelines st') k = Some q \<Longrightarrow> pl_Tenant q = sub_Tenant sub" for q
        using 2(6,8,11) by (simp add: sameRevision_def)
    qed
  next
    case (3 s k p jl v)
    note A = acc [OF 3(1,3)] and X = extended_lookup(1) [OF 3(5)]
    have "map_of (deliveries st') (sub_RequestID ?in) = Some (newID ''pl'' (draw wo 0))"
      by (rule created_key [OF 3(1,4)]) (use event(3) 3(8) in simp)
    then have k: "k = newID ''pl'' (draw wo 0)" using 3(10) by simp
    have d: "deliveries st' = AList.update (sub_RequestID sub) k (AList.update (sub_RequestID sub) [] (deliveries st))"
      using 3(10) A(2) by simp
    have "map_of (pipelines st') [] = None" using A(1) X [of "[]"] k by (simp add: recorded_def newID_def)
    moreover have "\<exists>a \<in> set (sub # subs). map_of (requestHashes st') rid = Some (digestOf js a) \<and> sub_Tenant a = pl_Tenant q"
      if q: "map_of (deliveries st') rid = Some i" "map_of (pipelines st') i = Some q" for rid i q
    proof (cases "rid = sub_RequestID sub")
      case True
      with q d X [of i] 3(6,11) A(3) show ?thesis by (simp add: bornFrom_def)
    next
      case False
      then have old: "map_of (deliveries s) rid = Some i" "map_of (deliveries st) rid = Some i" using q(1) d A(2) by simp_all
      then have "i \<noteq> k" using u k unfolding unissued_def by blast
      with q(2) X [of i] have "map_of (pipelines s) i = Some q" by simp
      with A(1) old(1) 3(11) show ?thesis unfolding recorded_def by metis
    qed
    ultimately show ?thesis by (simp add: recorded_def)
  qed
qed

lemma Submit_recorded:
  assumes w: "wellFormed st" and f: "fresh wo st" and u: "unissued wo st" and r: "recorded js subs st"
    and s: "Submit wo js sub now st = Some (x, st')"
  shows "recorded js (sub # subs) st'"
proof -
  have keep: "recorded js (sub # subs) st'" if "st' = st \<or> st' = incDuplicate st"
    using that by (intro recorded_sub [OF r]) (auto simp: sameOwners_def)
  show ?thesis
  proof (cases x)
    case (Inl e)
    from s consider "st' = st \<or> st' = incDuplicate st" | order where "\<not> sub_Closed sub \<Longrightarrow> Validate (sub_Spec sub) = Inr order"
        "submitNew wo sub (digestOf js sub) (sha256Hex (js_Spec js (sub_Spec sub))) order now st = Some (x, st')"
      by (auto simp: Submit_def Let_def bind_eq_Some_conv split: if_splits sum.splits option.splits)
    then show ?thesis using keep submitNew_recorded [OF w f u r] by metis
  next
    case (Inr y)
    then obtain v dup where "Submit wo js sub now st = Some (Inr (v, dup), st')" using s by (cases y) simp
    then show ?thesis
    proof (cases rule: Submit_success)
      case (replay plID)
      with keep show ?thesis by simp
    next
      case (first order)
      then show ?thesis using submitNew_recorded [OF w f u r _ first(4)] by blast
    qed
  qed
qed

lemma served_recorded: "served js access c subs st \<Longrightarrow> recorded js subs st"
proof (induction rule: served.induct)
  case start
  show ?case by (simp add: recorded_def New_def)
next
  case (step subs st w req now st')
  have wf: "wellFormed st" by (rule reachable_wellFormed [OF served_reachable [OF step.hyps(1)]])
  show ?case
  proof (cases "\<exists>sub. req = ReqSubmit sub")
    case True
    then obtain sub where sub: "req = ReqSubmit sub" by blast
    with step.hyps(5) obtain x where "Submit w js sub now st = Some (x, st')" by auto
    from Submit_recorded [OF wf step.hyps(2,3) step.IH this] show ?thesis by (simp add: sub)
  next
    case False
    then have n: "req \<noteq> ReqSubmit sub" for sub by blast
    have spec: "requestSpec req = None" using step.hyps(4) False by (cases req) auto
    note log = serve_log [OF wf step.hyps(4,5) n]
    have "recorded js subs st'"
      by (rule recorded_sub [OF step.IH serve_owners [OF wf step.hyps(2,5) spec]]) (use log in auto)
    moreover have "submissionsOf req = []" using False by (cases req) auto
    ultimately show ?thesis by simp
  qed
qed

section \<open>What a submission is answered\<close>

text \<open>No earlier submission of another tenant has the digest of this one.\<close>

definition separated :: "Json \<Rightarrow> Submission list \<Rightarrow> Submission \<Rightarrow> bool" where
  "separated js subs sub \<longleftrightarrow>
     (\<forall>a \<in> set subs. sha256Hex (js_Submission js a) = sha256Hex (js_Submission js sub) \<longrightarrow> sub_Tenant a = sub_Tenant sub)"

text \<open>The answer is an empty view or a pipeline of the submission's tenant.\<close>

lemma Submit_answer:
  assumes w: "wellFormed st" and f: "fresh wo st" and r: "recorded js subs st" and p: "separated js subs sub"
    and s: "Submit wo js sub now st = Some (Inr (v, dup), st')"
  shows "v = zeroPipelineView \<or>
    (\<exists>k. GetPipeline st' k = Some (Inr v) \<and> pl_Tenant (view_Pipeline v) = sub_Tenant sub)"
proof -
  have view: "v = zeroPipelineView \<or> (\<exists>k. GetPipeline st' k = Some (Inr v) \<and> pl_Tenant (view_Pipeline v) = sub_Tenant sub)"
    if "pipelineViewLocked st' k = Some v" "\<And>q. map_of (pipelines st') k = Some q \<Longrightarrow> pl_Tenant q = sub_Tenant sub" for k
  proof (cases "map_of (pipelines st') k")
    case None
    with that(1) show ?thesis by (simp add: pipelineViewLocked_def)
  next
    case (Some q)
    with that(1) have "view_Pipeline v = q" by (auto simp: pipelineViewLocked_def bind_eq_Some_conv)
    moreover have "GetPipeline st' k = Some (Inr v)" using that(1) Some by (simp add: GetPipeline_def)
    ultimately show ?thesis using that(2) Some by blast
  qed
  from s show ?thesis
  proof (cases rule: Submit_success)
    case (replay plID)
    show ?thesis
    proof (rule view)
      have "pipelineViewLocked (incDuplicate st) plID = pipelineViewLocked st plID" by (rule pipelineView_cong) simp_all
      with replay show "pipelineViewLocked st' plID = Some v" by simp
    next
      fix q assume "map_of (pipelines st') plID = Some q"
      then have "map_of (pipelines st) plID = Some q" using replay(7) by simp
      then obtain a where a: "a \<in> set subs" "map_of (requestHashes st) (sub_RequestID sub) = Some (digestOf js a)"
          "sub_Tenant a = pl_Tenant q"
        using r replay(2) unfolding recorded_def by blast
      with replay(4) have "digestOf js a = digestOf js sub" by (simp add: getd_def)
      with p a show "pl_Tenant q = sub_Tenant sub" by (simp add: separated_def)
    qed
  next
    case (first order)
    then have val: "\<not> sub_Closed (timed now sub) \<longrightarrow> Validate (sub_Spec (timed now sub)) = Inr order" by auto
    from first(4) show ?thesis
    proof (cases rule: submitNew_cases)
      case (same k q v')
      have "pl_ID q = k" using refs_pipeline [OF wellFormed_refs [OF w] same(1)] by (simp add: pipelineRefs_def)
      with same(1-4) view [of k] show ?thesis by (simp add: same(6) sameRevision_def)
    next
      case event
      from acceptEvent_cases [OF w f val event(3)] show ?thesis
      proof cases
        case (2 s k q v')
        then have "map_of (pipelines st') k = Some q" by simp
        with 2(8-10) view [of k] show ?thesis by (simp add: sameRevision_def)
      next
        case (3 s k q jl v')
        with extended_lookup(1) [OF 3(5), of k] view [of k] show ?thesis by (simp add: bornFrom_def)
      qed simp
    qed simp_all
  qed
qed
end
