(* ===== verification/Isolation.thy ===== *)
theory Isolation
  imports ControlPlane Submissions
begin

text \<open>
  Tenants and workers are isolated at the API: what a tenant's request returns is the tenant's own, what
  it changes belongs to the tenant, and a worker only reads and changes its own attempts.
\<close>

section \<open>Only one tenant's work changes\<close>

definition untouched :: "string \<Rightarrow> Store \<Rightarrow> Store \<Rightarrow> bool" where
  "untouched t st st' \<longleftrightarrow>
     (\<forall>k p. map_of (pipelines st) k = Some p \<longrightarrow> pl_Tenant p \<noteq> t \<longrightarrow> map_of (pipelines st') k = Some p) \<and>
     (\<forall>k j. map_of (jobs st) k = Some j \<longrightarrow> job_Tenant j \<noteq> t \<longrightarrow> map_of (jobs st') k = Some j) \<and>
     (\<forall>k a j. map_of (attempts st) k = Some a \<longrightarrow> map_of (jobs st) (att_JobID a) = Some j \<longrightarrow> job_Tenant j \<noteq> t \<longrightarrow>
        map_of (attempts st') k = Some a)"

lemma untouched_refl [simp]: "untouched t st st"
  by (simp add: untouched_def)

lemma untouched_same:
  "pipelines st' = pipelines st \<Longrightarrow> jobs st' = jobs st \<Longrightarrow> attempts st' = attempts st \<Longrightarrow> untouched t st st'"
  by (simp add: untouched_def)

lemma untouched_trans: "untouched t a b \<Longrightarrow> untouched t b c \<Longrightarrow> untouched t a c"
  unfolding untouched_def by blast

lemma underPolicy_tenant:
  "underPolicy access st \<Longrightarrow> map_of (jobs st) i = Some j \<Longrightarrow> map_of (pipelines st) (job_PipelineID j) = Some p \<Longrightarrow>
     job_Tenant j = pl_Tenant p"
  by (simp add: underPolicy_def jobPolicy_def)

lemma cancelPipeline_untouched:
  assumes w: "wellFormed st" and u: "underPolicy access st" and p: "map_of (pipelines st) plID = Some p"
    and c: "cancelPipelineLocked plID now st = Some st'"
  shows "untouched (pl_Tenant p) st st'"
proof -
  let ?s = "setPipelineStatus plID StateCancelled st"
  have "base ?s" by (rule setPipelineStatus_base [OF wellFormed_base [OF w]])
  moreover have "\<exists>j. map_of (jobs ?s) k = Some j" if "k \<in> set (pl_JobIDs p)" for k
    using refs_job_of_pipeline [OF wellFormed_refs [OF w] p that] by auto
  ultimately obtain s1 where s1: "foldO (cancelJobWith writePipelineCancelled now) (pl_JobIDs p) ?s = Some s1"
      "cancelEffect writePipelineCancelled now (set (pl_JobIDs p)) ?s s1"
    using cancelJobs_effect [of writePipelineCancelled ?s "pl_JobIDs p" now] by auto
  have s': "jobs st' = jobs s1" "attempts st' = attempts s1" "pipelines st' = pipelines s1"
    using c p s1(1) by (auto simp: cancelPipelineLocked_def markPreviewDeleting_def split: option.splits if_splits)
  obtain js as ms where "s1 = ?s\<lparr>jobs := js, attempts := as, metrics := ms\<rparr>"
    using s1(2) unfolding cancelEffect_def by blast
  then have "pipelines s1 = pipelines ?s" by simp
  then have pl: "map_of (pipelines s1) k = map_of (pipelines st) k" if "k \<noteq> plID" for k
    using that by (simp add: setPipelineStatus_def)
  have own: "job_Tenant j = pl_Tenant p" if "k \<in> set (pl_JobIDs p)" "map_of (jobs st) k = Some j" for k j
  proof -
    from refs_job_of_pipeline [OF wellFormed_refs [OF w] p that(1)] that(2) have "job_PipelineID j = plID" by auto
    with underPolicy_tenant [OF u that(2)] p show ?thesis by simp
  qed
  show ?thesis
    unfolding untouched_def s'
  proof (intro conjI allI impI)
    fix k q assume "map_of (pipelines st) k = Some q" "pl_Tenant q \<noteq> pl_Tenant p"
    with p pl [of k] show "map_of (pipelines s1) k = Some q" by (cases "k = plID") auto
  next
    fix k j assume "map_of (jobs st) k = Some j" "job_Tenant j \<noteq> pl_Tenant p"
    with own s1(2) show "map_of (jobs s1) k = Some j" by (auto simp: cancelEffect_def)
  next
    fix k a j assume "map_of (attempts st) k = Some a" "map_of (jobs st) (att_JobID a) = Some j" "job_Tenant j \<noteq> pl_Tenant p"
    with own s1(2) show "map_of (attempts s1) k = Some a" by (auto simp: cancelEffect_def)
  qed
qed

lemma cancelIfOpen_untouched:
  assumes w: "wellFormed st" and u: "underPolicy access st" and c: "cancelIfOpen repo n now k st = Some st'"
    and r: "map_of (acc_Repositories access) repo = Some policy"
  shows "untouched (repo_Tenant policy) st st'"
proof (cases "map_of (pipelines st) k")
  case (Some p)
  have "pl_Tenant p = repo_Tenant policy" if "pl_Repo p = repo"
  proof -
    have "pipelinePolicy access p" using u Some by (simp add: underPolicy_def)
    with r that show ?thesis by (simp add: pipelinePolicy_def)
  qed
  with cancelPipeline_untouched [OF w u Some] c Some show ?thesis by (auto simp: cancelIfOpen_def split: if_splits)
qed (use c in \<open>simp add: cancelIfOpen_def\<close>)

lemma cancelAll_untouched:
  assumes "wellFormed st" "underPolicy access st" "foldO (cancelIfOpen repo n now) ks st = Some st'"
    and r: "map_of (acc_Repositories access) repo = Some policy"
  shows "untouched (repo_Tenant policy) st st'"
  using assms(1-3)
proof (induction ks arbitrary: st)
  case (Cons k ks)
  obtain s where s: "cancelIfOpen repo n now k st = Some s" "wellFormed s" "advance st s"
    using cancelIfOpen_ok [OF Cons.prems(1)] by blast
  have "underPolicy access s" by (rule advance_policy [OF Cons.prems(2,1) s(2,3)])
  with Cons s have "untouched (repo_Tenant policy) s st'" by simp
  with cancelIfOpen_untouched [OF Cons.prems(1,2) s(1) r] show ?case by (rule untouched_trans)
qed simp

lemma accepted_untouched:
  assumes w: "wellFormed st" and u: "underPolicy access st" and a: "accepted wo input digest previous now st st2"
    and r: "map_of (acc_Repositories access) (sub_Repo input) = Some policy"
  shows "untouched (repo_Tenant policy) st st2"
proof (cases "sub_PRNumber input > 0")
  case True
  let ?st0 = "st\<lparr>prStates := AList.update (previewKey (sub_Repo input) (sub_PRNumber input)) (nextPR input previous) (prStates st)\<rparr>"
  from a True obtain s where s: "foldO (cancelIfOpen (sub_Repo input) (sub_PRNumber input) now) (visitPipelines wo 1) ?st0 = Some s"
      "pipelines st2 = pipelines s" "jobs st2 = jobs s" "attempts st2 = attempts s"
    by (auto simp: accepted_def supersede_def recordDelivery_def Let_def bind_eq_Some_conv)
  have sw: "sameWork st ?st0" by (simp add: sameWork_def)
  have "wellFormed ?st0" by (rule sameWork_wellFormed [OF sw w])
  moreover have "underPolicy access ?st0" using u by (simp add: underPolicy_def)
  ultimately have "untouched (repo_Tenant policy) ?st0 s" using cancelAll_untouched s(1) r by blast
  with s show ?thesis by (simp add: untouched_def)
next
  case False
  with a show ?thesis by (auto simp: accepted_def recordDelivery_def intro: untouched_same)
qed

lemma extended_untouched: "extended st k p js st' \<Longrightarrow> untouched t st st'"
  using extended_lookup(1,2,3,4) [of st k p js st']
  by (auto simp: untouched_def extended_def split: option.splits)

lemma Submit_untouched:
  assumes w: "wellFormed st" and u: "underPolicy access st" and f: "fresh wo st"
    and r: "map_of (acc_Repositories access) (sub_Repo sub) = Some policy"
    and s: "Submit wo js sub now st = Some (r', st')"
  shows "untouched (repo_Tenant policy) st st'"
proof (cases "pipelines st' = pipelines st \<and> jobs st' = jobs st \<and> attempts st' = attempts st")
  case True
  then show ?thesis by (simp add: untouched_same)
next
  case False
  from s False obtain order where "submitNew wo sub (digestOf js sub) (sha256Hex (js_Spec js (sub_Spec sub))) order now st = Some (r', st')"
      "\<not> sub_Closed sub \<longrightarrow> Validate (sub_Spec sub) = Inr order"
    by (auto simp: Submit_def Let_def bind_eq_Some_conv split: if_splits sum.splits option.splits)
  then show ?thesis
  proof (cases rule: submitNew_cases [consumes 1])
    case event
    have v: "\<not> sub_Closed (timed now sub) \<longrightarrow> Validate (sub_Spec (timed now sub)) = Inr order"
      using \<open>\<not> sub_Closed sub \<longrightarrow> _\<close> by simp
    have a: "untouched (repo_Tenant policy) st st2" if "accepted wo (timed now sub) h prev now st st2" for h prev st2
      using accepted_untouched [OF w u that] r by simp
    from acceptEvent_cases [OF w f v event(3)] show ?thesis
    proof cases
      case (1 st2)
      with a show ?thesis by blast
    next
      case (2 st2 k p v)
      have "untouched (repo_Tenant policy) st2 st'" using 2 by (simp add: untouched_same)
      with a [OF 2(1)] show ?thesis by (rule untouched_trans)
    next
      case (3 st2 k p jl v)
      from untouched_trans [OF a [OF 3(1)] extended_untouched [OF 3(5)]] show ?thesis .
    qed
  qed (use False in \<open>simp_all add: recordDelivery_def\<close>)
qed

section \<open>Requests of a tenant\<close>

lemma jobCore_tenant: "jobCore i = jobCore j \<Longrightarrow> job_Tenant i = job_Tenant j"
  by (cases i; cases j) (simp add: jobCore_def)

lemma CancelJob_untouched:
  assumes w: "wellFormed st" and u: "underPolicy access st" and j: "map_of (jobs st) jid = Some j"
    and c: "CancelJob jid now st = Some (r, st')"
  shows "untouched (job_Tenant j) st st'"
proof (cases "terminal (job_Status j)")
  case False
  obtain p where p: "map_of (pipelines st) (job_PipelineID j) = Some p"
    by (rule refs_pipeline_of_job [OF wellFormed_refs [OF w] j])
  have "cancelPipelineLocked (job_PipelineID j) now st = Some st'"
    using c j False by (auto simp: CancelJob_def bind_eq_Some_conv)
  from cancelPipeline_untouched [OF w u p this] underPolicy_tenant [OF u j p] show ?thesis by simp
qed (use c j in \<open>simp add: CancelJob_def\<close>)

lemma cancelJobs_untouched:
  assumes "wellFormed st" "underPolicy access st" "cancelJobs now jids st = Some (r, st')"
    and "\<And>jid j. jid \<in> set jids \<Longrightarrow> map_of (jobs st) jid = Some j \<Longrightarrow> job_Tenant j = t"
  shows "untouched t st st'"
  using assms
proof (induction jids arbitrary: st)
  case (Cons jid jids)
  obtain x s where s: "CancelJob jid now st = Some (x, s)" "wellFormed s" "advance st s"
    using CancelJob_keeps [OF Cons.prems(1), of jid now] by (auto simp: keeps_def ok_def)
  have u: "underPolicy access s" by (rule advance_policy [OF Cons.prems(2,1) s(2,3)])
  have one: "untouched t st s"
  proof (cases "map_of (jobs st) jid")
    case None
    with s(1) show ?thesis by (simp add: CancelJob_def)
  next
    case (Some j)
    with CancelJob_untouched [OF Cons.prems(1,2) Some s(1)] Cons.prems(4) [OF _ Some] show ?thesis by simp
  qed
  show ?case
  proof (cases x)
    case (Inl e)
    with s(1) Cons.prems(3) one show ?thesis by simp
  next
    case (Inr j)
    have "untouched t s st'"
    proof (rule Cons.IH [OF s(2) u])
      show "cancelJobs now jids s = Some (r, st')" using Cons.prems(3) s(1) Inr by simp
      fix i k assume i: "i \<in> set jids" "map_of (jobs s) i = Some k"
      have "map_option jobCore (map_of (jobs s) i) = map_option jobCore (map_of (jobs st) i)"
        using s(3) by (simp add: advance_def sameCore_def)
      with i(2) obtain k0 where "map_of (jobs st) i = Some k0" "jobCore k = jobCore k0"
        by (cases "map_of (jobs st) i") auto
      with jobCore_tenant Cons.prems(4) i(1) show "job_Tenant k = t" by (metis list.set_intros(2))
    qed
    with one show ?thesis by (rule untouched_trans)
  qed
qed simp

lemma mapO_mem: "mapO f xs = Some ys \<Longrightarrow> y \<in> set ys \<Longrightarrow> \<exists>x \<in> set xs. f x = Some y"
  by (induction xs arbitrary: ys) (auto simp: bind_eq_Some_conv)

text \<open>A view shows one pipeline and its own jobs.\<close>

lemma view_tenant:
  assumes w: "wellFormed st" and u: "underPolicy access st" and g: "GetPipeline st k = Some (Inr v)"
    and j: "j \<in> set (view_Jobs v)"
  shows "job_Tenant j = pl_Tenant (view_Pipeline v) \<and> map_of (jobs st) (job_ID j) = Some j"
proof -
  from g obtain p where p: "map_of (pipelines st) k = Some p" "pipelineViewLocked st k = Some v"
    by (auto simp: GetPipeline_def bind_eq_Some_conv split: if_splits)
  then have v: "view_Pipeline v = p" "mapO (map_of (jobs st)) (pl_JobIDs p) = Some (view_Jobs v)"
    by (auto simp: pipelineViewLocked_def bind_eq_Some_conv)
  obtain i where i: "i \<in> set (pl_JobIDs p)" "map_of (jobs st) i = Some j" using mapO_mem [OF v(2) j] by blast
  have "job_PipelineID j = k" using refs_job_of_pipeline [OF wellFormed_refs [OF w] p(1) i(1)] i(2) by auto
  moreover have "job_ID j = i" using refs_job [OF wellFormed_refs [OF w] i(2)] by (simp add: jobRefs_def)
  ultimately show ?thesis using underPolicy_tenant [OF u i(2)] p(1) i(2) v(1) by simp
qed

lemma cancelJobs_advance:
  "wellFormed st \<Longrightarrow> cancelJobs now jids st = Some (r, st') \<Longrightarrow> wellFormed st' \<and> advance st st'"
proof (induction jids arbitrary: st)
  case (Cons jid jids)
  obtain x s where s: "CancelJob jid now st = Some (x, s)" "wellFormed s" "advance st s"
    using CancelJob_keeps [OF Cons.prems(1), of jid now] by (auto simp: keeps_def ok_def)
  with Cons.IH [OF s(2)] Cons.prems(2) advance_trans [OF s(3)] show ?case by (cases x) auto
qed simp

lemma view_core:
  assumes "advance st st'" "GetPipeline st k = Some (Inr v)" "GetPipeline st' k = Some (Inr v')"
  shows "pl_Tenant (view_Pipeline v') = pl_Tenant (view_Pipeline v)"
proof -
  have view: "map_of (pipelines s) k = Some (view_Pipeline x)" if "GetPipeline s k = Some (Inr x)" for s x
    using that by (auto simp: GetPipeline_def pipelineViewLocked_def bind_eq_Some_conv split: if_splits)
  have "map_option plCore (map_of (pipelines st') k) = map_option plCore (map_of (pipelines st) k)"
    using assms(1) by (simp add: advance_def sameCore_def)
  with view [OF assms(2)] view [OF assms(3)] show ?thesis by (auto dest: plCore_tenant)
qed

lemma CancelJob_tenant:
  assumes w: "wellFormed st" and m: "map_of (jobs st) jid = Some j" and c: "CancelJob jid now st = Some (Inr j', st')"
  shows "job_Tenant j' = job_Tenant j"
proof (cases "terminal (job_Status j)")
  case False
  with c m have j': "map_of (jobs st') jid = Some j'" by (auto simp: CancelJob_def bind_eq_Some_conv)
  have "advance st st'" using CancelJob_keeps [OF w, of jid now] c by (simp add: keeps_def)
  then have "map_option jobCore (map_of (jobs st') jid) = map_option jobCore (map_of (jobs st) jid)"
    by (simp add: advance_def sameCore_def)
  with j' m show ?thesis by (auto dest: jobCore_tenant)
qed (use c m in \<open>simp add: CancelJob_def\<close>)

text \<open>
  What a reply may show to tenant \<open>t\<close>. A submission is answered with an empty view when its delivery has no
  pipeline, and else with a pipeline and its jobs.
\<close>

fun visible :: "string \<Rightarrow> Content \<Rightarrow> bool" where
  "visible t (Pipelines ps) \<longleftrightarrow> (\<forall>p \<in> set ps. pl_Tenant p = t)"
| "visible t (View v) \<longleftrightarrow> pl_Tenant (view_Pipeline v) = t \<and> (\<forall>j \<in> set (view_Jobs v). job_Tenant j = t)"
| "visible t (JobOut j) \<longleftrightarrow> job_Tenant j = t"
| "visible t (Previews vs) \<longleftrightarrow> (\<forall>v \<in> set vs. pv_Tenant v = t)"
| "visible t Failure \<longleftrightarrow> True"
| "visible t Done \<longleftrightarrow> True"
| "visible t Ignored \<longleftrightarrow> True"
| "visible t (Submitted v dup) \<longleftrightarrow> v = zeroPipelineView \<or>
     pl_Tenant (view_Pipeline v) = t \<and> (\<forall>j \<in> set (view_Jobs v). job_Tenant j = t)"
| "visible t (Blob b) \<longleftrightarrow> True"
| "visible t _ \<longleftrightarrow> False"

lemma PipelineList_tenant: "p \<in> set (PipelineList st t) \<Longrightarrow> t \<noteq> [] \<Longrightarrow> pl_Tenant p = t"
  by (auto simp: PipelineList_def Let_def dest: in_set_takeD split: if_splits)

lemma tenant_routes:
  assumes "Contains ('' '' @ roles route @ '' '') ('' '' @ ''tenant'' @ '' '')"
  shows "route \<in> {ListPipelines, SubmitPipeline, ShowPipeline, CancelPipeline, CancelOneJob, ListPreviews, GetObject}"
  using assms roles_of_route [of route] by (cases route) (auto simp: workerRoute_def)

lemma tenant_act:
  assumes s: "served js access conf subs st" "fresh w st" and g: "goodCall access c"
    and sep: "\<And>sub. cl_Input c = InSubmission sub \<Longrightarrow> separated js subs sub"
    and p: "cl_Principal c = p" "prin_Role p = ''tenant''" "prin_Tenant p = t" "t \<noteq> []"
    and route: "cl_Route c \<in> {ListPipelines, SubmitPipeline, ShowPipeline, CancelPipeline, CancelOneJob, ListPreviews}"
    and a: "act w js c now st = Some (Inr out, st')"
  shows "untouched t st st' \<and> visible t (oc_Content out)"
proof -
  note r = served_reachable [OF s(1)] s(2)
  have w: "wellFormed st" and u: "underPolicy access st" using policy.always [OF r(1)] by auto
  have al: "allowed p x \<longleftrightarrow> x = t" for x using p by (auto simp: allowed_def)
  note cases = route [simplified]
  from cases show ?thesis
  proof (elim disjE)
    assume c: "cl_Route c = ListPipelines"
    with a p have "out = replying (Pipelines (PipelineList st t))" "st' = st" by (auto simp: act_def)
    with PipelineList_tenant p(4) show ?thesis by (auto simp: replying_def)
  next
    assume c: "cl_Route c = SubmitPipeline"
    with g p al obtain sub where sub: "cl_Input c = InSubmission sub" "policySubmission access sub" "sub_Tenant sub = t"
      by (auto simp: goodCall_def)
    then obtain pol where pol: "map_of (acc_Repositories access) (sub_Repo sub) = Some pol" "repo_Tenant pol = t"
      by (auto simp: policySubmission_def)
    have "submitAct w js sub now st = Some (Inr out, st')" using a c sub by (simp add: act_def)
    then obtain v dup where s: "Submit w js sub now st = Some (Inr (v, dup), st')"
      "out = (replying (Submitted v dup))\<lparr>oc_Status := if dup then 200 else 201\<rparr>" by (rule submitAct_success)
    have "serve w js now (ReqSubmit sub) st = Some st'" using s(1) by simp
    from reachable_serve [OF r _ this] have "reachable (policed access) conf st'" using sub(2) by simp
    then have s': "wellFormed st'" "underPolicy access st'" using policy.always by auto
    have "visible t (Submitted v dup)"
      using Submit_answer [OF w r(2) served_recorded [OF \<open>served js access conf subs st\<close>] sep [OF sub(1)] s(1)]
        view_tenant [OF s'] sub(3) by fastforce
    with Submit_untouched [OF w u r(2) pol(1) s(1)] pol(2) s(2) show ?thesis by (simp add: replying_def)
  next
    assume c: "cl_Route c = ShowPipeline"
    with a p have "showAct p (cl_ID c) st = Some (Inr out, st')" by (simp add: act_def)
    then obtain v where "GetPipeline st (cl_ID c) = Some (Inr v)" "pl_Tenant (view_Pipeline v) = t" "out = replying (View v)" "st' = st"
      by (rule showAct_success) (simp add: al)
    with view_tenant [OF w u] show ?thesis by (auto simp: replying_def)
  next
    assume c: "cl_Route c = CancelPipeline"
    with a p have "cancelAct p (cl_ID c) now st = Some (Inr out, st')" by (simp add: act_def)
    then obtain v v' where v: "GetPipeline st (cl_ID c) = Some (Inr v)" "pl_Tenant (view_Pipeline v) = t"
      "cancelJobs now (map job_ID (view_Jobs v)) st = Some (Inr (), st')" "GetPipeline st' (cl_ID c) = Some (Inr v')" "out = replying (View v')"
      by (rule cancelAct_success) (simp add: al)
    have own: "job_Tenant j = t" if "jid \<in> set (map job_ID (view_Jobs v))" "map_of (jobs st) jid = Some j" for jid j
      using view_tenant [OF w u v(1)] v(2) that by auto
    from cancelJobs_untouched [OF w u v(3) own] have un: "untouched t st st'" .
    note ad = conjunct1 [OF cancelJobs_advance [OF w v(3)]] conjunct2 [OF cancelJobs_advance [OF w v(3)]]
    have u': "underPolicy access st'" by (rule advance_policy [OF u w ad])
    have "pl_Tenant (view_Pipeline v') = t" using view_core [OF ad(2) v(1,4)] v(2) by simp
    with view_tenant [OF ad(1) u' v(4)] un v(5) show ?thesis by (auto simp: replying_def)
  next
    assume c: "cl_Route c = CancelOneJob"
    with a p have "cancelJobAct p (cl_ID c) now st = Some (Inr out, st')" by (simp add: act_def)
    then obtain j j' where j: "JobView st (cl_ID c) = Inr j" "job_Tenant j = t" "CancelJob (cl_ID c) now st = Some (Inr j', st')" "out = replying (JobOut j')"
      by (rule cancelJobAct_success) (simp add: al)
    have m: "map_of (jobs st) (cl_ID c) = Some j" using j(1) by (auto simp: JobView_def split: option.splits)
    have "job_Tenant j' = t" using CancelJob_tenant [OF w m j(3)] j(2) by simp
    with CancelJob_untouched [OF w u m j(3)] j(2,4) show ?thesis by (simp add: replying_def)
  next
    assume c: "cl_Route c = ListPreviews"
    with a p have "out = replying (Previews (previewsFor p st))" "st' = st" by (auto simp: act_def)
    with al p(2) show ?thesis by (auto simp: replying_def previewsFor_def)
  qed
qed

text \<open>An object is served to a tenant from the key that an attempt of the tenant's own has recorded.\<close>

definition ownKey :: "string \<Rightarrow> Store \<Rightarrow> string \<Rightarrow> bool" where
  "ownKey t st key \<longleftrightarrow> (\<exists>aid a j p name. AttemptView st aid = Some (Inr (a, j, p)) \<and> pl_Tenant p = t \<and>
     key = objectKey a name)"

lemma tenant_object:
  assumes p: "prin_Role (cl_Principal c) = ''tenant''" and route: "cl_Route c = GetObject"
    and a: "attemptRoute c now st = Some (Inr out, st')"
  shows "st' = st \<and> ownKey (prin_Tenant (cl_Principal c)) st (oc_Key out)"
proof -
  from a obtain x j q where v: "AttemptView st (cl_ID c) = Some (Inr (x, j, q))"
    "attemptAct c x j q now st = Some (Inr out, st')" "allowed (cl_Principal c) (pl_Tenant q)"
    by (rule attemptRoute_success) (simp add: p)
  from v(2) have "out = (replying Done)\<lparr>oc_Key := objectKey x (cl_Name c), oc_Pipeline := Some q\<rparr>" "st' = st"
    by (auto simp: attemptAct_def route split: if_splits)
  moreover have "pl_Tenant q = prin_Tenant (cl_Principal c)" using v(3) p by (auto simp: allowed_def)
  ultimately show ?thesis using v(1) unfolding ownKey_def replying_def by (metis Outcome.select_convs(4) Outcome.update_convs(3,4))
qed

text \<open>What tenant \<open>t\<close> is told and what it has changed.\<close>

definition tenantView :: "Services \<Rightarrow> string \<Rightarrow> Store \<Rightarrow> Reply \<Rightarrow> Store \<Rightarrow> bool" where
  "tenantView sv t st rep st' \<longleftrightarrow> untouched t st st' \<and> visible t (reply_Content rep) \<and>
     (\<forall>b. reply_Content rep = Blob b \<longrightarrow> (\<exists>key. ownKey t st key \<and> rep = getReply sv key))"

lemma tenantView_quiet [simp]: "quiet rep \<Longrightarrow> tenantView sv t st rep st"
  by (auto simp: tenantView_def quiet_def)

lemma getReply_content: "reply_Content (getReply sv key) = Failure \<or> (\<exists>b. reply_Content (getReply sv key) = Blob b)"
  by (auto simp: getReply_def split: option.split sum.split)

lemma act_noBlob:
  assumes "act w js c now st = Some (Inr out, st')"
  shows "oc_Content out \<noteq> Blob b"
proof -
  have o: "outcome g x = Inr out \<Longrightarrow> (\<And>y. g y \<noteq> Blob b) \<Longrightarrow> oc_Content out \<noteq> Blob b" for g x
    by (auto simp: outcome_def replying_def split: sum.splits)
  have s: "submitAct w js sub now st = Some (Inr out, st') \<Longrightarrow> oc_Content out \<noteq> Blob b" for sub
    by (erule submitAct_success) (simp add: replying_def)
  have v: "showAct p k st = Some (Inr out, st') \<Longrightarrow> oc_Content out \<noteq> Blob b" for p k
    by (erule showAct_success) (simp add: replying_def)
  have k: "cancelAct p k now st = Some (Inr out, st') \<Longrightarrow> oc_Content out \<noteq> Blob b" for p k
    by (erule cancelAct_success) (simp add: replying_def)
  have j: "cancelJobAct p k now st = Some (Inr out, st') \<Longrightarrow> oc_Content out \<noteq> Blob b" for p k
    by (erule cancelJobAct_success) (simp add: replying_def)
  show ?thesis
    using assms unfolding act_def Let_def
    by (cases "cl_Route c"; cases "cl_Input c")
      (auto simp: replying_def bind_eq_Some_conv case_prod_beta dest: o s v k j)
qed

lemma tenant_callback:
  assumes s: "served js access conf subs st" "fresh w st" and g: "goodCall access c"
    and sep: "\<And>sub. cl_Input c = InSubmission sub \<Longrightarrow> separated js subs sub"
    and p: "cl_Principal c = p" "prin_Role p = ''tenant''" "prin_Tenant p = t" "t \<noteq> []"
    and route: "Contains ('' '' @ roles (cl_Route c) @ '' '') ('' '' @ prin_Role p @ '' '')"
    and a: "callback w js c now st = Some (Inr out, st')"
  shows "tenantView sv t st (reply sv c body out) st'"
proof -
  consider (get) "cl_Route c = GetObject"
    | (other) "cl_Route c \<in> {ListPipelines, SubmitPipeline, ShowPipeline, CancelPipeline, CancelOneJob, ListPreviews}"
    using tenant_routes [of "cl_Route c"] route p(2) by auto
  then show ?thesis
  proof cases
    case get
    then have no: "\<not> (cl_Route c = WorkerHeartbeat \<or> cl_Route c = WorkerAssignments)" "attemptsRoute (cl_Route c)"
      by (simp_all add: attemptsRoute_def)
    then have "attemptRoute c now st = Some (Inr out, st')" using a unfolding callback_def pattern_attempts by simp
    with tenant_object [OF _ get] p have o: "st' = st" "ownKey t st (oc_Key out)" by auto
    have "reply sv c body out = getReply sv (oc_Key out)" by (simp add: reply_def get)
    with o getReply_content [of sv "oc_Key out"] show ?thesis by (auto simp: tenantView_def)
  next
    case other
    then have no: "\<not> (cl_Route c = WorkerHeartbeat \<or> cl_Route c = WorkerAssignments)" "\<not> attemptsRoute (cl_Route c)"
      by (auto simp: attemptsRoute_def)
    then have "act w js c now st = Some (Inr out, st')" using a unfolding callback_def pattern_attempts by simp
    from tenant_act [OF s g sep p other this] have 1: "untouched t st st'" "visible t (oc_Content out)" by simp_all
    have 2: "reply sv c body out = Reply (oc_Status out) (oc_Content out)" using other by (auto simp: reply_def)
    have "oc_Content out \<noteq> Blob b" for b
      using \<open>act w js c now st = _\<close> act_noBlob by blast
    with 1 2 show ?thesis by (simp add: tenantView_def)
  qed
qed

section \<open>Requests of a worker\<close>

text \<open>
  Attempts of other workers: no other worker gets or loses one, and each is unchanged, unless it was
  running in a pipeline that fails by this request because an attempt of worker \<open>wid\<close> ends in failure;
  then it is cancelled, with its results as they were.
\<close>

definition failedBy :: "string \<Rightarrow> Store \<Rightarrow> Store \<Rightarrow> string \<Rightarrow> bool" where
  "failedBy wid st st' plID \<longleftrightarrow>
     (\<exists>k b b' j. map_of (attempts st) k = Some b \<and> att_WorkerID b = wid \<and> active (att_Status b) \<and>
        map_of (attempts st') k = Some b' \<and> att_Status b' = StateFailed \<and>
        map_of (jobs st) (att_JobID b) = Some j \<and> job_PipelineID j = plID) \<and>
     (\<exists>p p'. map_of (pipelines st) plID = Some p \<and> \<not> terminal (pl_Status p) \<and>
        map_of (pipelines st') plID = Some p' \<and> pl_Status p' = StateFailed)"

definition bystanders :: "string \<Rightarrow> Store \<Rightarrow> Store \<Rightarrow> bool" where
  "bystanders wid st st' \<longleftrightarrow>
     (\<forall>k. map_of (attempts st) k = None \<longrightarrow> map_of (attempts st') k = None) \<and>
     (\<forall>k a. map_of (attempts st) k = Some a \<longrightarrow> att_WorkerID a \<noteq> wid \<longrightarrow>
        map_of (attempts st') k = Some a \<or>
        active (att_Status a) \<and>
        (\<exists>now. map_of (attempts st') k = Some (a\<lparr>att_Status := StateCancelled, att_CompletedAt := now\<rparr>)) \<and>
        (\<exists>j. map_of (jobs st) (att_JobID a) = Some j \<and> failedBy wid st st' (job_PipelineID j)))"

fun assigned :: "string \<Rightarrow> Content \<Rightarrow> bool" where
  "assigned wid (Assignments ls) \<longleftrightarrow> (\<forall>l \<in> set ls. att_WorkerID (lease_Attempt l) = wid)"
| "assigned wid (AttemptOut a) \<longleftrightarrow> att_WorkerID a = wid"
| "assigned wid (WorkerOut w) \<longleftrightarrow> wk_ID w = wid"
| "assigned wid Failure \<longleftrightarrow> True"
| "assigned wid Done \<longleftrightarrow> True"
| "assigned wid Ignored \<longleftrightarrow> True"
| "assigned wid (SourceToken t) \<longleftrightarrow> True"
| "assigned wid (Stored a) \<longleftrightarrow> True"
| "assigned wid _ \<longleftrightarrow> False"

lemma bystanders_same [simp]: "attempts st' = attempts st \<Longrightarrow> bystanders wid st st'"
  by (simp add: bystanders_def)

lemma bystanders_own:
  assumes "map_of (attempts st) aid = Some a" "att_WorkerID a = wid" "attempts st' = mutate aid f (attempts st)"
  shows "bystanders wid st st'"
  using assms by (auto simp: bystanders_def)

lemma bystanders_from:
  assumes "bystanders wid s st'" "\<And>k. map_of (attempts st) k = None \<Longrightarrow> map_of (attempts s) k = None"
    and "\<And>k x. map_of (attempts st) k = Some x \<Longrightarrow> att_WorkerID x \<noteq> wid \<Longrightarrow> map_of (attempts s) k = Some x"
    and "jobs s = jobs st" "\<And>plID. failedBy wid s st' plID \<Longrightarrow> failedBy wid st st' plID"
  shows "bystanders wid st st'"
  using assms(1) unfolding bystanders_def assms(4) by (meson assms(2,3,5))

text \<open>What updating a pipeline does to attempts: nothing, or it fails the pipeline and cancels those of its jobs.\<close>

lemma updatePipeline_attempts:
  assumes b: "base st" and p: "map_of (pipelines st) plID = Some p" and u: "updatePipelineLocked plID now st = Some st'"
  obtains (same) "attempts st' = attempts st"
  | (failed) "StateFailed \<in> statusesOf st p" "map_of (pipelines st') plID = Some (p\<lparr>pl_Status := StateFailed\<rparr>)"
    "\<And>k. map_of (attempts st') k = map_option
       (\<lambda>a. if active (att_Status a) \<and> att_JobID a \<in> set (pl_JobIDs p) then cancelledAttempt now a else a) (map_of (attempts st) k)"
proof -
  have r: "refs st" using b by (simp add: base_def)
  note scan = scanStatuses_pipeline [OF r p]
  show thesis
  proof (cases "StateFailed \<in> statusesOf st p")
    case True
    let ?st1 = "setPipelineStatus plID StateFailed st"
    have jobs: "\<exists>j. map_of (jobs ?st1) jid = Some j" if "jid \<in> set (pl_JobIDs p)" for jid
      using refs_job_of_pipeline [OF r p that] by (metis setPipelineStatus_simps(1))
    from cancelJobs_effect [OF cancelWrite_code(1) setPipelineStatus_base [OF b] jobs, of "pl_JobIDs p" now] obtain st2 where
      s2: "foldO (cancelJobWith writeCancelled now) (pl_JobIDs p) ?st1 = Some st2"
      and e: "cancelEffect writeCancelled now (set (pl_JobIDs p)) ?st1 st2" by blast
    have "st' = st2" using u True by (simp add: updatePipelineLocked_def p scan s2)
    moreover have "map_of (pipelines st2) plID = Some (p\<lparr>pl_Status := StateFailed\<rparr>)"
      using cancelEffect_pipelines [OF e] p by (simp add: map_of_setPipelineStatus)
    ultimately show ?thesis using failed [OF True] e by (simp add: cancelEffect_def)
  next
    case False
    have s: "attempts (setPipelineStatus plID s st) = attempts st" for s by simp
    have act: "attempts s' = attempts s" if "foldO (activateFor plID now) jids s = Some s'" for jids s s'
    proof (rule foldO_related [where f = "activateFor plID now" and R = "\<lambda>s s'. attempts s' = attempts s", OF _ _ _ that])
      show "activateFor plID now jid t = Some t' \<Longrightarrow> attempts t' = attempts t" for jid t t'
        by (auto simp: activateFor_def bind_eq_Some_conv dest: activatePreview_attempts split: option.splits)
    qed simp_all
    from u False have "attempts st' = attempts st"
      by (auto simp: updatePipelineLocked_def p scan s dest!: act split: if_splits)
    then show ?thesis by (rule same)
  qed
qed

lemma completeAttempt_others:
  assumes w: "wellFormed st" and h: "holdsLease st now aid token a" and own: "att_WorkerID a = wid"
    and c: "completeAttemptLocked aid token success message now st = Some (r, st')"
  shows "bystanders wid st st'"
proof -
  have b: "base st" by (rule wellFormed_base [OF w])
  have a: "map_of (attempts st) aid = Some a" "active (att_Status a)" using h by (simp_all add: holdsLease_def)
  obtain j where j: "map_of (jobs st) (att_JobID a) = Some j" "job_Status j = att_Status a"
      "now < att_LeaseExpires a" "timeSub now (att_CreatedAt a) < jobTimeout j"
    by (rule holdsLease_job [OF b h])
  obtain p where p: "map_of (pipelines st) (job_PipelineID j) = Some p"
    using refs_pipeline_of_job [OF wellFormed_refs [OF w] j(1)] by blast
  have nt: "\<not> terminal (job_Status j)" using j(2) a(2) active_not_terminal by simp
  note O = open_of_active_job [OF w j(1) nt p]
  let ?f = "\<lambda>a. a\<lparr>att_CompletedAt := now, att_ResultMessage := message, att_Status := wantedState success\<rparr>"
  let ?g = "\<lambda>j. j\<lparr>job_Status := wantedState success\<rparr>"
  let ?m = "if success then (metrics st)\<lparr>m_JobsCompleted := m_JobsCompleted (metrics st) + 1\<rparr>
    else (metrics st)\<lparr>m_JobsFailed := m_JobsFailed (metrics st) + 1\<rparr>"
  let ?mv = "moved ?f ?g ?m aid (att_JobID a) st"
  have mv: "mayMove st ?f ?g aid a j"
    using a j leasesOK_jobOK [OF _ j(1)] b
    by (auto simp: mayMove_def attCore_def jobCore_def jobOK_def wantedState_def base_def)
  have "job_Status j \<noteq> StateCancelled" "att_Status a \<noteq> wantedState success" using nt a(2) by (auto simp: wantedState_def)
  with c h a j have u: "updatePipelineLocked (job_PipelineID j) now ?mv = Some st'"
    by (auto simp: completeAttemptLocked_def holdsLease_def moved_def bind_eq_Some_conv not_le split: if_splits)
  define s where "s = ?mv"
  have pm: "map_of (pipelines s) (job_PipelineID j) = Some p" using p by (simp add: s_def moved_def)
  have am: "map_of (attempts s) k = (if k = aid then Some (?f a) else map_of (attempts st) k)" for k
    using a by (auto simp: s_def moved_def)
  have "base s" "statusesOf s p \<subseteq> insert (wantedState success) (statusesOf st p)"
    using moved_base [OF b mv] moved_statuses(2) [OF b mv p refl] by (simp_all add: s_def)
  note s = this
  from s(1) pm u [folded s_def] show ?thesis
  proof (cases rule: updatePipeline_attempts)
    case same
    then show ?thesis using am a own by (auto simp: bystanders_def)
  next
    case failed
    then have "\<not> success" using O(3) s(2) by (auto simp: wantedState_def)
    then have "map_of (attempts st') aid = Some (?f a)" "att_Status (?f a) = StateFailed"
      by (simp_all add: failed(3) am wantedState_def)
    with a own j(1) p O(1) failed(2) have cause: "failedBy wid st st' (job_PipelineID j)"
      unfolding failedBy_def by fastforce
    have "map_of (attempts st') k = Some x \<or> active (att_Status x) \<and>
        (\<exists>now. map_of (attempts st') k = Some (x\<lparr>att_Status := StateCancelled, att_CompletedAt := now\<rparr>)) \<and>
        (\<exists>j. map_of (jobs st) (att_JobID x) = Some j \<and> failedBy wid st st' (job_PipelineID j))"
      if x: "map_of (attempts st) k = Some x" "att_WorkerID x \<noteq> wid" for k x
    proof -
      obtain i where i: "map_of (jobs st) (att_JobID x) = Some i"
        by (rule refs_job_of_attempt [OF wellFormed_refs [OF w] x(1)])
      have "k \<noteq> aid" using x a own by auto
      then have eq: "map_of (attempts st') k =
          Some (if active (att_Status x) \<and> att_JobID x \<in> set (pl_JobIDs p) then cancelledAttempt now x else x)"
        by (simp add: failed(3) am x(1))
      show ?thesis
      proof (cases "active (att_Status x) \<and> att_JobID x \<in> set (pl_JobIDs p)")
        case True
        with refs_owner [OF wellFormed_refs [OF w] p i] have "job_PipelineID i = job_PipelineID j" by simp
        with True eq i cause show ?thesis by (auto simp: cancelledAttempt_def)
      qed (use eq in auto)
    qed
    moreover have "map_of (attempts st') k = None" if "map_of (attempts st) k = None" for k
      using that a by (auto simp: failed(3) am)
    ultimately show ?thesis unfolding bystanders_def by blast
  qed
qed

lemma Finish_others:
  assumes w: "wellFormed st" and h: "holdsLease st now aid token a" and own: "att_WorkerID a = wid"
    and f: "Finish aid token success message digest logKey artefacts now st = Some (r, st')"
  shows "bystanders wid st st'"
proof -
  let ?f = "\<lambda>a. a\<lparr>att_ResultDigest := digest, att_LogKey := logKey, att_Artefacts := artefacts\<rparr>"
  let ?st = "st\<lparr>attempts := mutate aid ?f (attempts st)\<rparr>"
  have a: "map_of (attempts st) aid = Some a" "active (att_Status a)" "att_LeaseToken a = token"
    using h by (simp_all add: holdsLease_def)
  obtain j where j: "map_of (jobs st) (att_JobID a) = Some j"
      "now < att_LeaseExpires a" "timeSub now (att_CreatedAt a) < jobTimeout j"
    by (rule holdsLease_job [OF wellFormed_base [OF w] h])
  have c: "completeAttemptLocked aid token success message now ?st = Some (r, st')"
    using f a j active_not_terminal [OF a(2)] by (simp add: Finish_def not_le)
  have "wellFormed ?st" by (rule wellFormed_attempts [OF w a(1)]) (simp_all add: attCore_def)
  moreover have "holdsLease ?st now aid token (?f a)" using h by (simp add: holdsLease_def due_def)
  ultimately have "bystanders wid ?st st'" by (rule completeAttempt_others [OF _ _ _ c]) (simp add: own)
  moreover have "failedBy wid ?st st' plID \<Longrightarrow> failedBy wid st st' plID" for plID
    using a own by (auto simp: failedBy_def split: if_splits)
  ultimately show ?thesis using a own by (intro bystanders_from [of wid ?st st' st]) auto
qed

lemma worker_attempt:
  assumes w: "wellFormed st" and v: "AttemptView st (cl_ID c) = Some (Inr (x, j, q))" and own: "att_WorkerID x = wid"
    and i: "cl_Route c \<in> {AttemptHeartbeat, AttemptComplete} \<longrightarrow> (\<exists>fin. cl_Input c = InCompletion fin)"
    and route: "cl_Route c \<in> {AttemptHeartbeat, AttemptComplete, SourceTokenRoute, PutObject}"
    and a: "attemptAct c x j q now st = Some (Inr out, st')"
  shows "bystanders wid st st' \<and> assigned wid (oc_Content out)"
proof -
  have x: "map_of (attempts st) (cl_ID c) = Some x"
    using v by (auto simp: AttemptView_def bind_eq_Some_conv split: option.splits)
  from route [simplified] show ?thesis
  proof (elim disjE)
    assume c: "cl_Route c = AttemptHeartbeat"
    with i obtain fin where fin: "cl_Input c = InCompletion fin" by auto
    let ?h = "holdsLease st now (cl_ID c) (fin_LeaseToken fin) x"
    from a c fin have o: "?h" "out = replying (AttemptOut (renewed (config st) now x))"
        "attempts st' = mutate (cl_ID c) (\<lambda>_. renewed (config st) now x) (attempts st)"
      by (auto simp: attemptAct_def HeartbeatAttempt_renewed [OF w x] outcome_def split: if_splits)
    have "bystanders wid st st'" by (rule bystanders_own [OF x own o(3)])
    with o(2) own show ?thesis by (simp add: replying_def renewed_def)
  next
    assume c: "cl_Route c = AttemptComplete"
    with i obtain fin where fin: "cl_Input c = InCompletion fin" by auto
    let ?F = "Finish (cl_ID c) (fin_LeaseToken fin) (fin_Success fin) (fin_Message fin) (fin_Digest fin)
              (fin_LogKey fin) (fin_Artefacts fin) now st"
    from a c fin obtain r where f: "?F = Some (r, st')" "outcome AttemptOut r = Inr out"
      by (auto simp: attemptAct_def bind_eq_Some_conv split: if_splits)
    then obtain y where y: "r = Inr y" "out = replying (AttemptOut y)" by (cases r) (auto simp: outcome_def)
    have "att_WorkerID y = wid \<and> bystanders wid st st'"
    proof (cases "holdsLease st now (cl_ID c) (fin_LeaseToken fin) x")
      case True
      from Finish_commit [OF w True, of "fin_Success fin" "fin_Message fin" "fin_Digest fin" "fin_LogKey fin" "fin_Artefacts fin"]
        f y own Finish_others [OF w True own f(1)] show ?thesis by (auto simp: committed_def)
    next
      case False
      from Finish_cases [OF w x False] f y own show ?thesis by (auto split: if_splits)
    qed
    then show ?thesis using y(2) by (simp add: replying_def)
  next
    assume c: "cl_Route c = SourceTokenRoute"
    with a show ?thesis by (auto simp: attemptAct_def replying_def split: if_splits)
  next
    assume c: "cl_Route c = PutObject"
    with a show ?thesis by (auto simp: attemptAct_def replying_def split: if_splits)
  qed
qed

lemma worker_routes:
  assumes "Contains ('' '' @ roles route @ '' '') ('' '' @ ''worker'' @ '' '')"
  shows "route \<in> {RegisterRoute, WorkerHeartbeat, WorkerAssignments, AttemptHeartbeat, AttemptComplete, SourceTokenRoute, PutObject}"
  using assms roles_of_route [of route] by (cases route) (auto simp: workerRoute_def)

lemma AssignedLeases_worker:
  assumes "AssignedLeases st wid = Some (Inr ls)" "l \<in> set ls"
  shows "att_WorkerID (lease_Attempt l) = wid"
proof -
  from assms(1) obtain as where as: "mapO (leaseOf st) (filter (\<lambda>a. att_WorkerID a = wid \<and> active (att_Status a)) (map snd (attempts st))) = Some as"
    "ls = sort_key (\<lambda>l. att_CreatedAt (lease_Attempt l)) as"
    by (auto simp: AssignedLeases_def bind_eq_Some_conv split: option.splits)
  with mapO_mem [OF as(1)] assms(2) show ?thesis by (fastforce simp: leaseOf_def bind_eq_Some_conv)
qed

lemma worker_callback:
  assumes r: "reachable (policed access) conf st" and g: "goodCall access c"
    and p: "prin_Worker (cl_Principal c) = Some wk" "prin_Role (cl_Principal c) = ''worker''"
    and route: "Contains ('' '' @ roles (cl_Route c) @ '' '') ('' '' @ prin_Role (cl_Principal c) @ '' '')"
    and a: "callback w js c now st = Some (Inr out, st')"
  shows "bystanders (wk_ID wk) st st' \<and> assigned (wk_ID wk) (oc_Content out)"
proof -
  have w: "wellFormed st" by (rule reachable_wellFormed [OF r])
  let ?W = "cl_Route c = WorkerHeartbeat \<or> cl_Route c = WorkerAssignments"
  consider (attempt) "cl_Route c \<in> {AttemptHeartbeat, AttemptComplete, SourceTokenRoute, PutObject}" | (worker) ?W | (register) "cl_Route c = RegisterRoute"
    using worker_routes [of "cl_Route c"] route p(2) by auto
  then show ?thesis
  proof cases
    case attempt
    then have "\<not> ?W" "attemptsRoute (cl_Route c)" by (auto simp: attemptsRoute_def)
    then have "attemptRoute c now st = Some (Inr out, st')" using a unfolding callback_def pattern_attempts by simp
    then obtain x j q where v: "AttemptView st (cl_ID c) = Some (Inr (x, j, q))"
      "attemptAct c x j q now st = Some (Inr out, st')" "att_WorkerID x = wk_ID wk"
      by (rule attemptRoute_success) (use p in simp)
    from worker_attempt [OF w v(1,3) _ attempt v(2)] g show ?thesis by (auto simp: goodCall_def)
  next
    case worker
    then have c: "wk_ID wk = cl_ID c" "act w js c now st = Some (Inr out, st')"
      using a p unfolding callback_def pattern_attempts by (auto split: if_splits)
    from worker show ?thesis
    proof
      assume "cl_Route c = WorkerHeartbeat"
      with c(2) show ?thesis by (auto simp: act_def HeartbeatWorker_def outcome_def replying_def split: option.splits)
    next
      assume "cl_Route c = WorkerAssignments"
      with c(2) obtain x where x: "AssignedLeases st (cl_ID c) = Some x" "outcome Assignments x = Inr out" "st' = st"
        by (auto simp: act_def bind_eq_Some_conv)
      then show ?thesis using AssignedLeases_worker c(1) by (cases x) (auto simp: outcome_def replying_def)
    qed
  next
    case register
    then have "callback w js c now st = act w js c now st" unfolding callback_def pattern_attempts by (simp add: attemptsRoute_def)
    with register a p show ?thesis
      by (auto simp: act_def RegisterWorker_def Let_def outcome_def replying_def split: if_splits)
  qed
qed

text \<open>What a worker is told and what it has changed.\<close>

definition workerView :: "string \<Rightarrow> Store \<Rightarrow> Reply \<Rightarrow> Store \<Rightarrow> bool" where
  "workerView wid st rep st' \<longleftrightarrow> bystanders wid st st' \<and> assigned wid (reply_Content rep)"

lemma workerView_quiet [simp]: "quiet rep \<Longrightarrow> workerView wid st rep st"
  by (auto simp: workerView_def quiet_def)

lemma reply_assigned: "assigned wid (oc_Content out) \<Longrightarrow> cl_Route c \<noteq> GetObject \<Longrightarrow> assigned wid (reply_Content (reply sv c body out))"
  by (cases "cl_Route c")
    (auto simp: reply_def tokenReply_def putReply_def split: option.split sum.split)

section \<open>A server\<close>

text \<open>The principals of the policy's access file in two orders: the last one is recognised first.\<close>

lemma Authenticate_last:
  "acc_Principals c = ps @ [p] \<Longrightarrow> Authenticate c (''Bearer '' @ prin_Token p) = (p\<lparr>prin_Token := []\<rparr>, True)"
  by (simp add: Authenticate_def HasPrefix_def TrimPrefix_def Let_def split_def del: append_Cons)

definition tenantAccess :: AccessConfig where
  "tenantAccess = policyAccess\<lparr>acc_Principals :=
     [acc_Principals policyAccess ! 2, acc_Principals policyAccess ! 0, acc_Principals policyAccess ! 1]\<rparr>"

definition demoServer :: "AccessConfig \<Rightarrow> Server" where
  "demoServer access = \<lparr>srv_Access = access, srv_Secret = ''hook'',
     srv_Services = \<lparr>sv_GitHub = None, sv_Objects = None, sv_Stamp = [], sv_Day = []\<rparr>,
     srv_Decoders = \<lparr>de_Submission = (\<lambda>b. None), de_Completion = (\<lambda>b. None), de_Observation = (\<lambda>b. None)\<rparr>\<rparr>"

definition demoHooks :: WebhookDecoders where
  "demoHooks = \<lparr>wd_Payload = (\<lambda>b. None), wd_Yaml = (\<lambda>b. None)\<rparr>"

definition demoRequest :: "string \<Rightarrow> string list \<Rightarrow> char \<Rightarrow> HttpRequest" where
  "demoRequest method path c = \<lparr>rq_Method = method, rq_Path = path,
     rq_Headers = [(''Authorization'', ''Bearer '' @ replicate 32 c)], rq_Body = []\<rparr>"

lemma demo_access: "ValidateAccess policyAccess = None" "ValidateAccess tenantAccess = None"
  by code_simp+

lemma tenantAccess_registered: "registered tenantAccess wk = registered policyAccess wk"
  by (auto simp: registered_def tenantAccess_def policyAccess_def demoAccess_def zeroPrincipal_def)

lemma tenantAccess_policed: "policed policyAccess req \<Longrightarrow> policed tenantAccess req"
proof (cases req)
  case (ReqSubmit sub)
  have "acc_Repositories tenantAccess = acc_Repositories policyAccess" by (simp add: tenantAccess_def)
  moreover assume "policed policyAccess req"
  ultimately show ?thesis using ReqSubmit by (simp add: policySubmission_def)
qed (simp_all add: tenantAccess_registered)

lemma tenant_served: "served demoJson tenantAccess demoConfig [policyEvent] policyLeased"
proof -
  have u: "unissued (demoWorld ''a'' [] []) (New demoConfig)" "unissued (demoWorld ''b'' [] []) policyIdle"
    "unissued (demoWorld ''c'' [] []) policyQueued"
    by (auto simp: unissued_def policy_states demoWorld_def newID_def)
  note p = policy_register [THEN tenantAccess_policed] policy_submission [THEN tenantAccess_policed]
  have 1: "served demoJson tenantAccess demoConfig [] policyIdle"
    using served.step [OF served.start policy_fresh(1) u(1) p(1) policy_serve1] by simp
  have 2: "served demoJson tenantAccess demoConfig [policyEvent] policyQueued"
    using served.step [OF 1 policy_fresh(2) u(2) p(2) policy_serve2] by simp
  show ?thesis using served.step [OF 2 policy_fresh(3) u(3) _ policy_serve3] by simp
qed

lemma demo_tenant: "Authenticate tenantAccess (''Bearer '' @ replicate 32 (CHR ''b'')) =
  (zeroPrincipal\<lparr>prin_Role := ''tenant'', prin_Tenant := ''t1''\<rparr>, True)"
  using Authenticate_last [of tenantAccess "[acc_Principals policyAccess ! 2, acc_Principals policyAccess ! 0]" "acc_Principals policyAccess ! 1"]
  by (simp add: tenantAccess_def policyAccess_def demoAccess_def zeroPrincipal_def)

lemma demo_worker: "Authenticate policyAccess (''Bearer '' @ replicate 32 (CHR ''w'')) =
  (zeroPrincipal\<lparr>prin_Role := ''worker'', prin_Worker := Some policyWorker\<rparr>, True)"
  using Authenticate_last [of policyAccess "acc_Principals demoAccess"
    "zeroPrincipal\<lparr>prin_Token := replicate 32 (CHR ''w''), prin_Role := ''worker'', prin_Worker := Some policyWorker\<rparr>"]
  by (simp add: policyAccess_def zeroPrincipal_def)

lemma demo_server:
  "srv_Access (demoServer access) = access" "goMaps (srv_Decoders (demoServer access))" "yamlMaps demoHooks"
  "srv_Services (demoServer access) = \<lparr>sv_GitHub = None, sv_Objects = None, sv_Stamp = [], sv_Day = []\<rparr>"
  by (simp_all add: demoServer_def goMaps_def yamlMaps_def demoHooks_def)

lemma demo_leased:
  "holdsPostgres demoPg (demoDatabase policyLeased) policyLeased" "fresh (demoWorld ''d'' [] []) policyLeased"
  by (rule demo_holds) (auto simp: policy_states fresh_def demoWorld_def newID_def inj_on_def demoPg_def dest: utoa_inj)

section \<open>Properties of the server\<close>

text \<open>
  C4: Every request is answered, and whatever the database does, it then represents a state that the
  machine reaches with requests that the access file admits. The state only changes by a POST, and only
  if the reply reports a success or, after a lost commit, an unavailable service.
\<close>

theorem request_answered:
  assumes "holdsPostgres pg db st" "fairEnv pg env" "reachable (policed (srv_Access srv)) (pg_Config pg) st" "fresh w st"
    and "ValidateAccess (srv_Access srv) = None" "goMaps (srv_Decoders srv)" "yamlMaps wd"
  shows "\<exists>rep db' st'. ServeHTTP srv wd busy pingDB (postgresTransact pg env) w js q db = Some (rep, db') \<and>
    holdsPostgres pg db' st' \<and> reachable (policed (srv_Access srv)) (pg_Config pg) st' \<and>
    (st' \<noteq> st \<longrightarrow> rq_Method q = ''POST'' \<and> reply_Status rep \<in> {200, 201, 202, 503})"
  using server.serve_reachable [OF assms] unfolding answered_def .

theorem request_answered_witness:
  "\<exists>rep db' st'. ServeHTTP (demoServer policyAccess) demoHooks 0 True (postgresTransact demoPg demoEnv) (demoWorld ''d'' [] [])
      demoJson (demoRequest ''POST'' [''v1'', ''workers'', ''register''] (CHR ''w'')) (demoDatabase policyLeased) = Some (rep, db') \<and>
    holdsPostgres demoPg db' st' \<and> reachable (policed policyAccess) demoConfig st'"
proof -
  have r: "reachable (policed (srv_Access (demoServer policyAccess))) (pg_Config demoPg) policyLeased"
    using policy_reachable(3) by (simp add: demo_server demoPg_def)
  from request_answered [OF demo_leased(1) demo_fair r demo_leased(2)] demo_access(1) demo_server show ?thesis
    by (fastforce simp: demoPg_def)
qed

text \<open>
  C6: Only authentic requests reach the store. If serving a request changes the backend in any way, it
  was either a GitHub delivery with a valid signature for a repository of the access file and its
  installation, submitted for the repository's tenant; or a request with the token of a principal whose
  role may use the route and whose input was accepted.
\<close>

theorem changes_authentic:
  assumes "ServeHTTP srv wd busy pingDB transact w js q b = Some (rep, b')" "b' \<noteq> b"
  shows "(\<exists>sub policy. readDelivery srv wd q = Inr sub \<and> srv_Secret srv \<noteq> [] \<and>
      VerifySignature (srv_Secret srv) (rq_Body q) (header q ''X-Hub-Signature-256'') = None \<and>
      map_of (acc_Repositories (srv_Access srv)) (sub_Repo sub) = Some policy \<and> sub_Tenant sub = repo_Tenant policy \<and>
      sub_InstallationID sub = repo_InstallationID policy \<and> repo_InstallationID policy \<noteq> 0) \<or>
    (\<exists>route bs p inp. findRoute q = Some (route, bs) \<and>
      Authenticate (srv_Access srv) (header q ''Authorization'') = (p, True) \<and>
      Contains ('' '' @ roles route @ '' '') ('' '' @ prin_Role p @ '' '') \<and>
      readInput (srv_Access srv) (srv_Decoders srv) p route (getd [] bs ''id'') q = Inr inp)"
proof -
  consider (hook) "webhook srv wd transact w js q b = Some (rep, b')"
    | (route) route bs where "findRoute q = Some (route, bs)" "serveRoute srv transact w js q route bs b = Some (rep, b')"
    using assms by (auto simp: ServeHTTP_def split: if_splits option.splits)
  then show ?thesis
  proof cases
    case hook
    with assms(2) obtain sub where sub: "readDelivery srv wd q = Inr sub"
      by (cases "readDelivery srv wd q") (auto simp: webhook_def)
    then obtain payload policy sub0 gh where d: "srv_Secret srv \<noteq> []"
      "VerifySignature (srv_Secret srv) (rq_Body q) (header q ''X-Hub-Signature-256'') = None"
      "map_of (acc_Repositories (srv_Access srv)) (gp_FullName payload) = Some policy" "repo_InstallationID policy \<noteq> 0"
      "eventSubmission (header q ''X-GitHub-Event'') (header q ''X-GitHub-Delivery'') payload policy = Inr sub0"
      "if sub_Closed sub0 then sub = sub0 else configure gh (wd_Yaml wd) policy sub0 = Inr sub"
      by (rule readDelivery_steps)
    have "sub_Repo sub = sub_Repo sub0 \<and> sub_Tenant sub = sub_Tenant sub0 \<and> sub_InstallationID sub = sub_InstallationID sub0"
      using d(6) by (auto split: if_splits elim!: configure_result)
    with sub d eventSubmission_result [OF d(5)] show ?thesis by auto
  next
    case (route r bs)
    obtain p known where p: "Authenticate (srv_Access srv) (header q ''Authorization'') = (p, known)" by fastforce
    with route(2) assms(2) have ok: "known" "Contains ('' '' @ roles r @ '' '') ('' '' @ prin_Role p @ '' '')"
      "dispatch srv transact w js q p r bs b = Some (rep, b')"
      by (auto simp: serveRoute_def split: if_splits)
    with assms(2) obtain inp where "readInput (srv_Access srv) (srv_Decoders srv) p r (getd [] bs ''id'') q = Inr inp"
      by (cases "readInput (srv_Access srv) (srv_Decoders srv) p r (getd [] bs ''id'') q") (auto simp: dispatch_def)
    with route(1) p ok show ?thesis by auto
  qed
qed

theorem changes_authentic_witness:
  "\<exists>route bs. findRoute (demoRequest ''GET'' [''v1'', ''pipelines''] (CHR ''b'')) = Some (route, bs) \<and>
     Contains ('' '' @ roles route @ '' '') '' tenant ''"
proof -
  let ?q = "demoRequest ''GET'' [''v1'', ''pipelines''] (CHR ''b'')" and ?srv = "demoServer tenantAccess"
  let ?run = "\<lambda>wr action f b. Some (Inl ErrForbidden, Suc b)"
  have h: "header ?q ''Authorization'' = ''Bearer '' @ replicate 32 (CHR ''b'')"
    by (simp add: demoRequest_def header_def getd_def)
  have m: "findRoute ?q = Some (ListPipelines, [])"
      "matchRoute ''GET /healthz'' (rq_Method ?q) (rq_Path ?q) = None" "matchRoute ''GET /readyz'' (rq_Method ?q) (rq_Path ?q) = None"
      "matchRoute ''POST /v1/webhooks/github'' (rq_Method ?q) (rq_Path ?q) = None"
      "Contains ('' '' @ roles ListPipelines @ '' '') ('' '' @ ''tenant'' @ '' '')"
      "HasPrefix (pattern ListPipelines) ''POST /v1/attempts/'' = False"
    by code_simp+
  have r: "readInput (srv_Access ?srv) (srv_Decoders ?srv) x ListPipelines y ?q = Inr NoInput" for x y
    using m(6) by (simp add: readInput_def)
  have "serveRoute ?srv ?run w js ?q ListPipelines [] 0 = Some (refuse 403, Suc 0)" for w js
    unfolding serveRoute_def h demo_server(1) demo_tenant prod.case dispatch_def Let_def r [unfolded demo_server(1)] sum.case
    using m(5) by (simp add: failStatus_def del: Contains.simps append.simps)
  then have "ServeHTTP ?srv demoHooks 0 True ?run w js ?q 0 = Some (refuse 403, Suc 0)" for w js
    using m by (simp add: ServeHTTP_def)
  from changes_authentic [OF this] have "(\<exists>sub. readDelivery ?srv demoHooks ?q = Inr sub) \<or>
    (\<exists>route bs p. findRoute ?q = Some (route, bs) \<and> Authenticate (srv_Access ?srv) (header ?q ''Authorization'') = (p, True) \<and>
      Contains ('' '' @ roles route @ '' '') ('' '' @ prin_Role p @ '' ''))" by blast
  moreover have "readDelivery ?srv demoHooks ?q \<noteq> Inr sub" for sub by (simp add: readDelivery_def demo_server)
  moreover have "prin_Role p = ''tenant''" if "Authenticate (srv_Access ?srv) (header ?q ''Authorization'') = (p, True)" for p
    using that unfolding h demo_server(1) demo_tenant by auto
  ultimately show ?thesis by fastforce
qed

text \<open>
  C7: Tenants are isolated. A tenant's request changes no pipeline, job or attempt of another tenant, and
  the reply shows only the tenant's own pipelines, jobs and previews, also in the answer to a submission,
  whether it is new, a replay or a duplicate; an object is only served from a key that an attempt of the
  tenant has recorded. The state is one that the submissions \<open>subs\<close> have led to, none of which has the SHA-256
  digest of the submission in this request if it was another tenant's.
\<close>

theorem tenant_isolated:
  assumes "holdsPostgres pg db st" "fairEnv pg env" "served js (srv_Access srv) (pg_Config pg) subs st" "fresh w st"
    and "ValidateAccess (srv_Access srv) = None" "goMaps (srv_Decoders srv)" "yamlMaps wd"
    and "Authenticate (srv_Access srv) (header q ''Authorization'') = (p, True)" "prin_Role p = ''tenant''"
    and "matchRoute ''POST /v1/webhooks/github'' (rq_Method q) (rq_Path q) = None"
    and "\<And>sub. readSubmission (srv_Access srv) (srv_Decoders srv) p q = Inr (InSubmission sub) \<Longrightarrow> separated js subs sub"
  shows "\<exists>rep db' st'. ServeHTTP srv wd busy pingDB (postgresTransact pg env) w js q db = Some (rep, db') \<and>
    holdsPostgres pg db' st' \<and> untouched (prin_Tenant p) st st' \<and> visible (prin_Tenant p) (reply_Content rep) \<and>
    (\<forall>b. reply_Content rep = Blob b \<longrightarrow>
       (\<exists>key. ownKey (prin_Tenant p) st key \<and> rep = getReply (srv_Services srv) key))"
proof -
  have t: "prin_Tenant p \<noteq> []" by (rule caller_OK(3) [OF assms(5) Authenticate_caller [OF assms(8)] assms(9)])
  have "answered (holdsPostgres pg) (tenantView (srv_Services srv) (prin_Tenant p) st)
    (ServeHTTP srv wd busy pingDB (postgresTransact pg env) w js q db)"
  proof (rule server.serve_answered [where Q = "tenantView (srv_Services srv) (prin_Tenant p) st",
        OF assms(1,2) served_reachable [OF assms(3)] assms(4-7)], goal_cases)
    case (1 rep)
    then show ?case by simp
  next
    case (2 sub now out st')
    with assms(10) show ?case by simp
  next
    case (3 route bs p' c now out st')
    then have p': "p' = p" using assms(8) by simp
    have "tenantView (srv_Services srv) (prin_Tenant p) st (reply (srv_Services srv) c (rq_Body q) out) st'"
    proof (rule tenant_callback [OF assms(3,4) 3(5) _ _ assms(9) refl t _ 3(8)])
      fix sub assume "cl_Input c = InSubmission sub"
      with 3(9) p' have "readSubmission (srv_Access srv) (srv_Decoders srv) p q = Inr (InSubmission sub)"
        by (auto simp: readInput_def readCompletion_def readObservation_def Let_def split: if_splits option.splits)
      then show "separated js subs sub" by (rule assms(11))
    qed (use 3 p' in simp_all)
    then show ?case by (auto simp: tenantView_def)
  qed
  then show ?thesis by (simp add: answered_def tenantView_def)
qed

theorem tenant_isolated_witness:
  "\<exists>rep db' st'. ServeHTTP (demoServer tenantAccess) demoHooks 0 True (postgresTransact demoPg demoEnv) (demoWorld ''d'' [] [])
      demoJson (demoRequest ''POST'' [''v1'', ''jobs'', ''job_b1'', ''cancel''] (CHR ''b'')) (demoDatabase policyLeased) = Some (rep, db') \<and>
    holdsPostgres demoPg db' st' \<and> untouched ''t1'' policyLeased st' \<and> visible ''t1'' (reply_Content rep)"
proof -
  let ?q = "demoRequest ''POST'' [''v1'', ''jobs'', ''job_b1'', ''cancel''] (CHR ''b'')"
  have r: "served demoJson (srv_Access (demoServer tenantAccess)) (pg_Config demoPg) [policyEvent] policyLeased"
    using tenant_served by (simp add: demo_server demoPg_def)
  have h: "header ?q ''Authorization'' = ''Bearer '' @ replicate 32 (CHR ''b'')"
    by (simp add: demoRequest_def header_def getd_def)
  have m: "matchRoute ''POST /v1/webhooks/github'' (rq_Method ?q) (rq_Path ?q) = None" by code_simp
  from tenant_isolated [where srv = "demoServer tenantAccess", OF demo_leased(1) demo_fair r demo_leased(2) _ demo_server(2,3) _ _ m]
    demo_access(2) demo_tenant show ?thesis
    by (fastforce simp: demo_server h readSubmission_def decode_def demoServer_def)
qed

text \<open>
  C8: Workers are isolated. A worker's request returns leases, attempts and the registration of that
  worker only. No other worker gets or loses an attempt, and the attempts of other workers keep their
  state and their results, with one exception: when the request ends an attempt of this worker in
  failure and thereby fails its pipeline, the attempts still running in that same pipeline are
  cancelled, and nothing else about them changes.
\<close>

theorem worker_isolated:
  assumes "holdsPostgres pg db st" "fairEnv pg env" "reachable (policed (srv_Access srv)) (pg_Config pg) st" "fresh w st"
    and "ValidateAccess (srv_Access srv) = None" "goMaps (srv_Decoders srv)" "yamlMaps wd"
    and "Authenticate (srv_Access srv) (header q ''Authorization'') = (p, True)" "prin_Role p = ''worker''"
    and "matchRoute ''POST /v1/webhooks/github'' (rq_Method q) (rq_Path q) = None"
  shows "\<exists>wk rep db' st'. prin_Worker p = Some wk \<and>
    ServeHTTP srv wd busy pingDB (postgresTransact pg env) w js q db = Some (rep, db') \<and>
    holdsPostgres pg db' st' \<and> bystanders (wk_ID wk) st st' \<and> assigned (wk_ID wk) (reply_Content rep)"
proof -
  obtain wk where wk: "prin_Worker p = Some wk"
    using caller_OK(2) [OF assms(5) Authenticate_caller [OF assms(8)] assms(9)] by blast
  have "answered (holdsPostgres pg) (workerView (wk_ID wk) st)
    (ServeHTTP srv wd busy pingDB (postgresTransact pg env) w js q db)"
  proof (rule server.serve_answered [where Q = "workerView (wk_ID wk) st", OF assms(1-7)], goal_cases)
    case (1 rep)
    then show ?case by simp
  next
    case (2 sub now out st')
    with assms(10) show ?case by simp
  next
    case (3 route bs p' c now out st')
    then have p': "p' = p" using assms(8) by simp
    have v: "bystanders (wk_ID wk) st st' \<and> assigned (wk_ID wk) (oc_Content out)"
      by (rule worker_callback [OF assms(3) 3(5) _ _ _ 3(8)]) (use 3 p' wk assms(9) in simp_all)
    have "route \<noteq> GetObject" using worker_routes [of route] 3(4) p' assms(9) by auto
    with v reply_assigned 3(6) show ?case by (auto simp: workerView_def)
  qed
  with wk show ?thesis by (simp add: answered_def workerView_def)
qed

theorem worker_isolated_witness:
  "\<exists>rep db' st'. ServeHTTP (demoServer policyAccess) demoHooks 0 True (postgresTransact demoPg demoEnv) (demoWorld ''d'' [] [])
      demoJson (demoRequest ''GET'' [''v1'', ''workers'', ''w1'', ''assignments''] (CHR ''w'')) (demoDatabase policyLeased) = Some (rep, db') \<and>
    assigned ''w1'' (reply_Content rep)"
proof -
  let ?q = "demoRequest ''GET'' [''v1'', ''workers'', ''w1'', ''assignments''] (CHR ''w'')"
  have r: "reachable (policed (srv_Access (demoServer policyAccess))) (pg_Config demoPg) policyLeased"
    using policy_reachable(3) by (simp add: demo_server demoPg_def)
  have h: "header ?q ''Authorization'' = ''Bearer '' @ replicate 32 (CHR ''w'')"
    by (simp add: demoRequest_def header_def getd_def)
  have m: "matchRoute ''POST /v1/webhooks/github'' (rq_Method ?q) (rq_Path ?q) = None" by code_simp
  have w: "wk_ID policyWorker = ''w1''" by (simp add: policyWorker_def demoWorker_def)
  from worker_isolated [where srv = "demoServer policyAccess", OF demo_leased(1) demo_fair r demo_leased(2) _ demo_server(2,3) _ _ m]
    demo_access(1) demo_worker w show ?thesis
    by (fastforce simp: demo_server h)
qed

end
