(* ===== verification/System.thy ===== *)
theory System
  imports Service Isolation
begin

text \<open>
  The running control plane: a database, the requests of the API, the ticks of the scheduler and the
  reports of the check loop, in any order and with any failures of the database. The state it stores is
  always one that the machine reaches under the operator's policy.
\<close>

section \<open>Runs\<close>

text \<open>
  A step is one transaction of one of the process's three activities, or a (re)start. The random
  identifiers of a step are not in the state it finds; nonces have the cipher's length.
\<close>

inductive running :: "'byte Postgres \<Rightarrow> AccessConfig \<Rightarrow> 'byte Database \<Rightarrow> bool" for pg access where
  empty: "db_Payload db = None \<Longrightarrow> running pg access db"
| start: "running pg access db \<Longrightarrow> fairEnv pg env1 \<Longrightarrow> fairEnv pg env2 \<Longrightarrow>
     Open pg env1 env2 key db = Some (res, db') \<Longrightarrow> running pg access db'"
| request: "running pg access db \<Longrightarrow> load pg db = Some st \<Longrightarrow> fresh w st \<Longrightarrow> fairEnv pg env \<Longrightarrow>
     srv_Access srv = access \<Longrightarrow> goMaps (srv_Decoders srv) \<Longrightarrow> yamlMaps wd \<Longrightarrow>
     ServeHTTP srv wd busy pingDB (postgresTransact pg env) w js r db = Some (rep, db') \<Longrightarrow> running pg access db'"
| scheduler: "running pg access db \<Longrightarrow> load pg db = Some st \<Longrightarrow> freshWorlds ws 66 st \<Longrightarrow> fairEnv pg env \<Longrightarrow>
     postgresTransact pg env True [] (tick ws) db = Some (res', db') \<Longrightarrow> running pg access db'"
| checked: "running pg access db \<Longrightarrow> load pg db = Some st \<Longrightarrow> fresh w st \<Longrightarrow> fairEnv pg env \<Longrightarrow>
     postgresTransact pg env True ''github check update'' (recordOne p checkID) db = Some (res', db') \<Longrightarrow>
     running pg access db'"

section \<open>The steps keep a reachable state\<close>

definition sound :: "'byte Postgres \<Rightarrow> AccessConfig \<Rightarrow> 'byte Database \<Rightarrow> bool" where
  "sound pg access db \<longleftrightarrow> (\<exists>st. holdsPostgres pg db st \<and> reachable (policed access) (pg_Config pg) st)"

lemma sound_load: "sound pg access db \<Longrightarrow> load pg db = Some st \<Longrightarrow>
  holdsPostgres pg db st \<and> reachable (policed access) (pg_Config pg) st"
  by (auto simp: sound_def holdsPostgres_def)

lemma transaction_sound:
  assumes h: "holdsPostgres pg db st" and e: "fairEnv pg env" and r: "reachable P (pg_Config pg) st"
    and f: "\<And>now. \<exists>x st'. f now st = Some (x, st') \<and> reachable P (pg_Config pg) st'"
    and t: "postgresTransact pg env True action f db = Some (res, db')"
  shows "\<exists>st'. holdsPostgres pg db' st' \<and> reachable P (pg_Config pg) st'"
proof (rule postgres.durable [where Q = "reachable P (pg_Config pg)", OF h e _ t r])
  show "decent True f st"
    by (rule lawful_decent [where f = f, OF r]) (use f in \<open>simp add: lawful_write\<close>)
  show "reachable P (pg_Config pg) st'" if "f now st = Some (Inr x, st')" for now x st'
    using f [of now] that by auto
qed

lemma migrate_cases:
  assumes "lossless (pg_Gob pg)" "opens (pg_Aead pg)" "fairEnv pg env" "migrate pg env db = (res, db')"
  shows "db' = db \<or> db_Payload db = None \<and> holdsPostgres pg db' (New (pg_Config pg))"
proof -
  obtain data where d: "TakeSnapshot (pg_Gob pg) (New (pg_Config pg)) = Some data"
      "Restore (pg_Gob pg) (pg_Config pg) data = Some (New (pg_Config pg))"
    by (rule Restore_TakeSnapshot [OF assms(1), of "New (pg_Config pg)" "pg_Config pg"]) (simp add: New_def)
  let ?db = "db\<lparr>db_Payload := Some (seal (pg_Aead pg) (pg_Nonce env) data)\<rparr>"
  have "load pg ?db = Some (New (pg_Config pg))"
    using assms(2,3) d by (simp add: load_def fairEnv_def unseal_seal)
  then have "holdsPostgres pg ?db (New (pg_Config pg))" using assms(1,2) by (simp add: holdsPostgres_def New_def)
  moreover have "db' = db \<or> db_Payload db = None \<and> db' = ?db"
    using assms(4) d by (auto simp: migrate_def commit_def split: if_splits commitFate.splits option.splits)
  ultimately show ?thesis by auto
qed

lemma Open_sound:
  assumes pg: "lossless (pg_Gob pg)" "opens (pg_Aead pg)" and e: "fairEnv pg env1" "fairEnv pg env2"
    and o: "Open pg env1 env2 key db = Some (res, db')" and d: "db_Payload db = None \<or> sound pg access db"
  shows "db_Payload db' = None \<or> sound pg access db'"
proof -
  obtain r1 db1 where m: "migrate pg env1 db = (r1, db1)" by fastforce
  have 1: "db_Payload db1 = None \<or> sound pg access db1"
    using migrate_cases [OF pg e(1) m] d reachable.start by (auto simp: sound_def)
  show ?thesis
  proof (cases "length key = 32 \<and> (\<exists>u. r1 = Inr u)")
    case True
    then have t: "postgresTransact pg env2 False [] (\<lambda>now st. Some (Inr (), st)) db1 = Some (res, db')"
      using o m by (auto simp: Open_def)
    show ?thesis
    proof (cases "db_Payload db1")
      case None
      then have "load pg db1 = None" by (simp add: load_def)
      with t have "db' = db1" by (auto simp: postgresTransact_def split: if_splits)
      with None show ?thesis by simp
    next
      case (Some p)
      with 1 obtain st where st: "holdsPostgres pg db1 st" "reachable (policed access) (pg_Config pg) st"
        by (auto simp: sound_def)
      have "decent False (\<lambda>now st. Some (Inr (), st) :: ((apiError + unit) \<times> Store) option) st" by (simp add: decent_def)
      from postgres.read_unchanged [OF st(1) e(2) this t] st(2) show ?thesis by (auto simp: sound_def)
    qed
  next
    case False
    then show ?thesis using o m 1 d by (auto simp: Open_def split: if_splits sum.splits)
  qed
qed

lemma recordOne_reaches:
  assumes "reachable (policed access) conf st" "fresh w st"
  shows "\<exists>x st'. recordOne p checkID now st = Some (x, st') \<and> reachable (policed access) conf st'"
proof -
  have "serve w undefined now (ReqRecordCheck (pl_ID p) checkID (pl_Status p)) st =
      Some (snd (RecordCheck (pl_ID p) checkID (pl_Status p) st))" by simp
  from reachable_serve [OF assms _ this] show ?thesis by (auto simp: recordOne_def split: prod.split)
qed

lemma running_sound:
  assumes "lossless (pg_Gob pg)" "opens (pg_Aead pg)" "ValidateAccess access = None" "running pg access db"
  shows "db_Payload db = None \<or> sound pg access db"
  using assms(4)
proof (induction rule: running.induct)
  case (empty db)
  then show ?case by simp
next
  case (start db env1 env2 key res db')
  from Open_sound [OF assms(1,2) start.hyps(2-4) start.IH] show ?case .
next
  case (request db st w env srv wd busy pingDB js r rep db')
  have "sound pg access db" using request.IH request.hyps(2) by (auto simp: load_def)
  from sound_load [OF this request.hyps(2)] server.serve_reachable [of pg db st env srv "pg_Config pg" w wd r busy pingDB js] request.hyps assms(3)
  show ?case by (auto simp: answered_def sound_def)
next
  case (scheduler db st ws env res' db')
  have "sound pg access db" using scheduler.IH scheduler.hyps(2) by (auto simp: load_def)
  note h = sound_load [OF this scheduler.hyps(2)]
  have "\<exists>x st'. tick ws now st = Some (x, st') \<and> reachable (policed access) (pg_Config pg) st'" for now
    using tick_spec [of "policed access" "pg_Config pg" st ws now] h scheduler.hyps(3) by (auto simp: ticked_def)
  with transaction_sound [of pg db st env "policed access" "tick ws"] h scheduler.hyps show ?case
    by (auto simp: sound_def)
next
  case (checked db st w env p checkID res' db')
  have "sound pg access db" using checked.IH checked.hyps(2) by (auto simp: load_def)
  note h = sound_load [OF this checked.hyps(2)]
  from transaction_sound [of pg db st env "policed access" "recordOne p checkID"] recordOne_reaches [of access "pg_Config pg" st w] h checked.hyps
  show ?case by (auto simp: sound_def)
qed

section \<open>What the stored state guarantees\<close>

lemma service_small: "smallConfig (withDefaults serviceConfig)"
  by (simp add: smallConfig_def withDefaults_def serviceConfig_def)

text \<open>
  C1: The control plane keeps its promises through restarts, lost commits and any interleaving of
  requests, scheduler ticks and check reports. The state in the database is one that the machine
  reaches under the operator's policy; every tenant stays within 16 CPUs and 32768 MiB, the unfinished
  jobs within 1000, and every attempt is on a worker of the access file whose trust is its job's.
\<close>

theorem service_guarantees:
  assumes "running pg access db" "lossless (pg_Gob pg)" "opens (pg_Aead pg)" "ValidateAccess access = None"
    and "pg_Config pg = serviceConfig" "load pg db = Some st"
  shows "reachable (policed access) serviceConfig st \<and> queuedCountLocked st \<le> 1000 \<and>
    (\<forall>t. t \<noteq> [] \<longrightarrow> usage res_CPU st t \<le> 16 \<and> usage res_Memory st t \<le> 32768) \<and>
    (\<forall>aid a. map_of (attempts st) aid = Some a \<longrightarrow> (\<exists>j wk. map_of (jobs st) (att_JobID a) = Some j \<and>
       registered access wk \<and> wk_ID wk = att_WorkerID a \<and> wk_Trusted wk = spec_Trusted (job_Spec j)))"
proof -
  have "sound pg access db" using running_sound [OF assms(2-4,1)] assms(6) by (auto simp: load_def)
  from sound_load [OF this assms(6)] assms(5) have r: "reachable (policed access) serviceConfig st" by simp
  have "config st = withDefaults serviceConfig" by (rule reachable_config [OF r])
  then have c: "cfg_TenantCPU (config st) = 16" "cfg_TenantMemoryMB (config st) = 32768" "cfg_MaxQueuedJobs (config st) = 1000"
    by (simp_all add: withDefaults_def serviceConfig_def)
  have q: "queuedCountLocked st \<le> 1000" using bounded.always [OF reachable_mono [OF r]] c by simp
  have u: "usage res_CPU st t \<le> 16 \<and> usage res_Memory st t \<le> 32768" if "t \<noteq> []" for t
    using quotas.always [OF policed_reachable_small [OF r] service_small] that c by (simp add: withinQuotas_def)
  have w: "wellFormed st" and p: "underPolicy access st" using policy.always [OF r] by auto
  have a: "\<exists>j wk. map_of (jobs st) (att_JobID a) = Some j \<and> registered access wk \<and> wk_ID wk = att_WorkerID a \<and>
      wk_Trusted wk = spec_Trusted (job_Spec j)" if m: "map_of (attempts st) aid = Some a" for aid a
  proof -
    obtain j where j: "map_of (jobs st) (att_JobID a) = Some j" by (rule refs_job_of_attempt [OF wellFormed_refs [OF w] m])
    have "workerPolicy access (spec_Trusted (job_Spec j)) (att_WorkerID a)"
      using p m j unfolding underPolicy_def by blast
    with j show ?thesis by (auto simp: workerPolicy_def)
  qed
  from r q u a show ?thesis by blast
qed

text \<open>A first start on an empty database.\<close>

definition servicePg :: "Snapshot Postgres" where
  "servicePg = demoPg\<lparr>pg_Config := serviceConfig\<rparr>"

theorem service_guarantees_witness:
  "\<exists>db. running servicePg policyAccess db \<and> load servicePg db = Some (New serviceConfig) \<and>
     queuedCountLocked (New serviceConfig) \<le> 1000"
proof -
  let ?none = "\<lparr>db_Payload = None, db_Audit = []\<rparr> :: Snapshot Database"
  let ?db = "demoDatabase (New serviceConfig)"
  have pg: "lossless (pg_Gob servicePg)" "opens (pg_Aead servicePg)" "fairEnv servicePg demoEnv" "pg_Config servicePg = serviceConfig"
    using demo_holds [of "New demoConfig"] demo_fair by (simp_all add: servicePg_def holdsPostgres_def fairEnv_def New_def)
  have l: "load servicePg ?db = Some (New serviceConfig)"
    by (simp add: load_def demoDatabase_def servicePg_def demoPg_def unseal_def Restore_def snapshotOf_def New_def)
  have m: "migrate servicePg demoEnv ?none = (Inr (), ?db)"
    by (simp add: migrate_def servicePg_def demoPg_def demoEnv_def TakeSnapshot_def commit_def seal_def demoDatabase_def)
  have e: "pg_Begin demoEnv" "pg_Select demoEnv" "pg_Clock demoEnv = Some 30" "pg_Commit demoEnv = Committed"
    by (simp_all add: demoEnv_def)
  have o: "Open servicePg demoEnv demoEnv (replicate 32 0) ?none = Some (Inr (), ?db)"
    using l e by (simp add: Open_def m postgresTransact_def commit_def)
  have "running servicePg policyAccess ?none" by (rule running.empty) simp
  then have run: "running servicePg policyAccess ?db" using running.start [OF _ pg(3) pg(3) o] by blast
  moreover note run
  moreover from service_guarantees [OF run pg(1,2) _ pg(4) l] demo_access(1)
  have "queuedCountLocked (New serviceConfig) \<le> 1000" by blast
  ultimately show ?thesis using l by blast
qed

end
