(* ===== verification/Kubectl.thy ===== *)
theory Kubectl
  imports Domain
begin

text \<open>
  The kubectl client of \<open>internal/kube/client.go\<close>: \<open>Run\<close> with its request timeout, in-cluster
  kubeconfig and bounded output, \<open>Apply\<close>, \<open>Get\<close> (here \<open>GetResource\<close>), \<open>OwnedNamespace\<close>, \<open>DeleteNamespace\<close>, and
  the manifests \<open>Resource\<close>, \<open>Namespace\<close>, \<open>Security\<close> and \<open>Boundaries\<close>.

  The kubectl binary, the cluster behind it, the clock and the file system are parameters: a state
  of type \<open>'k\<close> and the functions of the record \<open>Client\<close> on it. A manifest is a \<open>Value\<close>, the
  \<open>map[string]any\<close> that \<open>encoding/json\<close> writes, and the standard input of kubectl is the document
  that the JSON text denotes. \<open>runs c s cs s'\<close> says that the state went from \<open>s\<close> to \<open>s'\<close> by
  exactly the invocations \<open>cs\<close> of \<open>Run\<close>: what an operation may do to the cluster is stated over
  these traces, whatever the cluster does in between.
\<close>

section \<open>Manifests\<close>

datatype Value =
    VNull | VBool bool | VInt int | VFloat string | VStr string
  | VList "Value list" | VMap "(string \<times> Value) list"

type_synonym Object = "(string, Value) gomap"

fun asMap :: "Value \<Rightarrow> Object" where
  \<comment> \<open>\<open>m, _ := v.(map[string]any)\<close>: the nil map when \<open>v\<close> is not a map\<close>
  "asMap (VMap m) = m"
| "asMap _ = []"

definition index :: "Object \<Rightarrow> string \<Rightarrow> Value" where
  "index m k = getd VNull m k"

abbreviation objects :: "Object list \<Rightarrow> Value" where
  "objects os \<equiv> VList (map VMap os)"

abbreviation strs :: "string list \<Rightarrow> Value" where
  "strs ss \<equiv> VList (map VStr ss)"

definition Resource :: "string \<Rightarrow> string \<Rightarrow> string \<Rightarrow> string \<Rightarrow> Object \<Rightarrow> Object" where
  "Resource api kind name namespace spec =
     (let meta = [(''name'', VStr name)] @ (if namespace \<noteq> [] then [(''namespace'', VStr namespace)] else []);
          o1 = [(''apiVersion'', VStr api), (''kind'', VStr kind), (''metadata'', VMap meta)]
      in fold (\<lambda>(k, v). AList.update k v) spec o1)"

definition JobNamespace :: "string \<Rightarrow> string" where
  "JobNamespace attempt = ''ci-job-'' @ ReplaceByte attempt (CHR ''_'') (CHR ''-'')"

definition Namespace :: "string \<Rightarrow> string \<Rightarrow> string \<Rightarrow> bool \<Rightarrow> Object" where
  "Namespace name owner kind restricted =
     (let level = (if \<not> restricted then ''privileged'' else ''restricted'')
      in Resource ''v1'' ''Namespace'' name [] [(''metadata'', VMap
           [(''name'', VStr name),
            (''labels'', VMap
               [(''ci-preview/owner'', VStr owner),
                (''ci-preview/kind'', VStr kind),
                (''pod-security.kubernetes.io/enforce'', VStr level),
                (''pod-security.kubernetes.io/enforce-version'', VStr ''latest'')])])])"

definition Security :: Object where
  "Security =
     [(''allowPrivilegeEscalation'', VBool False),
      (''readOnlyRootFilesystem'', VBool True),
      (''capabilities'', VMap [(''drop'', strs [''ALL''])]),
      (''seccompProfile'', VMap [(''type'', VStr ''RuntimeDefault'')])]"

definition privateRanges :: "string list" where
  "privateRanges =
     [''10.0.0.0/8'', ''172.16.0.0/12'', ''192.168.0.0/16'', ''169.254.0.0/16'', ''127.0.0.0/8'',
      ''100.64.0.0/10'']"

definition boundaryEgress :: "Object list" where
  "boundaryEgress =
     [[(''to'', objects [[(''namespaceSelector'', VMap [(''matchLabels'',
           VMap [(''kubernetes.io/metadata.name'', VStr ''kube-system'')])])]]),
       (''ports'', objects
          [[(''protocol'', VStr ''UDP''), (''port'', VInt 53)], [(''protocol'', VStr ''TCP''), (''port'', VInt 53)]])],
      [(''to'', objects [[(''ipBlock'', VMap
           [(''cidr'', VStr ''0.0.0.0/0''), (''except'', strs privateRanges)])]]),
       (''ports'', objects [[(''protocol'', VStr ''TCP''), (''port'', VInt 443)]])]]"

definition boundaryIngress :: "int \<Rightarrow> Object list" where
  "boundaryIngress previewPort =
     (if previewPort > 0 then
        [[(''from'', objects [[(''namespaceSelector'', VMap [(''matchLabels'',
             VMap [(''ci-preview/ingress'', VStr ''true'')])])]]),
          (''ports'', objects [[(''protocol'', VStr ''TCP''), (''port'', VInt previewPort)]])]]
      else [])"

definition Boundaries :: "string \<Rightarrow> int \<Rightarrow> Object list" where
  "Boundaries ns previewPort =
     [Resource ''v1'' ''ServiceAccount'' ''workload'' ns [(''automountServiceAccountToken'', VBool False)],
      Resource ''v1'' ''ResourceQuota'' ''workload'' ns [(''spec'', VMap [(''hard'', VMap
        [(''requests.cpu'', VStr ''10''), (''requests.memory'', VStr ''20Gi''),
         (''limits.cpu'', VStr ''10''), (''limits.memory'', VStr ''20Gi''),
         (''pods'', VStr ''2''), (''services'', VStr ''2''), (''secrets'', VStr ''3''),
         (''requests.ephemeral-storage'', VStr ''20Gi''), (''limits.ephemeral-storage'', VStr ''20Gi'')])])],
      Resource ''networking.k8s.io/v1'' ''NetworkPolicy'' ''isolation'' ns [(''spec'', VMap
        [(''podSelector'', VMap []), (''policyTypes'', strs [''Ingress'', ''Egress'']),
         (''ingress'', objects (boundaryIngress previewPort)), (''egress'', objects boundaryEgress)])]]"

section \<open>Running kubectl\<close>

record bounded =
  bd_Buffer :: string
  bd_limit :: int

definition boundedWrite :: "bounded \<Rightarrow> string \<Rightarrow> int \<times> bounded" where
  "boundedWrite b p =
     (let n = int (length p) in
      if int (length (bd_Buffer b)) < bd_limit b then
        let keep = bd_limit b - int (length (bd_Buffer b));
            keep' = (if keep > int (length p) then int (length p) else keep)
        in (n, b\<lparr>bd_Buffer := bd_Buffer b @ take (nat keep') p\<rparr>)
      else (n, b))"

definition writeAll :: "string list \<Rightarrow> int \<Rightarrow> bounded" where
  \<comment> \<open>the chunks that \<open>os/exec\<close> copies to a bounded writer\<close>
  "writeAll chunks limit = fold (\<lambda>p b. snd (boundedWrite b p)) chunks \<lparr>bd_Buffer = [], bd_limit = limit\<rparr>"

record Process =
  pr_Stdout :: "string list"
  pr_Stderr :: "string list"
  pr_Error :: "string option"

record 'k Client =
  kc_Binary :: string
  kc_Host :: string                \<comment> \<open>\<open>KUBERNETES_SERVICE_HOST\<close>\<close>
  kc_Port :: string                \<comment> \<open>\<open>KUBERNETES_SERVICE_PORT\<close>\<close>
  kc_TokenMounted :: "'k \<Rightarrow> bool"
  kc_CreateTemp :: "'k \<Rightarrow> (string + string) \<times> 'k"
  kc_WriteTemp :: "string \<Rightarrow> Value \<Rightarrow> 'k \<Rightarrow> string option \<times> 'k"
  kc_CloseTemp :: "string \<Rightarrow> 'k \<Rightarrow> string option \<times> 'k"
  kc_Remove :: "string \<Rightarrow> 'k \<Rightarrow> 'k"
  kc_Exec :: "string \<Rightarrow> string list \<Rightarrow> Value option \<Rightarrow> 'k \<Rightarrow> Process \<times> 'k"
  kc_Parse :: "string \<Rightarrow> string + Object option"    \<comment> \<open>\<open>json.Unmarshal\<close> into an \<open>Object\<close>; \<open>None\<close> for \<open>null\<close>\<close>

definition JoinHostPort :: "string \<Rightarrow> string \<Rightarrow> string" where
  "JoinHostPort host port =
     (if CHR '':'' \<in> set host then ''['' @ host @ '']:'' @ port else host @ '':'' @ port)"

definition tokenPath :: string where
  "tokenPath = ''/var/run/secrets/kubernetes.io/serviceaccount/token''"

definition kubeconfig :: "string \<Rightarrow> string \<Rightarrow> Value" where
  "kubeconfig host port = VMap
     [(''apiVersion'', VStr ''v1''), (''kind'', VStr ''Config''),
      (''clusters'', objects [[(''name'', VStr ''cluster''), (''cluster'', VMap
         [(''server'', VStr (''https://'' @ JoinHostPort host port)),
          (''certificate-authority'', VStr ''/var/run/secrets/kubernetes.io/serviceaccount/ca.crt'')])]]),
      (''users'', objects [[(''name'', VStr ''manager''), (''user'', VMap [(''tokenFile'', VStr tokenPath)])]]),
      (''contexts'', objects [[(''name'', VStr ''manager''), (''context'', VMap
         [(''cluster'', VStr ''cluster''), (''user'', VStr ''manager'')])]]),
      (''current-context'', VStr ''manager'')]"

definition maxOutput :: int where "maxOutput = 17 * 2 ^ 20"
definition maxStderr :: int where "maxStderr = 4096"

definition spawn :: "'k Client \<Rightarrow> Value option \<Rightarrow> string list \<Rightarrow> 'k \<Rightarrow> (string \<times> string option) \<times> 'k" where
  "spawn c input args s =
     (let (p, s') = kc_Exec c (if kc_Binary c = [] then ''kubectl'' else kc_Binary c) args input s;
          out = bd_Buffer (writeAll (pr_Stdout p) maxOutput);
          err = bd_Buffer (writeAll (pr_Stderr p) maxStderr)
      in ((out, case pr_Error p of
                  Some e \<Rightarrow> Some (''kubectl failed: '' @ e @ '': '' @ err)
                | None \<Rightarrow> None), s'))"

definition Run :: "'k Client \<Rightarrow> Value option \<Rightarrow> string list \<Rightarrow> 'k \<Rightarrow> (string \<times> string option) \<times> 'k" where
  "Run c input args s =
     (let args' = ''--request-timeout=30s'' # args in
      if kc_Host c \<noteq> [] then
        if \<not> kc_TokenMounted c s then
          (([], Some ''Kubernetes ServiceAccount token is not mounted''), s)
        else
          let port = (if kc_Port c = [] then ''443'' else kc_Port c);
              config = kubeconfig (kc_Host c) port
          in case kc_CreateTemp c s of
               (Inl e, s1) \<Rightarrow> (([], Some e), s1)
             | (Inr file, s1) \<Rightarrow>
                 (case kc_WriteTemp c file config s1 of
                    (Some e, s2) \<Rightarrow> (([], Some e), kc_Remove c file (snd (kc_CloseTemp c file s2)))
                  | (None, s2) \<Rightarrow>
                      (case kc_CloseTemp c file s2 of
                         (Some e, s3) \<Rightarrow> (([], Some e), kc_Remove c file s3)
                       | (None, s3) \<Rightarrow>
                           let (r, s4) = spawn c input ([''--kubeconfig'', file] @ args') s3
                           in (r, kc_Remove c file s4)))
      else spawn c input args' s)"

definition listOf :: "Object list \<Rightarrow> Value" where
  "listOf os = VMap [(''apiVersion'', VStr ''v1''), (''kind'', VStr ''List''), (''items'', objects os)]"

definition applyArgs :: "string list" where
  "applyArgs = [''apply'', ''--server-side'', ''--field-manager=ci-preview-platform'', ''-f'', ''-'']"

definition Apply :: "'k Client \<Rightarrow> Object list \<Rightarrow> 'k \<Rightarrow> string option \<times> 'k" where
  "Apply c os s = (let ((_, e), s') = Run c (Some (listOf os)) applyArgs s in (e, s'))"

definition getArgs :: "string \<Rightarrow> string \<Rightarrow> string \<Rightarrow> string list" where
  "getArgs kind namespace name =
     [''get'', kind, name, ''--ignore-not-found'', ''-o'', ''json''] @ (if namespace \<noteq> [] then [''-n'', namespace] else [])"

definition spaceLen :: "nat list \<Rightarrow> nat" where
  \<comment> \<open>the length of the white-space rune that a UTF-8 text starts with, 0 when it starts with another\<close>
  "spaceLen b =
     (if take 1 b \<in> {[9], [10], [11], [12], [13], [32]} then 1
      else if take 2 b \<in> {[0xC2, 0x85], [0xC2, 0xA0]} then 2
      else if take 3 b \<in> {[0xE1, 0x9A, 0x80], [0xE2, 0x80, 0xA8], [0xE2, 0x80, 0xA9], [0xE2, 0x80, 0xAF],
                           [0xE2, 0x81, 0x9F], [0xE3, 0x80, 0x80]} then 3
      else if take 2 b = [0xE2, 0x80] \<and> 2 < length b \<and> 0x80 \<le> b ! 2 \<and> b ! 2 \<le> 0x8A then 3
      else 0)"

function blankBytes :: "nat list \<Rightarrow> bool" where
  "blankBytes b = (if b = [] then True else if spaceLen b = 0 then False else blankBytes (drop (spaceLen b) b))"
  by pat_completeness auto
termination by (relation "measure length") auto

declare blankBytes.simps [simp del]

definition blank :: "string \<Rightarrow> bool" where
  \<comment> \<open>\<open>len(bytes.TrimSpace(b)) == 0\<close>\<close>
  "blank b \<longleftrightarrow> blankBytes (map of_char b)"

definition GetResource :: "'k Client \<Rightarrow> string \<Rightarrow> string \<Rightarrow> string \<Rightarrow> 'k \<Rightarrow> (string + Object option) \<times> 'k" where
  "GetResource c kind namespace name s =
     (let ((b, e), s') = Run c None (getArgs kind namespace name) s in
      case e of
        Some e \<Rightarrow> (Inl e, s')
      | None \<Rightarrow> if blank b then (Inr None, s') else (kc_Parse c b, s'))"

definition ownerOf :: "Object \<Rightarrow> Value" where
  "ownerOf v =
     (let m = asMap (index v ''metadata'');
          labels = asMap (index m ''labels'')
      in index labels ''ci-preview/owner'')"

definition OwnedNamespace :: "'k Client \<Rightarrow> string \<Rightarrow> string \<Rightarrow> 'k \<Rightarrow> (bool \<times> string option) \<times> 'k" where
  "OwnedNamespace c name owner s =
     (case GetResource c ''namespace'' [] name s of
        (Inl e, s') \<Rightarrow> ((False, Some e), s')
      | (Inr None, s') \<Rightarrow> ((False, None), s')
      | (Inr (Some v), s') \<Rightarrow>
          if ownerOf v \<noteq> VStr owner then
            ((True, Some ''refusing to modify a namespace owned by another application''), s')
          else ((True, None), s'))"

definition deleteArgs :: "string \<Rightarrow> string list" where
  "deleteArgs name = [''delete'', ''namespace'', name, ''--wait=false'', ''--ignore-not-found'']"

definition DeleteNamespace :: "'k Client \<Rightarrow> string \<Rightarrow> string \<Rightarrow> 'k \<Rightarrow> string option \<times> 'k" where
  "DeleteNamespace c name owner s =
     (let ((exists, e), s1) = OwnedNamespace c name owner s in
      if e \<noteq> None \<or> \<not> exists then (e, s1)
      else let ((_, e'), s2) = Run c None (deleteArgs name) s1 in (e', s2))"

section \<open>Traces of invocations\<close>

type_synonym command = "string list \<times> Value option"

inductive runs :: "'k Client \<Rightarrow> 'k \<Rightarrow> command list \<Rightarrow> 'k \<Rightarrow> bool" for c s where
  runs_Nil: "runs c s [] s"
| runs_snoc: "runs c s cs s' \<Longrightarrow> Run c input args s' = (r, s'') \<Longrightarrow> runs c s (cs @ [(args, input)]) s''"

inductive_cases runs_NilE: "runs c s [] s'"
inductive_cases runs_snocE: "runs c s (cs @ [cmd]) s'"

lemma runs_one: "Run c input args s = (r, s') \<Longrightarrow> runs c s [(args, input)] s'"
  using runs_snoc [OF runs_Nil] by fastforce

lemma runs_append: "runs c s cs s' \<Longrightarrow> runs c s' ds s'' \<Longrightarrow> runs c s (cs @ ds) s''"
  by (rotate_tac, induction rule: runs.induct) (auto simp flip: append_assoc intro: runs.intros)

definition namespaceDoc :: "string \<Rightarrow> Object \<Rightarrow> bool" where
  \<comment> \<open>the object is the namespace \<open>ns\<close>, or an object inside it\<close>
  "namespaceDoc ns ob \<longleftrightarrow>
     (if index ob ''kind'' = VStr ''Namespace''
      then index (asMap (index ob ''metadata'')) ''name'' = VStr ns
      else index (asMap (index ob ''metadata'')) ''namespace'' = VStr ns)"

definition within :: "string \<Rightarrow> command \<Rightarrow> bool" where
  \<comment> \<open>the invocation changes nothing outside the namespace \<open>ns\<close>\<close>
  "within ns cmd \<longleftrightarrow>
     (\<exists>os. cmd = (applyArgs, Some (listOf os)) \<and> (\<forall>ob \<in> set os. namespaceDoc ns ob)) \<or>
     cmd = (deleteArgs ns, None)"

definition reads :: "command \<Rightarrow> bool" where
  "reads cmd \<longleftrightarrow> snd cmd = None \<and> fst cmd \<noteq> [] \<and> hd (fst cmd) \<in> {''get'', ''logs''}"

section \<open>Lemmas\<close>

lemma fold_boundedWrite:
  "bd_Buffer (fold (\<lambda>p b. snd (boundedWrite b p)) chunks b) =
     bd_Buffer b @ take (nat (bd_limit b) - length (bd_Buffer b)) (concat chunks)"
proof (induction chunks arbitrary: b)
  case Nil
  then show ?case by simp
next
  case (Cons p chunks)
  have "bd_limit (snd (boundedWrite b p)) = bd_limit b"
    by (simp add: boundedWrite_def Let_def)
  moreover have "bd_Buffer (snd (boundedWrite b p)) =
      bd_Buffer b @ take (nat (bd_limit b) - length (bd_Buffer b)) p"
    by (auto simp: boundedWrite_def Let_def nat_diff_distrib)
  ultimately show ?case
    by (simp add: Cons.IH min_def)
qed

lemma writeAll_take: "bd_Buffer (writeAll chunks limit) = take (nat limit) (concat chunks)"
  by (simp add: writeAll_def fold_boundedWrite)

lemma Run_output_bound: "Run c input args s = ((out, e), s') \<Longrightarrow> length out \<le> 17 * 2 ^ 20"
  by (auto simp: Run_def spawn_def Let_def writeAll_take maxOutput_def split: if_splits prod.splits sum.splits option.splits)

lemma Apply_runs: "Apply c os s = (e, s') \<Longrightarrow> runs c s [(applyArgs, Some (listOf os))] s'"
  by (auto simp: Apply_def split: prod.splits intro: runs_one)

lemma GetResource_runs: "GetResource c kind ns name s = (r, s') \<Longrightarrow> runs c s [(getArgs kind ns name, None)] s'"
  by (auto simp: GetResource_def split: prod.splits option.splits if_splits intro: runs_one)

lemma OwnedNamespace_GetResource:
  assumes "OwnedNamespace c name owner s = ((b, e), s')"
  obtains r where "GetResource c ''namespace'' [] name s = (r, s')"
    and "b \<longleftrightarrow> (\<exists>v. r = Inr (Some v))"
    and "e = None \<longleftrightarrow> r = Inr None \<or> (\<exists>v. r = Inr (Some v) \<and> ownerOf v = VStr owner)"
proof -
  obtain r s1 where g: "GetResource c ''namespace'' [] name s = (r, s1)" by fastforce
  show ?thesis
  proof (cases r)
    case (Inl x)
    with g assms that show ?thesis by (auto simp: OwnedNamespace_def)
  next
    case (Inr y)
    with g assms that show ?thesis by (cases y) (auto simp: OwnedNamespace_def split: if_splits)
  qed
qed

lemma OwnedNamespace_runs:
  "OwnedNamespace c name owner s = (r, s') \<Longrightarrow> runs c s [(getArgs ''namespace'' [] name, None)] s'"
  by (cases r) (metis OwnedNamespace_GetResource GetResource_runs)

text \<open>\<open>DeleteNamespace\<close> deletes nothing but a namespace that it has just read and found to carry the owner's label.\<close>

definition owned :: "'k Client \<Rightarrow> string \<Rightarrow> string \<Rightarrow> 'k \<Rightarrow> bool" where
  "owned c name owner s \<longleftrightarrow> (\<exists>v. fst (GetResource c ''namespace'' [] name s) = Inr (Some v) \<and> ownerOf v = VStr owner)"

lemma DeleteNamespace_runs:
  assumes "DeleteNamespace c name owner s = (e, s')"
  obtains "owned c name owner s" "runs c s [(getArgs ''namespace'' [] name, None), (deleteArgs name, None)] s'"
  | "\<not> owned c name owner s" "runs c s [(getArgs ''namespace'' [] name, None)] s'"
proof -
  obtain b e1 s1 where o: "OwnedNamespace c name owner s = ((b, e1), s1)" by (metis prod.exhaust)
  obtain r where g: "GetResource c ''namespace'' [] name s = (r, s1)" "b \<longleftrightarrow> (\<exists>v. r = Inr (Some v))"
    "e1 = None \<longleftrightarrow> r = Inr None \<or> (\<exists>v. r = Inr (Some v) \<and> ownerOf v = VStr owner)"
    using OwnedNamespace_GetResource [OF o] by blast
  note read = OwnedNamespace_runs [OF o]
  show ?thesis
  proof (cases "b \<and> e1 = None")
    case True
    then have "owned c name owner s" using g by (auto simp: owned_def)
    moreover have "runs c s1 [(deleteArgs name, None)] s'"
      using assms o True by (auto simp: DeleteNamespace_def split: prod.splits intro: runs_one)
    ultimately show ?thesis using that(1) runs_append [OF read] by fastforce
  next
    case False
    then have "s' = s1" using assms o by (auto simp: DeleteNamespace_def)
    moreover have "\<not> owned c name owner s" using g False by (auto simp: owned_def)
    ultimately show ?thesis using that(2) read by blast
  qed
qed

lemma reads_simps [simp]: "reads (getArgs kind ns name, None)" "\<not> reads (applyArgs, input)" "\<not> reads (deleteArgs name, input)"
  by (simp_all add: reads_def getArgs_def applyArgs_def deleteArgs_def)

lemma within_apply [simp]: "within ns (applyArgs, Some (listOf os)) \<longleftrightarrow> (\<forall>ob \<in> set os. namespaceDoc ns ob)"
proof -
  have "listOf os = listOf os' \<longleftrightarrow> os = os'" for os'
    by (auto simp: listOf_def dest!: map_injective simp: inj_on_def)
  then show ?thesis
    by (auto simp: within_def applyArgs_def deleteArgs_def)
qed

lemma within_delete [simp]: "within ns (deleteArgs ns, None)"
  by (simp add: within_def)

lemma fold_update_index:
  "distinct (map fst spec) \<Longrightarrow>
     index (fold (\<lambda>(k, v). AList.update k v) spec ob) k = (case map_of spec k of Some v \<Rightarrow> v | None \<Rightarrow> index ob k)"
proof (induction spec arbitrary: ob)
  case Nil
  then show ?case by simp
next
  case (Cons kv spec)
  have "fst kv \<notin> set (map fst spec)" using Cons.prems by simp
  then have "map_of spec (fst kv) = None" by (simp add: map_of_None_keys)
  with Cons show ?case by (cases kv) (auto simp: index_def split: option.splits)
qed

lemma index_Resource:
  assumes "distinct (map fst spec)"
  shows "index (Resource api kind name ns spec) k =
    (case map_of spec k of
       Some v \<Rightarrow> v
     | None \<Rightarrow> index [(''apiVersion'', VStr api), (''kind'', VStr kind),
         (''metadata'', VMap ([(''name'', VStr name)] @ (if ns \<noteq> [] then [(''namespace'', VStr ns)] else [])))] k)"
  unfolding Resource_def Let_def by (rule fold_update_index [OF assms])

lemma Resource_within:
  "distinct (map fst spec) \<Longrightarrow> map_of spec ''kind'' = None \<Longrightarrow> map_of spec ''metadata'' = None \<Longrightarrow>
     kind \<noteq> ''Namespace'' \<Longrightarrow> ns \<noteq> [] \<Longrightarrow> namespaceDoc ns (Resource api kind name ns spec)"
  by (simp add: namespaceDoc_def index_Resource) (simp add: index_def getd_def)

lemma Namespace_within: "namespaceDoc ns (Namespace ns owner kind restricted)"
  by (simp add: namespaceDoc_def Namespace_def Let_def index_Resource) (simp add: index_def getd_def)

lemma Boundaries_within: "ns \<noteq> [] \<Longrightarrow> ob \<in> set (Boundaries ns port) \<Longrightarrow> namespaceDoc ns ob"
  by (auto simp: Boundaries_def intro!: Resource_within)

end
