(* ===== verification/Transport.thy ===== *)
theory Transport
  imports Kubectl
begin

text \<open>
  The control-plane client that the worker, the controller and the command-line tool share,
  \<open>internal/transport/client.go\<close>: \<open>Env\<close>, \<open>Do\<close>, \<open>Raw\<close> and \<open>HTTPError\<close>. The environment, files, the
  HTTP exchange (whose transport follows no redirects) and URL parsing are parameters on a state of
  type \<open>'w\<close>; a request body is nothing, the JSON text of a \<open>Value\<close>, or bytes. \<open>decoder\<close> stands for
  \<open>json.Decoder.Decode\<close> into the caller's target; a nil target decodes nothing.
\<close>

section \<open>White space\<close>


function dropSpaces :: "nat list \<Rightarrow> nat list" where
  "dropSpaces b = (if b = [] then [] else if spaceLen b = 0 then b else dropSpaces (drop (spaceLen b) b))"
  by pat_completeness auto
termination by (relation "measure length") auto

definition TrimSpace :: "string \<Rightarrow> string" where
  \<comment> \<open>\<open>strings.TrimSpace\<close>: the text without leading white space, up to where only white space follows\<close>
  "TrimSpace s =
     (let b = dropSpaces (map of_char s)
      in case find (\<lambda>n. blankBytes (drop n b)) [0..<length b + 1] of
           Some n \<Rightarrow> map char_of (take n b)
         | None \<Rightarrow> map char_of b)"

section \<open>The client\<close>

datatype Body = NoBody | JsonBody Value | ByteBody string

record ApiCall =
  ac_Method :: string
  ac_URL :: string
  ac_Headers :: "(string, string) gomap"
  ac_Body :: Body

record 'w Transport =
  tc_URL :: string
  tc_Token :: string
  tc_Invalid :: "string \<Rightarrow> string \<Rightarrow> string option"     \<comment> \<open>the error of \<open>http.NewRequest\<close> for a method and URL\<close>
  tc_Exchange :: "ApiCall \<Rightarrow> 'w \<Rightarrow> (string + int \<times> string) \<times> 'w"   \<comment> \<open>an error, or status and body\<close>

datatype clientError = HTTPError int | ClientError string

definition clientMessage :: "clientError \<Rightarrow> string" where
  "clientMessage e = (case e of HTTPError status \<Rightarrow> ''control plane returned HTTP '' @ itoa status | ClientError m \<Rightarrow> m)"

definition Env :: "(string \<Rightarrow> string) \<Rightarrow> (string \<Rightarrow> string + string) \<Rightarrow> string + string \<times> string" where
  \<comment> \<open>the base URL and the token, from the environment and a file\<close>
  "Env getenv readFile =
     (let token = (if getenv ''API_TOKEN_FILE'' \<noteq> [] then
                     case readFile (getenv ''API_TOKEN_FILE'') of Inl e \<Rightarrow> Inl e | Inr b \<Rightarrow> Inr (TrimSpace b)
                   else Inr (getenv ''API_TOKEN''))
      in case token of
           Inl e \<Rightarrow> Inl e
         | Inr token \<Rightarrow>
             let base = rev (dropWhile (\<lambda>c. c = CHR ''/'') (rev (getenv ''API_URL''))) in
             if base = [] \<or> token = [] then Inl ''API_URL and API_TOKEN or API_TOKEN_FILE are required''
             else Inr (base, token))"

definition maxReply :: nat where "maxReply = 2 * 2 ^ 20"

definition apiCall :: "'w Transport \<Rightarrow> string \<Rightarrow> string \<Rightarrow> Body \<Rightarrow> string \<Rightarrow> ApiCall" where
  "apiCall c method path data lease =
     \<lparr>ac_Method = method, ac_URL = tc_URL c @ path,
      ac_Headers = [(''Authorization'', ''Bearer '' @ tc_Token c), (''Content-Type'', ''application/json'')] @
                   (if lease \<noteq> [] then [(''X-Lease-Token'', lease)] else []),
      ac_Body = data\<rparr>"

definition Raw :: "'w Transport \<Rightarrow> string \<Rightarrow> string \<Rightarrow> Body \<Rightarrow> string \<Rightarrow> (string \<Rightarrow> string + 'a) \<Rightarrow> 'w
    \<Rightarrow> (clientError + 'a) \<times> 'w" where
  "Raw c method path data lease decoder s =
     (case tc_Invalid c method (tc_URL c @ path) of
        Some e \<Rightarrow> (Inl (ClientError e), s)
      | None \<Rightarrow>
          (case tc_Exchange c (apiCall c method path data lease) s of
             (Inl e, s') \<Rightarrow> (Inl (ClientError e), s')
           | (Inr (status, body), s') \<Rightarrow>
               if status < 200 \<or> status \<ge> 300 then (Inl (HTTPError status), s')
               else (case decoder (take maxReply body) of
                       Inl e \<Rightarrow> (Inl (ClientError e), s')
                     | Inr x \<Rightarrow> (Inr x, s'))))"

definition Do :: "'w Transport \<Rightarrow> string \<Rightarrow> string \<Rightarrow> Value option \<Rightarrow> (string \<Rightarrow> string + 'a) \<Rightarrow> 'w
    \<Rightarrow> (clientError + 'a) \<times> 'w" where
  "Do c method path payload decoder s =
     Raw c method path (case payload of None \<Rightarrow> NoBody | Some v \<Rightarrow> JsonBody v) [] decoder s"

abbreviation nil :: "string \<Rightarrow> string + unit" where
  "nil \<equiv> \<lambda>_. Inr ()"

end
