(* ===== verification/Base64.thy ===== *)
theory Base64
  imports GoStrings
begin

text \<open>
  \<open>encoding/base64\<close> on byte strings: \<open>StdEncoding\<close> with padding, as the job secrets, the
  repository configuration and the installer use it, and the unpadded URL alphabet of the GitHub
  App's tokens. Decoding skips line breaks, as Go's decoder does; encoding and decoding are inverse.
\<close>

definition alphabetChar :: "char \<Rightarrow> char \<Rightarrow> nat \<Rightarrow> char" where
  "alphabetChar c62 c63 n =
     (if n < 26 then char_of (65 + n) else if n < 52 then char_of (71 + n) else if n < 62 then char_of (n - 4)
      else if n = 62 then c62 else c63)"

definition alphabetValue :: "char \<Rightarrow> char \<Rightarrow> char \<Rightarrow> nat option" where
  "alphabetValue c62 c63 c =
     (let n = of_char c in
      if 65 \<le> n \<and> n \<le> 90 then Some (n - 65) else if 97 \<le> n \<and> n \<le> 122 then Some (n - 71)
      else if 48 \<le> n \<and> n \<le> 57 then Some (n + 4) else if c = c62 then Some 62 else if c = c63 then Some 63 else None)"

fun encodeBytes :: "(nat \<Rightarrow> char) \<Rightarrow> bool \<Rightarrow> nat list \<Rightarrow> string" where
  "encodeBytes e pad (a # b # c # bs) =
     [e (a div 4), e (a mod 4 * 16 + b div 16), e (b mod 16 * 4 + c div 64), e (c mod 64)] @ encodeBytes e pad bs"
| "encodeBytes e pad [a, b] =
     [e (a div 4), e (a mod 4 * 16 + b div 16), e (b mod 16 * 4)] @ (if pad then ''='' else [])"
| "encodeBytes e pad [a] = [e (a div 4), e (a mod 4 * 16)] @ (if pad then ''=='' else [])"
| "encodeBytes e pad [] = []"

fun decodeChars :: "(char \<Rightarrow> nat option) \<Rightarrow> string \<Rightarrow> nat list option" where
  "decodeChars d (w # x # y # z # s) =
     (if z = CHR ''='' then
        (if s \<noteq> [] then None
         else if y = CHR ''='' then do { p \<leftarrow> d w; q \<leftarrow> d x; Some [p * 4 + q div 16] }
         else do { p \<leftarrow> d w; q \<leftarrow> d x; r \<leftarrow> d y; Some [p * 4 + q div 16, q mod 16 * 16 + r div 4] })
      else do { p \<leftarrow> d w; q \<leftarrow> d x; r \<leftarrow> d y; t \<leftarrow> d z; bs \<leftarrow> decodeChars d s;
                Some ([p * 4 + q div 16, q mod 16 * 16 + r div 4, r mod 4 * 64 + t] @ bs) })"
| "decodeChars d [] = Some []"
| "decodeChars d _ = None"

definition byteCodes :: "string \<Rightarrow> nat list" where
  "byteCodes s = map of_char s"

definition base64Encode :: "string \<Rightarrow> string" where
  "base64Encode s = encodeBytes (alphabetChar (CHR ''+'') (CHR ''/'')) True (byteCodes s)"

definition rawURLEncode :: "string \<Rightarrow> string" where
  "rawURLEncode s = encodeBytes (alphabetChar (CHR ''-'') (CHR ''_'')) False (byteCodes s)"

definition base64Decode :: "string \<Rightarrow> string option" where
  "base64Decode s =
     map_option (map char_of)
       (decodeChars (alphabetValue (CHR ''+'') (CHR ''/'')) (filter (\<lambda>c. of_char c \<noteq> (10 :: nat) \<and> of_char c \<noteq> (13 :: nat)) s))"

section \<open>Encoding and decoding\<close>

abbreviation "stdChar \<equiv> alphabetChar (CHR ''+'') (CHR ''/'')"
abbreviation "stdValue \<equiv> alphabetValue (CHR ''+'') (CHR ''/'')"

lemma stdValue_stdChar:
  assumes "n < 64"
  shows "stdValue (stdChar n) = Some n \<and> stdChar n \<noteq> CHR ''='' \<and> of_char (stdChar n) \<noteq> (10 :: nat) \<and> of_char (stdChar n) \<noteq> (13 :: nat)"
proof -
  have code: "c = c' \<longleftrightarrow> of_char c = (of_char c' :: nat)" for c c' by simp
  consider "n < 26" | "26 \<le> n" "n < 52" | "52 \<le> n" "n < 62" | "n = 62" | "n = 63"
    using assms by linarith
  then show ?thesis
    by cases (simp_all add: alphabetChar_def alphabetValue_def Let_def code del: of_char_eq_iff, arith)
qed

lemma decode_encode: "\<forall>b \<in> set bs. b < 256 \<Longrightarrow> decodeChars stdValue (encodeBytes stdChar True bs) = Some bs"
proof (induction stdChar True bs rule: encodeBytes.induct)
  case (1 a b c bs)
  then have "a < 256" "b < 256" "c < 256" by simp_all
  then have "a div 4 < 64" "a mod 4 * 16 + b div 16 < 64" "b mod 16 * 4 + c div 64 < 64" "c mod 64 < 64" by arith+
  note d = this [THEN stdValue_stdChar]
  show ?case using 1 d \<open>a < 256\<close> \<open>b < 256\<close> \<open>c < 256\<close> by simp
next
  case (2 a b)
  then have "a < 256" "b < 256" by simp_all
  then have "a div 4 < 64" "a mod 4 * 16 + b div 16 < 64" "b mod 16 * 4 < 64" by arith+
  note d = this [THEN stdValue_stdChar]
  show ?case using d \<open>a < 256\<close> \<open>b < 256\<close> by simp
next
  case (3 a)
  then have "a < 256" by simp
  then have "a div 4 < 64" "a mod 4 * 16 < 64" by arith+
  note d = this [THEN stdValue_stdChar]
  show ?case using d by simp
qed simp

lemma encode_no_break: "c \<in> set (encodeBytes stdChar True bs) \<Longrightarrow> \<forall>b \<in> set bs. b < 256 \<Longrightarrow>
    of_char c \<noteq> (10 :: nat) \<and> of_char c \<noteq> (13 :: nat)"
proof (induction stdChar True bs rule: encodeBytes.induct)
  case (1 a b c' bs)
  then have "a < 256" "b < 256" "c' < 256" by simp_all
  then have "a div 4 < 64" "a mod 4 * 16 + b div 16 < 64" "b mod 16 * 4 + c' div 64 < 64" "c' mod 64 < 64" by arith+
  note d = this [THEN stdValue_stdChar]
  show ?case using 1 d by auto
next
  case (2 a b)
  then have "a < 256" "b < 256" by simp_all
  then have "a div 4 < 64" "a mod 4 * 16 + b div 16 < 64" "b mod 16 * 4 < 64" by arith+
  note d = this [THEN stdValue_stdChar]
  show ?case using 2 d by auto
next
  case (3 a)
  then have "a < 256" by simp
  then have "a div 4 < 64" "a mod 4 * 16 < 64" by arith+
  note d = this [THEN stdValue_stdChar]
  show ?case using 3 d by auto
qed simp

lemma base64_roundtrip: "base64Decode (base64Encode s) = Some s"
proof -
  let ?bs = "byteCodes s"
  have lt: "\<forall>b \<in> set ?bs. b < 256" by (auto simp: byteCodes_def)
  have "filter (\<lambda>c. of_char c \<noteq> (10 :: nat) \<and> of_char c \<noteq> (13 :: nat)) (base64Encode s) = base64Encode s"
    using encode_no_break [OF _ lt] by (auto simp: base64Encode_def intro: filter_True)
  then show ?thesis
    using decode_encode [OF lt] by (simp add: base64Decode_def base64Encode_def byteCodes_def comp_def)
qed

lemma base64Encode_inj: "base64Encode a = base64Encode b \<Longrightarrow> a = b"
  by (metis base64_roundtrip option.inject)

end
