(* ===== verification/App.thy ===== *)
theory App
  imports Transport Base64
begin

text \<open>
  The GitHub App client, \<open>internal/github/app.go\<close>: installation tokens with their cache, the
  repository's configuration and check runs. The HTTP exchange with GitHub, the clock, the RSA
  signature of the App's key and the JSON decoders are parameters on a state of type \<open>'w\<close>; the
  token cache is state that \<open>Token\<close> returns updated. Parsing the PEM key is not modelled.
\<close>

section \<open>Requests\<close>

record GitHubCall =
  gh_Method :: string
  gh_URL :: string
  gh_Token :: string
  gh_Body :: Body

record InstallationToken =
  it_Token :: string
  it_ExpiresAt :: time

record GitHubFile =
  file_Content :: string
  file_Encoding :: string
  file_Size :: int

record 'w App =
  app_ID :: int
  app_Now :: "'w \<Rightarrow> time"
  app_Sign :: "string \<Rightarrow> 'w \<Rightarrow> (string + string) \<times> 'w"         \<comment> \<open>\<open>rsa.SignPKCS1v15\<close> of the SHA-256 digest\<close>
  app_Invalid :: "string \<Rightarrow> string \<Rightarrow> string option"
  app_Exchange :: "GitHubCall \<Rightarrow> 'w \<Rightarrow> (string + int \<times> string) \<times> 'w"
  app_DecodeToken :: "string \<Rightarrow> string + InstallationToken"
  app_DecodeFile :: "string \<Rightarrow> string + GitHubFile"
  app_DecodeID :: "string \<Rightarrow> string + int"

definition unixSeconds :: "time \<Rightarrow> int" where
  "unixSeconds t = (t - 62135596800 * Second) div Second"

definition jwtIssued :: "time \<Rightarrow> int" where "jwtIssued now = unixSeconds (now - Minute)"
definition jwtExpires :: "time \<Rightarrow> int" where "jwtExpires now = unixSeconds (now + 8 * Minute)"

definition jwtClaims :: "int \<Rightarrow> int \<Rightarrow> int \<Rightarrow> string" where
  \<comment> \<open>the JSON text of the claims; \<open>encoding/json\<close> sorts the keys of a map\<close>
  "jwtClaims app issued expires =
     ''{\"exp\":'' @ itoa expires @ '',\"iat\":'' @ itoa issued @ '',\"iss\":\"'' @ itoa app @ ''\"}''"

definition jwt :: "'w App \<Rightarrow> 'w \<Rightarrow> (string + string) \<times> 'w" where
  "jwt a s =
     (let claims = jwtClaims (app_ID a) (jwtIssued (app_Now a s)) (jwtExpires (app_Now a s));
          raw = rawURLEncode ''{\"alg\":\"RS256\",\"typ\":\"JWT\"}'' @ ''.'' @ rawURLEncode claims
      in case app_Sign a raw s of
           (Inl e, s') \<Rightarrow> (Inl e, s')
         | (Inr sig, s') \<Rightarrow> (Inr (raw @ ''.'' @ rawURLEncode sig), s'))"

definition gitHubCall :: "string \<Rightarrow> string \<Rightarrow> string \<Rightarrow> Body \<Rightarrow> GitHubCall" where
  "gitHubCall method path token payload =
     \<lparr>gh_Method = method, gh_URL = ''https://api.github.com'' @ path, gh_Token = token, gh_Body = payload\<rparr>"

definition appRequest :: "'w App \<Rightarrow> string \<Rightarrow> string \<Rightarrow> string \<Rightarrow> Value option \<Rightarrow> (string \<Rightarrow> string + 'a) \<Rightarrow> 'w
    \<Rightarrow> (string + 'a) \<times> 'w" where
  "appRequest a method path token payload decoder s =
     (case app_Invalid a method (''https://api.github.com'' @ path) of
        Some e \<Rightarrow> (Inl e, s)
      | None \<Rightarrow>
          (case app_Exchange a (gitHubCall method path token (case payload of None \<Rightarrow> NoBody | Some v \<Rightarrow> JsonBody v)) s of
             (Inl e, s') \<Rightarrow> (Inl e, s')
           | (Inr (status, body), s') \<Rightarrow>
               if status < 200 \<or> status \<ge> 300 then (Inl (''GitHub returned HTTP '' @ itoa status), s')
               else (decoder (take maxReply body), s')))"

section \<open>Tokens\<close>

type_synonym tokens = "(int, InstallationToken) gomap"

definition usable :: "InstallationToken \<Rightarrow> time \<Rightarrow> bool" where
  "usable t now \<longleftrightarrow> now + Minute < it_ExpiresAt t"

definition tokenPathFor :: "int \<Rightarrow> string" where
  "tokenPathFor inst = ''/app/installations/'' @ itoa inst @ ''/access_tokens''"

definition refreshToken :: "'w App \<Rightarrow> int \<Rightarrow> tokens \<Rightarrow> 'w \<Rightarrow> (string + string) \<times> tokens \<times> 'w" where
  "refreshToken a inst ts s =
     (case jwt a s of
        (Inl e, s1) \<Rightarrow> (Inl e, ts, s1)
      | (Inr j, s1) \<Rightarrow>
          (case appRequest a ''POST'' (tokenPathFor inst) j None (app_DecodeToken a) s1 of
             (Inl e, s2) \<Rightarrow> (Inl e, ts, s2)
           | (Inr t, s2) \<Rightarrow> (Inr (it_Token t), AList.update inst t ts, s2)))"

definition AppToken :: "'w App \<Rightarrow> int \<Rightarrow> tokens \<Rightarrow> 'w \<Rightarrow> (string + string) \<times> tokens \<times> 'w" where
  "AppToken a inst ts s =
     (case map_of ts inst of
        Some t \<Rightarrow> if usable t (app_Now a s) then (Inr (it_Token t), ts, s) else refreshToken a inst ts s
      | None \<Rightarrow> refreshToken a inst ts s)"

section \<open>Configuration and check runs\<close>

definition queryEscape :: "string \<Rightarrow> string" where
  "queryEscape p = concat (map (\<lambda>c.
     let n = (of_char c :: nat) in
     if 97 \<le> n \<and> n \<le> 122 \<or> 65 \<le> n \<and> n \<le> 90 \<or> 48 \<le> n \<and> n \<le> 57 \<or> c \<in> set ''-_.~'' then [c]
     else if c = CHR '' '' then ''+''
     else [CHR ''%'', ''0123456789ABCDEF'' ! (n div 16), ''0123456789ABCDEF'' ! (n mod 16)]) p)"

definition AppConfig :: "'w App \<Rightarrow> int \<Rightarrow> string \<Rightarrow> string \<Rightarrow> tokens \<Rightarrow> 'w \<Rightarrow> (string + string) \<times> tokens \<times> 'w" where
  "AppConfig a inst repo sha ts s =
     (case AppToken a inst ts s of
        (Inl e, ts1, s1) \<Rightarrow> (Inl e, ts1, s1)
      | (Inr t, ts1, s1) \<Rightarrow>
          (case appRequest a ''GET'' (''/repos/'' @ repo @ ''/contents/.ci-preview.yml?ref='' @ queryEscape sha) t None
                  (app_DecodeFile a) s1 of
             (Inl e, s2) \<Rightarrow> (Inl e, ts1, s2)
           | (Inr f, s2) \<Rightarrow>
               if file_Encoding f \<noteq> ''base64'' \<or> file_Size f > 1048576
               then (Inl ''repository configuration is not a bounded text file'', ts1, s2)
               else (case base64Decode (file_Content f) of
                       None \<Rightarrow> (Inl ''illegal base64 data'', ts1, s2)
                     | Some b \<Rightarrow> (Inr b, ts1, s2))))"

fun stateText :: "State \<Rightarrow> string" where
  "stateText StateQueued = ''QUEUED''" | "stateText StateLeased = ''LEASED''" | "stateText StateRunning = ''RUNNING''"
| "stateText StateSucceeded = ''SUCCEEDED''" | "stateText StateFailed = ''FAILED''" | "stateText StateLost = ''LOST''"
| "stateText StateCancelled = ''CANCELLED''" | "stateText StateActive = ''ACTIVE''" | "stateText StateDeleting = ''DELETING''"
| "stateText StatePending = ''PENDING''" | "stateText StateDeleted = ''DELETED''" | "stateText StateUnset = []"

definition conclusionOf :: "State \<Rightarrow> string" where
  "conclusionOf st =
     (let c1 = ''failure'';
          c2 = (if st = StateSucceeded then ''success'' else c1)
      in if st = StateCancelled then ''cancelled'' else c2)"

definition checkPayload :: "string \<Rightarrow> Pipeline \<Rightarrow> Object" where
  \<comment> \<open>\<open>completedAt\<close> is the time in RFC 3339\<close>
  "checkPayload completedAt p =
     (let payload = [(''name'', VStr ''CI Preview Platform''), (''head_sha'', VStr (pl_CommitSHA p)),
            (''external_id'', VStr (pl_ID p)), (''status'', VStr ''in_progress''),
            (''output'', VMap [(''title'', VStr (stateText (pl_Status p))), (''summary'', VStr (''Pipeline: '' @ pl_ID p))])]
      in if pl_Status p = StateSucceeded \<or> pl_Status p = StateFailed \<or> pl_Status p = StateCancelled
         then AList.update ''completed_at'' (VStr completedAt)
                (AList.update ''conclusion'' (VStr (conclusionOf (pl_Status p)))
                  (AList.update ''status'' (VStr ''completed'') payload))
         else payload)"

definition checkTarget :: "Pipeline \<Rightarrow> string \<times> string" where
  "checkTarget p =
     (let path = ''/repos/'' @ pl_Repo p @ ''/check-runs''
      in if pl_CheckRunID p \<noteq> 0 then (''PATCH'', path @ ''/'' @ itoa (pl_CheckRunID p)) else (''POST'', path))"

definition AppCheck :: "'w App \<Rightarrow> (time \<Rightarrow> string) \<Rightarrow> Pipeline \<Rightarrow> tokens \<Rightarrow> 'w \<Rightarrow> (string + int) \<times> tokens \<times> 'w" where
  "AppCheck a rfc3339 p ts s =
     (case AppToken a (pl_InstallationID p) ts s of
        (Inl e, ts1, s1) \<Rightarrow> (Inl e, ts1, s1)
      | (Inr t, ts1, s1) \<Rightarrow>
          (case appRequest a (fst (checkTarget p)) (snd (checkTarget p)) t
                  (Some (VMap (checkPayload (rfc3339 (app_Now a s1)) p))) (app_DecodeID a) s1 of
             (r, s2) \<Rightarrow> (r, ts1, s2)))"

section \<open>Properties\<close>

text \<open>The cached tokens of an App: what it fetched, for the installation it was fetched for.\<close>

definition fetches :: "'w App \<Rightarrow> int \<Rightarrow> 'w \<Rightarrow> InstallationToken \<Rightarrow> 'w \<Rightarrow> bool" where
  \<comment> \<open>from \<open>s\<close> to \<open>s'\<close>, GitHub answered the installation's token request, signed with the App's own claims\<close>
  "fetches a inst s t s' \<longleftrightarrow> (\<exists>j s1. jwt a s = (Inr j, s1) \<and>
     appRequest a ''POST'' (''/app/installations/'' @ itoa inst @ ''/access_tokens'') j None (app_DecodeToken a) s1 =
       (Inr t, s'))"

definition cached :: "'w App \<Rightarrow> tokens \<Rightarrow> bool" where
  "cached a ts \<longleftrightarrow> (\<forall>inst t. map_of ts inst = Some t \<longrightarrow> (\<exists>s s'. fetches a inst s t s'))"

lemma refreshToken_cases:
  assumes "refreshToken a inst ts s = (r, ts', s')"
  obtains (failed) e where "r = Inl e" "ts' = ts"
  | (fetched) t where "r = Inr (it_Token t)" "ts' = AList.update inst t ts" "fetches a inst s t s'"
proof -
  obtain j s1 where j: "jwt a s = (j, s1)" by fastforce
  show ?thesis
  proof (cases j)
    case (Inl e)
    with assms j failed show ?thesis by (auto simp: refreshToken_def)
  next
    case (Inr token)
    obtain t s2 where t: "appRequest a ''POST'' (tokenPathFor inst) token None (app_DecodeToken a) s1 = (t, s2)" by fastforce
    show ?thesis
    proof (cases t)
      case (Inl e)
      with assms j Inr t failed show ?thesis by (auto simp add: refreshToken_def)
    next
      case t': (Inr tok)
      have "fetches a inst s tok s2"
        unfolding fetches_def tokenPathFor_def [symmetric] using j t Inr t' by blast
      with assms j Inr t t' fetched show ?thesis by (auto simp add: refreshToken_def)
    qed
  qed
qed

text \<open>C29: an installation's token is only ever that installation's. \<open>Token\<close> keeps a cache of tokens
  that GitHub issued for the installation they are stored under; it answers from the cache, without
  any request, exactly when the cached token lives longer than another minute, and otherwise with a
  token just issued for this installation, which then is the cached one; a failure leaves the cache
  as it was, and the tokens of other installations are never touched.\<close>

theorem AppToken_cache:
  assumes "AppToken a inst ts s = (r, ts', s')" "cached a ts"
  shows "cached a ts' \<and> (\<forall>i. i \<noteq> inst \<longrightarrow> map_of ts' i = map_of ts i) \<and>
    (if \<exists>t. map_of ts inst = Some t \<and> app_Now a s + 60 * Second < it_ExpiresAt t
     then s' = s \<and> ts' = ts \<and> r = Inr (it_Token (the (map_of ts inst)))
     else (\<exists>e. r = Inl e) \<and> ts' = ts \<or>
       (\<exists>t. r = Inr (it_Token t) \<and> map_of ts' inst = Some t \<and> fetches a inst s t s'))"
proof (cases "\<exists>t. map_of ts inst = Some t \<and> app_Now a s + 60 * Second < it_ExpiresAt t")
  case True
  with assms show ?thesis by (auto simp: AppToken_def usable_def Minute_def)
next
  case False
  then have "\<not> (\<exists>t. map_of ts inst = Some t \<and> usable t (app_Now a s))" by (simp add: usable_def Minute_def)
  with assms(1) have "refreshToken a inst ts s = (r, ts', s')" by (auto simp: AppToken_def split: option.splits)
  then show ?thesis
  proof (cases rule: refreshToken_cases)
    case (failed e)
    with False assms(2) show ?thesis by auto
  next
    case (fetched t)
    with False assms(2) show ?thesis by (auto simp: cached_def)
  qed
qed

text \<open>A check run says what the pipeline's state is. The payload is completed with a conclusion
  exactly for the three terminal states, success exactly for success and cancelled exactly for
  cancelled; the run is updated in place exactly when the pipeline has one, and the signed claims of
  the App live nine minutes, within the ten that GitHub accepts.\<close>

lemma AppCheck_payload:
  "(index (checkPayload at p) ''status'' = VStr ''completed'' \<longleftrightarrow> pl_Status p \<in> {StateSucceeded, StateFailed, StateCancelled}) \<and>
   (index (checkPayload at p) ''conclusion'' =
      (if pl_Status p = StateSucceeded then VStr ''success'' else if pl_Status p = StateCancelled then VStr ''cancelled''
       else if pl_Status p = StateFailed then VStr ''failure'' else VNull)) \<and>
   index (checkPayload at p) ''head_sha'' = VStr (pl_CommitSHA p) \<and>
   (fst (checkTarget p) = ''PATCH'' \<longleftrightarrow> pl_CheckRunID p \<noteq> 0) \<and>
   jwtExpires now - jwtIssued now = 540"
proof -
  have "jwtExpires now - jwtIssued now = 540"
  proof -
    have "now + 8 * Minute - 62135596800 * Second = (now - Minute - 62135596800 * Second) + 540 * Second"
      by (simp add: Minute_def Second_def)
    then show ?thesis
      unfolding jwtExpires_def jwtIssued_def unixSeconds_def by (simp add: Second_def)
  qed
  then show ?thesis
    by (auto simp: checkPayload_def checkTarget_def Let_def index_def getd_def conclusionOf_def)
qed

section \<open>A sample App\<close>

definition sampleApp :: "nat App" where
  "sampleApp = \<lparr>app_ID = 7, app_Now = (\<lambda>_. 0), app_Sign = (\<lambda>_ s. (Inr ''sig'', s)), app_Invalid = (\<lambda>_ _. None),
     app_Exchange = (\<lambda>_ s. (Inr (201, ''t''), Suc s)),
     app_DecodeToken = (\<lambda>b. Inr \<lparr>it_Token = b, it_ExpiresAt = Hour\<rparr>),
     app_DecodeFile = (\<lambda>_. Inr \<lparr>file_Content = base64Encode ''version: 1'', file_Encoding = ''base64'', file_Size = 10\<rparr>),
     app_DecodeID = (\<lambda>_. Inr 1)\<rparr>"

lemma sample_fetch: "AppToken sampleApp 5 [] 0 = (Inr ''t'', [(5, \<lparr>it_Token = ''t'', it_ExpiresAt = Hour\<rparr>)], 1)"
proof -
  obtain j where "jwt sampleApp 0 = (Inr j, 0)" by (simp add: jwt_def sampleApp_def Let_def)
  then show ?thesis
    by (simp add: AppToken_def refreshToken_def appRequest_def) (simp add: sampleApp_def maxReply_def)
qed

lemma sample_cached: "cached sampleApp [(5, \<lparr>it_Token = ''t'', it_ExpiresAt = Hour\<rparr>)]"
proof -
  obtain j where "jwt sampleApp 0 = (Inr j, 0)" by (simp add: jwt_def sampleApp_def Let_def)
  then have "fetches sampleApp 5 0 \<lparr>it_Token = ''t'', it_ExpiresAt = Hour\<rparr> 1"
    unfolding fetches_def by (simp add: appRequest_def) (simp add: sampleApp_def maxReply_def)
  then show ?thesis by (auto simp: cached_def)
qed

lemma sample_reuse:
  "AppToken sampleApp 5 [(5, \<lparr>it_Token = ''t'', it_ExpiresAt = Hour\<rparr>)] 1 =
     (Inr ''t'', [(5, \<lparr>it_Token = ''t'', it_ExpiresAt = Hour\<rparr>)], 1)"
  by (simp add: AppToken_def usable_def) (simp add: sampleApp_def Hour_def Minute_def Second_def)

theorem AppToken_cache_witness:
  "AppToken sampleApp 5 [(5, \<lparr>it_Token = ''t'', it_ExpiresAt = Hour\<rparr>)] 1 =
     (Inr ''t'', [(5, \<lparr>it_Token = ''t'', it_ExpiresAt = Hour\<rparr>)], 1) \<and>
   app_Now sampleApp 1 + 60 * Second < Hour"
  using AppToken_cache [OF sample_reuse sample_cached] sample_reuse
  by (simp add: sampleApp_def Hour_def Minute_def Second_def)

text \<open>A repository's configuration file is returned byte for byte: when GitHub sends the base64
  encoding of a text of at most 1 MiB, \<open>Config\<close> returns exactly that text.\<close>

lemma AppConfig_roundtrip:
  assumes "AppToken a inst ts s = (Inr t, ts1, s1)"
    and "appRequest a ''GET'' (''/repos/'' @ repo @ ''/contents/.ci-preview.yml?ref='' @ queryEscape sha) t None
           (app_DecodeFile a) s1 = (Inr f, s2)"
    and "file_Content f = base64Encode content" "file_Encoding f = ''base64''" "file_Size f \<le> 1048576"
  shows "AppConfig a inst repo sha ts s = (Inr content, ts1, s2)"
  using assms by (simp add: AppConfig_def base64_roundtrip)

lemma AppConfig_roundtrip_sample: "\<exists>ts s. AppConfig sampleApp 5 ''o/r'' ''abc'' [] 0 = (Inr ''version: 1'', ts, s)"
proof -
  have "appRequest sampleApp ''GET'' (''/repos/'' @ ''o/r'' @ ''/contents/.ci-preview.yml?ref='' @ queryEscape ''abc'') ''t'' None
      (app_DecodeFile sampleApp) 1 =
    (Inr \<lparr>file_Content = base64Encode ''version: 1'', file_Encoding = ''base64'', file_Size = 10\<rparr>, 2)"
    by (simp add: appRequest_def) (simp add: sampleApp_def)
  from AppConfig_roundtrip [OF sample_fetch this] show ?thesis by simp
qed

end
