(* ===== verification/Startup.thy ===== *)
theory Startup
  imports System App Transport
begin

text \<open>
  The start of the control plane: \<open>Load\<close> of the access file (\<open>internal/auth/auth.go\<close>), \<open>NewApp\<close>
  (\<open>internal/github/app.go\<close>), and \<open>secret\<close> and the checks of \<open>run\<close> up to the server
  (\<open>cmd/api/main.go\<close>), in their order. The environment, the files, the JSON decoder, the PEM and
  PKCS parsers, \<open>url.Parse\<close> and the construction of the connection pool with its cipher are
  parameters. A process that starts has a valid access file, a 32-byte key and a usable object store,
  and the database it leaves is one of the runs of \<open>running\<close>.
\<close>

section \<open>Configuration\<close>

definition secret :: "(string \<Rightarrow> string) \<Rightarrow> (string \<Rightarrow> string + string) \<Rightarrow> string \<Rightarrow> string" where
  "secret getenv readFile name =
     (let path = getenv (name @ ''_FILE'') in
      if path \<noteq> [] then (case readFile path of Inl _ \<Rightarrow> [] | Inr data \<Rightarrow> TrimSpace data)
      else getenv name)"

datatype loadError = Unreadable string | Undecodable string | Invalid accessError

definition LoadAccess :: "(string \<Rightarrow> string + string) \<Rightarrow> (string \<Rightarrow> string + AccessConfig) \<Rightarrow> string \<Rightarrow> loadError + AccessConfig" where
  "LoadAccess readFile decodeAccess path =
     (case readFile path of
        Inl e \<Rightarrow> Inl (Unreadable e)
      | Inr b \<Rightarrow>
          (case decodeAccess b of
             Inl e \<Rightarrow> Inl (Undecodable e)
           | Inr c \<Rightarrow> (case ValidateAccess c of Some e \<Rightarrow> Inl (Invalid e) | None \<Rightarrow> Inr c)))"

text \<open>\<open>strconv.ParseInt\<close> in base 10 into 64 bits.\<close>

definition digitsValue :: "string \<Rightarrow> int option" where
  "digitsValue s = (if s = [] \<or> \<not> list_all isDigit s then None
     else Some (foldl (\<lambda>n c. 10 * n + (int (of_char c) - 48)) 0 s))"

definition ParseInt :: "string \<Rightarrow> int option" where
  "ParseInt s =
     (let neg = HasPrefix s ''-'';
          ds = (if neg \<or> HasPrefix s ''+'' then tl s else s)
      in do { n \<leftarrow> digitsValue ds;
              let v = (if neg then - n else n);
              if v < - (2 ^ 63) \<or> v \<ge> 2 ^ 63 then None else Some v })"

text \<open>A private key file: the decoded PEM block and the two encodings of a key; PKCS 8 keys may be of
  another kind than RSA.\<close>

record ('block, 'key) KeyParsers =
  kp_Pem :: "string \<Rightarrow> 'block option"
  kp_PKCS1 :: "'block \<Rightarrow> string + 'key"
  kp_PKCS8 :: "'block \<Rightarrow> string + 'key option"

record 'key AppIdentity =
  ai_ID :: int
  ai_Key :: 'key
  ai_Tokens :: tokens

definition NewApp :: "('block, 'key) KeyParsers \<Rightarrow> int \<Rightarrow> string \<Rightarrow> string + 'key AppIdentity" where
  "NewApp kp appID keyPEM =
     (case kp_Pem kp keyPEM of
        None \<Rightarrow> Inl ''invalid GitHub App PEM''
      | Some block \<Rightarrow>
          let key = (case kp_PKCS1 kp block of
                       Inr key \<Rightarrow> Inr key
                     | Inl _ \<Rightarrow>
                         (case kp_PKCS8 kp block of
                            Inl e \<Rightarrow> Inl e
                          | Inr None \<Rightarrow> Inl ''GitHub App requires an RSA private key''
                          | Inr (Some key) \<Rightarrow> Inr key))
          in map_sum id (\<lambda>key. \<lparr>ai_ID = appID, ai_Key = key, ai_Tokens = []\<rparr>) key)"

definition githubApp :: "(string \<Rightarrow> string) \<Rightarrow> (string \<Rightarrow> string + string) \<Rightarrow> ('block, 'key) KeyParsers
    \<Rightarrow> string + 'key AppIdentity option" where
  "githubApp getenv readFile kp =
     (let name = getenv ''GITHUB_APP_KEY_FILE'' in
      if name = [] then Inr None
      else case readFile name of
        Inl e \<Rightarrow> Inl e
      | Inr pem \<Rightarrow>
          (case ParseInt (getenv ''GITHUB_APP_ID'') of
             None \<Rightarrow> Inl ''GITHUB_APP_ID must be positive''
           | Some n \<Rightarrow> if n < 1 then Inl ''GITHUB_APP_ID must be positive'' else map_sum id Some (NewApp kp n pem)))"

section \<open>Starting\<close>

datatype startError =
    AccessRefused loadError | StateKeyNotHex | BackendRefused apiError | ObjectsRefused objectError | AppRefused string

record ('byte, 'block, 'key) Host =
  host_Getenv :: "string \<Rightarrow> string"
  host_ReadFile :: "string \<Rightarrow> string + string"
  host_Access :: "string \<Rightarrow> string + AccessConfig"
  host_URL :: "string \<Rightarrow> URL option"
  host_Pool :: "string \<Rightarrow> u8 list \<Rightarrow> Config \<Rightarrow> 'byte Postgres"   \<comment> \<open>DSN, key, configuration\<close>
  host_Keys :: "('block, 'key) KeyParsers"

record ('byte, 'key) Process =
  proc_Access :: AccessConfig
  proc_Backend :: "'byte Postgres"
  proc_Key :: "u8 list"
  proc_Objects :: S3
  proc_App :: "'key AppIdentity option"
  proc_WebhookSecret :: string
  proc_Address :: string

definition objectStore :: "('byte, 'block, 'key) Host \<Rightarrow> S3" where
  "objectStore h =
     (let s = secret (host_Getenv h) (host_ReadFile h) in
      \<lparr>s3_Endpoint = host_URL h (host_Getenv h ''S3_ENDPOINT''), s3_Bucket = host_Getenv h ''S3_BUCKET'',
       s3_Region = host_Getenv h ''S3_REGION'', s3_AccessKey = s ''S3_ACCESS_KEY'', s3_SecretKey = s ''S3_SECRET_KEY''\<rparr>)"

definition startup :: "('byte, 'block, 'key) Host \<Rightarrow> 'byte PgEnv \<Rightarrow> 'byte PgEnv \<Rightarrow> 'byte Database
    \<Rightarrow> ((startError + ('byte, 'key) Process) \<times> 'byte Database) option" where
  \<comment> \<open>\<open>run\<close> up to the server: the first failing check ends the process\<close>
  "startup h env1 env2 db =
     (let s = secret (host_Getenv h) (host_ReadFile h) in
      case LoadAccess (host_ReadFile h) (host_Access h) (host_Getenv h ''AUTH_CONFIG_FILE'') of
        Inl e \<Rightarrow> Some (Inl (AccessRefused e), db)
      | Inr policy \<Rightarrow>
          (case hexDecode (s ''STATE_KEY'') of
             None \<Rightarrow> Some (Inl StateKeyNotHex, db)
           | Some key \<Rightarrow>
               let pg = host_Pool h (s ''DATABASE_URL'') key serviceConfig in
               do { (opened, db') \<leftarrow> Open pg env1 env2 key db;
                    Some (case opened of
                      Inl e \<Rightarrow> (Inl (BackendRefused e), db')
                    | Inr _ \<Rightarrow>
                        (case ValidateS3 (objectStore h) of
                           Inl e \<Rightarrow> (Inl (ObjectsRefused e), db')
                         | Inr bucket \<Rightarrow>
                             (case githubApp (host_Getenv h) (host_ReadFile h) (host_Keys h) of
                                Inl e \<Rightarrow> (Inl (AppRefused e), db')
                              | Inr app \<Rightarrow>
                                  (Inr \<lparr>proc_Access = policy, proc_Backend = pg, proc_Key = key, proc_Objects = bucket,
                                        proc_App = app, proc_WebhookSecret = s ''GITHUB_WEBHOOK_SECRET'',
                                        proc_Address = (if host_Getenv h ''LISTEN_ADDR'' = [] then '':8080''
                                                        else host_Getenv h ''LISTEN_ADDR'')\<rparr>, db')))) }))"

section \<open>What a started process has\<close>

lemma LoadAccess_valid:
  "LoadAccess readFile decodeAccess path = Inr c \<Longrightarrow> ValidateAccess c = None"
  by (auto simp: LoadAccess_def split: sum.splits option.splits)

lemma githubApp_positive:
  "githubApp getenv readFile kp = Inr (Some a) \<Longrightarrow> 1 \<le> ai_ID a \<and> ai_ID a < 2 ^ 63 \<and> ai_Tokens a = []"
  by (auto simp: githubApp_def NewApp_def ParseInt_def Let_def split: if_splits sum.splits option.splits Option.bind_splits)

lemma startup_cases:
  assumes "startup h env1 env2 db = Some (res, db')"
  shows "db' = db \<and> (\<exists>e. res = Inl e) \<or>
    (\<exists>policy key opened.
       LoadAccess (host_ReadFile h) (host_Access h) (host_Getenv h ''AUTH_CONFIG_FILE'') = Inr policy \<and>
       Open (host_Pool h (secret (host_Getenv h) (host_ReadFile h) ''DATABASE_URL'') key serviceConfig) env1 env2 key db
         = Some (opened, db') \<and>
       (\<forall>p. res = Inr p \<longrightarrow> opened = Inr () \<and> proc_Access p = policy \<and> proc_Key p = key \<and>
          proc_Backend p = host_Pool h (secret (host_Getenv h) (host_ReadFile h) ''DATABASE_URL'') key serviceConfig \<and>
          ValidateS3 (objectStore h) = Inr (proc_Objects p) \<and>
          (\<forall>a. proc_App p = Some a \<longrightarrow> 1 \<le> ai_ID a \<and> ai_Tokens a = [])))"
  using assms githubApp_positive [of "host_Getenv h" "host_ReadFile h" "host_Keys h"]
  by (auto simp: startup_def Let_def split: sum.splits option.splits Option.bind_splits)

text \<open>
  A process that starts serves under a valid access file, with a 32-byte key and the configuration of
  \<open>serviceConfig\<close>, and the database it serves is one of the runs of the control plane.
\<close>

lemma startup_sound:
  assumes "startup h env1 env2 db = Some (Inr p, db')"
    and "running (proc_Backend p) (proc_Access p) db" "fairEnv (proc_Backend p) env1" "fairEnv (proc_Backend p) env2"
  shows "ValidateAccess (proc_Access p) = None \<and> length (proc_Key p) = 32 \<and> ValidateS3 (objectStore h) = Inr (proc_Objects p) \<and>
    running (proc_Backend p) (proc_Access p) db'"
proof -
  from startup_cases [OF assms(1)] obtain policy key where
    l: "LoadAccess (host_ReadFile h) (host_Access h) (host_Getenv h ''AUTH_CONFIG_FILE'') = Inr policy"
    and o: "Open (proc_Backend p) env1 env2 key db = Some (Inr (), db')"
    and p: "proc_Access p = policy" "proc_Key p = key" "ValidateS3 (objectStore h) = Inr (proc_Objects p)"
    by auto
  have "length key = 32" using o by (auto simp: Open_def split: if_splits)
  moreover have "ValidateAccess policy = None" by (rule LoadAccess_valid [OF l])
  moreover have "running (proc_Backend p) (proc_Access p) db'"
    by (rule running.start [OF assms(2-4) o])
  ultimately show ?thesis using p by simp
qed

text \<open>A refused access file or key leaves the database untouched.\<close>

lemma startup_refuses:
  assumes "startup h env1 env2 db = Some (Inl e, db')" "(\<exists>l. e = AccessRefused l) \<or> e = StateKeyNotHex"
  shows "db' = db"
  using assms by (auto simp: startup_def Let_def split: sum.splits option.splits Option.bind_splits)

end
