(* ===== verification/Boundary.thy ===== *)
theory Boundary
  imports Kubectl
begin

unbundle bit_operations_syntax

text \<open>
  What the network policies of a list of objects (\<open>Boundaries\<close> of \<open>internal/kube/client.go\<close>) say, read
  as the \<open>networking.k8s.io/v1\<close> API defines them. A policy concerns the pods of its own namespace
  that its \<open>podSelector\<close> selects, in the directions of its \<open>policyTypes\<close>. A pod that no policy selects
  is unrestricted in that direction; otherwise a connection is open when some rule of some policy that
  selects the pod has both a peer and a port that match it (policies are additive, and a rule without
  peers or ports stands for all of them). An \<open>ipBlock\<close> is a CIDR range less its exceptions, a
  \<open>namespaceSelector\<close> asks for labels of the peer's namespace and a \<open>podSelector\<close> for labels of the peer,
  in the policy's own namespace when it stands alone. The definitions below are that specification,
  not a model of the cluster's network plugin.
\<close>

section \<open>Addresses\<close>

definition decimal :: "string \<Rightarrow> nat option" where
  "decimal s =
     (if s \<noteq> [] \<and> (\<forall>c \<in> set s. isDigit c) then Some (foldl (\<lambda>n c. 10 * n + (of_char c - 48)) 0 s) else None)"

definition parseIPv4 :: "string \<Rightarrow> 32 word option" where
  "parseIPv4 s =
     (case map decimal (Split s (CHR ''.'')) of
        [Some a, Some b, Some c, Some d] \<Rightarrow>
          if a < 256 \<and> b < 256 \<and> c < 256 \<and> d < 256
          then Some (word_of_nat (((a * 256 + b) * 256 + c) * 256 + d)) else None
      | _ \<Rightarrow> None)"

definition parseCIDR :: "string \<Rightarrow> (32 word \<times> nat) option" where
  "parseCIDR s =
     (case Split s (CHR ''/'') of
        [ip, len] \<Rightarrow>
          (case (parseIPv4 ip, decimal len) of
             (Some base, Some n) \<Rightarrow> if n \<le> 32 then Some (base, n) else None
           | _ \<Rightarrow> None)
      | _ \<Rightarrow> None)"

definition inCIDR :: "string \<Rightarrow> 32 word \<Rightarrow> bool" where
  "inCIDR s ip \<longleftrightarrow>
     (case parseCIDR s of
        Some (base, n) \<Rightarrow> drop_bit (32 - n) ip = drop_bit (32 - n) base
      | None \<Rightarrow> False)"

section \<open>Connections\<close>

record Endpoint =   \<comment> \<open>a pod, as policies see it\<close>
  ep_Namespace :: string
  ep_NamespaceLabels :: "(string, string) gomap"
  ep_Labels :: "(string, string) gomap"

record Peer =
  peer_IP :: "32 word"
  peer_Pod :: "Endpoint option"   \<comment> \<open>\<open>None\<close> outside the cluster\<close>

fun elements :: "Value \<Rightarrow> Object list" where
  "elements (VList vs) = map asMap vs"
| "elements _ = []"

fun texts :: "Value \<Rightarrow> string list" where
  "texts (VList vs) = concat (map (\<lambda>v. case v of VStr s \<Rightarrow> [s] | _ \<Rightarrow> []) vs)"
| "texts _ = []"

definition expressionMatches :: "Object \<Rightarrow> (string, string) gomap \<Rightarrow> bool" where
  "expressionMatches e labels \<longleftrightarrow>
     (case index e ''key'' of
        VStr k \<Rightarrow>
          (let v = map_of labels k; vs = set (texts (index e ''values'')) in
           if index e ''operator'' = VStr ''In'' then \<exists>s \<in> vs. v = Some s
           else if index e ''operator'' = VStr ''NotIn'' then \<forall>s \<in> vs. v \<noteq> Some s
           else if index e ''operator'' = VStr ''Exists'' then v \<noteq> None
           else index e ''operator'' = VStr ''DoesNotExist'' \<and> v = None)
      | _ \<Rightarrow> False)"

definition labelsMatch :: "Object \<Rightarrow> (string, string) gomap \<Rightarrow> bool" where
  \<comment> \<open>an empty selector selects everything\<close>
  "labelsMatch sel labels \<longleftrightarrow>
     (\<forall>(k, v) \<in> set (asMap (index sel ''matchLabels'')). \<exists>s. v = VStr s \<and> map_of labels k = Some s) \<and>
     (\<forall>e \<in> set (elements (index sel ''matchExpressions'')). expressionMatches e labels)"

definition peerMatches :: "string \<Rightarrow> Object \<Rightarrow> Peer \<Rightarrow> bool" where
  "peerMatches ns pat p \<longleftrightarrow>
     (case map_of pat ''ipBlock'' of
        Some b \<Rightarrow>
          (case index (asMap b) ''cidr'' of VStr s \<Rightarrow> inCIDR s (peer_IP p) | _ \<Rightarrow> False) \<and>
          (\<forall>s \<in> set (texts (index (asMap b) ''except'')). \<not> inCIDR s (peer_IP p))
      | None \<Rightarrow>
          (case peer_Pod p of
             None \<Rightarrow> False
           | Some q \<Rightarrow>
               (case map_of pat ''namespaceSelector'' of
                  Some sel \<Rightarrow> labelsMatch (asMap sel) (ep_NamespaceLabels q)
                | None \<Rightarrow> ep_Namespace q = ns) \<and>
               (case map_of pat ''podSelector'' of
                  Some sel \<Rightarrow> labelsMatch (asMap sel) (ep_Labels q)
                | None \<Rightarrow> map_of pat ''namespaceSelector'' \<noteq> None)))"

definition portMatches :: "Object \<Rightarrow> string \<Rightarrow> int \<Rightarrow> bool" where
  "portMatches pat proto port \<longleftrightarrow>
     (case index pat ''protocol'' of VStr s \<Rightarrow> proto = s | _ \<Rightarrow> proto = ''TCP'') \<and>
     (case index pat ''port'' of
        VInt n \<Rightarrow> (case index pat ''endPort'' of VInt m \<Rightarrow> n \<le> port \<and> port \<le> m | _ \<Rightarrow> port = n)
      | VNull \<Rightarrow> True
      | _ \<Rightarrow> False)"

definition ruleMatches :: "string \<Rightarrow> string \<Rightarrow> Object \<Rightarrow> Peer \<Rightarrow> string \<Rightarrow> int \<Rightarrow> bool" where
  "ruleMatches ns direction rule p proto port \<longleftrightarrow>
     (let pats = elements (index rule direction) in pats = [] \<or> (\<exists>pat \<in> set pats. peerMatches ns pat p)) \<and>
     (let pats = elements (index rule ''ports'') in pats = [] \<or> (\<exists>pat \<in> set pats. portMatches pat proto port))"

text \<open>The policies that concern a pod in a direction, and the connections they leave open. Without
  \<open>policyTypes\<close> a policy concerns the ingress, and the egress when it has rules for it. An object
  without a namespace is in that of \<open>kubectl\<close>'s context, which the empty name stands for.\<close>

definition policyNamespace :: "Object \<Rightarrow> string" where
  "policyNamespace ob =
     (case index (asMap (index ob ''metadata'')) ''namespace'' of VStr s \<Rightarrow> s | _ \<Rightarrow> [])"

definition concerns :: "Endpoint \<Rightarrow> string \<Rightarrow> Object \<Rightarrow> bool" where
  "concerns pod direction ob \<longleftrightarrow>
     (let spec = asMap (index ob ''spec''); types = texts (index spec ''policyTypes'') in
      index ob ''kind'' = VStr ''NetworkPolicy'' \<and>
      policyNamespace ob = ep_Namespace pod \<and>
      labelsMatch (asMap (index spec ''podSelector'')) (ep_Labels pod) \<and>
      (if types = [] then direction = ''Ingress'' \<or> elements (index spec ''egress'') \<noteq> []
       else direction \<in> set types))"

definition policiesOf :: "Object list \<Rightarrow> Endpoint \<Rightarrow> string \<Rightarrow> Object list" where
  "policiesOf os pod direction = filter (concerns pod direction) os"

definition egressOpen :: "Object list \<Rightarrow> Endpoint \<Rightarrow> Peer \<Rightarrow> string \<Rightarrow> int \<Rightarrow> bool" where
  "egressOpen os pod p proto port \<longleftrightarrow>
     policiesOf os pod ''Egress'' = [] \<or>
     (\<exists>ob \<in> set (policiesOf os pod ''Egress''). \<exists>rule \<in> set (elements (index (asMap (index ob ''spec'')) ''egress'')).
        ruleMatches (policyNamespace ob) ''to'' rule p proto port)"

definition ingressOpen :: "Object list \<Rightarrow> Endpoint \<Rightarrow> Peer \<Rightarrow> string \<Rightarrow> int \<Rightarrow> bool" where
  "ingressOpen os pod p proto port \<longleftrightarrow>
     policiesOf os pod ''Ingress'' = [] \<or>
     (\<exists>ob \<in> set (policiesOf os pod ''Ingress''). \<exists>rule \<in> set (elements (index (asMap (index ob ''spec'')) ''ingress'')).
        ruleMatches (policyNamespace ob) ''from'' rule p proto port)"

text \<open>The private, link-local, loopback and carrier-grade ranges, as bit patterns.\<close>

definition privateIP :: "32 word \<Rightarrow> bool" where
  "privateIP ip \<longleftrightarrow>
     drop_bit 24 ip = 10 \<or> drop_bit 20 ip = 0xAC1 \<or> drop_bit 16 ip = 0xC0A8 \<or>
     drop_bit 16 ip = 0xA9FE \<or> drop_bit 24 ip = 127 \<or> drop_bit 22 ip = 0x191"

definition publicIP :: "32 word \<Rightarrow> bool" where
  "publicIP ip \<longleftrightarrow> \<not> privateIP ip"

section \<open>Lemmas\<close>

lemma elements_objects [simp]: "elements (objects os) = os"
  by (induction os) auto

lemma texts_strs [simp]: "texts (strs ss) = ss"
  by (induction ss) auto

lemma decimal_simps: "decimal s =
     (if s \<noteq> [] \<and> list_all isDigit s then Some (foldl (\<lambda>n c. 10 * n + (of_char c - 48)) 0 s) else None)"
  by (simp add: decimal_def list_all_iff)

lemma parse_ranges:
  "parseCIDR ''0.0.0.0/0'' = Some (0, 0)" "parseCIDR ''10.0.0.0/8'' = Some (0x0A000000, 8)"
  "parseCIDR ''172.16.0.0/12'' = Some (0xAC100000, 12)" "parseCIDR ''192.168.0.0/16'' = Some (0xC0A80000, 16)"
  "parseCIDR ''169.254.0.0/16'' = Some (0xA9FE0000, 16)" "parseCIDR ''127.0.0.0/8'' = Some (0x7F000000, 8)"
  "parseCIDR ''100.64.0.0/10'' = Some (0x64400000, 10)"
  by (simp_all add: parseCIDR_def parseIPv4_def decimal_simps isDigit_def)

lemma drop_all: "drop_bit 32 (ip :: 32 word) = 0"
  by (rule bit_word_eqI) (simp add: bit_drop_bit_eq not_le)

lemma inCIDR_ranges:
  "inCIDR ''0.0.0.0/0'' ip" "inCIDR ''10.0.0.0/8'' ip \<longleftrightarrow> drop_bit 24 ip = 10"
  "inCIDR ''172.16.0.0/12'' ip \<longleftrightarrow> drop_bit 20 ip = 0xAC1" "inCIDR ''192.168.0.0/16'' ip \<longleftrightarrow> drop_bit 16 ip = 0xC0A8"
  "inCIDR ''169.254.0.0/16'' ip \<longleftrightarrow> drop_bit 16 ip = 0xA9FE" "inCIDR ''127.0.0.0/8'' ip \<longleftrightarrow> drop_bit 24 ip = 127"
  "inCIDR ''100.64.0.0/10'' ip \<longleftrightarrow> drop_bit 22 ip = 0x191"
  by (simp_all add: inCIDR_def parse_ranges drop_all)

lemma public_except: "(\<forall>s \<in> set privateRanges. \<not> inCIDR s ip) \<longleftrightarrow> publicIP ip"
  by (auto simp: privateRanges_def publicIP_def privateIP_def inCIDR_ranges)

text \<open>Objects of other kinds and policies of other namespaces do not matter.\<close>

lemma policiesOf_append: "policiesOf (os @ os') pod d = policiesOf os pod d @ policiesOf os' pod d"
  by (simp add: policiesOf_def)

lemma policiesOf_none: "\<forall>ob \<in> set os. index ob ''kind'' \<noteq> VStr ''NetworkPolicy'' \<Longrightarrow> policiesOf os pod d = []"
  by (auto simp: policiesOf_def concerns_def Let_def filter_empty_conv)

lemma open_append:
  assumes "\<forall>ob \<in> set os'. index ob ''kind'' \<noteq> VStr ''NetworkPolicy''"
  shows "egressOpen (os @ os') pod p proto n = egressOpen os pod p proto n"
    and "ingressOpen (os @ os') pod p proto n = ingressOpen os pod p proto n"
  using policiesOf_none [OF assms] by (simp_all add: egressOpen_def ingressOpen_def policiesOf_append)

lemma policies_Boundaries:
  "\<exists>ob. (\<forall>pod. \<forall>d \<in> {''Ingress'', ''Egress''}.
           policiesOf (Boundaries ns port) pod d = (if ep_Namespace pod = ns then [ob] else [])) \<and>
     policyNamespace ob = ns \<and>
     elements (index (asMap (index ob ''spec'')) ''ingress'') = boundaryIngress port \<and>
     elements (index (asMap (index ob ''spec'')) ''egress'') = boundaryEgress"
proof -
  let ?ob = "Resource ''networking.k8s.io/v1'' ''NetworkPolicy'' ''isolation'' ns
     [(''spec'', VMap [(''podSelector'', VMap []), (''policyTypes'', strs [''Ingress'', ''Egress'']),
        (''ingress'', objects (boundaryIngress port)), (''egress'', objects boundaryEgress)])]"
  have ns: "policyNamespace ?ob = ns"
    by (simp add: policyNamespace_def index_Resource) (simp add: index_def getd_def)
  have spec: "index ?ob ''spec'' = VMap [(''podSelector'', VMap []), (''policyTypes'', strs [''Ingress'', ''Egress'']),
        (''ingress'', objects (boundaryIngress port)), (''egress'', objects boundaryEgress)]"
    by (simp add: index_Resource)
  have kind: "index ?ob ''kind'' = VStr ''NetworkPolicy''"
    by (simp add: index_Resource) (simp add: index_def getd_def)
  have c: "concerns pod d ?ob \<longleftrightarrow> ep_Namespace pod = ns" if "d \<in> {''Ingress'', ''Egress''}" for pod d
    using that unfolding concerns_def Let_def spec kind ns labelsMatch_def by (auto simp: index_def getd_def)
  have "policiesOf (Boundaries ns port) pod d = (if concerns pod d ?ob then [?ob] else [])" for pod d
    unfolding policiesOf_def Boundaries_def by (simp add: concerns_def index_Resource) (simp add: index_def getd_def)
  with c have "\<forall>pod. \<forall>d \<in> {''Ingress'', ''Egress''}.
      policiesOf (Boundaries ns port) pod d = (if ep_Namespace pod = ns then [?ob] else [])" by simp
  moreover have "elements (index (asMap (index ?ob ''spec'')) ''ingress'') = boundaryIngress port"
    "elements (index (asMap (index ?ob ''spec'')) ''egress'') = boundaryEgress"
    unfolding spec by (simp_all add: index_def getd_def comp_def)
  ultimately show ?thesis using ns by blast
qed

text \<open>C18: the network policy applied to every job and preview namespace concerns every pod of that
  namespace, whatever its labels, and no other pod. It lets the pod reach exactly DNS in the cluster's
  system namespace and HTTPS at public addresses; in particular no address of a private range, the
  loopback range or the link-local range of the cloud metadata service is reachable. Inbound, it opens
  nothing in a job namespace, and in a preview namespace the preview's own port to pods of namespaces
  labelled for ingress.\<close>

theorem Boundaries_network:
  "(egressOpen (Boundaries ns port) pod p proto n \<longleftrightarrow>
      (if ep_Namespace pod = ns
       then (\<exists>q. peer_Pod p = Some q \<and> map_of (ep_NamespaceLabels q) ''kubernetes.io/metadata.name'' = Some ''kube-system'') \<and>
              proto \<in> {''UDP'', ''TCP''} \<and> n = 53 \<or>
            publicIP (peer_IP p) \<and> proto = ''TCP'' \<and> n = 443
       else True)) \<and>
   (ingressOpen (Boundaries ns port) pod p proto n \<longleftrightarrow>
      (if ep_Namespace pod = ns
       then 0 < port \<and> (\<exists>q. peer_Pod p = Some q \<and> map_of (ep_NamespaceLabels q) ''ci-preview/ingress'' = Some ''true'') \<and>
              proto = ''TCP'' \<and> n = port
       else True))"
proof -
  obtain ob where ob: "\<forall>pod. \<forall>d \<in> {''Ingress'', ''Egress''}.
      policiesOf (Boundaries ns port) pod d = (if ep_Namespace pod = ns then [ob] else [])"
    "policyNamespace ob = ns" "elements (index (asMap (index ob ''spec'')) ''ingress'') = boundaryIngress port"
    "elements (index (asMap (index ob ''spec'')) ''egress'') = boundaryEgress"
    using policies_Boundaries [of ns port] by blast
  note match = ruleMatches_def peerMatches_def portMatches_def labelsMatch_def index_def getd_def
  have e: "(\<exists>rule \<in> set boundaryEgress. ruleMatches ns ''to'' rule p proto n) \<longleftrightarrow>
     (\<exists>q. peer_Pod p = Some q \<and> map_of (ep_NamespaceLabels q) ''kubernetes.io/metadata.name'' = Some ''kube-system'') \<and>
       proto \<in> {''UDP'', ''TCP''} \<and> n = 53 \<or>
     publicIP (peer_IP p) \<and> proto = ''TCP'' \<and> n = 443"
    by (cases "peer_Pod p") (auto simp: boundaryEgress_def match inCIDR_ranges public_except)
  have i: "(\<exists>rule \<in> set (boundaryIngress port). ruleMatches ns ''from'' rule p proto n) \<longleftrightarrow>
     0 < port \<and> (\<exists>q. peer_Pod p = Some q \<and> map_of (ep_NamespaceLabels q) ''ci-preview/ingress'' = Some ''true'') \<and>
       proto = ''TCP'' \<and> n = port"
    by (cases "peer_Pod p") (auto simp: boundaryIngress_def match)
  show ?thesis
    unfolding egressOpen_def ingressOpen_def using ob e i by simp
qed

section \<open>Pods\<close>

text \<open>
  The requirements of the \<open>restricted\<close> Pod Security level on the fields that the platform's
  manifests set, and the consistency of a pod's containers with its volumes.
\<close>

definition restrictedContainer :: "Object \<Rightarrow> bool" where
  "restrictedContainer c \<longleftrightarrow>
     (let sc = asMap (index c ''securityContext''); caps = asMap (index sc ''capabilities'')
      in index sc ''allowPrivilegeEscalation'' = VBool False \<and>
         ''ALL'' \<in> set (texts (index caps ''drop'')) \<and> index caps ''add'' = VNull \<and>
         index (asMap (index sc ''seccompProfile'')) ''type'' = VStr ''RuntimeDefault'')"

definition containersOf :: "Object \<Rightarrow> Object list" where
  "containersOf spec = elements (index spec ''initContainers'') @ elements (index spec ''containers'')"

definition restrictedPod :: "Object \<Rightarrow> bool" where
  "restrictedPod spec \<longleftrightarrow>
     (let sc = asMap (index spec ''securityContext'')
      in index sc ''runAsNonRoot'' = VBool True \<and>
         index (asMap (index sc ''seccompProfile'')) ''type'' = VStr ''RuntimeDefault'' \<and>
         list_all restrictedContainer (containersOf spec) \<and>
         list_all (\<lambda>k. index spec k = VNull) [''hostNetwork'', ''hostPID'', ''hostIPC''] \<and>
         list_all (\<lambda>v. \<forall>k \<in> set (keys v). k \<in> {''name'', ''emptyDir'', ''secret''}) (elements (index spec ''volumes'')))"

definition mountsOf :: "Object \<Rightarrow> string list" where
  "mountsOf c = concat (map (\<lambda>m. texts (VList [index m ''name''])) (elements (index c ''volumeMounts'')))"

definition volumesOf :: "Object \<Rightarrow> string list" where
  "volumesOf spec = concat (map (\<lambda>v. texts (VList [index v ''name''])) (elements (index spec ''volumes'')))"

definition wellTypedPod :: "Object \<Rightarrow> bool" where
  "wellTypedPod spec \<longleftrightarrow>
     distinct (map (\<lambda>c. index c ''name'') (containersOf spec)) \<and>
     distinct (volumesOf spec) \<and>
     list_all (\<lambda>c. set (mountsOf c) \<subseteq> set (volumesOf spec)) (containersOf spec)"

lemma restrictedContainer_Security:
  "index c ''securityContext'' = VMap Security \<Longrightarrow> restrictedContainer c"
  by (simp add: restrictedContainer_def Security_def index_def getd_def Let_def)

end
