(* ===== verification/Preview.thy ===== *)
theory Preview
  imports Boundary Runtime
begin

text \<open>
  The preview controller's reconciliation, \<open>internal/kube/preview.go\<close>: the manifests of a preview
  and \<open>Reconcile\<close>, which brings a preview's namespace to its desired state and reports the state
  it observed, its URL and an error. The environment variables the code reads and the decoding of a
  deployment's status by \<open>encoding/json\<close> are fields of \<open>PreviewController\<close>.
\<close>

record DeploymentStatus =
  ds_Generation :: int
  ds_ObservedGeneration :: int
  ds_Replicas :: int
  ds_AvailableReplicas :: int
  ds_UpdatedReplicas :: int

record 'k PreviewController =
  pc_Client :: "'k Client"
  pc_Domain :: string
  pc_IngressClass :: string
  pc_TLSSecret :: string
  pc_PullSecret :: string          \<comment> \<open>\<open>PREVIEW_PULL_SECRET\<close>\<close>
  pc_PlatformNamespace :: string   \<comment> \<open>\<open>PLATFORM_NAMESPACE\<close>\<close>
  pc_Status :: "Object option \<Rightarrow> string + DeploymentStatus"

definition deploymentReady :: "'k PreviewController \<Rightarrow> Object option \<Rightarrow> string + bool" where
  "deploymentReady pc deployment =
     (case pc_Status pc deployment of
        Inl e \<Rightarrow> Inl e
      | Inr s \<Rightarrow> Inr (ds_Generation s > 0 \<and> ds_ObservedGeneration s \<ge> ds_Generation s \<and>
                     ds_Replicas s = 1 \<and> ds_UpdatedReplicas s = 1 \<and> ds_AvailableReplicas s = 1))"

definition previewContainer :: "Preview \<Rightarrow> Object" where
  "previewContainer p =
     [(''name'', VStr ''app''), (''image'', VStr (pv_Image p)),
      (''ports'', objects [[(''containerPort'', VInt (pv_Port p))]]),
      (''securityContext'', VMap Security),
      (''resources'', VMap
         [(''requests'', VMap [(''cpu'', VStr ''100m''), (''memory'', VStr ''128Mi''), (''ephemeral-storage'', VStr ''64Mi'')]),
          (''limits'', VMap [(''cpu'', VStr ''1''), (''memory'', VStr ''512Mi''), (''ephemeral-storage'', VStr ''1Gi'')])]),
      (''readinessProbe'', VMap
         [(''httpGet'', VMap [(''path'', VStr (pv_HealthPath p)), (''port'', VInt (pv_Port p))]),
          (''initialDelaySeconds'', VInt 2), (''periodSeconds'', VInt 3)]),
      (''livenessProbe'', VMap
         [(''httpGet'', VMap [(''path'', VStr (pv_HealthPath p)), (''port'', VInt (pv_Port p))]),
          (''initialDelaySeconds'', VInt 20), (''periodSeconds'', VInt 10)]),
      (''volumeMounts'', objects
         [[(''name'', VStr ''tmp''), (''mountPath'', VStr ''/tmp'')],
          [(''name'', VStr ''cache''), (''mountPath'', VStr ''/var/cache/nginx'')],
          [(''name'', VStr ''run''), (''mountPath'', VStr ''/var/run'')]])]"

definition previewPodSpec :: "'k PreviewController \<Rightarrow> Preview \<Rightarrow> Object" where
  "previewPodSpec pc p =
     [(''serviceAccountName'', VStr ''workload''), (''automountServiceAccountToken'', VBool False),
      (''enableServiceLinks'', VBool False),
      (''securityContext'', VMap
         [(''runAsNonRoot'', VBool True), (''runAsUser'', VInt 1000), (''runAsGroup'', VInt 1000), (''fsGroup'', VInt 1000),
          (''seccompProfile'', VMap [(''type'', VStr ''RuntimeDefault'')])]),
      (''containers'', objects [previewContainer p]),
      (''volumes'', objects
         [[(''name'', VStr ''tmp''), (''emptyDir'', VMap [(''sizeLimit'', VStr ''256Mi'')])],
          [(''name'', VStr ''cache''), (''emptyDir'', VMap [(''sizeLimit'', VStr ''256Mi'')])],
          [(''name'', VStr ''run''), (''emptyDir'', VMap [(''sizeLimit'', VStr ''64Mi'')])]])] @
     (if pc_PullSecret pc \<noteq> [] then [(''imagePullSecrets'', objects [[(''name'', VStr (pc_PullSecret pc))]])] else [])"

definition previewDeployment :: "'k PreviewController \<Rightarrow> Preview \<Rightarrow> Object" where
  "previewDeployment pc p =
     (let labels = VMap [(''app'', VStr ''preview'')];
          template = VMap
            [(''metadata'', VMap [(''labels'', labels),
                (''annotations'', VMap [(''ci-preview/pipeline'', VStr (pv_PipelineID p))])]),
             (''spec'', VMap (previewPodSpec pc p))]
      in Resource ''apps/v1'' ''Deployment'' ''preview'' (pv_Namespace p) [(''spec'', VMap
           [(''replicas'', VInt 1), (''revisionHistoryLimit'', VInt 2),
            (''selector'', VMap [(''matchLabels'', labels)]), (''template'', template)])])"

definition previewIngress :: "'k PreviewController \<Rightarrow> Preview \<Rightarrow> Object" where
  "previewIngress pc p =
     (let host = pv_Namespace p @ ''.'' @ pc_Domain pc;
          spec = [(''ingressClassName'', VStr (pc_IngressClass pc)),
                  (''rules'', objects [[(''host'', VStr host), (''http'', VMap [(''paths'', objects
                     [[(''path'', VStr ''/''), (''pathType'', VStr ''Prefix''),
                       (''backend'', VMap [(''service'', VMap [(''name'', VStr ''preview''),
                          (''port'', VMap [(''number'', VInt (pv_Port p))])])])]])])]])] @
                 (if pc_TLSSecret pc \<noteq> []
                  then [(''tls'', objects [[(''hosts'', strs [host]), (''secretName'', VStr (pc_TLSSecret pc))]])] else [])
      in Resource ''networking.k8s.io/v1'' ''Ingress'' ''preview'' (pv_Namespace p) [(''spec'', VMap spec)])"

definition Manifests :: "'k PreviewController \<Rightarrow> Preview \<Rightarrow> Object list" where
  "Manifests pc p =
     [previewDeployment pc p,
      Resource ''v1'' ''Service'' ''preview'' (pv_Namespace p) [(''spec'', VMap
        [(''selector'', VMap [(''app'', VStr ''preview'')]),
         (''ports'', objects [[(''port'', VInt (pv_Port p)), (''targetPort'', VInt (pv_Port p))]])])]] @
     (if pv_Exposure p = ''public'' \<and> pc_Domain pc \<noteq> [] then [previewIngress pc p] else [])"

text \<open>The loop that copies the configured secrets from the platform's namespace.\<close>

fun copySecrets :: "'k PreviewController \<Rightarrow> Preview \<Rightarrow> string list \<Rightarrow> 'k \<Rightarrow> (string + Object list) \<times> 'k" where
  "copySecrets pc p [] s = (Inr [], s)"
| "copySecrets pc p (name # names) s =
     (if name = [] then copySecrets pc p names s
      else case GetResource (pc_Client pc) ''secret'' (pc_PlatformNamespace pc) name s of
             (Inl e, s1) \<Rightarrow> (Inl e, s1)
           | (Inr None, s1) \<Rightarrow> (Inl ''configured preview secret does not exist'', s1)
           | (Inr (Some secret), s1) \<Rightarrow>
               (case copySecrets pc p names s1 of
                  (Inl e, s2) \<Rightarrow> (Inl e, s2)
                | (Inr os, s2) \<Rightarrow>
                    (Inr (Resource ''v1'' ''Secret'' name (pv_Namespace p)
                            [(''type'', index secret ''type''), (''data'', index secret ''data'')] # os), s2)))"

definition immutableImage :: "string \<Rightarrow> bool" where
  "immutableImage img \<longleftrightarrow>
     (let parts = Split img (CHR ''@'') in length parts = 2 \<and> DigestPattern (parts ! 1))"

definition previewURL :: "'k PreviewController \<Rightarrow> Preview \<Rightarrow> string + string" where
  "previewURL pc p =
     (if pv_Exposure p = ''public'' then
        if pc_Domain pc = [] then Inl ''PREVIEW_DOMAIN is required for public exposure''
        else let scheme = (if pc_TLSSecret pc \<noteq> [] then ''https'' else ''http'')
             in Inr (scheme @ ''://'' @ pv_Namespace p @ ''.'' @ pc_Domain pc)
      else Inr (''http://preview.'' @ pv_Namespace p @ ''.svc.cluster.local:'' @ itoa (pv_Port p)))"

type_synonym observed = "State \<times> string \<times> string option"

definition reconcileDeletion :: "'k PreviewController \<Rightarrow> Preview \<Rightarrow> 'k \<Rightarrow> observed \<times> 'k" where
  \<comment> \<open>the branch of a preview that is to be deleted\<close>
  "reconcileDeletion pc p s =
     (let owner = pv_Namespace p;
          ((exists, e), s1) = OwnedNamespace (pc_Client pc) (pv_Namespace p) owner s in
      if e \<noteq> None then ((StatePending, [], e), s1)
      else if \<not> exists then ((StateDeleted, [], None), s1)
      else let (e', s2) = DeleteNamespace (pc_Client pc) (pv_Namespace p) owner s1
           in ((StatePending, [], e'), s2))"

definition reconcileReady :: "'k PreviewController \<Rightarrow> Preview \<Rightarrow> 'k \<Rightarrow> observed \<times> 'k" where
  \<comment> \<open>from the reading of the deployment on\<close>
  "reconcileReady pc p s =
     (case GetResource (pc_Client pc) ''deployment'' (pv_Namespace p) ''preview'' s of
        (Inl e, s1) \<Rightarrow> ((StatePending, [], Some e), s1)
      | (Inr deployment, s1) \<Rightarrow>
          (case deploymentReady pc deployment of
             Inl e \<Rightarrow> ((StatePending, [], Some e), s1)
           | Inr ready \<Rightarrow>
               if \<not> ready then ((StatePending, [], None), s1)
               else (case previewURL pc p of
                       Inl e \<Rightarrow> ((StatePending, [], Some e), s1)
                     | Inr url \<Rightarrow> ((StateActive, url, None), s1))))"

definition reconcileObjects :: "'k PreviewController \<Rightarrow> Preview \<Rightarrow> 'k \<Rightarrow> observed \<times> 'k" where
  \<comment> \<open>from the construction of the objects on\<close>
  "reconcileObjects pc p s =
     (case copySecrets pc p [pc_TLSSecret pc, pc_PullSecret pc] s of
        (Inl e, s1) \<Rightarrow> ((StatePending, [], Some e), s1)
      | (Inr secrets, s1) \<Rightarrow>
          let os = Boundaries (pv_Namespace p) (pv_Port p) @ secrets @ Manifests pc p in
          (case Apply (pc_Client pc) os s1 of
             (Some e, s2) \<Rightarrow> ((StatePending, [], Some e), s2)
           | (None, s2) \<Rightarrow> reconcileReady pc p s2))"

definition ReconcilePreview :: "'k PreviewController \<Rightarrow> Preview \<Rightarrow> 'k \<Rightarrow> observed \<times> 'k" where
  "ReconcilePreview pc p s =
     (let owner = pv_Namespace p in
      if pv_Desired p = StateDeleting then reconcileDeletion pc p s
      else if \<not> immutableImage (pv_Image p) then
        ((StatePending, [], Some ''preview requires a published immutable image digest''), s)
      else
        let ((_, e), s1) = OwnedNamespace (pc_Client pc) (pv_Namespace p) owner s in
        if e \<noteq> None then ((StatePending, [], e), s1)
        else case Apply (pc_Client pc) [Namespace (pv_Namespace p) owner ''preview'' True] s1 of
               (Some e', s2) \<Rightarrow> ((StatePending, [], Some e'), s2)
             | (None, s2) \<Rightarrow> reconcileObjects pc p s2)"

section \<open>What a reconciliation does to the cluster\<close>

text \<open>
  The invocations of one reconciliation: reading the namespace, the two configured secrets of the
  platform's namespace and the deployment, and the invocations that change nothing outside the
  preview's namespace.
\<close>

definition previewReads :: "'k PreviewController \<Rightarrow> Preview \<Rightarrow> command list" where
  "previewReads pc p =
     [(getArgs ''namespace'' [] (pv_Namespace p), None),
      (getArgs ''secret'' (pc_PlatformNamespace pc) (pc_TLSSecret pc), None),
      (getArgs ''secret'' (pc_PlatformNamespace pc) (pc_PullSecret pc), None),
      (getArgs ''deployment'' (pv_Namespace p) ''preview'', None)]"

abbreviation previewDoes :: "'k PreviewController \<Rightarrow> Preview \<Rightarrow> command \<Rightarrow> bool" where
  "previewDoes pc p cmd \<equiv> cmd \<in> set (previewReads pc p) \<or> within (pv_Namespace p) cmd"

definition foreign :: "'k Client \<Rightarrow> string \<Rightarrow> string \<Rightarrow> 'k \<Rightarrow> bool" where
  "foreign c name owner s \<longleftrightarrow> (\<exists>v. fst (GetResource c ''namespace'' [] name s) = Inr (Some v) \<and> ownerOf v \<noteq> VStr owner)"

lemma OwnedNamespace_foreign:
  "OwnedNamespace c name owner s = ((b, e), s') \<Longrightarrow> foreign c name owner s \<Longrightarrow> b \<and> e \<noteq> None"
  by (erule OwnedNamespace_GetResource) (auto simp: foreign_def)

lemma Manifests_within:
  assumes "pv_Namespace p \<noteq> []" "ob \<in> set (Manifests pc p)"
  shows "namespaceDoc (pv_Namespace p) ob"
  using assms(2)
  by (auto simp: Manifests_def previewDeployment_def previewIngress_def Let_def assms(1) intro!: Resource_within
      split: if_splits)

lemma copySecrets_runs:
  assumes "copySecrets pc p names s = (r, s')" "pv_Namespace p \<noteq> []"
  shows "\<exists>cs. runs (pc_Client pc) s cs s' \<and>
      (\<forall>cmd \<in> set cs. \<exists>name \<in> set names. cmd = (getArgs ''secret'' (pc_PlatformNamespace pc) name, None)) \<and>
      (\<forall>os. r = Inr os \<longrightarrow> (\<forall>ob \<in> set os. namespaceDoc (pv_Namespace p) ob \<and> index ob ''kind'' = VStr ''Secret''))"
  using assms(1)
proof (induction names arbitrary: s r s')
  case Nil
  then show ?case by (auto intro: runs_Nil)
next
  case (Cons name names)
  show ?case
  proof (cases "name = []")
    case True
    with Cons.prems have "copySecrets pc p names s = (r, s')" by simp
    from Cons.IH [OF this] show ?thesis by (metis list.set_intros(2))
  next
    case False
    obtain g s1 where g: "GetResource (pc_Client pc) ''secret'' (pc_PlatformNamespace pc) name s = (g, s1)" by fastforce
    note one = GetResource_runs [OF g]
    show ?thesis
    proof (cases "\<exists>secret. g = Inr (Some secret)")
      case True
      then obtain secret where sec: "g = Inr (Some secret)" by blast
      obtain r2 s2 where rest: "copySecrets pc p names s1 = (r2, s2)" by fastforce
      have eq: "s' = s2"
        using Cons.prems False g sec rest by (auto split: sum.splits)
      from Cons.IH [OF rest] obtain cs where cs: "runs (pc_Client pc) s1 cs s2"
        "\<forall>cmd \<in> set cs. \<exists>name \<in> set names. cmd = (getArgs ''secret'' (pc_PlatformNamespace pc) name, None)"
        "\<forall>os. r2 = Inr os \<longrightarrow> (\<forall>ob \<in> set os. namespaceDoc (pv_Namespace p) ob \<and> index ob ''kind'' = VStr ''Secret'')"
        by blast
      have "namespaceDoc (pv_Namespace p) (Resource ''v1'' ''Secret'' name (pv_Namespace p)
              [(''type'', index secret ''type''), (''data'', index secret ''data'')])"
        using assms(2) by (intro Resource_within) auto
      moreover have "index (Resource ''v1'' ''Secret'' name (pv_Namespace p)
              [(''type'', index secret ''type''), (''data'', index secret ''data'')]) ''kind'' = VStr ''Secret''"
        by (subst index_Resource) (auto simp: index_def getd_def)
      ultimately have "\<forall>os. r = Inr os \<longrightarrow>
          (\<forall>ob \<in> set os. namespaceDoc (pv_Namespace p) ob \<and> index ob ''kind'' = VStr ''Secret'')"
        using cs(3) Cons.prems False g sec rest by (cases r2) auto
      then show ?thesis
        using runs_append [OF one cs(1)] cs(2) eq by (intro exI [of _ "[_] @ cs"]) auto
    next
      case False
      then have "s' = s1" "\<exists>e. r = Inl e"
        using Cons.prems \<open>name \<noteq> []\<close> g by (auto split: sum.splits option.splits)
      with one show ?thesis by (intro exI [of _ "[_]"]) auto
    qed
  qed
qed

lemma previewReads_namespace: "(getArgs ''namespace'' [] (pv_Namespace p), None) \<in> set (previewReads pc p)"
  by (simp add: previewReads_def)

lemma reconcileReady_runs:
  "reconcileReady pc p s = (r, s') \<Longrightarrow>
     runs (pc_Client pc) s [(getArgs ''deployment'' (pv_Namespace p) ''preview'', None)] s'"
  by (auto simp: reconcileReady_def split: prod.splits sum.splits if_splits dest: GetResource_runs)






lemma reconcileObjects_cases:
  assumes "reconcileObjects pc p s = (r, s')" "pv_Namespace p \<noteq> []"
  obtains (failed) cs where "runs (pc_Client pc) s cs s'" "\<forall>cmd \<in> set cs. previewDoes pc p cmd"
      "\<exists>e. r = (StatePending, [], Some e)"
  | (applied) cs secrets s2 where "runs (pc_Client pc) s cs s2" "\<forall>cmd \<in> set cs. previewDoes pc p cmd"
      "(applyArgs, Some (listOf (Boundaries (pv_Namespace p) (pv_Port p) @ secrets @ Manifests pc p))) \<in> set cs"
      "reconcileReady pc p s2 = (r, s')"
proof -
  obtain g s1 where g: "copySecrets pc p [pc_TLSSecret pc, pc_PullSecret pc] s = (g, s1)" by fastforce
  obtain cs where cs: "runs (pc_Client pc) s cs s1"
      "\<forall>cmd \<in> set cs. previewDoes pc p cmd"
      "\<forall>os. g = Inr os \<longrightarrow> (\<forall>ob \<in> set os. namespaceDoc (pv_Namespace p) ob)"
    using copySecrets_runs [OF g assms(2)] by (fastforce simp: previewReads_def)
  show ?thesis
  proof (cases g)
    case (Inl e)
    with assms(1) g have "s' = s1" "r = (StatePending, [], Some e)" by (auto simp: reconcileObjects_def)
    with cs(1,2) failed [of cs] show ?thesis by simp
  next
    case (Inr secrets)
    let ?os = "Boundaries (pv_Namespace p) (pv_Port p) @ secrets @ Manifests pc p"
    obtain e s2 where a: "Apply (pc_Client pc) ?os s1 = (e, s2)" by fastforce
    have run: "runs (pc_Client pc) s (cs @ [(applyArgs, Some (listOf ?os))]) s2"
      using runs_append [OF cs(1) Apply_runs [OF a]] .
    have "\<forall>ob \<in> set ?os. namespaceDoc (pv_Namespace p) ob"
      using Boundaries_within [OF assms(2)] Manifests_within [OF assms(2)] cs(3) Inr by auto
    then have "within (pv_Namespace p) (applyArgs, Some (listOf ?os))" by (simp only: within_apply)
    with cs(2) have does: "\<forall>cmd \<in> set (cs @ [(applyArgs, Some (listOf ?os))]). previewDoes pc p cmd" by auto
    show ?thesis
    proof (cases e)
      case None
      with assms(1) g Inr a applied [OF run does] show ?thesis by (auto simp: reconcileObjects_def)
    next
      case (Some x)
      with assms(1) g Inr a have "s' = s2" "r = (StatePending, [], Some x)" by (auto simp: reconcileObjects_def)
      with run does failed show ?thesis by blast
    qed
  qed
qed

lemma reconcileObjects_runs:
  assumes "reconcileObjects pc p s = (r, s')" "pv_Namespace p \<noteq> []"
  shows "\<exists>cs. runs (pc_Client pc) s cs s' \<and> (\<forall>cmd \<in> set cs. previewDoes pc p cmd)"
  using assms
proof (cases rule: reconcileObjects_cases)
  case (failed cs)
  then show ?thesis by blast
next
  case (applied cs secrets s2)
  from runs_append [OF applied(1) reconcileReady_runs [OF applied(4)]] applied(2) show ?thesis
    by (intro exI [of _ "cs @ [_]"]) (auto simp: previewReads_def)
qed

lemma reconcileDeletion_runs:
  assumes "reconcileDeletion pc p s = (r, s')"
  shows "\<exists>cs. runs (pc_Client pc) s cs s' \<and> (\<forall>cmd \<in> set cs. previewDoes pc p cmd) \<and>
    (foreign (pc_Client pc) (pv_Namespace p) (pv_Namespace p) s \<longrightarrow>
       (\<forall>cmd \<in> set cs. cmd \<in> set (previewReads pc p)) \<and> (\<exists>e. r = (StatePending, [], Some e)))"
proof -
  obtain b e s1 where o: "OwnedNamespace (pc_Client pc) (pv_Namespace p) (pv_Namespace p) s = ((b, e), s1)"
    by (metis prod.exhaust)
  note read = OwnedNamespace_runs [OF o]
  show ?thesis
  proof (cases "e \<noteq> None \<or> \<not> b")
    case True
    have "s' = s1" "e \<noteq> None \<Longrightarrow> r = (StatePending, [], e)"
      using True assms o by (cases e; auto simp: reconcileDeletion_def)+
    then show ?thesis
      using read OwnedNamespace_foreign [OF o] by (intro exI [of _ "[_]"]) (auto simp: previewReads_def)
  next
    case False
    obtain e' s2 where d: "DeleteNamespace (pc_Client pc) (pv_Namespace p) (pv_Namespace p) s1 = (e', s2)" by fastforce
    with assms o False have "s' = s2" by (simp add: reconcileDeletion_def)
    moreover obtain ds where ds: "runs (pc_Client pc) s1 ds s2" "\<forall>cmd \<in> set ds. previewDoes pc p cmd"
      using d
    proof (cases rule: DeleteNamespace_runs)
      case 1
      from that [OF 1(2)] show ?thesis by (simp add: previewReads_namespace)
    next
      case 2
      from that [OF 2(2)] show ?thesis by (simp add: previewReads_namespace)
    qed
    moreover have "\<not> foreign (pc_Client pc) (pv_Namespace p) (pv_Namespace p) s"
      using OwnedNamespace_foreign [OF o] False by blast
    ultimately show ?thesis
      using runs_append [OF read ds(1)] previewReads_namespace [of p pc] by (intro exI [of _ "[_] @ ds"]) auto
  qed
qed

text \<open>A reconciliation of a preview that is to live, up to its namespace.\<close>

definition openSpace :: "Preview \<Rightarrow> command list" where
  "openSpace p = [(getArgs ''namespace'' [] (pv_Namespace p), None),
     (applyArgs, Some (listOf [Namespace (pv_Namespace p) (pv_Namespace p) ''preview'' True]))]"

lemma openSpace_does: "cmd \<in> set (openSpace p) \<Longrightarrow> previewDoes pc p cmd"
  by (auto simp: openSpace_def previewReads_def Namespace_within)

lemma ReconcilePreview_cases:
  assumes "ReconcilePreview pc p s = (r, s')" "pv_Desired p \<noteq> StateDeleting" "immutableImage (pv_Image p)"
  obtains (refused) e where "runs (pc_Client pc) s [(getArgs ''namespace'' [] (pv_Namespace p), None)] s'"
      "r = (StatePending, [], Some e)"
  | (unapplied) e where "runs (pc_Client pc) s (openSpace p) s'" "r = (StatePending, [], Some e)"
      "\<not> foreign (pc_Client pc) (pv_Namespace p) (pv_Namespace p) s"
  | (opened) s2 where "runs (pc_Client pc) s (openSpace p) s2" "reconcileObjects pc p s2 = (r, s')"
      "\<not> foreign (pc_Client pc) (pv_Namespace p) (pv_Namespace p) s"
proof -
  obtain b e s1 where o: "OwnedNamespace (pc_Client pc) (pv_Namespace p) (pv_Namespace p) s = ((b, e), s1)"
    by (metis prod.exhaust)
  note read = OwnedNamespace_runs [OF o]
  show ?thesis
  proof (cases e)
    case (Some x)
    with assms o have "s' = s1" "r = (StatePending, [], Some x)" by (simp_all add: ReconcilePreview_def)
    with read refused show ?thesis by blast
  next
    case None
    obtain e' s2 where a: "Apply (pc_Client pc) [Namespace (pv_Namespace p) (pv_Namespace p) ''preview'' True] s1 = (e', s2)"
      by fastforce
    have run: "runs (pc_Client pc) s (openSpace p) s2"
      using runs_append [OF read Apply_runs [OF a]] by (simp add: openSpace_def)
    have own: "\<not> foreign (pc_Client pc) (pv_Namespace p) (pv_Namespace p) s"
      using OwnedNamespace_foreign [OF o] None by blast
    show ?thesis
    proof (cases e')
      case e': None
      with assms o a None have "reconcileObjects pc p s2 = (r, s')" by (simp add: ReconcilePreview_def)
      with run own opened show ?thesis by blast
    next
      case (Some x)
      with assms o a None have "s' = s2" "r = (StatePending, [], Some x)" by (simp_all add: ReconcilePreview_def)
      with run own unapplied show ?thesis by blast
    qed
  qed
qed

text \<open>C23: a reconciliation is confined to its preview's namespace. Whatever kubectl and the cluster
  answer, it went through invocations that read the namespace, the two configured secrets of the
  platform and the deployment, and invocations that apply documents lying entirely in the preview's
  own namespace or delete that namespace; and when the namespace exists and carries another owner's
  label, it only reads, and reports an error.\<close>

theorem ReconcilePreview_confined:
  assumes "ReconcilePreview pc p s = (r, s')" "pv_Namespace p \<noteq> []"
  shows "\<exists>cs. runs (pc_Client pc) s cs s' \<and>
    (\<forall>cmd \<in> set cs. cmd \<in> set (previewReads pc p) \<or> within (pv_Namespace p) cmd) \<and>
    (foreign (pc_Client pc) (pv_Namespace p) (pv_Namespace p) s \<longrightarrow>
       set cs \<subseteq> set (previewReads pc p) \<and> (\<exists>e. r = (StatePending, [], Some e)))"
proof (cases "pv_Desired p \<noteq> StateDeleting \<and> immutableImage (pv_Image p)")
  case True
  then have "pv_Desired p \<noteq> StateDeleting" "immutableImage (pv_Image p)" by auto
  with assms(1) show ?thesis
  proof (cases rule: ReconcilePreview_cases)
    case (refused e)
    with previewReads_namespace [of p pc] show ?thesis by (intro exI [of _ "[_]"]) auto
  next
    case (unapplied e)
    with openSpace_does [of _ p pc] show ?thesis by blast
  next
    case (opened s2)
    from reconcileObjects_runs [OF opened(2) assms(2)] obtain cs
      where cs: "runs (pc_Client pc) s2 cs s'" "\<forall>cmd \<in> set cs. previewDoes pc p cmd" by blast
    from runs_append [OF opened(1) cs(1)] opened(3) cs(2) openSpace_does [of _ p pc] show ?thesis
      by (intro exI [of _ "openSpace p @ cs"]) auto
  qed
next
  case False
  show ?thesis
  proof (cases "pv_Desired p = StateDeleting")
    case True
    with assms(1) have "reconcileDeletion pc p s = (r, s')" by (simp add: ReconcilePreview_def)
    from reconcileDeletion_runs [OF this] show ?thesis by (simp only: subset_eq)
  next
    case keep: False
    with False assms(1) show ?thesis
      by (intro exI [of _ "[]"]) (auto simp: ReconcilePreview_def runs_Nil)
  qed
qed


lemma ReconcilePreview_state:
  assumes "ReconcilePreview pc p s = ((st, url, err), s')"
  shows "st \<in> {StateActive, StatePending, StateDeleted}"
proof -
  have ready: "reconcileReady pc p t = ((st, url, err), t') \<Longrightarrow> st \<in> {StateActive, StatePending}" for t t'
    by (auto simp: reconcileReady_def split: prod.splits sum.splits if_splits)
  have objs: "reconcileObjects pc p t = ((st, url, err), t') \<Longrightarrow> st \<in> {StateActive, StatePending}" for t t'
    using ready by (auto simp: reconcileObjects_def Let_def split: prod.splits sum.splits option.splits)
  have del: "reconcileDeletion pc p t = ((st, url, err), t') \<Longrightarrow> st \<in> {StateDeleted, StatePending}" for t t'
    by (auto simp: reconcileDeletion_def Let_def split: prod.splits if_splits)
  show ?thesis
    using assms objs del
    by (simp add: ReconcilePreview_def Let_def split: prod.splits if_splits option.splits) blast+
qed


text \<open>The pods of a preview satisfy the restricted security level its namespace enforces.\<close>

lemma previewPod_restricted: "restrictedPod (previewPodSpec pc p)"
proof -
  have c: "containersOf (previewPodSpec pc p) = [previewContainer p]"
    unfolding containersOf_def previewPodSpec_def by (simp add: index_def getd_def)
  have "restrictedContainer (previewContainer p)"
    by (rule restrictedContainer_Security) (simp add: previewContainer_def index_def getd_def)
  with c show ?thesis
    unfolding restrictedPod_def by (simp add: Let_def previewPodSpec_def index_def getd_def)
qed

lemma previewPod_welltyped: "wellTypedPod (previewPodSpec pc p)"
proof -
  have c: "containersOf (previewPodSpec pc p) = [previewContainer p]"
    unfolding containersOf_def previewPodSpec_def by (simp add: index_def getd_def)
  have m: "mountsOf (previewContainer p) = [''tmp'', ''cache'', ''run'']"
    by (simp add: mountsOf_def previewContainer_def index_def getd_def)
  have v: "volumesOf (previewPodSpec pc p) = [''tmp'', ''cache'', ''run'']"
    by (simp add: volumesOf_def previewPodSpec_def index_def getd_def)
  show ?thesis by (simp add: wellTypedPod_def c m v)
qed

section \<open>A sample cluster\<close>

text \<open>A cluster without any namespace that accepts every document and then shows a ready deployment and pod;
  its state counts the invocations.\<close>

definition readyClient :: "nat Client" where
  "readyClient =
     \<lparr>kc_Binary = [], kc_Host = [], kc_Port = [], kc_TokenMounted = (\<lambda>_. False), kc_CreateTemp = (\<lambda>s. (Inl [], s)),
      kc_WriteTemp = (\<lambda>_ _ s. (None, s)), kc_CloseTemp = (\<lambda>_ s. (None, s)), kc_Remove = (\<lambda>_ s. s),
      kc_Exec = (\<lambda>_ args _ s. (\<lparr>pr_Stdout = (if ''deployment'' \<in> set args \<or> ''pod'' \<in> set args then [''{}''] else []), pr_Stderr = [],
                                pr_Error = None\<rparr>, Suc s)),
      kc_Parse = (\<lambda>_. Inr (Some []))\<rparr>"

definition readyController :: "nat PreviewController" where
  "readyController =
     \<lparr>pc_Client = readyClient, pc_Domain = ''example.org'', pc_IngressClass = ''nginx'', pc_TLSSecret = [],
      pc_PullSecret = [], pc_PlatformNamespace = ''ci'',
      pc_Status = (\<lambda>d. Inr (case d of None \<Rightarrow> \<lparr>ds_Generation = 0, ds_ObservedGeneration = 0, ds_Replicas = 0,
                                              ds_AvailableReplicas = 0, ds_UpdatedReplicas = 0\<rparr>
                             | Some _ \<Rightarrow> \<lparr>ds_Generation = 1, ds_ObservedGeneration = 1, ds_Replicas = 1,
                                          ds_AvailableReplicas = 1, ds_UpdatedReplicas = 1\<rparr>))\<rparr>"

definition readyPreview :: Preview where
  "readyPreview =
     \<lparr>pv_Repo = ''o/r'', pv_PRNumber = 7, pv_Namespace = ''preview-r-7'', pv_URL = [], pv_Generation = 1,
      pv_Desired = StateActive, pv_Actual = StatePending, pv_ExpiresAt = 0, pv_UpdatedAt = 0, pv_Tenant = ''t'',
      pv_PipelineID = ''p'', pv_Image = ''reg/app@sha256:'' @ replicate 64 (CHR ''a''), pv_Port = 8080,
      pv_HealthPath = ''/'', pv_LastError = [], pv_Exposure = ''public''\<rparr>"

lemma readyImage: "immutableImage (pv_Image readyPreview)"
  by code_simp

lemma readyRun: "Run readyClient input args s =
  ((if ''deployment'' \<in> set args \<or> ''pod'' \<in> set args then ''{}'' else [], None), Suc s)"
  by (auto simp: Run_def spawn_def readyClient_def writeAll_take maxOutput_def)

lemma blank_simps: "blank []" "\<not> blank ''{}''"
  by (simp_all add: blank_def blankBytes.simps spaceLen_def)

lemma ready_fields:
  "pc_Client readyController = readyClient" "kc_Parse readyClient b = Inr (Some [])"
  "pc_Domain readyController = ''example.org''" "pc_TLSSecret readyController = []"
  "pc_PullSecret readyController = []" "pc_PlatformNamespace readyController = ''ci''"
  "deploymentReady readyController (Some ob) = Inr True"
  "pv_Namespace readyPreview = ''preview-r-7''" "pv_Exposure readyPreview = ''public''"
  by (simp_all add: readyController_def readyClient_def readyPreview_def deploymentReady_def)

lemma ready_reconcile:
  "ReconcilePreview readyController readyPreview 0 = ((StateActive, ''http://preview-r-7.example.org'', None), 4)"
  "ReconcilePreview readyController (readyPreview\<lparr>pv_Desired := StateDeleting\<rparr>) 0 = ((StateDeleted, [], None), 1)"
proof -
  have d: "pv_Desired readyPreview = StateActive" by (simp add: readyPreview_def)
  show "ReconcilePreview readyController readyPreview 0 = ((StateActive, ''http://preview-r-7.example.org'', None), 4)"
    using readyImage
    by (simp add: ReconcilePreview_def reconcileObjects_def reconcileReady_def OwnedNamespace_def d
      GetResource_def Apply_def readyRun blank_simps getArgs_def applyArgs_def previewURL_def ready_fields)
  show "ReconcilePreview readyController (readyPreview\<lparr>pv_Desired := StateDeleting\<rparr>) 0 = ((StateDeleted, [], None), 1)"
    by (simp add: ReconcilePreview_def reconcileDeletion_def OwnedNamespace_def
      GetResource_def readyRun blank_simps getArgs_def ready_fields)
qed

theorem ReconcilePreview_confined_witness:
  "\<exists>cs. runs readyClient 0 cs 4 \<and>
     (\<forall>cmd \<in> set cs. cmd \<in> set (previewReads readyController readyPreview) \<or> within ''preview-r-7'' cmd)"
  using ReconcilePreview_confined [OF ready_reconcile(1)] by (auto simp: ready_fields)


end
