(* ===== verification/Runner.thy ===== *)
theory Runner
  imports Preview Base64 "HOL-Library.Sublist"
begin

text \<open>
  Execution of a job in its own namespace, \<open>internal/kube/runner.go\<close>: \<open>Prepare\<close> applies the
  namespace, its boundaries and secrets and the pod; \<open>Pod\<close> builds the pod's manifest; \<open>Execute\<close>
  waits for the pod and collects logs, artifacts and build metadata. The decoding of a pod's status
  and of build metadata by \<open>encoding/json\<close> are fields of \<open>Runner\<close>. \<open>Execute\<close> polls at every tick
  until its context ends: the number of ticks is an argument of \<open>awaitPod\<close>, so that the loop is a
  recursion on it.
\<close>

section \<open>Paths of \<open>path\<close>\<close>

definition pathJoin :: "string list \<Rightarrow> string" where
  "pathJoin es =
     (let ws = filter (\<lambda>w. w \<noteq> []) es in if ws = [] then [] else Clean (Join ws ''/''))"

definition pathDir :: "string \<Rightarrow> string" where
  "pathDir p = Clean (rev (dropWhile (\<lambda>c. c \<noteq> CHR ''/'') (rev p)))"

definition pathBase :: "string \<Rightarrow> string" where
  "pathBase p =
     (if p = [] then ''.''
      else let q = rev (dropWhile (\<lambda>c. c = CHR ''/'') (rev p));
               b = rev (takeWhile (\<lambda>c. c \<noteq> CHR ''/'') (rev q))
           in if b = [] then ''/'' else b)"

section \<open>The pod of a job\<close>

record ContainerStatus =
  cs_Name :: string
  cs_Terminated :: "(int \<times> string) option"   \<comment> \<open>exit code and reason\<close>

record PodStatus =
  pod_Phase :: string
  pod_Reason :: string
  pod_Init :: "ContainerStatus list"
  pod_Containers :: "ContainerStatus list"

record 'k Runner =
  rn_Client :: "'k Client"
  rn_Image :: string
  rn_GitImage :: string
  rn_BuildkitImage :: string
  rn_RegistryConfig :: string
  rn_PodStatus :: "Object \<Rightarrow> string + PodStatus"
  rn_Metadata :: "string \<Rightarrow> string + (string, string) gomap"   \<comment> \<open>into a \<open>map[string]json.RawMessage\<close>\<close>
  rn_String :: "string \<Rightarrow> string + string"                     \<comment> \<open>into a string\<close>

definition volume :: "string \<Rightarrow> string \<Rightarrow> Object" where
  "volume name sizeLimit = [(''name'', VStr name), (''emptyDir'', VMap [(''sizeLimit'', VStr sizeLimit)])]"

definition mount :: "string \<Rightarrow> string \<Rightarrow> Object" where
  "mount name path = [(''name'', VStr name), (''mountPath'', VStr path)]"

definition envVar :: "string \<Rightarrow> string \<Rightarrow> Object" where
  "envVar name v = [(''name'', VStr name), (''value'', VStr v)]"

definition limits :: "string \<Rightarrow> string \<Rightarrow> string \<Rightarrow> Value" where
  "limits cpu memory storage =
     VMap [(''cpu'', VStr cpu), (''memory'', VStr memory), (''ephemeral-storage'', VStr storage)]"

definition smallResources :: Value where
  "smallResources = VMap [(''requests'', limits ''100m'' ''64Mi'' ''64Mi''), (''limits'', limits ''250m'' ''128Mi'' ''256Mi'')]"

definition baseMounts :: "Object list" where
  "baseMounts = [mount ''workspace'' ''/workspace'', mount ''tmp'' ''/tmp'']"

definition checkoutEnv :: "AttemptLease \<Rightarrow> bool \<Rightarrow> Object list" where
  "checkoutEnv l authenticated =
     (let pl = lease_Pipeline l;
          source = (if pl_SourceRepo pl = [] then pl_Repo pl else pl_SourceRepo pl)
      in [envVar ''SOURCE_REPO'' source, envVar ''COMMIT_SHA'' (pl_CommitSHA pl), envVar ''HOME'' ''/tmp'',
          envVar ''GIT_TERMINAL_PROMPT'' ''0'', envVar ''GIT_CONFIG_GLOBAL'' ''/tmp/.gitconfig''] @
         (if authenticated then
            [envVar ''GIT_CONFIG_COUNT'' ''1'', envVar ''GIT_CONFIG_KEY_0'' ''http.https://github.com/.extraheader'',
             [(''name'', VStr ''GIT_CONFIG_VALUE_0''),
              (''valueFrom'', VMap [(''secretKeyRef'', VMap [(''name'', VStr ''checkout''), (''key'', VStr ''header'')])])]]
          else []))"

definition checkoutScript :: string where
  "checkoutScript =
     ''git config --global --add safe.directory /workspace; git init /workspace; cd /workspace; '' @
     ''git remote add origin \"https://github.com/${SOURCE_REPO}.git\"; '' @
     ''git fetch --depth=1 origin \"$COMMIT_SHA\"; git checkout --detach FETCH_HEAD; '' @
     ''test \"$(git rev-parse HEAD)\" = \"$COMMIT_SHA\"''"

definition checkoutContainer :: "'k Runner \<Rightarrow> AttemptLease \<Rightarrow> bool \<Rightarrow> Object" where
  "checkoutContainer r l authenticated =
     [(''name'', VStr ''checkout''), (''image'', VStr (rn_GitImage r)),
      (''command'', strs [''/bin/sh'', ''-ec'', checkoutScript]),
      (''env'', objects (checkoutEnv l authenticated)), (''volumeMounts'', objects baseMounts),
      (''securityContext'', VMap Security), (''resources'', smallResources)]"

definition plainJob :: "JobSpec \<Rightarrow> Object" where
  "plainJob spec =
     (let cpu = itoa (res_CPU (spec_Resources spec)); memory = itoa (res_Memory (spec_Resources spec)) @ ''Mi''
      in [(''name'', VStr ''job''), (''image'', VStr (spec_Image spec)), (''command'', strs (spec_Command spec)),
          (''workingDir'', VStr ''/workspace''), (''volumeMounts'', objects baseMounts),
          (''env'', objects
             [envVar ''HOME'' ''/tmp'', envVar ''CI'' ''true'', envVar ''XDG_CACHE_HOME'' ''/tmp/.cache'',
              envVar ''GOPATH'' ''/tmp/go'', envVar ''GOCACHE'' ''/tmp/go-build'', envVar ''GOMODCACHE'' ''/tmp/go-modules'']),
          (''securityContext'', VMap Security),
          (''resources'', VMap [(''requests'', limits cpu memory ''1Gi''), (''limits'', limits cpu memory ''10Gi'')])])"

definition buildCommand :: "Buildkit \<Rightarrow> string list" where
  "buildCommand b =
     (let dockerfile = pathJoin [''/workspace'', bk_Dockerfile b]
      in [''buildctl-daemonless.sh'', ''build'', ''--frontend'', ''dockerfile.v0'', ''--local'',
          ''context='' @ pathJoin [''/workspace'', bk_Context b], ''--local'',
          ''dockerfile='' @ pathDir dockerfile, ''--opt'', ''filename='' @ pathBase (bk_Dockerfile b),
          ''--opt'', ''attest:sbom='', ''--opt'', ''attest:provenance=mode=max'', ''--output'',
          ''type=image,name='' @ bk_Destination b @ '',push=true'',
          ''--metadata-file'', ''/workspace/.ci-build-metadata.json''])"

definition buildSecurity :: Object where
  "buildSecurity =
     fold (\<lambda>(k, v). AList.update k v)
       [(''readOnlyRootFilesystem'', VBool False), (''allowPrivilegeEscalation'', VBool True),
        (''capabilities'', VMap [(''drop'', strs [''ALL'']), (''add'', strs [''SETUID'', ''SETGID''])]),
        (''seccompProfile'', VMap [(''type'', VStr ''Unconfined'')]),
        (''appArmorProfile'', VMap [(''type'', VStr ''Unconfined'')])] Security"

definition buildMounts :: "'k Runner \<Rightarrow> Object list" where
  "buildMounts r =
     baseMounts @ [mount ''builder'' ''/home/user/.local/share/buildkit''] @
     (if rn_RegistryConfig r \<noteq> [] then [mount ''registry'' ''/registry'' @ [(''readOnly'', VBool True)]] else [])"

definition jobContainer :: "'k Runner \<Rightarrow> JobSpec \<Rightarrow> Object" where
  "jobContainer r spec =
     (case spec_Buildkit spec of
        None \<Rightarrow> plainJob spec
      | Some b \<Rightarrow>
          fold (\<lambda>(k, v). AList.update k v)
            [(''image'', VStr (rn_BuildkitImage r)), (''command'', strs (buildCommand b)),
             (''securityContext'', VMap buildSecurity),
             (''env'', objects
                [envVar ''BUILDKITD_FLAGS'' ''--oci-worker-no-process-sandbox'',
                 envVar ''DOCKER_CONFIG'' ''/registry'', envVar ''HOME'' ''/home/user'']),
             (''volumeMounts'', objects (buildMounts r))] (plainJob spec))"

definition podVolumes :: "'k Runner \<Rightarrow> JobSpec \<Rightarrow> Object list" where
  "podVolumes r spec =
     [volume ''workspace'' ''10Gi'', volume ''tmp'' ''1Gi'', volume ''builder'' ''8Gi''] @
     (if spec_Buildkit spec \<noteq> None \<and> rn_RegistryConfig r \<noteq> []
      then [[(''name'', VStr ''registry''), (''secret'', VMap [(''secretName'', VStr ''registry'')])]] else [])"

definition helperContainer :: "'k Runner \<Rightarrow> Object" where
  "helperContainer r =
     [(''name'', VStr ''artifacts''), (''image'', VStr (rn_Image r)), (''command'', strs [''/service'', ''hold'']),
      (''volumeMounts'', objects [mount ''workspace'' ''/workspace'' @ [(''readOnly'', VBool True)]]),
      (''securityContext'', VMap Security), (''resources'', smallResources)]"

definition jobPodSpec :: "'k Runner \<Rightarrow> AttemptLease \<Rightarrow> bool \<Rightarrow> Object" where
  "jobPodSpec r l authenticated =
     (let spec = job_Spec (lease_Job l);
          timeout = (if spec_TimeoutSeconds spec = 0 then 900 else spec_TimeoutSeconds spec)
      in [(''serviceAccountName'', VStr ''workload''), (''automountServiceAccountToken'', VBool False),
          (''enableServiceLinks'', VBool False), (''restartPolicy'', VStr ''Never''),
          (''activeDeadlineSeconds'', VInt timeout), (''terminationGracePeriodSeconds'', VInt 5),
          (''securityContext'', VMap
             [(''runAsNonRoot'', VBool True), (''runAsUser'', VInt 1000), (''runAsGroup'', VInt 1000), (''fsGroup'', VInt 1000),
              (''seccompProfile'', VMap [(''type'', VStr ''RuntimeDefault'')])]),
          (''volumes'', objects (podVolumes r spec)),
          (''initContainers'', objects [checkoutContainer r l authenticated]),
          (''containers'', objects [jobContainer r spec, helperContainer r])])"

definition JobPod :: "'k Runner \<Rightarrow> AttemptLease \<Rightarrow> bool \<Rightarrow> Object" where
  "JobPod r l authenticated =
     (let ns = JobNamespace (att_ID (lease_Attempt l))
      in Resource ''v1'' ''Pod'' ''job'' ns
           [(''metadata'', VMap [(''name'', VStr ''job''), (''namespace'', VStr ns),
                (''labels'', VMap [(''ci-preview/attempt'', VStr (att_ID (lease_Attempt l)))])]),
            (''spec'', VMap (jobPodSpec r l authenticated))])"

section \<open>Preparing the namespace\<close>

definition checkoutHeader :: "string \<Rightarrow> string" where
  "checkoutHeader token = base64Encode (''AUTHORIZATION: basic '' @ base64Encode (''x-access-token:'' @ token))"

definition jobResources :: "'k Runner \<Rightarrow> AttemptLease \<Rightarrow> string \<Rightarrow> Object list" where
  "jobResources r l token =
     (let ns = JobNamespace (att_ID (lease_Attempt l))
      in Boundaries ns 0 @
         (if token \<noteq> [] then
            [Resource ''v1'' ''Secret'' ''checkout'' ns
               [(''type'', VStr ''Opaque''), (''data'', VMap [(''header'', VStr (checkoutHeader token))])]] else []) @
         (if spec_Buildkit (job_Spec (lease_Job l)) \<noteq> None \<and> rn_RegistryConfig r \<noteq> [] then
            [Resource ''v1'' ''Secret'' ''registry'' ns
               [(''type'', VStr ''Opaque''), (''data'', VMap [(''config.json'', VStr (base64Encode (rn_RegistryConfig r)))])]] else []))"

definition Prepare :: "'k Runner \<Rightarrow> AttemptLease \<Rightarrow> string \<Rightarrow> 'k \<Rightarrow> string option \<times> 'k" where
  "Prepare r l token s =
     (let spec = job_Spec (lease_Job l); buildkit = spec_Buildkit spec \<noteq> None in
      if buildkit \<and> \<not> spec_Trusted spec then (Some ''untrusted image publishing is forbidden'', s)
      else
        let ns = JobNamespace (att_ID (lease_Attempt l));
            owner = att_ID (lease_Attempt l);
            ((_, e), s1) = OwnedNamespace (rn_Client r) ns owner s in
        if e \<noteq> None then (e, s1)
        else case Apply (rn_Client r) [Namespace ns owner ''job'' (\<not> buildkit)] s1 of
               (Some e, s2) \<Rightarrow> (Some e, s2)
             | (None, s2) \<Rightarrow>
                 if buildkit \<and> rn_RegistryConfig r \<noteq> [] \<and> \<not> spec_Trusted spec
                 then (Some ''untrusted image publishing is forbidden'', s2)
                 else case Apply (rn_Client r) (jobResources r l token) s2 of
                        (Some e, s3) \<Rightarrow> (Some e, s3)
                      | (None, s3) \<Rightarrow> Apply (rn_Client r) [JobPod r l (token \<noteq> [])] s3)"

section \<open>Executing the job\<close>

record Result =
  result_Success :: bool
  result_Message :: string
  result_Digest :: string
  result_Logs :: string
  result_Archive :: string
  result_Metadata :: string

definition zeroResult :: Result where
  "zeroResult = \<lparr>result_Success = False, result_Message = [], result_Digest = [], result_Logs = [], result_Archive = [],
                 result_Metadata = []\<rparr>"

definition exitMessage :: "string \<Rightarrow> int \<times> string \<Rightarrow> string" where
  "exitMessage what t = what @ '' exited with code '' @ itoa (fst t) @ '' ('' @ snd t @ '')''"

fun scanInit :: "ContainerStatus list \<Rightarrow> bool \<times> Result \<Rightarrow> bool \<times> Result" where
  "scanInit [] a = a"
| "scanInit (c # cs) (done, result) =
     (case cs_Terminated c of
        Some t \<Rightarrow> if fst t \<noteq> 0 then scanInit cs (True, result\<lparr>result_Message := exitMessage ''Checkout'' t\<rparr>)
                  else scanInit cs (done, result)
      | None \<Rightarrow> scanInit cs (done, result))"

fun scanJob :: "ContainerStatus list \<Rightarrow> bool \<times> Result \<Rightarrow> bool \<times> Result" where
  "scanJob [] a = a"
| "scanJob (c # cs) (done, result) =
     (case cs_Terminated c of
        Some t \<Rightarrow> if cs_Name c = ''job''
                  then scanJob cs (True, result\<lparr>result_Success := fst t = 0, result_Message := exitMessage ''Container'' t\<rparr>)
                  else scanJob cs (done, result)
      | None \<Rightarrow> scanJob cs (done, result))"

definition podOutcome :: "PodStatus \<Rightarrow> Result \<Rightarrow> bool \<times> Result" where
  "podOutcome pod result =
     scanJob (pod_Containers pod)
       (scanInit (pod_Init pod) (pod_Phase pod = ''Failed'', result\<lparr>result_Message := pod_Reason pod\<rparr>))"

definition logArgs :: "string \<Rightarrow> string \<Rightarrow> string list" where
  "logArgs ns container = [''logs'', ''-n'', ns, ''job'', ''-c'', container, ''--limit-bytes=1048576'']"

definition execArgs :: "string \<Rightarrow> string \<Rightarrow> string list" where
  "execArgs ns helper = [''exec'', ''-n'', ns, ''job'', ''-c'', ''artifacts'', ''--'', ''/service'', helper]"

definition maxArchive :: nat where "maxArchive = 16 * 2 ^ 20"

definition collectLogs :: "'k Runner \<Rightarrow> string \<Rightarrow> 'k \<Rightarrow> string \<times> 'k" where
  "collectLogs r ns s =
     (let ((logs, e), s1) = Run (rn_Client r) None (logArgs ns ''job'') s in
      if e \<noteq> None then let ((logs', _), s2) = Run (rn_Client r) None (logArgs ns ''checkout'') s1 in (logs', s2)
      else (logs, s1))"

definition collectArchive :: "'k Runner \<Rightarrow> string \<Rightarrow> Result \<Rightarrow> 'k \<Rightarrow> (Result \<times> string option) \<times> 'k" where
  "collectArchive r ns result s =
     (if \<not> result_Success result then ((result, None), s)
      else let ((archive, e), s1) = Run (rn_Client r) None (execArgs ns ''archive'') s in
           if e \<noteq> None then ((result, e), s1)
           else if length archive > maxArchive then ((result, Some ''artifacts exceed 16 MiB''), s1)
           else ((result\<lparr>result_Archive := archive\<rparr>, None), s1))"

definition collectMetadata :: "'k Runner \<Rightarrow> AttemptLease \<Rightarrow> string \<Rightarrow> Result \<Rightarrow> 'k \<Rightarrow> (Result \<times> string option) \<times> 'k" where
  "collectMetadata r l ns result s =
     (if \<not> (result_Success result \<and> spec_Buildkit (job_Spec (lease_Job l)) \<noteq> None) then ((result, None), s)
      else let ((metadata, e), s1) = Run (rn_Client r) None (execArgs ns ''metadata'') s in
           if e \<noteq> None then ((result, e), s1)
           else let result' = result\<lparr>result_Metadata := metadata\<rparr> in
                case rn_Metadata r metadata of
                  Inl e \<Rightarrow> ((result', Some e), s1)
                | Inr data \<Rightarrow>
                    (case rn_String r (getd [] data ''containerimage.digest'') of
                       Inl e \<Rightarrow> ((result', Some e), s1)
                     | Inr digest \<Rightarrow> ((result'\<lparr>result_Digest := digest\<rparr>, None), s1)))"

definition collect :: "'k Runner \<Rightarrow> AttemptLease \<Rightarrow> string \<Rightarrow> Result \<Rightarrow> 'k \<Rightarrow> (Result \<times> string option) \<times> 'k" where
  \<comment> \<open>what \<open>Execute\<close> does once the pod is done\<close>
  "collect r l ns result s =
     (let (logs, s1) = collectLogs r ns s;
          ((result1, e), s2) = collectArchive r ns (result\<lparr>result_Logs := logs\<rparr>) s1 in
      if e \<noteq> None then ((result1, e), s2) else collectMetadata r l ns result1 s2)"

fun awaitPod :: "'k Runner \<Rightarrow> AttemptLease \<Rightarrow> nat \<Rightarrow> Result \<Rightarrow> 'k \<Rightarrow> (Result \<times> string option) \<times> 'k" where
  "awaitPod r l 0 result s = ((result, Some ''context canceled''), s)"
| "awaitPod r l (Suc ticks) result s =
     (let ns = JobNamespace (att_ID (lease_Attempt l)) in
      case GetResource (rn_Client r) ''pod'' ns ''job'' s of
        (Inl e, s1) \<Rightarrow> ((result, Some e), s1)
      | (Inr None, s1) \<Rightarrow> ((result, Some ''execution pod disappeared''), s1)
      | (Inr (Some v), s1) \<Rightarrow>
          (case rn_PodStatus r v of
             Inl e \<Rightarrow> ((result, Some e), s1)
           | Inr pod \<Rightarrow>
               let (done, result') = podOutcome pod result in
               if \<not> done then awaitPod r l ticks result' s1
               else collect r l ns result' s1))"

definition Execute :: "'k Runner \<Rightarrow> AttemptLease \<Rightarrow> string \<Rightarrow> nat \<Rightarrow> 'k \<Rightarrow> (Result \<times> string option) \<times> 'k" where
  "Execute r l token ticks s =
     (case Prepare r l token s of
        (Some e, s1) \<Rightarrow> ((zeroResult, Some e), s1)
      | (None, s1) \<Rightarrow> awaitPod r l ticks zeroResult s1)"

section \<open>The pod's manifest\<close>

lemma jobContainer_index:
  "index (jobContainer r spec) k =
     (case spec_Buildkit spec of
        None \<Rightarrow> index (plainJob spec) k
      | Some b \<Rightarrow>
          (case map_of [(''image'', VStr (rn_BuildkitImage r)), (''command'', strs (buildCommand b)),
             (''securityContext'', VMap buildSecurity),
             (''env'', objects
                [envVar ''BUILDKITD_FLAGS'' ''--oci-worker-no-process-sandbox'',
                 envVar ''DOCKER_CONFIG'' ''/registry'', envVar ''HOME'' ''/home/user'']),
             (''volumeMounts'', objects (buildMounts r))] k of Some v \<Rightarrow> v | None \<Rightarrow> index (plainJob spec) k))"
proof (cases "spec_Buildkit spec")
  case None
  then show ?thesis by (simp add: jobContainer_def)
next
  case (Some b)
  show ?thesis
    unfolding jobContainer_def Some option.case by (rule fold_update_index) simp
qed

lemma jobPodSpec_containers:
  "containersOf (jobPodSpec r l a) =
     [checkoutContainer r l a, jobContainer r (job_Spec (lease_Job l)), helperContainer r]"
  by (simp add: containersOf_def jobPodSpec_def Let_def index_def getd_def)

lemma jobPodSpec_volumes: "elements (index (jobPodSpec r l a) ''volumes'') = podVolumes r (job_Spec (lease_Job l))"
  by (simp add: jobPodSpec_def Let_def index_def getd_def comp_def)

lemma mount_names [simp]:
  "index (mount n p) ''name'' = VStr n" "index (mount n p @ rest) ''name'' = VStr n"
  "index (volume n q) ''name'' = VStr n" "index ((''name'', v) # ob) ''name'' = v"
  by (simp_all add: mount_def volume_def index_def getd_def)

lemma jobPod_mounts:
  "mountsOf (checkoutContainer r l a) = [''workspace'', ''tmp'']"
  "mountsOf (helperContainer r) = [''workspace'']"
  "mountsOf (jobContainer r spec) =
     (if spec_Buildkit spec = None then [''workspace'', ''tmp'']
      else [''workspace'', ''tmp'', ''builder''] @ (if rn_RegistryConfig r \<noteq> [] then [''registry''] else []))"
proof -
  have "index (checkoutContainer r l a) ''volumeMounts'' = objects baseMounts"
    "index (helperContainer r) ''volumeMounts'' = objects [mount ''workspace'' ''/workspace'' @ [(''readOnly'', VBool True)]]"
    "index (plainJob spec) ''volumeMounts'' = objects baseMounts"
    by (simp_all add: checkoutContainer_def helperContainer_def plainJob_def Let_def index_def getd_def)
  then show "mountsOf (checkoutContainer r l a) = [''workspace'', ''tmp'']"
    "mountsOf (helperContainer r) = [''workspace'']"
    "mountsOf (jobContainer r spec) =
     (if spec_Buildkit spec = None then [''workspace'', ''tmp'']
      else [''workspace'', ''tmp'', ''builder''] @ (if rn_RegistryConfig r \<noteq> [] then [''registry''] else []))"
    by (auto simp: mountsOf_def jobContainer_index baseMounts_def buildMounts_def split: option.split)
qed

lemma jobPod_volumes:
  "volumesOf (jobPodSpec r l a) =
     [''workspace'', ''tmp'', ''builder''] @
     (if spec_Buildkit (job_Spec (lease_Job l)) \<noteq> None \<and> rn_RegistryConfig r \<noteq> [] then [''registry''] else [])"
  by (simp add: volumesOf_def jobPodSpec_volumes podVolumes_def)

lemma buildSecurity_index:
  "index buildSecurity ''capabilities'' = VMap [(''drop'', strs [''ALL'']), (''add'', strs [''SETUID'', ''SETGID''])]"
  "index buildSecurity ''allowPrivilegeEscalation'' = VBool True"
  unfolding buildSecurity_def by (simp_all add: index_def getd_def)

definition levelOf :: "Object \<Rightarrow> Value" where
  \<comment> \<open>the Pod Security level that a namespace object enforces\<close>
  "levelOf ns = index (asMap (index (asMap (index ns ''metadata'')) ''labels'')) ''pod-security.kubernetes.io/enforce''"

lemma levelOf_Namespace: "levelOf (Namespace ns owner kind restricted) = VStr (if restricted then ''restricted'' else ''privileged'')"
  by (simp add: levelOf_def Namespace_def Let_def index_Resource) (simp add: index_def getd_def)

text \<open>The secrets a container can read: through its environment and through the volumes it mounts.\<close>

definition envSecrets :: "Object \<Rightarrow> string list" where
  "envSecrets c = concat (map (\<lambda>e. texts (VList [index (asMap (index (asMap (index e ''valueFrom'')) ''secretKeyRef'')) ''name'']))
     (elements (index c ''env'')))"

definition volumeSecrets :: "Object \<Rightarrow> Object \<Rightarrow> string list" where
  "volumeSecrets spec c = concat (map (\<lambda>v.
     if (\<exists>n \<in> set (mountsOf c). index v ''name'' = VStr n)
     then texts (VList [index (asMap (index v ''secret'')) ''secretName'']) else []) (elements (index spec ''volumes'')))"

definition secretsOf :: "Object \<Rightarrow> Object \<Rightarrow> string list" where
  "secretsOf spec c = envSecrets c @ volumeSecrets spec c"

lemma envVar_plain: "index (envVar n v) ''valueFrom'' = VNull"
  by (simp add: envVar_def index_def getd_def)

lemma index_Nil [simp]: "index [] k = VNull"
  by (simp add: index_def)

lemma jobPod_env:
  "envSecrets (checkoutContainer r l a) = (if a then [''checkout''] else [])"
  "envSecrets (helperContainer r) = []" "envSecrets (jobContainer r spec) = []"
proof -
  have c: "index (checkoutContainer r l a) ''env'' = objects (checkoutEnv l a)"
    and h: "index (helperContainer r) ''env'' = VNull"
    by (simp_all add: checkoutContainer_def helperContainer_def index_def getd_def)
  have p: "index (plainJob spec) ''env'' = objects
      [envVar ''HOME'' ''/tmp'', envVar ''CI'' ''true'', envVar ''XDG_CACHE_HOME'' ''/tmp/.cache'',
       envVar ''GOPATH'' ''/tmp/go'', envVar ''GOCACHE'' ''/tmp/go-build'', envVar ''GOMODCACHE'' ''/tmp/go-modules'']"
    by (simp add: plainJob_def Let_def index_def getd_def)
  show "envSecrets (checkoutContainer r l a) = (if a then [''checkout''] else [])"
    unfolding envSecrets_def c by (simp add: checkoutEnv_def Let_def envVar_plain) (simp add: index_def getd_def)
  show "envSecrets (helperContainer r) = []"
    unfolding envSecrets_def h by simp
  show "envSecrets (jobContainer r spec) = []"
    unfolding envSecrets_def by (cases "spec_Buildkit spec") (simp_all add: jobContainer_index p envVar_plain)
qed

lemma volumeSecrets_jobPod:
  "volumeSecrets (jobPodSpec r l a) c =
     (if spec_Buildkit (job_Spec (lease_Job l)) \<noteq> None \<and> rn_RegistryConfig r \<noteq> [] \<and> ''registry'' \<in> set (mountsOf c)
      then [''registry''] else [])"
  unfolding volumeSecrets_def jobPodSpec_volumes by (auto simp: podVolumes_def volume_def index_def getd_def)

text \<open>Who reads which secret. In the pod of any lease only the checkout container refers to the
  repository's access token, and only when there is one; the registry credentials are mounted only
  into the build container of an image job; the user's job container of any other job and the
  artifact helper read no secret at all.\<close>

lemma JobPod_secrets:
  "containersOf (jobPodSpec r l a) =
     [checkoutContainer r l a, jobContainer r (job_Spec (lease_Job l)), helperContainer r] \<and>
   secretsOf (jobPodSpec r l a) (checkoutContainer r l a) = (if a then [''checkout''] else []) \<and>
   secretsOf (jobPodSpec r l a) (jobContainer r (job_Spec (lease_Job l))) =
     (if spec_Buildkit (job_Spec (lease_Job l)) \<noteq> None \<and> rn_RegistryConfig r \<noteq> [] then [''registry''] else []) \<and>
   secretsOf (jobPodSpec r l a) (helperContainer r) = []"
  unfolding secretsOf_def jobPodSpec_containers jobPod_env volumeSecrets_jobPod jobPod_mounts by simp

text \<open>The manifest of a job's pod is well typed, for every lease: its containers have distinct
  names, its volumes have distinct names, and every volume a container mounts is declared. It meets
  the restricted security level exactly for the jobs that do not build an image, which is the level
  that the job's namespace then enforces.\<close>

lemma JobPod_welltyped:
  "wellTypedPod (jobPodSpec r l a) \<and>
   (restrictedPod (jobPodSpec r l a) \<longleftrightarrow> spec_Buildkit (job_Spec (lease_Job l)) = None) \<and>
   levelOf (Namespace ns owner ''job'' (spec_Buildkit (job_Spec (lease_Job l)) = None)) =
     VStr (if restrictedPod (jobPodSpec r l a) then ''restricted'' else ''privileged'')"
proof -
  let ?spec = "job_Spec (lease_Job l)"
  have names: "index (checkoutContainer r l a) ''name'' = VStr ''checkout''" "index (helperContainer r) ''name'' = VStr ''artifacts''"
    "index (jobContainer r ?spec) ''name'' = VStr ''job''"
    by (simp_all add: checkoutContainer_def helperContainer_def)
      (cases "spec_Buildkit ?spec"; simp add: jobContainer_index plainJob_def Let_def)
  have typed: "wellTypedPod (jobPodSpec r l a)"
    by (simp add: wellTypedPod_def jobPodSpec_containers names jobPod_mounts jobPod_volumes)
  have c: "restrictedContainer (checkoutContainer r l a)" "restrictedContainer (helperContainer r)"
    by (rule restrictedContainer_Security; simp add: checkoutContainer_def helperContainer_def index_def getd_def)+
  have j: "restrictedContainer (jobContainer r ?spec) \<longleftrightarrow> spec_Buildkit ?spec = None"
  proof (cases "spec_Buildkit ?spec")
    case None
    then have "index (jobContainer r ?spec) ''securityContext'' = VMap Security"
      by (simp add: jobContainer_def plainJob_def Let_def index_def getd_def)
    with None show ?thesis by (simp add: restrictedContainer_Security)
  next
    case (Some b)
    then have "index (jobContainer r ?spec) ''securityContext'' = VMap buildSecurity"
      by (simp add: jobContainer_index)
    then show ?thesis by (simp add: restrictedContainer_def Let_def buildSecurity_index Some)
  qed
  have top: "index (asMap (index (jobPodSpec r l a) ''securityContext'')) ''runAsNonRoot'' = VBool True"
    "index (asMap (index (asMap (index (jobPodSpec r l a) ''securityContext'')) ''seccompProfile'')) ''type'' = VStr ''RuntimeDefault''"
    "list_all (\<lambda>k. index (jobPodSpec r l a) k = VNull) [''hostNetwork'', ''hostPID'', ''hostIPC'']"
    by (simp_all add: jobPodSpec_def Let_def index_def getd_def)
  have vols: "list_all (\<lambda>v. \<forall>k \<in> set (keys v). k \<in> {''name'', ''emptyDir'', ''secret''})
      (elements (index (jobPodSpec r l a) ''volumes''))"
    unfolding jobPodSpec_volumes by (simp add: podVolumes_def volume_def)
  have "restrictedPod (jobPodSpec r l a) \<longleftrightarrow> spec_Buildkit ?spec = None"
    unfolding restrictedPod_def Let_def using c j top vols by (simp add: jobPodSpec_containers)
  with typed show ?thesis by (simp add: levelOf_Namespace)
qed

text \<open>The objects a pod refers to by name: keys of secrets in the environment of its containers, secrets
  mounted as volumes and its service account. A malformed reference is dangling. A reference resolves
  in a list of objects when an object of the kind, with the name, in the pod's namespace, is among
  them, and has the key.\<close>

datatype Reference = SecretKey string string | SecretNamed string | AccountNamed string | Dangling

definition envReferences :: "Object \<Rightarrow> Reference list" where
  "envReferences c =
     map (\<lambda>e. let ref = asMap (index (asMap (index e ''valueFrom'')) ''secretKeyRef'') in
               case (index ref ''name'', index ref ''key'') of (VStr n, VStr k) \<Rightarrow> SecretKey n k | _ \<Rightarrow> Dangling)
       (filter (\<lambda>e. index e ''valueFrom'' \<noteq> VNull) (elements (index c ''env'')))"

definition volumeReferences :: "Object \<Rightarrow> Reference list" where
  "volumeReferences spec =
     map (\<lambda>v. case index (asMap (index v ''secret'')) ''secretName'' of VStr n \<Rightarrow> SecretNamed n | _ \<Rightarrow> Dangling)
       (filter (\<lambda>v. index v ''secret'' \<noteq> VNull) (elements (index spec ''volumes'')))"

definition referencesOf :: "Object \<Rightarrow> Reference list" where
  "referencesOf spec =
     (case index spec ''serviceAccountName'' of VStr n \<Rightarrow> [AccountNamed n] | VNull \<Rightarrow> [] | _ \<Rightarrow> [Dangling]) @
     volumeReferences spec @ concat (map envReferences (containersOf spec))"

definition isObject :: "string \<Rightarrow> string \<Rightarrow> Value \<Rightarrow> Object \<Rightarrow> bool" where
  "isObject kind name ns ob \<longleftrightarrow> index ob ''kind'' = VStr kind \<and>
     index (asMap (index ob ''metadata'')) ''name'' = VStr name \<and> index (asMap (index ob ''metadata'')) ''namespace'' = ns"

fun resolves :: "Object list \<Rightarrow> Value \<Rightarrow> Reference \<Rightarrow> bool" where
  "resolves os ns (SecretKey n k) \<longleftrightarrow>
     (\<exists>ob \<in> set os. isObject ''Secret'' n ns ob \<and> index (asMap (index ob ''data'')) k \<noteq> VNull)"
| "resolves os ns (SecretNamed n) \<longleftrightarrow> (\<exists>ob \<in> set os. isObject ''Secret'' n ns ob)"
| "resolves os ns (AccountNamed n) \<longleftrightarrow> (\<exists>ob \<in> set os. isObject ''ServiceAccount'' n ns ob)"
| "resolves os ns Dangling \<longleftrightarrow> False"

lemma jobPod_envReferences:
  "envReferences (checkoutContainer r l a) = (if a then [SecretKey ''checkout'' ''header''] else [])"
  "envReferences (helperContainer r) = []" "envReferences (jobContainer r spec) = []"
proof -
  have c: "index (checkoutContainer r l a) ''env'' = objects (checkoutEnv l a)"
    and h: "index (helperContainer r) ''env'' = VNull"
    by (simp_all add: checkoutContainer_def helperContainer_def index_def getd_def)
  have p: "index (plainJob spec) ''env'' = objects
      [envVar ''HOME'' ''/tmp'', envVar ''CI'' ''true'', envVar ''XDG_CACHE_HOME'' ''/tmp/.cache'',
       envVar ''GOPATH'' ''/tmp/go'', envVar ''GOCACHE'' ''/tmp/go-build'', envVar ''GOMODCACHE'' ''/tmp/go-modules'']"
    by (simp add: plainJob_def Let_def index_def getd_def)
  show "envReferences (checkoutContainer r l a) = (if a then [SecretKey ''checkout'' ''header''] else [])"
    unfolding envReferences_def c by (simp add: checkoutEnv_def Let_def envVar_plain) (simp add: index_def getd_def)
  show "envReferences (helperContainer r) = []"
    unfolding envReferences_def h by simp
  show "envReferences (jobContainer r spec) = []"
    unfolding envReferences_def by (cases "spec_Buildkit spec") (simp_all add: jobContainer_index p envVar_plain)
qed

lemma jobPod_volumeReferences:
  "volumeReferences (jobPodSpec r l a) =
     (if spec_Buildkit (job_Spec (lease_Job l)) \<noteq> None \<and> rn_RegistryConfig r \<noteq> [] then [SecretNamed ''registry''] else [])"
  unfolding volumeReferences_def jobPodSpec_volumes by (simp add: podVolumes_def volume_def index_def getd_def)

lemma jobPod_references:
  "referencesOf (jobPodSpec r l a) =
     AccountNamed ''workload'' #
     (if spec_Buildkit (job_Spec (lease_Job l)) \<noteq> None \<and> rn_RegistryConfig r \<noteq> [] then [SecretNamed ''registry''] else []) @
     (if a then [SecretKey ''checkout'' ''header''] else [])"
proof -
  have "index (jobPodSpec r l a) ''serviceAccountName'' = VStr ''workload''"
    by (simp add: jobPodSpec_def Let_def index_def getd_def)
  then show ?thesis
    unfolding referencesOf_def jobPod_volumeReferences jobPodSpec_containers by (simp add: jobPod_envReferences)
qed

lemma jobResources_network:
  "\<exists>os. jobResources r l token = Boundaries (JobNamespace (att_ID (lease_Attempt l))) 0 @ os \<and>
     (\<forall>ob \<in> set os. index ob ''kind'' \<noteq> VStr ''NetworkPolicy'')"
  by (auto simp: jobResources_def Let_def index_Resource) (simp_all add: index_def getd_def)

lemma jobResources_open:
  "egressOpen (jobResources r l token) pod p proto n =
     egressOpen (Boundaries (JobNamespace (att_ID (lease_Attempt l))) 0) pod p proto n"
  "ingressOpen (jobResources r l token) pod p proto n =
     ingressOpen (Boundaries (JobNamespace (att_ID (lease_Attempt l))) 0) pod p proto n"
  using jobResources_network [of r l token] open_append by metis+

lemma JobPod_resolves:
  "list_all (resolves (jobResources r l token) (VStr (JobNamespace (att_ID (lease_Attempt l)))))
     (referencesOf (jobPodSpec r l (token \<noteq> [])))"
proof -
  let ?ns = "JobNamespace (att_ID (lease_Attempt l))"
  have ns: "?ns \<noteq> []" by (simp add: JobNamespace_def)
  have R: "isObject kind name (VStr ?ns) (Resource api kind name ?ns spec)" 
    if "distinct (map fst spec)" "map_of spec ''kind'' = None" "map_of spec ''metadata'' = None" for kind name api spec
    using that(2,3) ns unfolding isObject_def index_Resource [OF that(1)] by (simp add: index_def getd_def)
  have "\<exists>ob \<in> set (jobResources r l token). isObject ''ServiceAccount'' ''workload'' (VStr ?ns) ob"
    unfolding jobResources_def Let_def Boundaries_def set_append bex_Un by (simp add: R)
  moreover have "\<exists>ob \<in> set (jobResources r l token). isObject ''Secret'' ''registry'' (VStr ?ns) ob"
    if "spec_Buildkit (job_Spec (lease_Job l)) \<noteq> None" "rn_RegistryConfig r \<noteq> []"
    using that unfolding jobResources_def Let_def set_append bex_Un by (simp add: R)
  moreover have "\<exists>ob \<in> set (jobResources r l token). isObject ''Secret'' ''checkout'' (VStr ?ns) ob \<and>
      index (asMap (index ob ''data'')) ''header'' \<noteq> VNull" if "token \<noteq> []"
  proof -
    let ?ob = "Resource ''v1'' ''Secret'' ''checkout'' ?ns
      [(''type'', VStr ''Opaque''), (''data'', VMap [(''header'', VStr (checkoutHeader token))])]"
    have "?ob \<in> set (jobResources r l token)" using that by (simp add: jobResources_def Let_def)
    moreover have "isObject ''Secret'' ''checkout'' (VStr ?ns) ?ob" by (simp add: R)
    moreover have "index (asMap (index ?ob ''data'')) ''header'' \<noteq> VNull"
      by (simp add: index_Resource) (simp add: index_def getd_def)
    ultimately show ?thesis by blast
  qed
  ultimately show ?thesis unfolding jobPod_references by (cases "token = []") auto
qed

text \<open>C19: the manifest of a job's pod is well typed, its references resolve, and it gives out no
  secret it should not, for every lease: its containers have distinct names, its volumes have distinct
  names, and every volume a container mounts is declared; it meets the restricted security level
  exactly for the jobs that do not build an image, which is the level that the job's namespace
  enforces; every service account, secret and key of a secret it refers to is among the objects that
  \<open>Prepare\<close> applies before it, in the pod's own namespace; only the checkout container refers to the
  repository's access token, the registry credentials are mounted only into the build container of an
  image job, and the user's container of any other job reads no secret.\<close>

theorem JobPod_manifest:
  "wellTypedPod (jobPodSpec r l a) \<and>
   (restrictedPod (jobPodSpec r l a) \<longleftrightarrow> spec_Buildkit (job_Spec (lease_Job l)) = None) \<and>
   levelOf (Namespace ns owner ''job'' (spec_Buildkit (job_Spec (lease_Job l)) = None)) =
     VStr (if restrictedPod (jobPodSpec r l a) then ''restricted'' else ''privileged'') \<and>
   index (JobPod r l (token \<noteq> [])) ''spec'' = VMap (jobPodSpec r l (token \<noteq> [])) \<and>
   list_all (resolves (jobResources r l token)
       (index (asMap (index (JobPod r l (token \<noteq> [])) ''metadata'')) ''namespace''))
     (referencesOf (jobPodSpec r l (token \<noteq> []))) \<and>
   containersOf (jobPodSpec r l a) =
     [checkoutContainer r l a, jobContainer r (job_Spec (lease_Job l)), helperContainer r] \<and>
   secretsOf (jobPodSpec r l a) (checkoutContainer r l a) = (if a then [''checkout''] else []) \<and>
   secretsOf (jobPodSpec r l a) (jobContainer r (job_Spec (lease_Job l))) =
     (if spec_Buildkit (job_Spec (lease_Job l)) \<noteq> None \<and> rn_RegistryConfig r \<noteq> [] then [''registry''] else []) \<and>
   secretsOf (jobPodSpec r l a) (helperContainer r) = []"
proof -
  have pod: "index (JobPod r l b) ''spec'' = VMap (jobPodSpec r l b)"
    "index (asMap (index (JobPod r l b) ''metadata'')) ''namespace'' = VStr (JobNamespace (att_ID (lease_Attempt l)))" for b
    by (simp_all add: JobPod_def Let_def index_Resource) (simp_all add: index_def getd_def)
  show ?thesis
    unfolding pod
    using JobPod_welltyped [of r l a ns owner] JobPod_secrets [of r l a] JobPod_resolves [of r l token]
    by (simp only: simp_thms)
qed

section \<open>Preparing and executing a job\<close>

definition jobSpace :: "AttemptLease \<Rightarrow> string" where
  "jobSpace l = JobNamespace (att_ID (lease_Attempt l))"

definition prepareCommands :: "'k Runner \<Rightarrow> AttemptLease \<Rightarrow> string \<Rightarrow> command list" where
  "prepareCommands r l token =
     [(getArgs ''namespace'' [] (jobSpace l), None),
      (applyArgs, Some (listOf [Namespace (jobSpace l) (att_ID (lease_Attempt l)) ''job''
                                  (spec_Buildkit (job_Spec (lease_Job l)) = None)])),
      (applyArgs, Some (listOf (jobResources r l token))),
      (applyArgs, Some (listOf [JobPod r l (token \<noteq> [])]))]"

lemma jobSpace_nonempty [simp]: "jobSpace l \<noteq> []"
  by (simp add: jobSpace_def JobNamespace_def)

lemma prepareCommands_within: "cmd \<in> set (tl (prepareCommands r l token)) \<Longrightarrow> within (jobSpace l) cmd"
proof -
  have "ob \<in> set (jobResources r l token) \<Longrightarrow> namespaceDoc (jobSpace l) ob" for ob
    unfolding jobResources_def jobSpace_def [symmetric]
    by (auto simp: Let_def Boundaries_within split: if_splits intro!: Resource_within)
  moreover have "namespaceDoc (jobSpace l) (JobPod r l a)" for a
    unfolding JobPod_def jobSpace_def [symmetric] Let_def namespaceDoc_def
    by (simp add: index_Resource) (simp add: index_def getd_def)
  ultimately show "cmd \<in> set (tl (prepareCommands r l token)) \<Longrightarrow> within (jobSpace l) cmd"
    by (auto simp: prepareCommands_def Namespace_within)
qed

lemma Prepare_runs:
  assumes "Prepare r l token s = (e, s')"
  shows "\<exists>cs. runs (rn_Client r) s cs s' \<and> prefix cs (prepareCommands r l token) \<and>
    (e = None \<longrightarrow> cs = prepareCommands r l token) \<and>
    (\<forall>cmd \<in> set (tl cs). within (jobSpace l) cmd) \<and>
    (foreign (rn_Client r) (jobSpace l) (att_ID (lease_Attempt l)) s \<longrightarrow> e \<noteq> None \<and> length cs \<le> 1) \<and>
    (spec_Buildkit (job_Spec (lease_Job l)) \<noteq> None \<and> \<not> spec_Trusted (job_Spec (lease_Job l)) \<longrightarrow> e \<noteq> None \<and> cs = [])"
proof -
  let ?c = "rn_Client r" and ?cmds = "prepareCommands r l token" and ?owner = "att_ID (lease_Attempt l)"
  let ?build = "spec_Buildkit (job_Spec (lease_Job l)) \<noteq> None" and ?trusted = "spec_Trusted (job_Spec (lease_Job l))"
  have goal: ?thesis if "runs ?c s (take n ?cmds) s'" "e = None \<longrightarrow> 4 \<le> n"
      "foreign ?c (jobSpace l) ?owner s \<longrightarrow> e \<noteq> None \<and> n \<le> 1" "?build \<and> \<not> ?trusted \<longrightarrow> e \<noteq> None \<and> n = 0" for n
  proof (intro exI conjI)
    show "runs ?c s (take n ?cmds) s'" by (rule that(1))
    show "prefix (take n ?cmds) ?cmds" by (rule take_is_prefix)
    show "e = None \<longrightarrow> take n ?cmds = ?cmds" using that(2) by (auto simp: prepareCommands_def)
    show "\<forall>cmd \<in> set (tl (take n ?cmds)). within (jobSpace l) cmd"
      using prepareCommands_within [of _ r l token] by (auto simp: tl_take dest: in_set_takeD)
    show "foreign ?c (jobSpace l) ?owner s \<longrightarrow> e \<noteq> None \<and> length (take n ?cmds) \<le> 1" using that(3) by auto
    show "?build \<and> \<not> ?trusted \<longrightarrow> e \<noteq> None \<and> take n ?cmds = []" using that(4) by auto
  qed
  note P = assms [unfolded Prepare_def Let_def, folded jobSpace_def]
  show ?thesis
  proof (cases "?build \<and> \<not> ?trusted")
    case True
    with P have "s' = s" "e \<noteq> None" by auto
    with True show ?thesis by (intro goal [of 0]) (auto intro: runs_Nil)
  next
    case ok: False
    obtain b e0 s1 where o: "OwnedNamespace ?c (jobSpace l) ?owner s = ((b, e0), s1)" by (metis prod.exhaust)
    have read: "runs ?c s (take 1 ?cmds) s1" using OwnedNamespace_runs [OF o] by (simp add: prepareCommands_def)
    show ?thesis
    proof (cases e0)
      case (Some x)
      with P ok o have "s' = s1" "e = Some x" by auto
      with read ok show ?thesis by (intro goal [of 1]) auto
    next
      case None
      have mine: "\<not> foreign ?c (jobSpace l) ?owner s" using OwnedNamespace_foreign [OF o] None by blast
      obtain e1 s2 where a1: "Apply ?c [Namespace (jobSpace l) ?owner ''job'' (\<not> ?build)] s1 = (e1, s2)" by fastforce
      have r1: "runs ?c s (take 2 ?cmds) s2"
        using runs_append [OF read Apply_runs [OF a1]] by (simp add: prepareCommands_def numeral_eq_Suc)
      obtain e2 s3 where a2: "Apply ?c (jobResources r l token) s2 = (e2, s3)" by fastforce
      have r2: "runs ?c s (take 3 ?cmds) s3"
        using runs_append [OF r1 Apply_runs [OF a2]] by (simp add: prepareCommands_def numeral_eq_Suc)
      obtain e3 s4 where a3: "Apply ?c [JobPod r l (token \<noteq> [])] s3 = (e3, s4)" by fastforce
      have r3: "runs ?c s (take 4 ?cmds) s4"
        using runs_append [OF r2 Apply_runs [OF a3]] by (simp add: prepareCommands_def numeral_eq_Suc)
      show ?thesis
      proof (cases e1)
        case (Some x)
        with P ok o None a1 have "s' = s2" "e = Some x" by auto
        with r1 ok mine show ?thesis by (intro goal [of 2]) auto
      next
        case n1: None
        show ?thesis
        proof (cases e2)
          case (Some x)
          with P ok o None a1 n1 a2 have "s' = s3" "e = Some x" by auto
          with r2 ok mine show ?thesis by (intro goal [of 3]) auto
        next
          case n2: None
          with P ok o None a1 n1 a2 a3 have "s' = s4" by auto
          with r3 ok mine show ?thesis by (intro goal [of 4]) auto
        qed
      qed
    qed
  qed
qed

text \<open>C24: a job is prepared in order and in its own namespace. The invocations of \<open>Prepare\<close> are an
  initial part of: read the namespace, apply the namespace, apply its service account, quota, network
  policy and secrets, apply the pod; all of them when it succeeds, so that no pod is created before
  its network policy. All but the read stay within the job's namespace; nothing is applied when the
  namespace belongs to another owner; and nothing at all is run for an untrusted image job.\<close>

theorem Prepare_ordered:
  assumes "Prepare r l token s = (e, s')"
  shows "\<exists>cs. runs (rn_Client r) s cs s' \<and> prefix cs (prepareCommands r l token) \<and>
    (e = None \<longrightarrow> cs = prepareCommands r l token) \<and>
    (\<forall>cmd \<in> set (tl cs). within (jobSpace l) cmd) \<and>
    (foreign (rn_Client r) (jobSpace l) (att_ID (lease_Attempt l)) s \<longrightarrow> e \<noteq> None \<and> length cs \<le> 1) \<and>
    (spec_Buildkit (job_Spec (lease_Job l)) \<noteq> None \<and> \<not> spec_Trusted (job_Spec (lease_Job l)) \<longrightarrow> e \<noteq> None \<and> cs = [])"
  by (rule Prepare_runs [OF assms])

text \<open>What the two scans of a pod's status compute: the last terminated job container decides, or else
  the last failed checkout, or else the pod's reason.\<close>

definition jobTerms :: "PodStatus \<Rightarrow> (int \<times> string) list" where
  \<comment> \<open>the exit codes and reasons of the terminated job containers\<close>
  "jobTerms pod = map (\<lambda>c. the (cs_Terminated c))
     (filter (\<lambda>c. cs_Name c = ''job'' \<and> cs_Terminated c \<noteq> None) (pod_Containers pod))"

definition jobEnds :: "PodStatus \<Rightarrow> int list" where
  "jobEnds pod = map fst (jobTerms pod)"

definition checkoutFailures :: "PodStatus \<Rightarrow> (int \<times> string) list" where
  "checkoutFailures pod = filter (\<lambda>t. fst t \<noteq> 0)
     (map (\<lambda>c. the (cs_Terminated c)) (filter (\<lambda>c. cs_Terminated c \<noteq> None) (pod_Init pod)))"

definition podDone :: "PodStatus \<Rightarrow> bool" where
  "podDone pod \<longleftrightarrow> pod_Phase pod = ''Failed'' \<or> checkoutFailures pod \<noteq> [] \<or> jobEnds pod \<noteq> []"

definition podMessage :: "PodStatus \<Rightarrow> string" where
  "podMessage pod =
     (let said = (\<lambda>who t. who @ '' exited with code '' @ itoa (fst t) @ '' ('' @ snd t @ '')'') in
      if jobTerms pod \<noteq> [] then said ''Container'' (last (jobTerms pod))
      else if checkoutFailures pod \<noteq> [] then said ''Checkout'' (last (checkoutFailures pod))
      else pod_Reason pod)"

lemma scanInit_eq:
  "scanInit cs (d, result) =
     (let ts = filter (\<lambda>t. fst t \<noteq> 0) (map (\<lambda>c. the (cs_Terminated c)) (filter (\<lambda>c. cs_Terminated c \<noteq> None) cs))
      in (d \<or> ts \<noteq> [], if ts = [] then result else result\<lparr>result_Message := exitMessage ''Checkout'' (last ts)\<rparr>))"
  by (induction cs arbitrary: d result) (auto simp: Let_def split: option.split)

lemma scanJob_eq:
  "scanJob cs (d, result) =
     (let ts = map (\<lambda>c. the (cs_Terminated c)) (filter (\<lambda>c. cs_Name c = ''job'' \<and> cs_Terminated c \<noteq> None) cs)
      in (d \<or> ts \<noteq> [], if ts = [] then result
          else result\<lparr>result_Success := fst (last ts) = 0, result_Message := exitMessage ''Container'' (last ts)\<rparr>))"
  by (induction cs arbitrary: d result) (auto simp: Let_def split: option.split)

lemma podOutcome_eq:
  "podOutcome pod result =
     (podDone pod, result\<lparr>result_Message := podMessage pod,
        result_Success := if jobEnds pod = [] then result_Success result else last (jobEnds pod) = 0\<rparr>)"
  unfolding podOutcome_def scanInit_eq Let_def scanJob_eq
  by (auto simp: podDone_def podMessage_def jobEnds_def jobTerms_def checkoutFailures_def exitMessage_def Let_def last_map)

definition executeCommands :: "AttemptLease \<Rightarrow> command list" where
  "executeCommands l =
     [(getArgs ''pod'' (jobSpace l) ''job'', None), (logArgs (jobSpace l) ''job'', None), (logArgs (jobSpace l) ''checkout'', None),
      (execArgs (jobSpace l) ''archive'', None), (execArgs (jobSpace l) ''metadata'', None)]"

text \<open>A result is sound for the last pod status that was read when success means that the job
  container exited with code 0, the message tells how it ended, and artifacts, metadata and digest only
  come with success.\<close>

definition soundResult :: "AttemptLease \<Rightarrow> PodStatus \<Rightarrow> Result \<Rightarrow> bool" where
  "soundResult l pod result \<longleftrightarrow>
     podDone pod \<and> (result_Success result \<longleftrightarrow> jobEnds pod \<noteq> [] \<and> last (jobEnds pod) = 0) \<and>
     result_Message result = podMessage pod \<and>
     length (result_Logs result) \<le> 17 * 2 ^ 20 \<and> length (result_Archive result) \<le> 16 * 2 ^ 20 \<and>
     (\<not> result_Success result \<longrightarrow> result_Archive result = []) \<and>
     (\<not> (result_Success result \<and> spec_Buildkit (job_Spec (lease_Job l)) \<noteq> None) \<longrightarrow>
        result_Metadata result = [] \<and> result_Digest result = [])"

text \<open>Among the invocations \<open>cs\<close> from \<open>s\<close> to \<open>s'\<close>, the metadata helper printed a build's metadata
  whose image digest is \<open>d\<close>.\<close>

definition sawDigest :: "'k Runner \<Rightarrow> AttemptLease \<Rightarrow> 'k \<Rightarrow> command list \<Rightarrow> 'k \<Rightarrow> string \<Rightarrow> bool" where
  "sawDigest r l s cs s' d \<longleftrightarrow>
     (\<exists>cs1 s1 metadata s2 cs2 data. cs = cs1 @ [(execArgs (jobSpace l) ''metadata'', None)] @ cs2 \<and>
        runs (rn_Client r) s cs1 s1 \<and>
        Run (rn_Client r) None (execArgs (jobSpace l) ''metadata'') s1 = ((metadata, None), s2) \<and>
        runs (rn_Client r) s2 cs2 s' \<and>
        rn_Metadata r metadata = Inr data \<and> rn_String r (getd [] data ''containerimage.digest'') = Inr d)"

lemma sawDigest_later:
  assumes "runs (rn_Client r) s cs s1" "sawDigest r l s1 ds s' d"
  shows "sawDigest r l s (cs @ ds) s' d"
proof -
  obtain cs1 t m t' cs2 data where d: "ds = cs1 @ [(execArgs (jobSpace l) ''metadata'', None)] @ cs2" "runs (rn_Client r) s1 cs1 t"
      "Run (rn_Client r) None (execArgs (jobSpace l) ''metadata'') t = ((m, None), t')" "runs (rn_Client r) t' cs2 s'"
      "rn_Metadata r m = Inr data" "rn_String r (getd [] data ''containerimage.digest'') = Inr d"
    using assms(2) unfolding sawDigest_def by blast
  show ?thesis
    unfolding sawDigest_def using runs_append [OF assms(1) d(2)] d
    by (intro exI [of _ "cs @ cs1"] exI [of _ t] exI [of _ m] exI [of _ t'] exI [of _ cs2] exI [of _ data]) simp
qed

text \<open>Where the digest of a result comes from: the metadata of a successful image job, and nowhere else.\<close>

definition digestRead :: "'k Runner \<Rightarrow> AttemptLease \<Rightarrow> 'k \<Rightarrow> command list \<Rightarrow> 'k \<Rightarrow> Result \<Rightarrow> bool" where
  "digestRead r l s cs s' result \<longleftrightarrow>
     (if result_Success result \<and> spec_Buildkit (job_Spec (lease_Job l)) \<noteq> None
      then sawDigest r l s cs s' (result_Digest result) else result_Digest result = [])"

lemma digestRead_later:
  "runs (rn_Client r) s cs s1 \<Longrightarrow> digestRead r l s1 ds s' result \<Longrightarrow> digestRead r l s (cs @ ds) s' result"
  using sawDigest_later [of r s cs s1 l ds s' "result_Digest result"] by (simp add: digestRead_def split: if_splits)

lemma collectLogs_runs:
  assumes "collectLogs r ns s = (logs, s')"
  shows "length logs \<le> 17 * 2 ^ 20 \<and> (\<exists>cs. runs (rn_Client r) s cs s' \<and> set cs \<subseteq> {(logArgs ns ''job'', None), (logArgs ns ''checkout'', None)})"
proof -
  obtain a e s1 where a: "Run (rn_Client r) None (logArgs ns ''job'') s = ((a, e), s1)" by (metis prod.exhaust)
  obtain b e2 s2 where b: "Run (rn_Client r) None (logArgs ns ''checkout'') s1 = ((b, e2), s2)" by (metis prod.exhaust)
  show ?thesis
  proof (cases "e = None")
    case True
    with assms a have "logs = a" "s' = s1" by (simp_all add: collectLogs_def)
    with a Run_output_bound [OF a] runs_one [OF a] show ?thesis by (intro conjI exI [of _ "[_]"]) auto
  next
    case False
    with assms a b have "logs = b" "s' = s2" by (simp_all add: collectLogs_def)
    with Run_output_bound [OF b] runs_append [OF runs_one [OF a] runs_one [OF b]] show ?thesis
      by (intro conjI exI [of _ "[_] @ [_]"]) auto
  qed
qed

lemma collectArchive_runs:
  assumes "collectArchive r ns result s = ((result', e), s')"
  shows "\<exists>cs. runs (rn_Client r) s cs s' \<and> set cs \<subseteq> {(execArgs ns ''archive'', None)} \<and>
    (\<exists>archive. result' = result\<lparr>result_Archive := archive\<rparr> \<and> (archive = result_Archive result \<or> result_Success result \<and> length archive \<le> 16 * 2 ^ 20))"
proof (cases "result_Success result")
  case False
  with assms have "result' = result\<lparr>result_Archive := result_Archive result\<rparr>" "s' = s" by (simp_all add: collectArchive_def)
  then show ?thesis by (intro exI [of _ "[]"] conjI exI [of _ "result_Archive result"]) (simp_all add: runs_Nil)
next
  case True
  obtain a e1 s1 where a: "Run (rn_Client r) None (execArgs ns ''archive'') s = ((a, e1), s1)" by (metis prod.exhaust)
  have "s' = s1" "\<exists>archive. result' = result\<lparr>result_Archive := archive\<rparr> \<and> (archive = result_Archive result \<or> length archive \<le> 16 * 2 ^ 20)"
    using assms True a
    by (auto simp: collectArchive_def maxArchive_def not_less split: if_splits
        intro: exI [of _ a] exI [of _ "result_Archive result"])
  with True runs_one [OF a] show ?thesis by (intro exI [of _ "[_]"]) auto
qed

lemma collectMetadata_runs:
  assumes "collectMetadata r l (jobSpace l) result s = ((result', e), s')"
  shows "\<exists>cs. runs (rn_Client r) s cs s' \<and> set cs \<subseteq> {(execArgs (jobSpace l) ''metadata'', None)} \<and>
    (\<exists>m d. result' = result\<lparr>result_Metadata := m, result_Digest := d\<rparr> \<and>
       (\<not> (result_Success result \<and> spec_Buildkit (job_Spec (lease_Job l)) \<noteq> None) \<longrightarrow> m = result_Metadata result \<and> d = result_Digest result)) \<and>
    (e = None \<and> result_Digest result = [] \<longrightarrow> digestRead r l s cs s' result')"
proof (cases "result_Success result \<and> spec_Buildkit (job_Spec (lease_Job l)) \<noteq> None")
  case False
  with assms have "result' = result\<lparr>result_Metadata := result_Metadata result, result_Digest := result_Digest result\<rparr>" "s' = s"
    by (auto simp: collectMetadata_def)
  with False show ?thesis
    by (intro exI [of _ "[]"] conjI exI [of _ "result_Metadata result"] exI [of _ "result_Digest result"])
      (auto simp: runs_Nil digestRead_def)
next
  case True
  obtain a e1 s1 where a: "Run (rn_Client r) None (execArgs (jobSpace l) ''metadata'') s = ((a, e1), s1)" by (metis prod.exhaust)
  have s': "s' = s1"
    using assms True a by (auto simp: collectMetadata_def Let_def split: if_splits sum.splits)
  consider (failed) "e1 \<noteq> None" | (printed) "e1 = None" by blast
  then have "(\<exists>m d. result' = result\<lparr>result_Metadata := m, result_Digest := d\<rparr>) \<and>
    (e = None \<longrightarrow> sawDigest r l s [(execArgs (jobSpace l) ''metadata'', None)] s' (result_Digest result'))"
  proof cases
    case failed
    with assms True a have "result' = result\<lparr>result_Metadata := result_Metadata result, result_Digest := result_Digest result\<rparr>"
      "e \<noteq> None"
      by (auto simp add: collectMetadata_def)
    then show ?thesis by blast
  next
    case printed
    show ?thesis
    proof (cases "e = None")
      case True
      then obtain data d where d: "rn_Metadata r a = Inr data" "rn_String r (getd [] data ''containerimage.digest'') = Inr d"
        "result' = result\<lparr>result_Metadata := a, result_Digest := d\<rparr>"
        using assms \<open>result_Success result \<and> _\<close> a printed by (auto simp: collectMetadata_def Let_def split: sum.splits)
      have "sawDigest r l s ([] @ [(execArgs (jobSpace l) ''metadata'', None)] @ []) s' d"
        unfolding sawDigest_def using a printed s' d
        by (intro exI [of _ "[]"] exI [of _ s] exI [of _ a] exI [of _ s1] exI [of _ data]) (simp add: runs_Nil)
      with d(3) show ?thesis by auto
    next
      case False
      have "result' = result\<lparr>result_Metadata := a, result_Digest := result_Digest result\<rparr> \<or>
          (\<exists>d. result' = result\<lparr>result_Metadata := a, result_Digest := d\<rparr>)"
        using assms True a printed by (auto simp: collectMetadata_def Let_def split: sum.splits)
      with False show ?thesis by blast
    qed
  qed
  then have out: "\<exists>m d. result' = result\<lparr>result_Metadata := m, result_Digest := d\<rparr>"
    "e = None \<longrightarrow> sawDigest r l s [(execArgs (jobSpace l) ''metadata'', None)] s' (result_Digest result')"
    by blast+
  moreover from out(1) True have "result_Success result'" by auto
  ultimately have "e = None \<longrightarrow> digestRead r l s [(execArgs (jobSpace l) ''metadata'', None)] s' result'"
    using True by (simp add: digestRead_def)
  with out(1) True runs_one [OF a] show ?thesis
    unfolding s' by (intro exI [of _ "[(execArgs (jobSpace l) ''metadata'', None)]"]) simp
qed

lemma collect_runs:
  assumes "collect r l (jobSpace l) result s = ((result', e), s')"
  shows "\<exists>cs. runs (rn_Client r) s cs s' \<and> set cs \<subseteq> set (executeCommands l) \<and>
    (e = None \<and> podDone pod \<and> (result_Success result \<longleftrightarrow> jobEnds pod \<noteq> [] \<and> last (jobEnds pod) = 0) \<and>
      result_Message result = podMessage pod \<and> result_Archive result = [] \<and> result_Metadata result = [] \<and>
      result_Digest result = [] \<longrightarrow> soundResult l pod result' \<and> digestRead r l s cs s' result')"
proof -
  obtain logs s1 where lg: "collectLogs r (jobSpace l) s = (logs, s1)" by fastforce
  obtain r1 e1 s2 where ar: "collectArchive r (jobSpace l) (result\<lparr>result_Logs := logs\<rparr>) s1 = ((r1, e1), s2)"
    by (metis prod.exhaust)
  obtain r2 e2 s3 where md: "collectMetadata r l (jobSpace l) r1 s2 = ((r2, e2), s3)" by (metis prod.exhaust)
  obtain c1 where c1: "runs (rn_Client r) s c1 s1" "set c1 \<subseteq> set (executeCommands l)" and len: "length logs \<le> 17 * 2 ^ 20"
    using collectLogs_runs [OF lg] by (auto simp: executeCommands_def)
  have sub: "{(execArgs (jobSpace l) ''archive'', None)} \<subseteq> set (executeCommands l)"
    "{(execArgs (jobSpace l) ''metadata'', None)} \<subseteq> set (executeCommands l)"
    by (simp_all add: executeCommands_def)
  from collectArchive_runs [OF ar] obtain c2 a where c2': "runs (rn_Client r) s1 c2 s2"
      "set c2 \<subseteq> {(execArgs (jobSpace l) ''archive'', None)}"
    and r1': "r1 = result\<lparr>result_Logs := logs, result_Archive := a\<rparr>"
      "a = result_Archive (result\<lparr>result_Logs := logs\<rparr>) \<or> result_Success (result\<lparr>result_Logs := logs\<rparr>) \<and> length a \<le> 16 * 2 ^ 20"
    by blast
  note c2 = c2'(1) order_trans [OF c2'(2) sub(1)] and r1 = r1'(1) r1'(2) [simplified]
  from collectMetadata_runs [OF md] obtain c3 m d where c3': "runs (rn_Client r) s2 c3 s3"
      "set c3 \<subseteq> {(execArgs (jobSpace l) ''metadata'', None)}"
    and r2: "r2 = r1\<lparr>result_Metadata := m, result_Digest := d\<rparr>"
      "\<not> (result_Success r1 \<and> spec_Buildkit (job_Spec (lease_Job l)) \<noteq> None) \<longrightarrow> m = result_Metadata r1 \<and> d = result_Digest r1"
    and dg: "e2 = None \<and> result_Digest r1 = [] \<longrightarrow> digestRead r l s2 c3 s3 r2"
    by blast
  note c3 = c3'(1) order_trans [OF c3'(2) sub(2)]
  note C = assms [unfolded collect_def lg Let_def prod.case ar]
  note r12 = runs_append [OF c1(1) c2(1)]
  show ?thesis
  proof (cases "e1 = None")
    case False
    with C have "s' = s2" "e \<noteq> None" by auto
    with r12 c1(2) c2(2) show ?thesis by (intro exI [of _ "c1 @ c2"]) auto
  next
    case True
    with C md have eq: "s' = s3" "result' = r2" "e = e2" by simp_all
    have "soundResult l pod r2 \<and> digestRead r l s ((c1 @ c2) @ c3) s3 r2"
      if ok: "e2 = None" "podDone pod" "result_Success result \<longleftrightarrow> jobEnds pod \<noteq> [] \<and> last (jobEnds pod) = 0"
        "result_Message result = podMessage pod" "result_Archive result = []" "result_Metadata result = []" "result_Digest result = []"
    proof
      have f: "result_Success r2 = result_Success result" "result_Logs r2 = logs" "result_Archive r2 = a"
          "result_Metadata r2 = m" "result_Digest r2 = d" "result_Message r2 = result_Message result"
        by (simp_all add: r1(1) r2(1))
      have g: "result_Success r1 = result_Success result" "result_Metadata r1 = []" "result_Digest r1 = []"
        by (simp_all add: r1(1) ok)
      show "soundResult l pod r2"
        unfolding soundResult_def f using ok len r1(2) r2(2) g by auto
      show "digestRead r l s ((c1 @ c2) @ c3) s3 r2"
        by (rule digestRead_later [OF r12]) (use dg ok(1) g(3) in blast)
    qed
    with runs_append [OF r12 c3(1)] c1(2) c2(2) c3(2) show ?thesis
      unfolding eq by (intro exI [of _ "(c1 @ c2) @ c3"]) simp
  qed
qed

text \<open>Among the invocations \<open>cs\<close> from \<open>s\<close> to \<open>s'\<close>, a read of the job's pod was answered with the status \<open>pod\<close>.\<close>

definition sawPod :: "'k Runner \<Rightarrow> AttemptLease \<Rightarrow> 'k \<Rightarrow> command list \<Rightarrow> 'k \<Rightarrow> PodStatus \<Rightarrow> bool" where
  "sawPod r l s cs s' pod \<longleftrightarrow>
     (\<exists>cs1 s1 v s2 cs2. cs = cs1 @ [(getArgs ''pod'' (jobSpace l) ''job'', None)] @ cs2 \<and> runs (rn_Client r) s cs1 s1 \<and>
        GetResource (rn_Client r) ''pod'' (jobSpace l) ''job'' s1 = (Inr (Some v), s2) \<and> rn_PodStatus r v = Inr pod \<and>
        runs (rn_Client r) s2 cs2 s')"

lemma sawPod_now:
  assumes "GetResource (rn_Client r) ''pod'' (jobSpace l) ''job'' s = (Inr (Some v), s1)" "rn_PodStatus r v = Inr pod"
    and "runs (rn_Client r) s1 cs s'"
  shows "sawPod r l s ([(getArgs ''pod'' (jobSpace l) ''job'', None)] @ cs) s' pod"
  unfolding sawPod_def using assms
  by (intro exI [of _ "[]"] exI [of _ s] exI [of _ v] exI [of _ s1] exI [of _ cs]) (simp add: runs_Nil)

lemma sawPod_later:
  assumes "runs (rn_Client r) s cs s1" "sawPod r l s1 ds s' pod"
  shows "sawPod r l s (cs @ ds) s' pod"
proof -
  obtain cs1 t v t' cs2 where d: "ds = cs1 @ [(getArgs ''pod'' (jobSpace l) ''job'', None)] @ cs2" "runs (rn_Client r) s1 cs1 t"
      "GetResource (rn_Client r) ''pod'' (jobSpace l) ''job'' t = (Inr (Some v), t')" "rn_PodStatus r v = Inr pod"
      "runs (rn_Client r) t' cs2 s'"
    using assms(2) unfolding sawPod_def by blast
  show ?thesis
    unfolding sawPod_def using runs_append [OF assms(1) d(2)] d
    by (intro exI [of _ "cs @ cs1"] exI [of _ t] exI [of _ v] exI [of _ t'] exI [of _ cs2]) simp
qed

definition emptyResult :: "Result \<Rightarrow> bool" where
  "emptyResult result \<longleftrightarrow> \<not> result_Success result \<and> result_Archive result = [] \<and> result_Metadata result = [] \<and> result_Digest result = []"

lemma awaitPod_runs:
  assumes "awaitPod r l ticks result s = ((result', e), s')"
  shows "\<exists>cs. runs (rn_Client r) s cs s' \<and> set cs \<subseteq> set (executeCommands l) \<and>
    (e = None \<and> emptyResult result \<longrightarrow>
      (\<exists>pod. sawPod r l s cs s' pod \<and> soundResult l pod result') \<and> digestRead r l s cs s' result')"
  using assms
proof (induction ticks arbitrary: result s)
  case 0
  then show ?case by (auto intro: runs_Nil exI [of _ "[]"])
next
  case (Suc ticks)
  obtain g s1 where g: "GetResource (rn_Client r) ''pod'' (jobSpace l) ''job'' s = (g, s1)" by fastforce
  have one: "runs (rn_Client r) s [(getArgs ''pod'' (jobSpace l) ''job'', None)] s1"
    and mem: "(getArgs ''pod'' (jobSpace l) ''job'', None) \<in> set (executeCommands l)"
    using GetResource_runs [OF g] by (simp_all add: executeCommands_def)
  note A = Suc.prems [unfolded awaitPod.simps Let_def, folded jobSpace_def, unfolded g]
  consider (stop) "s' = s1" "e \<noteq> None" | (go) v pod where "g = Inr (Some v)" "rn_PodStatus r v = Inr pod"
    using A by (auto split: sum.splits option.splits)
  then show ?case
  proof cases
    case stop
    with one mem show ?thesis by (intro exI [of _ "[_]"]) auto
  next
    case (go v pod)
    show ?thesis
    proof (cases "podDone pod")
      case True
      let ?res = "result\<lparr>result_Message := podMessage pod,
        result_Success := if jobEnds pod = [] then result_Success result else last (jobEnds pod) = 0\<rparr>"
      have c: "collect r l (jobSpace l) ?res s1 = ((result', e), s')"
        using A go True by (simp add: podOutcome_eq)
      have "e = None \<and> emptyResult result \<longrightarrow> e = None \<and> podDone pod \<and>
          (result_Success ?res \<longleftrightarrow> jobEnds pod \<noteq> [] \<and> last (jobEnds pod) = 0) \<and> result_Message ?res = podMessage pod \<and>
          result_Archive ?res = [] \<and> result_Metadata ?res = [] \<and> result_Digest ?res = []"
        using True by (simp add: emptyResult_def)
      with collect_runs [OF c, of pod] obtain cs where cs: "runs (rn_Client r) s1 cs s'" "set cs \<subseteq> set (executeCommands l)"
        and sound: "e = None \<and> emptyResult result \<longrightarrow> soundResult l pod result' \<and> digestRead r l s1 cs s' result'"
        by metis
      with sound sawPod_now [OF g [unfolded go(1)] go(2) cs(1)] digestRead_later [OF one] runs_append [OF one cs(1)] mem show ?thesis
        by (intro exI [of _ "[_] @ cs"]) auto
    next
      case False
      then have "jobEnds pod = []" by (simp add: podDone_def)
      with A go False have w: "awaitPod r l ticks (result\<lparr>result_Message := podMessage pod\<rparr>) s1 = ((result', e), s')"
        by (simp add: podOutcome_eq)
      from Suc.IH [OF w] obtain cs where cs: "runs (rn_Client r) s1 cs s'" "set cs \<subseteq> set (executeCommands l)"
        "e = None \<and> emptyResult result \<longrightarrow>
           (\<exists>pod. sawPod r l s1 cs s' pod \<and> soundResult l pod result') \<and> digestRead r l s1 cs s' result'"
        by (auto simp: emptyResult_def)
      with sawPod_later [OF one] digestRead_later [OF one] runs_append [OF one cs(1)] mem show ?thesis
        by (intro exI [of _ "[_] @ cs"]) (simp, blast)
    qed
  qed
qed

text \<open>An execution only reads and collects. After the preparation, which must have succeeded for a
  result to count, \<open>Execute\<close> runs nothing but reads of the job's pod and logs and the two helper
  commands in its artifact container; and when it returns a result without an error, that result is
  the truth of a pod status it read: the pod was done, success means that the job's container exited
  with code 0, the message tells how it ended, artifacts, build metadata and digest come only with
  success, the digest is the one in the metadata the helper printed, and logs and artifacts are
  bounded.\<close>

lemma Execute_runs:
  assumes "Execute r l token ticks s = ((result, e), s')"
  shows "\<exists>cs ds. runs (rn_Client r) s (cs @ ds) s' \<and> prefix cs (prepareCommands r l token) \<and> set ds \<subseteq> set (executeCommands l) \<and>
    (ds \<noteq> [] \<or> e = None \<longrightarrow> cs = prepareCommands r l token) \<and>
    (e = None \<longrightarrow> (\<exists>pod. sawPod r l s (cs @ ds) s' pod \<and> soundResult l pod result) \<and> digestRead r l s (cs @ ds) s' result)"
proof -
  obtain e1 s1 where p: "Prepare r l token s = (e1, s1)" by fastforce
  obtain cs where cs: "runs (rn_Client r) s cs s1" "prefix cs (prepareCommands r l token)"
    "e1 = None \<Longrightarrow> cs = prepareCommands r l token"
    using Prepare_runs [OF p] by blast
  show ?thesis
  proof (cases e1)
    case (Some x)
    with assms p have "s' = s1" "e \<noteq> None" by (auto simp: Execute_def)
    with cs(1,2) show ?thesis by (rule_tac exI [of _ cs], rule_tac exI [of _ "[]"]) auto
  next
    case None
    with assms p have w: "awaitPod r l ticks zeroResult s1 = ((result, e), s')" by (simp add: Execute_def)
    have "emptyResult zeroResult" by (simp add: emptyResult_def zeroResult_def)
    with awaitPod_runs [OF w] obtain ds where ds: "runs (rn_Client r) s1 ds s'" "set ds \<subseteq> set (executeCommands l)"
      "e = None \<longrightarrow> (\<exists>pod. sawPod r l s1 ds s' pod \<and> soundResult l pod result) \<and> digestRead r l s1 ds s' result"
      by blast
    with sawPod_later [OF cs(1)] digestRead_later [OF cs(1)] runs_append [OF cs(1) ds(1)] cs(2,3) None show ?thesis
      by (intro exI [of _ cs] exI [of _ ds]) blast
  qed
qed

section \<open>A sample job\<close>

definition readyRunner :: "nat Runner" where
  "readyRunner =
     \<lparr>rn_Client = readyClient, rn_Image = ''worker'', rn_GitImage = ''git'', rn_BuildkitImage = ''buildkit'', rn_RegistryConfig = [],
      rn_PodStatus = (\<lambda>_. Inr \<lparr>pod_Phase = ''Running'', pod_Reason = [],
                              pod_Init = [\<lparr>cs_Name = ''checkout'', cs_Terminated = Some (0, ''Completed'')\<rparr>],
                              pod_Containers = [\<lparr>cs_Name = ''job'', cs_Terminated = Some (0, ''Completed'')\<rparr>]\<rparr>),
      rn_Metadata = (\<lambda>_. Inr []), rn_String = (\<lambda>_. Inl ''unexpected end of JSON input'')\<rparr>"

definition readyLease :: AttemptLease where
  "readyLease =
     \<lparr>lease_Attempt = \<lparr>att_ID = ''att_1'', att_JobID = ''job_1'', att_Number = 1, att_WorkerID = ''w'', att_LeaseToken = ''t'',
         att_LeaseExpires = 0, att_Status = StateLeased, att_CreatedAt = 0, att_StartedAt = 0, att_CompletedAt = 0,
         att_ResultMessage = [], att_ResultDigest = [], att_LogKey = [], att_Artefacts = []\<rparr>,
      lease_LeaseToken = ''t'',
      lease_Job = \<lparr>job_ID = ''job_1'', job_PipelineID = ''p'', job_Tenant = ''t'', job_Name = ''test'', job_Spec = zeroJobSpec,
         job_Status = StateLeased, job_QueueReason = [], job_CreatedAt = 0, job_Sequence = 0, job_AttemptIDs = [''att_1'']\<rparr>,
      lease_Pipeline = zeroPipeline, lease_Deadline = 0\<rparr>"

lemma readyRunner_fields:
  "rn_Client readyRunner = readyClient" "kc_Parse readyClient b = Inr (Some [])"
  "rn_PodStatus readyRunner v = Inr \<lparr>pod_Phase = ''Running'', pod_Reason = [],
                              pod_Init = [\<lparr>cs_Name = ''checkout'', cs_Terminated = Some (0, ''Completed'')\<rparr>],
                              pod_Containers = [\<lparr>cs_Name = ''job'', cs_Terminated = Some (0, ''Completed'')\<rparr>]\<rparr>"
  "spec_Buildkit (job_Spec (lease_Job readyLease)) = None" "rn_RegistryConfig readyRunner = []"
  "att_ID (lease_Attempt readyLease) = ''att_1''"
  by (simp_all add: readyRunner_def readyClient_def readyLease_def zeroJobSpec_def)

lemma ready_execute:
  "Prepare readyRunner readyLease [] 0 = (None, 4)"
  "Execute readyRunner readyLease [] 1 0 =
     ((zeroResult\<lparr>result_Success := True, result_Message := ''Container exited with code 0 (Completed)''\<rparr>, None), 7)"
proof -
  show p: "Prepare readyRunner readyLease [] 0 = (None, 4)"
    by (simp add: Prepare_def Let_def OwnedNamespace_def GetResource_def Apply_def readyRun blank_simps getArgs_def applyArgs_def
      readyRunner_fields JobNamespace_def)
  have i: "itoa 0 = ''0''" by code_simp
  show "Execute readyRunner readyLease [] 1 0 =
     ((zeroResult\<lparr>result_Success := True, result_Message := ''Container exited with code 0 (Completed)''\<rparr>, None), 7)"
    by (simp add: Execute_def p GetResource_def readyRun blank_simps getArgs_def readyRunner_fields podOutcome_def collect_def
      collectLogs_def collectArchive_def collectMetadata_def logArgs_def execArgs_def maxArchive_def zeroResult_def
      exitMessage_def i JobNamespace_def Let_def)
qed

theorem Prepare_ordered_witness: "runs readyClient 0 (prepareCommands readyRunner readyLease []) 4"
  using Prepare_ordered [OF ready_execute(1)] by (auto simp: readyRunner_fields)

lemma Execute_runs_sample:
  "\<exists>pod. soundResult readyLease pod
     (zeroResult\<lparr>result_Success := True, result_Message := ''Container exited with code 0 (Completed)''\<rparr>)"
  using Execute_runs [OF ready_execute(2)] by auto

end
