(* ===== verification/Worker.thy ===== *)
theory Worker
  imports Runner Transport Guards
begin

text \<open>
  The worker process, \<open>cmd/worker/main.go\<close>: which leases it claims, what it does for one lease, the
  completion it reports, and the archive helper that runs inside a job's pod. The control plane, the
  cluster, the clock and the goroutine that renews the lease act on a state of type \<open>'w\<close>; whether
  the context of a lease has ended, how many polls of its pod fit before it ends and the timer of the
  completion retries are read from that state. Logging is omitted.
\<close>

section \<open>Claiming leases\<close>

record Claims =
  cl_active :: "(string, bool) gomap"
  cl_seen :: "(string, bool) gomap"

definition leaseID :: "AttemptLease \<Rightarrow> string" where
  "leaseID l = att_ID (lease_Attempt l)"

fun claimLoop :: "int \<Rightarrow> AttemptLease list \<Rightarrow> Claims \<Rightarrow> AttemptLease list \<times> Claims" where
  "claimLoop capacity [] w = ([], w)"
| "claimLoop capacity (l # ls) w =
     (if \<not> getd False (cl_seen w) (leaseID l) \<and> \<not> getd False (cl_active w) (leaseID l) \<and>
         int (length (cl_active w)) < capacity
      then let (claimed, w') = claimLoop capacity ls
                 (w\<lparr>cl_seen := AList.update (leaseID l) True (cl_seen w),
                    cl_active := AList.update (leaseID l) True (cl_active w)\<rparr>)
           in (l # claimed, w')
      else claimLoop capacity ls w)"

definition claim :: "int \<Rightarrow> AttemptLease list \<Rightarrow> Claims \<Rightarrow> AttemptLease list \<times> Claims" where
  "claim capacity assignments w =
     (let visible = map leaseID assignments;
          seen = filter (\<lambda>(k, _). k \<in> set visible \<or> getd False (cl_active w) k) (cl_seen w)
      in claimLoop capacity assignments (w\<lparr>cl_seen := seen\<rparr>))"

definition finishClaim :: "string \<Rightarrow> Claims \<Rightarrow> Claims" where
  \<comment> \<open>the deferred \<open>delete(w.active, l.Attempt.ID)\<close> of \<open>execute\<close>\<close>
  "finishClaim attempt w = w\<lparr>cl_active := AList.delete attempt (cl_active w)\<rparr>"

section \<open>Executing a lease\<close>

record 'w Agent =
  ag_Client :: "'w Transport"
  ag_Runner :: "'w Runner"
  ag_Identity :: Worker
  ag_DecodeToken :: "string \<Rightarrow> string + string"
  ag_DecodeArtefact :: "string \<Rightarrow> string + Artefact"
  ag_Ended :: "'w \<Rightarrow> bool"             \<comment> \<open>\<open>ctx.Err() != nil\<close>\<close>
  ag_Ticks :: "'w \<Rightarrow> nat"              \<comment> \<open>the polls of the pod before the context ends\<close>
  ag_Now :: "'w \<Rightarrow> string"
  ag_Wait :: "'w \<Rightarrow> bool \<times> 'w"         \<comment> \<open>whether the second between two completion attempts passed\<close>

definition attemptPath :: "AttemptLease \<Rightarrow> string \<Rightarrow> string" where
  "attemptPath l rest = ''/v1/attempts/'' @ leaseID l @ rest"

definition heartbeat :: "'w Agent \<Rightarrow> AttemptLease \<Rightarrow> 'w \<Rightarrow> (clientError + unit) \<times> 'w" where
  "heartbeat ag l s =
     Do (ag_Client ag) ''POST'' (attemptPath l ''/heartbeat'')
        (Some (VMap [(''lease_token'', VStr (lease_LeaseToken l))])) nil s"

fun renewLoop :: "nat \<Rightarrow> 'w Agent \<Rightarrow> AttemptLease \<Rightarrow> 'w \<Rightarrow> bool \<times> 'w" where
  \<comment> \<open>the goroutine that renews the lease at every tick; \<open>True\<close> is its call of \<open>cancel\<close>\<close>
  "renewLoop 0 ag l s = (False, s)"
| "renewLoop (Suc ticks) ag l s =
     (case heartbeat ag l s of
        (Inl _, s') \<Rightarrow> (True, s')
      | (Inr _, s') \<Rightarrow> renewLoop ticks ag l s')"

definition checkedResult :: "Result \<Rightarrow> Result" where
  "checkedResult result =
     (if result_Digest result \<noteq> [] \<and> \<not> DigestPattern (result_Digest result)
      then result\<lparr>result_Success := False, result_Digest := [], result_Message := ''Builder returned an invalid digest''\<rparr>
      else result)"

definition upload :: "'w Agent \<Rightarrow> AttemptLease \<Rightarrow> string \<Rightarrow> Body \<Rightarrow> Artefact list \<times> string \<Rightarrow> 'w
    \<Rightarrow> (clientError + Artefact list \<times> string) \<times> 'w" where
  \<comment> \<open>the artefacts and the key of the logs are the captured variables\<close>
  "upload ag l name data acc s =
     (case Raw (ag_Client ag) ''PUT'' (attemptPath l (''/objects/'' @ name)) data (lease_LeaseToken l)
             (ag_DecodeArtefact ag) s of
        (Inl e, s') \<Rightarrow> (Inl e, s')
      | (Inr artifact, s') \<Rightarrow>
          (Inr (if name = ''logs'' then (fst acc, art_Key artifact) else (fst acc @ [artifact], snd acc)), s'))"

fun uploads :: "'w Agent \<Rightarrow> AttemptLease \<Rightarrow> (string \<times> Body) list \<Rightarrow> Artefact list \<times> string \<Rightarrow> 'w
    \<Rightarrow> (clientError + Artefact list \<times> string) \<times> 'w" where
  "uploads ag l [] acc s = (Inr acc, s)"
| "uploads ag l ((name, data) # rest) acc s =
     (case upload ag l name data acc s of
        (Inl e, s') \<Rightarrow> (Inl e, s')
      | (Inr acc', s') \<Rightarrow> uploads ag l rest acc' s')"

definition provenance :: "'w Agent \<Rightarrow> AttemptLease \<Rightarrow> Result \<Rightarrow> 'w \<Rightarrow> Value" where
  "provenance ag l result s =
     (let pl = lease_Pipeline l in VMap
       [(''schema_version'', VInt 1), (''pipeline_id'', VStr (pl_ID pl)), (''attempt_id'', VStr (leaseID l)),
        (''source_repository'', VStr (pl_SourceRepo pl)), (''commit_sha'', VStr (pl_CommitSHA pl)),
        (''configuration_digest'', VStr (pl_ConfigDigest pl)), (''image_digest'', VStr (result_Digest result)),
        (''worker_id'', VStr (wk_ID (ag_Identity ag))), (''trusted'', VBool (wk_Trusted (ag_Identity ag))),
        (''completed_at'', VStr (ag_Now ag s)),
        (''note'', VStr ''Execution record; OCI attestations are emitted by BuildKit for image jobs'')])"

definition artefactValue :: "Artefact \<Rightarrow> Value" where
  "artefactValue a = VMap [(''name'', VStr (art_Name a)), (''digest'', VStr (art_Digest a)), (''size'', VInt (art_Size a)),
     (''key'', VStr (art_Key a))]"

definition completePayload :: "AttemptLease \<Rightarrow> Result \<Rightarrow> Artefact list \<Rightarrow> string \<Rightarrow> Value" where
  "completePayload l result artifacts logKey = VMap
     [(''lease_token'', VStr (lease_LeaseToken l)), (''success'', VBool (result_Success result)),
      (''message'', VStr (TrimSpace (result_Message result))), (''digest'', VStr (result_Digest result)),
      (''log_key'', VStr logKey), (''artefacts'', VList (map artefactValue artifacts))]"

fun completeLoop :: "nat \<Rightarrow> 'w Agent \<Rightarrow> AttemptLease \<Rightarrow> Value \<Rightarrow> 'w \<Rightarrow> 'w" where
  "completeLoop 0 ag l payload s = s"
| "completeLoop (Suc n) ag l payload s =
     (case Do (ag_Client ag) ''POST'' (attemptPath l ''/complete'') (Some payload) nil s of
        (Inr _, s1) \<Rightarrow> s1
      | (Inl e, s1) \<Rightarrow>
          if e = HTTPError 409 then s1
          else let (passed, s2) = ag_Wait ag s1 in if passed then completeLoop n ag l payload s2 else s2)"

definition reportResult :: "'w Agent \<Rightarrow> AttemptLease \<Rightarrow> Result \<Rightarrow> 'w \<Rightarrow> 'w" where
  \<comment> \<open>what \<open>execute\<close> does with a result: the uploads, the provenance record and the completion\<close>
  "reportResult ag l result s =
     (case uploads ag l
             ([(''logs'', ByteBody (result_Logs result))] @
              (if result_Archive result \<noteq> [] then [(''artifacts.tar'', ByteBody (result_Archive result))] else []) @
              (if result_Metadata result \<noteq> [] then [(''build-metadata.json'', ByteBody (result_Metadata result))] else []))
             ([], []) s of
        (Inl _, s1) \<Rightarrow> s1
      | (Inr acc, s1) \<Rightarrow>
          (case uploads ag l [(''provenance.json'', JsonBody (provenance ag l result s1))] acc s1 of
             (Inl _, s2) \<Rightarrow> s2
           | (Inr (artifacts, logKey), s2) \<Rightarrow>
               completeLoop 3 ag l (completePayload l result artifacts logKey) s2))"

definition executeBody :: "'w Agent \<Rightarrow> AttemptLease \<Rightarrow> 'w \<Rightarrow> 'w" where
  \<comment> \<open>\<open>execute\<close> up to its deferred clean-up\<close>
  "executeBody ag l s =
     (case heartbeat ag l s of
        (Inl _, s1) \<Rightarrow> s1
      | (Inr _, s1) \<Rightarrow>
          (case Raw (ag_Client ag) ''GET'' (attemptPath l ''/source-token'') NoBody (lease_LeaseToken l) (ag_DecodeToken ag) s1 of
             (Inl _, s2) \<Rightarrow> s2
           | (Inr token, s2) \<Rightarrow>
               let ((result, e), s3) = Execute (ag_Runner ag) l token (ag_Ticks ag s2) s2 in
               if ag_Ended ag s3 \<or> e \<noteq> None then s3
               else reportResult ag l (checkedResult result) s3))"

definition executeLease :: "'w Agent \<Rightarrow> AttemptLease \<Rightarrow> 'w \<Rightarrow> 'w" where
  "executeLease ag l s =
     snd (DeleteNamespace (rn_Client (ag_Runner ag)) (JobNamespace (leaseID l)) (leaseID l) (executeBody ag l s))"

section \<open>The process\<close>

record WorkerEnv =
  we_WorkerImage :: string
  we_GitImage :: string
  we_BuildkitImage :: string
  we_RegistryFile :: string
  we_ReadFile :: "string \<Rightarrow> string + string"

definition runnerConfig :: "WorkerEnv \<Rightarrow> 'w Runner \<Rightarrow> string + 'w Runner" where
  \<comment> \<open>the images and registry credentials of \<open>run\<close>, put into a runner with the given client and decoders\<close>
  "runnerConfig env r =
     (if we_WorkerImage env = [] then Inl ''WORKER_IMAGE is required''
      else
        let r' = r\<lparr>rn_Image := we_WorkerImage env,
                   rn_GitImage := if we_GitImage env = [] then ''alpine/git:2.49.1'' else we_GitImage env,
                   rn_BuildkitImage := if we_BuildkitImage env = [] then ''moby/buildkit:v0.33.0-rootless''
                                       else we_BuildkitImage env,
                   rn_RegistryConfig := []\<rparr>
        in if we_RegistryFile env \<noteq> [] then
             (case we_ReadFile env (we_RegistryFile env) of
                Inl e \<Rightarrow> Inl e
              | Inr b \<Rightarrow> Inr (r'\<lparr>rn_RegistryConfig := b\<rparr>))
           else Inr r')"

definition workerPath :: "'w Agent \<Rightarrow> string \<Rightarrow> string" where
  "workerPath ag rest = ''/v1/workers/'' @ wk_ID (ag_Identity ag) @ rest"

definition poll :: "'w Agent \<Rightarrow> (string \<Rightarrow> string + AttemptLease list) \<Rightarrow> Claims \<Rightarrow> 'w
    \<Rightarrow> (AttemptLease list \<times> Claims) \<times> 'w" where
  \<comment> \<open>one tick of \<open>run\<close>: the leases for which it starts \<open>execute\<close>\<close>
  "poll ag assignments w s =
     (case Do (ag_Client ag) ''POST'' (workerPath ag ''/heartbeat'') (Some (VMap [])) nil s of
        (Inl _, s1) \<Rightarrow> (([], w), s1)
      | (Inr _, s1) \<Rightarrow>
          (case Do (ag_Client ag) ''GET'' (workerPath ag ''/assignments'') None assignments s1 of
             (Inl _, s2) \<Rightarrow> (([], w), s2)
           | (Inr ls, s2) \<Rightarrow> (claim (wk_Capacity (ag_Identity ag)) ls w, s2)))"

section \<open>The archive helper\<close>

record FileInfo =
  fi_Symlink :: bool
  fi_Dir :: bool
  fi_Regular :: bool
  fi_Size :: int

record WalkEntry =
  wn_Error :: "string option"
  wn_Info :: "string + FileInfo"
  wn_Name :: "string + string"        \<comment> \<open>the slash-separated path relative to the root\<close>
  wn_Header :: "string option"        \<comment> \<open>the error of building or writing the tar header\<close>
  wn_Content :: "string + string"

definition goDiv :: "int \<Rightarrow> int \<Rightarrow> int" where
  \<comment> \<open>Go's integer division truncates towards zero; the divisor is positive here\<close>
  "goDiv a b = (if a < 0 then - ((- a) div b) else a div b)"

definition tarSize :: "int \<Rightarrow> int" where
  "tarSize n = wrap64 (wrap64 (goDiv (wrap64 (n + 511)) 512 * 512) + 512)"

definition copyN :: "string + string \<Rightarrow> int \<Rightarrow> string + string" where
  \<comment> \<open>\<open>os.Open\<close> and \<open>io.CopyN\<close>\<close>
  "copyN content n =
     (case content of
        Inl e \<Rightarrow> Inl e
      | Inr c \<Rightarrow> if int (length c) < n then Inl ''EOF'' else Inr (take (nat n) c))"

definition archiveFile :: "WalkEntry \<Rightarrow> FileInfo \<Rightarrow> string + string \<times> string" where
  \<comment> \<open>from the entry's name on: the name and the bytes that go into the archive\<close>
  "archiveFile e info =
     (case wn_Name e of
        Inl err \<Rightarrow> Inl err
      | Inr name \<Rightarrow>
          if Contains name [CHR 0x5C] then Inl ''artifact names must be portable across operating systems''
          else (case ValidateArchiveEntry name (fi_Size info) 16777216 of
                  Some _ \<Rightarrow> Inl ''invalid archive entry''
                | None \<Rightarrow>
                    (case wn_Header e of
                       Some err \<Rightarrow> Inl err
                     | None \<Rightarrow>
                         (case copyN (wn_Content e) (fi_Size info) of
                            Inl err \<Rightarrow> Inl err
                          | Inr content \<Rightarrow> Inr (name, content)))))"

fun archiveWalk :: "WalkEntry list \<Rightarrow> int \<Rightarrow> int \<Rightarrow> string option \<times> (string \<times> string) list" where
  "archiveWalk [] files used = (None, [])"
| "archiveWalk (e # es) files used =
     (case (wn_Error e, wn_Info e) of
        (Some err, _) \<Rightarrow> (Some err, [])
      | (None, Inl err) \<Rightarrow> (Some err, [])
      | (None, Inr info) \<Rightarrow>
          if fi_Symlink info then (Some ''artifact symlinks are forbidden'', [])
          else if fi_Dir info then archiveWalk es files used
          else if \<not> fi_Regular info then (Some ''only regular artifact files are supported'', [])
          else
            let files' = files + 1; used' = wrap64 (used + tarSize (fi_Size info)) in
            if files' > 2048 \<or> used' > 16777216 - 2048 then
              (Some ''artifacts exceed the 16 MiB or 2048 file limit'', [])
            else (case archiveFile e info of
                    Inl err \<Rightarrow> (Some err, [])
                  | Inr entry \<Rightarrow>
                      let (err, entries) = archiveWalk es files' used' in (err, entry # entries)))"

definition archive :: "bool \<Rightarrow> WalkEntry list \<Rightarrow> string option \<times> (string \<times> string) list" where
  "archive missing es = (if missing then (None, []) else archiveWalk es 0 0)"

definition metadataHelper :: "string + FileInfo \<Rightarrow> string + string \<Rightarrow> string + string" where
  \<comment> \<open>the \<open>metadata\<close> mode of \<open>helper\<close>\<close>
  "metadataHelper info content =
     (case info of
        Inl e \<Rightarrow> Inl e
      | Inr i \<Rightarrow>
          if \<not> fi_Regular i \<or> fi_Size i > 1048576 then Inl ''invalid build metadata''
          else copyN content (fi_Size i))"

section \<open>Claims\<close>

text \<open>
  The claims of a worker process: it starts with none, every poll claims some of the leases it is
  shown, and an execution that ends gives its lease up. The events of a run are its polls and ends.
\<close>

datatype workerEvent = Polled "AttemptLease list" | Ended string

inductive working :: "int \<Rightarrow> workerEvent list \<Rightarrow> Claims \<Rightarrow> string list \<Rightarrow> bool" for capacity where
  working_init: "working capacity [] \<lparr>cl_active = [], cl_seen = []\<rparr> []"
| working_poll: "working capacity evs w cs \<Longrightarrow> claim capacity ls w = (new, w') \<Longrightarrow>
     working capacity (evs @ [Polled ls]) w' (cs @ map leaseID new)"
| working_end: "working capacity evs w cs \<Longrightarrow> working capacity (evs @ [Ended a]) (finishClaim a w) cs"

inductive_cases working_initE: "working capacity [] w cs"

definition misses :: "string \<Rightarrow> workerEvent \<Rightarrow> bool" where
  "misses a e \<longleftrightarrow> (case e of Polled ls \<Rightarrow> a \<notin> set (map leaseID ls) | Ended _ \<Rightarrow> False)"

definition claimsOK :: "int \<Rightarrow> Claims \<Rightarrow> bool" where
  "claimsOK capacity w \<longleftrightarrow>
     distinct (keys (cl_active w)) \<and> int (length (cl_active w)) \<le> max 0 capacity \<and>
     (\<forall>a. getd False (cl_active w) a \<longrightarrow> getd False (cl_seen w) a)"

lemma length_update_le: "length (AList.update k v m) \<le> Suc (length m)"
  by (induction m) auto

lemma getd_delete: "getd False (AList.delete a m) b \<longleftrightarrow> b \<noteq> a \<and> getd False m b"
  by (simp add: getd_def)

lemma claimsOK_put:
  assumes "claimsOK capacity w" "int (length (cl_active w)) < capacity"
  shows "claimsOK capacity (w\<lparr>cl_seen := AList.update a True (cl_seen w), cl_active := AList.update a True (cl_active w)\<rparr>)"
  using assms length_update_le [of a True "cl_active w"] by (auto simp: claimsOK_def)

lemma claimLoop_spec:
  assumes "claimLoop capacity ls w = (new, w')" "claimsOK capacity w"
  shows "claimsOK capacity w' \<and>
    count_list (map leaseID new) a \<le> (if getd False (cl_seen w) a then 0 else 1) \<and>
    (getd False (cl_seen w) a \<longrightarrow> getd False (cl_seen w') a) \<and>
    (a \<in> set (map leaseID new) \<longrightarrow> getd False (cl_seen w') a \<and> a \<in> set (map leaseID ls))"
  using assms
proof (induction ls arbitrary: w new w')
  case Nil
  then show ?case by simp
next
  case (Cons l ls)
  show ?case
  proof (cases "\<not> getd False (cl_seen w) (leaseID l) \<and> \<not> getd False (cl_active w) (leaseID l) \<and>
      int (length (cl_active w)) < capacity")
    case False
    with Cons.prems(1) have "claimLoop capacity ls w = (new, w')" by (simp only: claimLoop.simps if_False)
    from Cons.IH [OF this Cons.prems(2)] show ?thesis by auto
  next
    case True
    let ?w = "w\<lparr>cl_seen := AList.update (leaseID l) True (cl_seen w), cl_active := AList.update (leaseID l) True (cl_active w)\<rparr>"
    obtain new2 w2 where rest: "claimLoop capacity ls ?w = (new2, w2)" by fastforce
    with Cons.prems(1) True have eq: "new = l # new2" "w' = w2" by (simp_all add: Let_def)
    have "claimsOK capacity ?w" using claimsOK_put [OF Cons.prems(2)] True by blast
    from Cons.IH [OF rest this] show ?thesis using eq True by (cases "a = leaseID l") auto
  qed
qed

lemma getd_filter_keys: "getd False (filter (\<lambda>(k, _). P k) m) a \<longleftrightarrow> P a \<and> getd False m a"
  by (induction m) (auto simp: getd_def)

lemma claim_spec:
  assumes "claim capacity ls w = (new, w')" "claimsOK capacity w"
  shows "claimsOK capacity w'"
    and "count_list (map leaseID new) a + (if getd False (cl_seen w) a then 1 else 0) \<le>
      (if misses a (Polled ls) then 1 else 0) + (if getd False (cl_seen w') a then 1 else 0)"
proof -
  let ?seen = "filter (\<lambda>(k, _). k \<in> set (map leaseID ls) \<or> getd False (cl_active w) k) (cl_seen w)"
  have loop: "claimLoop capacity ls (w\<lparr>cl_seen := ?seen\<rparr>) = (new, w')"
    using assms(1) by (simp add: claim_def)
  have ok: "claimsOK capacity (w\<lparr>cl_seen := ?seen\<rparr>)"
    using assms(2) by (auto simp: claimsOK_def getd_filter_keys)
  have seen: "getd False ?seen a \<longleftrightarrow> (a \<in> set (map leaseID ls) \<or> getd False (cl_active w) a) \<and> getd False (cl_seen w) a"
    by (rule getd_filter_keys)
  note spec = claimLoop_spec [OF loop ok, of a]
  show "claimsOK capacity w'" using spec by blast
  have "a \<notin> set (map leaseID new) \<Longrightarrow> count_list (map leaseID new) a = 0" by (simp add: count_list_0_iff)
  then show "count_list (map leaseID new) a + (if getd False (cl_seen w) a then 1 else 0) \<le>
      (if misses a (Polled ls) then 1 else 0) + (if getd False (cl_seen w') a then 1 else 0)"
    using spec seen by (cases "a \<in> set (map leaseID ls)"; cases "a \<in> set (map leaseID new)") (auto simp: misses_def split: if_splits)
qed

lemma working_invariant:
  assumes "working capacity evs w cs"
  shows "claimsOK capacity w \<and> count_list cs a \<le> length (filter (misses a) evs) + (if getd False (cl_seen w) a then 1 else 0)"
  using assms
proof (induction rule: working.induct)
  case working_init
  then show ?case by (simp add: claimsOK_def)
next
  case (working_poll evs w cs ls new w')
  then have "claimsOK capacity w" by blast
  from claim_spec(1) [OF working_poll.hyps(2) this] claim_spec(2) [OF working_poll.hyps(2) this, of a] working_poll.IH
  show ?case by (auto split: if_splits)
next
  case (working_end evs w cs b)
  then show ?case
    using length_delete_le [of b "cl_active w"]
    by (auto simp: claimsOK_def finishClaim_def getd_delete misses_def)
qed

text \<open>C25: a worker process never runs more leases than its capacity, and never the same attempt twice
  while the control plane keeps showing it: along every run, the claims of an attempt exceed the polls
  that did not list it by at most one. An attempt whose execution failed is therefore not restarted
  until its lease has expired.\<close>

theorem working_claims:
  assumes "working capacity evs w cs"
  shows "int (length (cl_active w)) \<le> max 0 capacity \<and> distinct (keys (cl_active w)) \<and>
    count_list cs a \<le> length (filter (misses a) evs) + 1"
  using working_invariant [OF assms, of a] by (auto simp: claimsOK_def split: if_splits)

lemma working_sample:
  "working 1 [Polled [readyLease], Ended ''att_1'', Polled [readyLease]]
     \<lparr>cl_active = [], cl_seen = [(''att_1'', True)]\<rparr> [''att_1'']"
proof -
  let ?w0 = "\<lparr>cl_active = [], cl_seen = []\<rparr>"
  let ?w1 = "\<lparr>cl_active = [(''att_1'', True)], cl_seen = [(''att_1'', True)]\<rparr>"
  let ?w2 = "\<lparr>cl_active = [], cl_seen = [(''att_1'', True)]\<rparr>"
  have id: "leaseID readyLease = ''att_1''" by (simp add: leaseID_def readyLease_def)
  have c1: "claim 1 [readyLease] ?w0 = ([readyLease], ?w1)" by (simp add: claim_def id)
  have f: "finishClaim ''att_1'' ?w1 = ?w2" by (simp add: finishClaim_def)
  have c2: "claim 1 [readyLease] ?w2 = ([], ?w2)" by (simp add: claim_def id getd_def)
  have "working 1 ([] @ [Polled [readyLease]]) ?w1 ([] @ map leaseID [readyLease])"
    by (rule working_poll [OF working_init c1])
  from working_end [OF this, of "''att_1''"] have
    "working 1 (([] @ [Polled [readyLease]]) @ [Ended ''att_1'']) ?w2 ([] @ map leaseID [readyLease])" by (simp only: f)
  from working_poll [OF this c2] show ?thesis by (simp add: id)
qed

theorem working_claims_witness: "count_list [''att_1''] ''att_1'' \<le> (1 :: nat)"
  using working_claims [OF working_sample, of "''att_1''"] by (simp add: misses_def leaseID_def readyLease_def)

section \<open>Archives\<close>

lemma tarSize_exact: "0 \<le> n \<Longrightarrow> n \<le> 16777216 \<Longrightarrow> tarSize n = (n + 511) div 512 * 512 + 512"
proof -
  assume n: "0 \<le> n" "n \<le> 16777216"
  then have "wrap64 (n + 511) = n + 511" by (intro wrap64_id) auto
  moreover have "0 \<le> (n + 511) div 512 * 512" "(n + 511) div 512 * 512 \<le> n + 511" using n by auto
  ultimately show ?thesis
    using n by (simp add: tarSize_def goDiv_def wrap64_id)
qed

lemma archiveFile_valid:
  assumes "archiveFile e info = Inr (name, content)"
  shows "ValidateArchiveEntry name (fi_Size info) 16777216 = None \<and> \<not> Contains name [CHR 0x5C] \<and>
    0 \<le> fi_Size info \<and> fi_Size info \<le> 16777216 \<and> int (length content) = fi_Size info"
proof -
  have v: "ValidateArchiveEntry name (fi_Size info) 16777216 = None" "\<not> Contains name [CHR 0x5C]"
    and c: "copyN (wn_Content e) (fi_Size info) = Inr content"
    using assms by (auto simp: archiveFile_def split: sum.splits option.splits if_splits)
  from v(1) have "0 \<le> fi_Size info \<and> fi_Size info \<le> 16777216"
    by (auto simp: ValidateArchiveEntry_def Let_def split: if_splits)
  with v c show ?thesis by (auto simp: copyN_def split: sum.splits if_splits)
qed

definition archiveBytes :: "(string \<times> string) list \<Rightarrow> int" where
  \<comment> \<open>the size of the entries in the archive: a header block and the content in blocks of 512 bytes\<close>
  "archiveBytes entries = sum_list (map (\<lambda>(_, c). (int (length c) + 511) div 512 * 512 + 512) entries)"

lemma archiveWalk_bounds:
  assumes "archiveWalk es files used = (None, entries)" "0 \<le> files" "files \<le> 2048" "0 \<le> used" "used \<le> 16777216 - 2048"
  shows "files + int (length entries) \<le> 2048 \<and> used + archiveBytes entries \<le> 16777216 - 2048 \<and>
    (\<forall>(name, content) \<in> set entries. ValidateArchiveEntry name (int (length content)) 16777216 = None \<and> \<not> Contains name [CHR 0x5C])"
  using assms
proof (induction es arbitrary: files used entries)
  case Nil
  then show ?case by (simp add: archiveBytes_def)
next
  case (Cons e es)
  from Cons.prems(1) obtain info where i: "wn_Error e = None" "wn_Info e = Inr info" "\<not> fi_Symlink info"
    by (auto split: option.splits sum.splits if_splits)
  show ?case
  proof (cases "fi_Dir info")
    case True
    with Cons.prems(1) i have "archiveWalk es files used = (None, entries)" by simp
    from Cons.IH [OF this Cons.prems(2-5)] show ?thesis .
  next
    case False
    let ?used = "wrap64 (used + tarSize (fi_Size info))"
    from Cons.prems(1) i False have lim: "files + 1 \<le> 2048" "?used \<le> 16777216 - 2048"
      by (auto simp: Let_def split: if_splits)
    from Cons.prems(1) i False lim obtain entry rest where r: "archiveFile e info = Inr entry"
      "archiveWalk es (files + 1) ?used = (None, rest)" "entries = entry # rest"
      by (auto simp: Let_def split: if_splits sum.splits prod.splits)
    obtain name content where en: "entry = (name, content)" by (cases entry)
    note v = archiveFile_valid [OF r(1) [unfolded en]]
    have t: "tarSize (fi_Size info) = (fi_Size info + 511) div 512 * 512 + 512" using v by (intro tarSize_exact) auto
    have pos: "0 \<le> (fi_Size info + 511) div 512" "(fi_Size info + 511) div 512 * 512 \<le> 16777216 + 511" using v by auto
    then have u: "?used = used + tarSize (fi_Size info)" using Cons.prems(4,5) t by (intro wrap64_id) auto
    have "0 \<le> ?used" using u t pos Cons.prems(4) by linarith
    from Cons.IH [OF r(2) _ lim(1) this lim(2)] Cons.prems(2) have ih:
      "files + 1 + int (length rest) \<le> 2048" "?used + archiveBytes rest \<le> 16777216 - 2048"
      "\<forall>(name, content) \<in> set rest. ValidateArchiveEntry name (int (length content)) 16777216 = None \<and> \<not> Contains name [CHR 0x5C]"
      by auto
    have b: "archiveBytes entries = (fi_Size info + 511) div 512 * 512 + 512 + archiveBytes rest"
      using v by (simp add: archiveBytes_def r(3) en)
    show ?thesis
      using ih v b u t by (auto simp: r(3) en)
  qed
qed

text \<open>An archive that the helper completes has at most 2048 entries, and with its headers, padding
  and trailer it fits the 16 MiB that the worker accepts; every entry is a relative name that stays
  inside the extraction root and is no larger than 16 MiB. This holds for any sizes the file system
  reports, also those whose rounding wraps around.\<close>

lemma archive_bounds:
  assumes "archive missing es = (None, entries)"
  shows "length entries \<le> 2048 \<and> archiveBytes entries + 1024 \<le> 16 * 2 ^ 20 \<and>
    (\<forall>(name, content) \<in> set entries. ValidateArchiveEntry name (int (length content)) 16777216 = None)"
proof (cases missing)
  case True
  with assms show ?thesis by (simp add: archive_def archiveBytes_def)
next
  case False
  with assms have "archiveWalk es 0 0 = (None, entries)" by (simp add: archive_def)
  from archiveWalk_bounds [OF this] show ?thesis by auto
qed

definition sampleEntry :: WalkEntry where
  "sampleEntry = \<lparr>wn_Error = None, wn_Info = Inr \<lparr>fi_Symlink = False, fi_Dir = False, fi_Regular = True, fi_Size = 2\<rparr>,
     wn_Name = Inr ''a/b'', wn_Header = None, wn_Content = Inr ''hi!''\<rparr>"

lemma sampleArchive: "archive False [sampleEntry] = (None, [(''a/b'', ''hi'')])"
  by (simp add: archive_def sampleEntry_def archiveFile_def copyN_def tarSize_exact wrap64_def ValidateArchiveEntry_def
    Let_def HasPrefix_def ReplaceByte_def Clean_def)

lemma archive_bounds_sample: "archiveBytes [(''a/b'', ''hi'')] = 1024 \<and> length [(''a/b'', ''hi'')] \<le> 2048"
  using archive_bounds [OF sampleArchive] by (simp add: archiveBytes_def)

end
