(* ===== verification/Report.thy ===== *)
theory Report
  imports Worker Api
begin

text \<open>
  What the execution of one lease does to the outside, and how its report meets the control plane's
  checks: the invocations of kubectl and the requests to the API that \<open>executeLease\<close> makes
  (\<open>cmd/worker/main.go\<close>) are those of its own attempt, it completes an attempt only with a result
  that is the truth of a finished pod, and \<open>readCompletion\<close> (\<open>internal/api/server.go\<close>) accepts
  the completion.
\<close>

section \<open>Traces of an agent\<close>

datatype effect = Kubectl command | Request ApiCall

inductive acts :: "'w Agent \<Rightarrow> 'w \<Rightarrow> effect list \<Rightarrow> 'w \<Rightarrow> bool" for ag s where
  acts_nil: "acts ag s [] s"
| acts_kube: "acts ag s es s' \<Longrightarrow> Run (rn_Client (ag_Runner ag)) input args s' = (x, s'') \<Longrightarrow>
     acts ag s (es @ [Kubectl (args, input)]) s''"
| acts_api: "acts ag s es s' \<Longrightarrow> tc_Exchange (ag_Client ag) call s' = (x, s'') \<Longrightarrow> acts ag s (es @ [Request call]) s''"
| acts_wait: "acts ag s es s' \<Longrightarrow> ag_Wait ag s' = (b, s'') \<Longrightarrow> acts ag s es s''"

lemma acts_append: "acts ag s es s' \<Longrightarrow> acts ag s' fs s'' \<Longrightarrow> acts ag s (es @ fs) s''"
proof (rotate_tac, induction rule: acts.induct)
  case acts_nil
  then show ?case by simp
next
  case (acts_kube fs t input args x t')
  then show ?case using acts.acts_kube [of ag s "es @ fs" t] by simp
next
  case (acts_api fs t call x t')
  then show ?case using acts.acts_api [of ag s "es @ fs" t] by simp
next
  case (acts_wait fs t b t')
  then show ?case using acts.acts_wait [of ag s "es @ fs" t] by simp
qed

lemma acts_runs: "runs (rn_Client (ag_Runner ag)) s cs s' \<Longrightarrow> acts ag s (map Kubectl cs) s'"
proof (induction rule: runs.induct)
  case runs_Nil
  then show ?case by (simp add: acts_nil)
next
  case (runs_snoc cs s' input args r s'')
  then show ?case using acts_kube by fastforce
qed

lemma Raw_acts:
  assumes "Raw (ag_Client ag) method path data lease decoder s = (r, s')"
  shows "acts ag s [] s' \<or> acts ag s [Request (apiCall (ag_Client ag) method path data lease)] s'"
proof (cases "tc_Invalid (ag_Client ag) method (tc_URL (ag_Client ag) @ path)")
  case None
  obtain x s1 where e: "tc_Exchange (ag_Client ag) (apiCall (ag_Client ag) method path data lease) s = (x, s1)" by fastforce
  with assms None have "s' = s1" by (auto simp: Raw_def split: sum.splits if_splits)
  with acts_api [OF acts_nil e] show ?thesis by simp
next
  case (Some m)
  with assms show ?thesis by (auto simp: Raw_def acts_nil)
qed

section \<open>The effects of one execution\<close>

definition ownCall :: "'w Agent \<Rightarrow> AttemptLease \<Rightarrow> ApiCall \<Rightarrow> bool" where
  "ownCall ag l call \<longleftrightarrow> (\<exists>rest. ac_URL call = tc_URL (ag_Client ag) @ attemptPath l rest)"

definition completeCall :: "'w Agent \<Rightarrow> AttemptLease \<Rightarrow> Value \<Rightarrow> ApiCall" where
  "completeCall ag l payload = apiCall (ag_Client ag) ''POST'' (attemptPath l ''/complete'') (JsonBody payload) []"

definition isComplete :: "'w Agent \<Rightarrow> AttemptLease \<Rightarrow> ApiCall \<Rightarrow> bool" where
  "isComplete ag l call \<longleftrightarrow> ac_URL call = tc_URL (ag_Client ag) @ attemptPath l ''/complete''"

definition ownEffect :: "'w Agent \<Rightarrow> AttemptLease \<Rightarrow> effect \<Rightarrow> bool" where
  "ownEffect ag l e \<longleftrightarrow> (case e of
     Kubectl cmd \<Rightarrow> cmd = (getArgs ''namespace'' [] (jobSpace l), None) \<or> within (jobSpace l) cmd \<or> cmd \<in> set (executeCommands l)
   | Request call \<Rightarrow> ownCall ag l call)"

text \<open>
  What the worker may say about a lease. Among the effects \<open>es\<close> from \<open>s\<close> to \<open>s'\<close>, a read of the job's pod was
  answered with a status \<open>pod\<close> that is final. The job succeeded when its container exited with code 0; the
  digest is the one in the metadata of a successful image job, as the metadata helper printed them, and
  otherwise there is none. The result tells exactly that: success, the digest and how the pod ended; only
  a malformed digest turns it into a failure, which says so.
\<close>

definition witnessed :: "'w Agent \<Rightarrow> AttemptLease \<Rightarrow> 'w \<Rightarrow> effect list \<Rightarrow> 'w \<Rightarrow> PodStatus \<Rightarrow> bool" where
  "witnessed ag l s es s' pod \<longleftrightarrow>
     (\<exists>es1 s1 v s2 es2. es = es1 @ [Kubectl (getArgs ''pod'' (jobSpace l) ''job'', None)] @ es2 \<and> acts ag s es1 s1 \<and>
        GetResource (rn_Client (ag_Runner ag)) ''pod'' (jobSpace l) ''job'' s1 = (Inr (Some v), s2) \<and>
        rn_PodStatus (ag_Runner ag) v = Inr pod \<and> acts ag s2 es2 s')"

definition digestPrinted :: "'w Agent \<Rightarrow> AttemptLease \<Rightarrow> 'w \<Rightarrow> effect list \<Rightarrow> 'w \<Rightarrow> string \<Rightarrow> bool" where
  "digestPrinted ag l s es s' digest \<longleftrightarrow>
     (\<exists>es1 s1 metadata s2 es2 data. es = es1 @ [Kubectl (execArgs (jobSpace l) ''metadata'', None)] @ es2 \<and> acts ag s es1 s1 \<and>
        Run (rn_Client (ag_Runner ag)) None (execArgs (jobSpace l) ''metadata'') s1 = ((metadata, None), s2) \<and>
        acts ag s2 es2 s' \<and> rn_Metadata (ag_Runner ag) metadata = Inr data \<and>
        rn_String (ag_Runner ag) (getd [] data ''containerimage.digest'') = Inr digest)"

definition truthful :: "'w Agent \<Rightarrow> AttemptLease \<Rightarrow> 'w \<Rightarrow> effect list \<Rightarrow> 'w \<Rightarrow> Result \<Rightarrow> bool" where
  "truthful ag l s es s' result \<longleftrightarrow>
     (\<exists>pod digest. witnessed ag l s es s' pod \<and> podDone pod \<and>
        (let ok = (jobEnds pod \<noteq> [] \<and> last (jobEnds pod) = 0) in
         (if ok \<and> spec_Buildkit (job_Spec (lease_Job l)) \<noteq> None then digestPrinted ag l s es s' digest else digest = []) \<and>
         (if digest = [] \<or> DigestPattern digest
          then result_Success result = ok \<and> result_Digest result = digest \<and> result_Message result = podMessage pod
          else \<not> result_Success result \<and> result_Digest result = [] \<and>
            result_Message result = ''Builder returned an invalid digest'')))"

lemma witnessed_before:
  assumes "acts ag s es s1" "witnessed ag l s1 fs s' pod"
  shows "witnessed ag l s (es @ fs) s' pod"
proof -
  obtain es1 t v t' es2 where d: "fs = es1 @ [Kubectl (getArgs ''pod'' (jobSpace l) ''job'', None)] @ es2" "acts ag s1 es1 t"
      "GetResource (rn_Client (ag_Runner ag)) ''pod'' (jobSpace l) ''job'' t = (Inr (Some v), t')"
      "rn_PodStatus (ag_Runner ag) v = Inr pod" "acts ag t' es2 s'"
    using assms(2) unfolding witnessed_def by blast
  show ?thesis
    unfolding witnessed_def using acts_append [OF assms(1) d(2)] d
    by (intro exI [of _ "es @ es1"] exI [of _ t] exI [of _ v] exI [of _ t'] exI [of _ es2]) simp
qed

lemma witnessed_after:
  assumes "witnessed ag l s es s1 pod" "acts ag s1 fs s'"
  shows "witnessed ag l s (es @ fs) s' pod"
proof -
  obtain es1 t v t' es2 where d: "es = es1 @ [Kubectl (getArgs ''pod'' (jobSpace l) ''job'', None)] @ es2" "acts ag s es1 t"
      "GetResource (rn_Client (ag_Runner ag)) ''pod'' (jobSpace l) ''job'' t = (Inr (Some v), t')"
      "rn_PodStatus (ag_Runner ag) v = Inr pod" "acts ag t' es2 s1"
    using assms(1) unfolding witnessed_def by blast
  show ?thesis
    unfolding witnessed_def using acts_append [OF d(5) assms(2)] d
    by (intro exI [of _ es1] exI [of _ t] exI [of _ v] exI [of _ t'] exI [of _ "es2 @ fs"]) simp
qed

lemma sawPod_witnessed:
  assumes "sawPod (ag_Runner ag) l s cs s' pod"
  shows "witnessed ag l s (map Kubectl cs) s' pod"
proof -
  obtain cs1 t v t' cs2 where d: "cs = cs1 @ [(getArgs ''pod'' (jobSpace l) ''job'', None)] @ cs2"
      "runs (rn_Client (ag_Runner ag)) s cs1 t"
      "GetResource (rn_Client (ag_Runner ag)) ''pod'' (jobSpace l) ''job'' t = (Inr (Some v), t')"
      "rn_PodStatus (ag_Runner ag) v = Inr pod" "runs (rn_Client (ag_Runner ag)) t' cs2 s'"
    using assms unfolding sawPod_def by blast
  show ?thesis
    unfolding witnessed_def using acts_runs [OF d(2)] acts_runs [OF d(5)] d
    by (intro exI [of _ "map Kubectl cs1"] exI [of _ t] exI [of _ v] exI [of _ t'] exI [of _ "map Kubectl cs2"]) simp
qed

lemma digestPrinted_before:
  assumes "acts ag s es s1" "digestPrinted ag l s1 fs s' d"
  shows "digestPrinted ag l s (es @ fs) s' d"
proof -
  obtain es1 t m t' es2 data where d: "fs = es1 @ [Kubectl (execArgs (jobSpace l) ''metadata'', None)] @ es2" "acts ag s1 es1 t"
      "Run (rn_Client (ag_Runner ag)) None (execArgs (jobSpace l) ''metadata'') t = ((m, None), t')" "acts ag t' es2 s'"
      "rn_Metadata (ag_Runner ag) m = Inr data" "rn_String (ag_Runner ag) (getd [] data ''containerimage.digest'') = Inr d"
    using assms(2) unfolding digestPrinted_def by blast
  show ?thesis
    unfolding digestPrinted_def using acts_append [OF assms(1) d(2)] d
    by (intro exI [of _ "es @ es1"] exI [of _ t] exI [of _ m] exI [of _ t'] exI [of _ es2] exI [of _ data]) simp
qed

lemma digestPrinted_after:
  assumes "digestPrinted ag l s es s1 d" "acts ag s1 fs s'"
  shows "digestPrinted ag l s (es @ fs) s' d"
proof -
  obtain es1 t m t' es2 data where d: "es = es1 @ [Kubectl (execArgs (jobSpace l) ''metadata'', None)] @ es2" "acts ag s es1 t"
      "Run (rn_Client (ag_Runner ag)) None (execArgs (jobSpace l) ''metadata'') t = ((m, None), t')" "acts ag t' es2 s1"
      "rn_Metadata (ag_Runner ag) m = Inr data" "rn_String (ag_Runner ag) (getd [] data ''containerimage.digest'') = Inr d"
    using assms(1) unfolding digestPrinted_def by blast
  show ?thesis
    unfolding digestPrinted_def using acts_append [OF d(4) assms(2)] d
    by (intro exI [of _ es1] exI [of _ t] exI [of _ m] exI [of _ t'] exI [of _ "es2 @ fs"] exI [of _ data]) simp
qed

lemma sawDigest_printed:
  assumes "sawDigest (ag_Runner ag) l s cs s' d"
  shows "digestPrinted ag l s (map Kubectl cs) s' d"
proof -
  obtain cs1 t m t' cs2 data where d: "cs = cs1 @ [(execArgs (jobSpace l) ''metadata'', None)] @ cs2"
      "runs (rn_Client (ag_Runner ag)) s cs1 t"
      "Run (rn_Client (ag_Runner ag)) None (execArgs (jobSpace l) ''metadata'') t = ((m, None), t')"
      "runs (rn_Client (ag_Runner ag)) t' cs2 s'"
      "rn_Metadata (ag_Runner ag) m = Inr data" "rn_String (ag_Runner ag) (getd [] data ''containerimage.digest'') = Inr d"
    using assms unfolding sawDigest_def by blast
  show ?thesis
    unfolding digestPrinted_def using acts_runs [OF d(2)] acts_runs [OF d(4)] d
    by (intro exI [of _ "map Kubectl cs1"] exI [of _ t] exI [of _ m] exI [of _ t'] exI [of _ "map Kubectl cs2"] exI [of _ data]) simp
qed

lemma truthful_mono:
  assumes "truthful ag l s es s' result"
    and "\<And>pod. witnessed ag l s es s' pod \<Longrightarrow> witnessed ag l t fs t' pod"
    and "\<And>d. digestPrinted ag l s es s' d \<Longrightarrow> digestPrinted ag l t fs t' d"
  shows "truthful ag l t fs t' result"
proof -
  from assms(1) obtain pod digest where d: "witnessed ag l s es s' pod" "podDone pod"
    "if (jobEnds pod \<noteq> [] \<and> last (jobEnds pod) = 0) \<and> spec_Buildkit (job_Spec (lease_Job l)) \<noteq> None
      then digestPrinted ag l s es s' digest else digest = []"
    "if digest = [] \<or> DigestPattern digest
      then result_Success result = (jobEnds pod \<noteq> [] \<and> last (jobEnds pod) = 0) \<and> result_Digest result = digest \<and>
        result_Message result = podMessage pod
      else \<not> result_Success result \<and> result_Digest result = [] \<and>
        result_Message result = ''Builder returned an invalid digest''"
    unfolding truthful_def Let_def by blast
  from d(3) assms(3) have "if (jobEnds pod \<noteq> [] \<and> last (jobEnds pod) = 0) \<and> spec_Buildkit (job_Spec (lease_Job l)) \<noteq> None
      then digestPrinted ag l t fs t' digest else digest = []" by (simp split: if_splits)
  with assms(2) [OF d(1)] d(2,4) show ?thesis unfolding truthful_def Let_def by blast
qed

lemma truthful_digest: "truthful ag l s es s' result \<Longrightarrow> result_Digest result = [] \<or> DigestPattern (result_Digest result)"
  unfolding truthful_def Let_def by (metis (full_types))

lemma truthful_before: "acts ag s es s1 \<Longrightarrow> truthful ag l s1 fs s' result \<Longrightarrow> truthful ag l s (es @ fs) s' result"
  by (erule truthful_mono) (blast intro: witnessed_before digestPrinted_before)+

lemma truthful_after: "truthful ag l s es s1 result \<Longrightarrow> acts ag s1 fs s' \<Longrightarrow> truthful ag l s (es @ fs) s' result"
  by (erule truthful_mono) (blast intro: witnessed_after digestPrinted_after)+

text \<open>The completions among the effects: at most three, all with the same payload, built from a truthful
  result and from artefacts and a log key that satisfy \<open>Q\<close> for the names they were stored under.\<close>

definition completions :: "'w Agent \<Rightarrow> AttemptLease \<Rightarrow> effect list \<Rightarrow> effect list" where
  "completions ag l es = filter (\<lambda>e. case e of Request call \<Rightarrow> isComplete ag l call | _ \<Rightarrow> False) es"

definition reports :: "'w Agent \<Rightarrow> AttemptLease \<Rightarrow> (string \<Rightarrow> Artefact \<Rightarrow> bool) \<Rightarrow> 'w \<Rightarrow> effect list \<Rightarrow> 'w \<Rightarrow> bool" where
  "reports ag l Q s es s' \<longleftrightarrow>
     completions ag l es = [] \<or>
     (\<exists>n result artifacts log. n \<le> 3 \<and> truthful ag l s es s' result \<and>
        completions ag l es = replicate n (Request (completeCall ag l (VMap
          [(''lease_token'', VStr (lease_LeaseToken l)), (''success'', VBool (result_Success result)),
           (''message'', VStr (TrimSpace (result_Message result))), (''digest'', VStr (result_Digest result)),
           (''log_key'', VStr (art_Key log)), (''artefacts'', VList (map artefactValue artifacts))]))) \<and>
        Q ''logs'' log \<and> length artifacts \<le> 3 \<and>
        (\<forall>a \<in> set artifacts. \<exists>name \<in> {''artifacts.tar'', ''build-metadata.json'', ''provenance.json''}. Q name a))"

lemma completions_append [simp]: "completions ag l (es @ fs) = completions ag l es @ completions ag l fs"
  by (simp add: completions_def)

lemma reports_after:
  assumes "reports ag l Q s es s1" "acts ag s1 fs s'" "completions ag l fs = []"
  shows "reports ag l Q s (es @ fs) s'"
  using assms(1) truthful_after [OF _ assms(2)] unfolding reports_def completions_append assms(3) append_Nil2 by blast

lemma attemptPath_inj: "attemptPath l a = attemptPath l b \<longleftrightarrow> a = b"
  by (simp add: attemptPath_def)

definition storesAs :: "'w Agent \<Rightarrow> AttemptLease \<Rightarrow> (string \<Rightarrow> Artefact \<Rightarrow> bool) \<Rightarrow> bool" where
  \<comment> \<open>what the replies to uploads say satisfies \<open>Q\<close>\<close>
  "storesAs ag l Q \<longleftrightarrow> (\<forall>name data s a s'. Raw (ag_Client ag) ''PUT'' (attemptPath l (''/objects/'' @ name)) data
     (lease_LeaseToken l) (ag_DecodeArtefact ag) s = (Inr a, s') \<longrightarrow> Q name a)"

definition quietEffects :: "'w Agent \<Rightarrow> AttemptLease \<Rightarrow> effect list \<Rightarrow> bool" where
  \<comment> \<open>own effects without a completion\<close>
  "quietEffects ag l es \<longleftrightarrow> list_all (ownEffect ag l) es \<and> completions ag l es = []"

lemma quiet_append [simp]: "quietEffects ag l (es @ fs) \<longleftrightarrow> quietEffects ag l es \<and> quietEffects ag l fs"
  by (auto simp: quietEffects_def)

lemma quiet_Nil [simp]: "quietEffects ag l []"
  by (simp add: quietEffects_def completions_def)

lemma quiet_kube [simp]: "quietEffects ag l (map Kubectl cs) \<longleftrightarrow> (\<forall>cmd \<in> set cs. ownEffect ag l (Kubectl cmd))"
  by (auto simp: quietEffects_def completions_def list_all_iff filter_empty_conv)

lemma quiet_call:
  "rest \<noteq> ''/complete'' \<Longrightarrow> quietEffects ag l [Request (apiCall (ag_Client ag) method (attemptPath l rest) data lease)]"
  by (auto simp: quietEffects_def completions_def ownEffect_def ownCall_def isComplete_def apiCall_def attemptPath_inj)

lemma Raw_quiet:
  assumes "Raw (ag_Client ag) method (attemptPath l rest) data lease dec s = (r, s')" "rest \<noteq> ''/complete''"
  shows "\<exists>es. acts ag s es s' \<and> quietEffects ag l es"
  using Raw_acts [OF assms(1)] quiet_call [OF assms(2)] quiet_Nil by metis

lemma uploads_effects:
  assumes "uploads ag l items acc s = (r, s')" "storesAs ag l Q"
  shows "(\<exists>es. acts ag s es s' \<and> quietEffects ag l es) \<and>
    (\<forall>acc'. r = Inr acc' \<longrightarrow>
      length (fst acc') = length (fst acc) + length (filter (\<lambda>n. n \<noteq> ''logs'') (map fst items)) \<and>
      (\<forall>a \<in> set (fst acc'). a \<in> set (fst acc) \<or> (\<exists>name \<in> set (map fst items). name \<noteq> ''logs'' \<and> Q name a)) \<and>
      (if ''logs'' \<in> set (map fst items) then \<exists>log. snd acc' = art_Key log \<and> Q ''logs'' log else snd acc' = snd acc))"
  using assms(1)
proof (induction items arbitrary: acc s)
  case Nil
  then show ?case by (auto intro: acts_nil exI [of _ "[]"])
next
  case (Cons item items)
  obtain name data where item: "item = (name, data)" by (cases item)
  obtain g s1 where g: "Raw (ag_Client ag) ''PUT'' (attemptPath l (''/objects/'' @ name)) data (lease_LeaseToken l)
      (ag_DecodeArtefact ag) s = (g, s1)" by fastforce
  obtain es where es: "acts ag s es s1" "quietEffects ag l es"
    using Raw_quiet [OF g] by auto
  show ?case
  proof (cases g)
    case (Inl e)
    with Cons.prems item g have "r = Inl e" "s' = s1" by (simp_all add: upload_def)
    with es show ?thesis by auto
  next
    case (Inr a)
    let ?acc = "if name = ''logs'' then (fst acc, art_Key a) else (fst acc @ [a], snd acc)"
    from Cons.prems item g Inr have rest: "uploads ag l items ?acc s1 = (r, s')"
      by (simp add: upload_def split del: if_split)
    have q: "Q name a" using assms(2) g Inr unfolding storesAs_def by blast
    from Cons.IH [OF rest] obtain fs where fs: "acts ag s1 fs s'" "quietEffects ag l fs"
      and ih: "\<forall>acc'. r = Inr acc' \<longrightarrow>
        length (fst acc') = length (fst ?acc) + length (filter (\<lambda>n. n \<noteq> ''logs'') (map fst items)) \<and>
        (\<forall>a \<in> set (fst acc'). a \<in> set (fst ?acc) \<or> (\<exists>name \<in> set (map fst items). name \<noteq> ''logs'' \<and> Q name a)) \<and>
        (if ''logs'' \<in> set (map fst items) then \<exists>log. snd acc' = art_Key log \<and> Q ''logs'' log else snd acc' = snd ?acc)"
      by blast
    have "\<exists>es. acts ag s es s' \<and> quietEffects ag l es"
      using acts_append [OF es(1) fs(1)] es(2) fs(2) by (intro exI [of _ "es @ fs"]) simp
    moreover have "length (fst acc') = length (fst acc) + length (filter (\<lambda>n. n \<noteq> ''logs'') (map fst (item # items))) \<and>
      (\<forall>a \<in> set (fst acc'). a \<in> set (fst acc) \<or> (\<exists>name \<in> set (map fst (item # items)). name \<noteq> ''logs'' \<and> Q name a)) \<and>
      (if ''logs'' \<in> set (map fst (item # items)) then \<exists>log. snd acc' = art_Key log \<and> Q ''logs'' log else snd acc' = snd acc)"
      if r: "r = Inr acc'" for acc'
    proof -
      note f = ih [rule_format, OF r]
      show ?thesis
      proof (cases "name = ''logs''")
        case True
        with f q item show ?thesis by (auto split: if_splits)
      next
        case False
        with f q item show ?thesis by (auto split: if_splits)
      qed
    qed
    ultimately show ?thesis by blast
  qed
qed

lemma completeLoop_effects:
  "\<exists>m \<le> n. acts ag s (replicate m (Request (completeCall ag l payload))) (completeLoop n ag l payload s)"
proof (induction n arbitrary: s)
  case 0
  then show ?case by (simp add: acts_nil)
next
  case (Suc n)
  obtain g s1 where g: "Do (ag_Client ag) ''POST'' (attemptPath l ''/complete'') (Some payload) nil s = (g, s1)" by fastforce
  then have raw: "Raw (ag_Client ag) ''POST'' (attemptPath l ''/complete'') (JsonBody payload) [] nil s = (g, s1)"
    by (simp add: Do_def)
  obtain m where m: "m \<le> 1" "acts ag s (replicate m (Request (completeCall ag l payload))) s1"
    using Raw_acts [OF raw] that [of 0] that [of 1] by (auto simp: completeCall_def)
  show ?case
  proof (cases "\<exists>e. g = Inl e \<and> e \<noteq> HTTPError 409")
    case False
    with g have "completeLoop (Suc n) ag l payload s = s1" by (auto split: sum.splits)
    with m show ?thesis by (intro exI [of _ m]) auto
  next
    case True
    obtain b s2 where w: "ag_Wait ag s1 = (b, s2)" by fastforce
    note waited = acts_wait [OF m(2) w]
    show ?thesis
    proof (cases b)
      case False
      with True g w have "completeLoop (Suc n) ag l payload s = s2" by auto
      with m waited show ?thesis by (intro exI [of _ m]) auto
    next
      case b: True
      with True g w have eq: "completeLoop (Suc n) ag l payload s = completeLoop n ag l payload s2" by auto
      obtain k where k: "k \<le> n" "acts ag s2 (replicate k (Request (completeCall ag l payload))) (completeLoop n ag l payload s2)"
        using Suc.IH by blast
      have "acts ag s (replicate (m + k) (Request (completeCall ag l payload))) (completeLoop (Suc n) ag l payload s)"
        using acts_append [OF waited k(2)] by (simp add: eq replicate_add del: completeLoop.simps)
      with m k show ?thesis by (intro exI [of _ "m + k"]) simp
    qed
  qed
qed

lemma own_complete: "ownEffect ag l (Request (completeCall ag l payload))" "isComplete ag l (completeCall ag l payload)"
  by (auto simp: ownEffect_def ownCall_def completeCall_def apiCall_def isComplete_def)

lemma quiet_reports: "quietEffects ag l es \<Longrightarrow> list_all (ownEffect ag l) es \<and> reports ag l Q s es s'"
  by (simp add: quietEffects_def reports_def)

lemma reportResult_effects:
  assumes "storesAs ag l Q" "acts ag s0 es0 s" "quietEffects ag l es0" "truthful ag l s0 es0 s result"
  shows "\<exists>es. acts ag s0 es (reportResult ag l result s) \<and> list_all (ownEffect ag l) es \<and> reports ag l Q s0 es (reportResult ag l result s)"
proof -
  let ?items = "[(''logs'', ByteBody (result_Logs result))] @
    (if result_Archive result \<noteq> [] then [(''artifacts.tar'', ByteBody (result_Archive result))] else []) @
    (if result_Metadata result \<noteq> [] then [(''build-metadata.json'', ByteBody (result_Metadata result))] else [])"
  obtain r1 s1 where u1: "uploads ag l ?items ([], []) s = (r1, s1)" by fastforce
  obtain es1 where e1: "acts ag s es1 s1" "quietEffects ag l es1"
    using uploads_effects [OF u1 assms(1)] by blast
  show ?thesis
  proof (cases r1)
    case (Inl e)
    with u1 have "reportResult ag l result s = s1" by (simp add: reportResult_def)
    with acts_append [OF assms(2) e1(1)] assms(3) e1(2) quiet_reports [of ag l "es0 @ es1"] show ?thesis by auto
  next
    case (Inr acc)
    obtain r2 s2 where u2: "uploads ag l [(''provenance.json'', JsonBody (provenance ag l result s1))] acc s1 = (r2, s2)" by fastforce
    obtain es2 where e2: "acts ag s1 es2 s2" "quietEffects ag l es2"
      using uploads_effects [OF u2 assms(1)] by blast
    note e12 = acts_append [OF acts_append [OF assms(2) e1(1)] e2(1)]
    show ?thesis
    proof (cases r2)
      case (Inl e)
      with u1 u2 Inr have "reportResult ag l result s = s2" by (simp add: reportResult_def)
      with e12 assms(3) e1(2) e2(2) quiet_reports [of ag l "(es0 @ es1) @ es2"] show ?thesis by auto
    next
      case r2: (Inr acc2)
      obtain artifacts logKey where acc2: "acc2 = (artifacts, logKey)" by (cases acc2)
      let ?call = "Request (completeCall ag l (completePayload l result artifacts logKey))"
      have eq: "reportResult ag l result s = completeLoop 3 ag l (completePayload l result artifacts logKey) s2"
        using u1 u2 Inr r2 acc2 by (simp add: reportResult_def)
      obtain m where m: "m \<le> 3" "acts ag s2 (replicate m ?call) (reportResult ag l result s)"
        using completeLoop_effects [of 3 ag s2 l "completePayload l result artifacts logKey"] eq by auto
      have f1: "length (fst acc) \<le> 2" "\<forall>a \<in> set (fst acc). \<exists>name \<in> {''artifacts.tar'', ''build-metadata.json''}. Q name a"
        "\<exists>log. snd acc = art_Key log \<and> Q ''logs'' log"
        using uploads_effects [OF u1 assms(1)] Inr by (auto split: if_splits)
      have f2: "length artifacts = Suc (length (fst acc))" "\<forall>a \<in> set artifacts. a \<in> set (fst acc) \<or> Q ''provenance.json'' a"
        "logKey = snd acc"
        using uploads_effects [OF u2 assms(1)] r2 acc2 by auto
      let ?es = "((es0 @ es1) @ es2) @ replicate m ?call"
      have "acts ag s0 ?es (reportResult ag l result s)" by (rule acts_append [OF e12 m(2)])
      moreover have "list_all (ownEffect ag l) ?es"
        using assms(3) e1(2) e2(2) by (auto simp: quietEffects_def list_all_iff own_complete)
      moreover have "reports ag l Q s0 ?es (reportResult ag l result s)"
      proof -
        obtain log where log: "logKey = art_Key log" "Q ''logs'' log" using f1(3) f2(3) by auto
        have "completions ag l (replicate m ?call) = replicate m ?call"
          by (simp add: completions_def filter_replicate own_complete)
        then have "completions ag l ?es = replicate m ?call"
          using assms(3) e1(2) e2(2) by (simp add: quietEffects_def)
        moreover have "truthful ag l s0 ?es (reportResult ag l result s) result"
          using truthful_after [OF truthful_after [OF truthful_after [OF assms(4) e1(1)] e2(1)] m(2)] .
        moreover have "length artifacts \<le> 3" using f1(1) f2(1) by simp
        moreover have "\<forall>a \<in> set artifacts. \<exists>name \<in> {''artifacts.tar'', ''build-metadata.json'', ''provenance.json''}. Q name a"
          using f1(2) f2(2) by blast
        ultimately show ?thesis
          unfolding reports_def using m(1) log unfolding completePayload_def by blast
      qed
      ultimately show ?thesis by blast
    qed
  qed
qed

lemma soundResult_truthful:
  assumes "soundResult l pod result" "witnessed ag l s es s' pod"
    and "digestRead (ag_Runner ag) l s cs s' result" "es = map Kubectl cs"
  shows "truthful ag l s es s' (checkedResult result)"
proof -
  let ?ok = "jobEnds pod \<noteq> [] \<and> last (jobEnds pod) = 0"
  from assms(1) have r: "podDone pod" "result_Success result = ?ok" "result_Message result = podMessage pod"
    by (simp_all add: soundResult_def)
  have "if ?ok \<and> spec_Buildkit (job_Spec (lease_Job l)) \<noteq> None
      then digestPrinted ag l s es s' (result_Digest result) else result_Digest result = []"
    using assms(3) sawDigest_printed [of ag l s cs s' "result_Digest result"]
    unfolding digestRead_def r(2) assms(4) by (simp split: if_splits)
  with assms(2) r show ?thesis
    unfolding truthful_def Let_def
    by (intro exI [of _ pod] exI [of _ "result_Digest result"]) (cases "result_Digest result = []"; simp add: checkedResult_def)
qed

lemma prepare_own:
  assumes "prefix cs (prepareCommands r l token)" "cmd \<in> set cs"
  shows "ownEffect ag l (Kubectl cmd)"
proof -
  have "cmd \<in> set (prepareCommands r l token)" using set_mono_prefix [OF assms(1)] assms(2) by blast
  then have "cmd = (getArgs ''namespace'' [] (jobSpace l), None) \<or> cmd \<in> set (tl (prepareCommands r l token))"
    by (simp add: prepareCommands_def)
  with prepareCommands_within [of cmd r l token] show ?thesis by (auto simp: ownEffect_def)
qed

lemma Execute_effects:
  assumes "Execute (ag_Runner ag) l token ticks s = ((result, e), s')"
  shows "\<exists>es. acts ag s es s' \<and> quietEffects ag l es \<and> (e = None \<longrightarrow> truthful ag l s es s' (checkedResult result))"
proof -
  obtain cs ds where r: "runs (rn_Client (ag_Runner ag)) s (cs @ ds) s'" "prefix cs (prepareCommands (ag_Runner ag) l token)"
      "set ds \<subseteq> set (executeCommands l)"
    and sound: "e = None \<longrightarrow> (\<exists>pod. sawPod (ag_Runner ag) l s (cs @ ds) s' pod \<and> soundResult l pod result) \<and>
      digestRead (ag_Runner ag) l s (cs @ ds) s' result"
    using Execute_runs [OF assms] by blast
  have "\<forall>cmd \<in> set (cs @ ds). ownEffect ag l (Kubectl cmd)"
    using prepare_own [OF r(2)] r(3) by (auto simp: ownEffect_def)
  then have "quietEffects ag l (map Kubectl (cs @ ds))" by (simp only: quiet_kube)
  moreover have "e = None \<longrightarrow> truthful ag l s (map Kubectl (cs @ ds)) s' (checkedResult result)"
  proof
    assume "e = None"
    with sound obtain pod where "sawPod (ag_Runner ag) l s (cs @ ds) s' pod" "soundResult l pod result"
      "digestRead (ag_Runner ag) l s (cs @ ds) s' result" by blast
    then show "truthful ag l s (map Kubectl (cs @ ds)) s' (checkedResult result)"
      using soundResult_truthful sawPod_witnessed by metis
  qed
  ultimately show ?thesis using acts_runs [OF r(1)] by blast
qed

lemma executeBody_effects:
  assumes "storesAs ag l Q"
  shows "\<exists>es. acts ag s es (executeBody ag l s) \<and> list_all (ownEffect ag l) es \<and> reports ag l Q s es (executeBody ag l s)"
proof -
  have quiet: "\<exists>es. acts ag s es t \<and> list_all (ownEffect ag l) es \<and> reports ag l Q s es t"
    if "acts ag s es t" "quietEffects ag l es" for es t
    using that(1) quiet_reports [OF that(2)] by metis
  obtain r1 s1 where h: "heartbeat ag l s = (r1, s1)" by fastforce
  then have "Raw (ag_Client ag) ''POST'' (attemptPath l ''/heartbeat'')
      (JsonBody (VMap [(''lease_token'', VStr (lease_LeaseToken l))])) [] nil s = (r1, s1)"
    by (simp add: heartbeat_def Do_def)
  from Raw_quiet [OF this] obtain es1 where e1: "acts ag s es1 s1" "quietEffects ag l es1" by auto
  show ?thesis
  proof (cases r1)
    case (Inl e)
    with h have "executeBody ag l s = s1" by (simp add: executeBody_def)
    with quiet [OF e1] show ?thesis by simp
  next
    case r1: (Inr u)
    obtain r2 s2 where t: "Raw (ag_Client ag) ''GET'' (attemptPath l ''/source-token'') NoBody (lease_LeaseToken l)
        (ag_DecodeToken ag) s1 = (r2, s2)" by fastforce
    from Raw_quiet [OF t] obtain es2 where e2: "acts ag s1 es2 s2" "quietEffects ag l es2" by auto
    have e12: "acts ag s (es1 @ es2) s2" "quietEffects ag l (es1 @ es2)"
      using acts_append [OF e1(1) e2(1)] e1(2) e2(2) by auto
    show ?thesis
    proof (cases r2)
      case (Inl e)
      with h r1 t have "executeBody ag l s = s2" by (simp add: executeBody_def)
      with quiet [OF e12] show ?thesis by simp
    next
      case r2: (Inr token)
      obtain result e s3 where x: "Execute (ag_Runner ag) l token (ag_Ticks ag s2) s2 = ((result, e), s3)"
        by (metis prod.exhaust)
      obtain es3 where e3: "acts ag s2 es3 s3" "quietEffects ag l es3"
        "e = None \<longrightarrow> truthful ag l s2 es3 s3 (checkedResult result)"
        using Execute_effects [OF x] by blast
      have e123: "acts ag s ((es1 @ es2) @ es3) s3" "quietEffects ag l ((es1 @ es2) @ es3)"
        using acts_append [OF e12(1) e3(1)] e12(2) e3(2) by auto
      show ?thesis
      proof (cases "ag_Ended ag s3 \<or> e \<noteq> None")
        case True
        with h r1 t r2 x have "executeBody ag l s = s3" by (auto simp: executeBody_def)
        with quiet [OF e123] show ?thesis by simp
      next
        case False
        with h r1 t r2 x have eq: "executeBody ag l s = reportResult ag l (checkedResult result) s3"
          by (simp add: executeBody_def)
        have "truthful ag l s ((es1 @ es2) @ es3) s3 (checkedResult result)"
          using truthful_before [OF e12(1)] e3(3) False by blast
        from reportResult_effects [OF assms e123 this] show ?thesis unfolding eq .
      qed
    qed
  qed
qed

lemma executeLease_runs:
  assumes "storesAs ag l Q"
  shows "\<exists>es. acts ag s es (executeLease ag l s) \<and> list_all (ownEffect ag l) es \<and> reports ag l Q s es (executeLease ag l s)"
proof -
  obtain es where es: "acts ag s es (executeBody ag l s)" "list_all (ownEffect ag l) es" "reports ag l Q s es (executeBody ag l s)"
    using executeBody_effects [OF assms] by blast
  let ?c = "rn_Client (ag_Runner ag)"
  obtain e s2 where d: "DeleteNamespace ?c (jobSpace l) (leaseID l) (executeBody ag l s) = (e, s2)" by fastforce
  then have eq: "executeLease ag l s = s2" by (simp add: executeLease_def jobSpace_def leaseID_def)
  obtain cs where cs: "runs ?c (executeBody ag l s) cs s2" "\<forall>cmd \<in> set cs. ownEffect ag l (Kubectl cmd)"
    using d
  proof (cases rule: DeleteNamespace_runs)
    case 1
    from that [OF 1(2)] show ?thesis by (simp add: ownEffect_def)
  next
    case 2
    from that [OF 2(2)] show ?thesis by (simp add: ownEffect_def)
  qed
  then have q: "quietEffects ag l (map Kubectl cs)" by simp
  have "acts ag s (es @ map Kubectl cs) (executeLease ag l s)"
    unfolding eq by (rule acts_append [OF es(1) acts_runs [OF cs(1)]])
  moreover have "list_all (ownEffect ag l) (es @ map Kubectl cs)"
    using es(2) q by (simp add: quietEffects_def)
  moreover have "reports ag l Q s (es @ map Kubectl cs) (executeLease ag l s)"
    unfolding eq by (rule reports_after [OF es(3) acts_runs [OF cs(1)]]) (use q in \<open>simp add: quietEffects_def\<close>)
  ultimately show ?thesis by blast
qed

text \<open>The renewals that run beside an execution are requests of the attempt too, and complete nothing.\<close>

lemma renewLoop_quiet:
  assumes "renewLoop ticks ag l s = (stopped, s')"
  shows "\<exists>es. acts ag s es s' \<and> quietEffects ag l es"
  using assms
proof (induction ticks arbitrary: s)
  case 0
  then show ?case by (auto intro: acts_nil exI [of _ "[]"])
next
  case (Suc ticks)
  obtain r s1 where h: "heartbeat ag l s = (r, s1)" by fastforce
  then have "Raw (ag_Client ag) ''POST'' (attemptPath l ''/heartbeat'')
      (JsonBody (VMap [(''lease_token'', VStr (lease_LeaseToken l))])) [] nil s = (r, s1)"
    by (simp add: heartbeat_def Do_def)
  from Raw_quiet [OF this] obtain es where es: "acts ag s es s1" "quietEffects ag l es" by auto
  show ?case
  proof (cases r)
    case (Inl e)
    with Suc.prems h have "s' = s1" by simp
    with es show ?thesis by blast
  next
    case (Inr u)
    with Suc.prems h have "renewLoop ticks ag l s1 = (stopped, s')" by simp
    from Suc.IH [OF this] obtain fs where "acts ag s1 fs s'" "quietEffects ag l fs" by blast
    with acts_append [OF es(1)] es(2) show ?thesis by (intro exI [of _ "es @ fs"]) simp
  qed
qed


section \<open>The completion and the API\<close>

definition storedByAPI :: "AttemptLease \<Rightarrow> string \<Rightarrow> Artefact \<Rightarrow> bool" where
  \<comment> \<open>the API answered an upload under this name with this artefact\<close>
  "storedByAPI l name a \<longleftrightarrow> (\<exists>sv body. putReply sv (leaseID l) name body = Reply 201 (Stored a))"

definition completionOf :: "AttemptLease \<Rightarrow> Result \<Rightarrow> Artefact list \<Rightarrow> string \<Rightarrow> completion" where
  \<comment> \<open>the fields of \<open>completePayload\<close>\<close>
  "completionOf l result artifacts logKey =
     \<lparr>fin_LeaseToken = lease_LeaseToken l, fin_Success = result_Success result, fin_Message = TrimSpace (result_Message result),
      fin_Digest = result_Digest result, fin_LogKey = logKey, fin_Artefacts = artifacts\<rparr>"

lemma validObjectKey_hash: "validObjectKey (pre @ hash body) pre"
proof -
  have "HasPrefix (''sha256:'' @ hash body) ''sha256:''" by (rule HasPrefix_append)
  then have "DigestPattern (''sha256:'' @ hash body)"
    unfolding DigestPattern_def TrimPrefix_append length_hash using hash_lower [of _ body] by blast
  then show ?thesis by (simp add: validObjectKey_def)
qed

lemma storedByAPI_good:
  assumes "storedByAPI l name a"
  shows "art_Name a = name" "validObjectKey (art_Key a) (''attempts/'' @ leaseID l @ ''/'' @ name @ ''/'')"
    "\<not> badArtefact (''attempts/'' @ leaseID l @ ''/'') a"
proof -
  obtain sv body where "putReply sv (leaseID l) name body = Reply 201 (Stored a)"
    using assms by (auto simp: storedByAPI_def)
  then obtain s3 http key where v: "validObjectName name"
    and len: "length body \<le> (if name = ''logs'' then 1048576 else 16777216)"
    and put: "Put s3 http (sv_Stamp sv) (sv_Day sv) (''attempts/'' @ leaseID l @ ''/'' @ name) body = Inr key"
    and a: "a = \<lparr>art_Name = name, art_Digest = ''sha256:'' @ hash body, art_Size = int (length body), art_Key = key\<rparr>"
    by (auto simp: putReply_def split: if_splits option.splits sum.splits)
  have key: "key = (''attempts/'' @ leaseID l @ ''/'' @ name @ ''/'') @ hash body"
    using Put_key [OF put] by simp
  have k: "validObjectKey key (''attempts/'' @ leaseID l @ ''/'' @ name @ ''/'')"
    unfolding key by (rule validObjectKey_hash)
  show "art_Name a = name" "validObjectKey (art_Key a) (''attempts/'' @ leaseID l @ ''/'' @ name @ ''/'')"
    using a k by simp_all
  have "length body \<le> 16777216" using len by (auto split: if_splits)
  then show "\<not> badArtefact (''attempts/'' @ leaseID l @ ''/'') a"
    using v k by (simp add: badArtefact_def a)
qed

text \<open>C10: worker and API agree on completions. When the API answers the worker's uploads, every
  completion that the execution of a lease sends passes the API's input checks: a request to the
  attempt's completion route whose body decodes to the payload's fields is read as exactly that
  completion, for any result whose message is within the API's limit.\<close>

theorem completion_accepted:
  assumes "storesAs ag l (storedByAPI l)"
  shows "\<exists>es. acts ag s es (executeLease ag l s) \<and>
    (\<forall>call. Request call \<in> set es \<and> isComplete ag l call \<longrightarrow>
      (\<exists>result artifacts logKey. ac_Body call = JsonBody (completePayload l result artifacts logKey) \<and>
        (\<forall>de r. length (TrimSpace (result_Message result)) \<le> 4096 \<and>
           Api.decode (de_Completion de) (rq_Body r) = Some (completionOf l result artifacts logKey) \<longrightarrow>
           readCompletion de (leaseID l) r = Inr (InCompletion (completionOf l result artifacts logKey)))))"
proof -
  obtain es where es: "acts ag s es (executeLease ag l s)" "reports ag l (storedByAPI l) s es (executeLease ag l s)"
    using executeLease_runs [OF assms] by blast
  show ?thesis
  proof (rule exI [of _ es], intro conjI allI impI)
    show "acts ag s es (executeLease ag l s)" by (rule es(1))
    fix call
    assume c: "Request call \<in> set es \<and> isComplete ag l call"
    let ?calls = "completions ag l es"
    have mem: "Request call \<in> set ?calls" using c by (simp add: completions_def)
    then have "?calls \<noteq> []" by (metis empty_iff empty_set)
    with es(2) obtain n result artifacts log where r: "truthful ag l s es (executeLease ag l s) result"
      "?calls = replicate n (Request (completeCall ag l (completePayload l result artifacts (art_Key log))))"
      "storedByAPI l ''logs'' log" "length artifacts \<le> 3"
      "\<forall>a \<in> set artifacts. \<exists>name \<in> {''artifacts.tar'', ''build-metadata.json'', ''provenance.json''}. storedByAPI l name a"
      unfolding reports_def completePayload_def by blast
    have "call = completeCall ag l (completePayload l result artifacts (art_Key log))"
      using mem unfolding r(2) by (simp split: if_splits)
    then have body: "ac_Body call = JsonBody (completePayload l result artifacts (art_Key log))"
      by (simp add: completeCall_def apiCall_def)
    have bad: "\<forall>a \<in> set artifacts. \<not> badArtefact (''attempts/'' @ leaseID l @ ''/'') a"
      using r(5) storedByAPI_good(3) by blast
    have log: "validObjectKey (art_Key log) (''attempts/'' @ leaseID l @ ''/logs/'')"
      using storedByAPI_good(2) [OF r(3)] by simp
    have dig: "result_Digest result = [] \<or> DigestPattern (result_Digest result)"
      by (rule truthful_digest [OF r(1)])
    show "\<exists>result artifacts logKey. ac_Body call = JsonBody (completePayload l result artifacts logKey) \<and>
        (\<forall>de r. length (TrimSpace (result_Message result)) \<le> 4096 \<and>
           Api.decode (de_Completion de) (rq_Body r) = Some (completionOf l result artifacts logKey) \<longrightarrow>
           readCompletion de (leaseID l) r = Inr (InCompletion (completionOf l result artifacts logKey)))"
      using body bad log dig r(4)
      by (intro exI [of _ result], intro exI [of _ artifacts], intro exI [of _ "art_Key log"])
        (auto simp: readCompletion_def completionOf_def Let_def)
  qed
qed

section \<open>A sample agent\<close>

text \<open>An agent for the sample job whose API stores every upload it allows.\<close>

definition sampleArtefact :: "string \<Rightarrow> Artefact" where
  "sampleArtefact name = \<lparr>art_Name = name, art_Digest = ''sha256:'' @ hash [], art_Size = 0,
     art_Key = (''attempts/att_1/'' @ name) @ ''/'' @ hash []\<rparr>"

definition sampleTransport :: "nat Transport" where
  "sampleTransport = \<lparr>tc_URL = ''http://ci'', tc_Token = ''tok'', tc_Invalid = (\<lambda>_ _. None),
     tc_Exchange = (\<lambda>call s. let name = TrimPrefix (ac_URL call) ''http://ci/v1/attempts/att_1/objects/'' in
        if ac_Method call = ''PUT'' then
          if validObjectName name then (Inr (201, name), s) else (Inr (400, []), s)
        else (Inr (200, []), s))\<rparr>"

definition sampleAgent :: "nat Agent" where
  "sampleAgent = \<lparr>ag_Client = sampleTransport, ag_Runner = readyRunner,
     ag_Identity = \<lparr>wk_ID = ''w'', wk_Pool = ''pool'', wk_Capabilities = [], wk_Capacity = 1, wk_Trusted = False,
        wk_Resources = \<lparr>res_CPU = 4, res_Memory = 4096\<rparr>, wk_Heartbeat = 0\<rparr>,
     ag_DecodeToken = (\<lambda>_. Inr []), ag_DecodeArtefact = (\<lambda>b. Inr (sampleArtefact b)), ag_Ended = (\<lambda>_. False),
     ag_Ticks = (\<lambda>_. 1), ag_Now = (\<lambda>_. ''2026-01-01T00:00:00Z''), ag_Wait = (\<lambda>s. (True, s))\<rparr>"

definition sampleServices :: Services where
  "sampleServices = \<lparr>sv_GitHub = None,
     sv_Objects = Some (demoBucket, \<lambda>_. Some \<lparr>res_Status = 200, res_Body = [], res_Broken = False\<rparr>), sv_Stamp = [], sv_Day = []\<rparr>"

lemma sample_put:
  assumes "validObjectName name"
  shows "putReply sampleServices ''att_1'' name [] = Reply 201 (Stored (sampleArtefact name))"
proof -
  have "\<not> Contains (''attempts/att_1/'' @ name @ ''/'') ''..'' \<and> \<not> HasPrefix (''attempts/att_1/'' @ name @ ''/'') ''/''"
  proof -
    have "\<forall>n \<in> set [''logs'', ''artifacts.tar'', ''provenance.json'', ''build-metadata.json''].
        \<not> Contains (''attempts/att_1/'' @ n @ ''/'') ''..'' \<and> \<not> HasPrefix (''attempts/att_1/'' @ n @ ''/'') ''/''"
      by code_simp
    moreover have "name \<in> set [''logs'', ''artifacts.tar'', ''provenance.json'', ''build-metadata.json'']"
      using assms by (simp add: validObjectName_def)
    ultimately show ?thesis by (rule bspec)
  qed
  then have "\<not> Contains ((''attempts/att_1/'' @ name @ ''/'') @ hash []) ''..''"
    using no_dots_append [OF _ hash_no_dot] by blast
  then show ?thesis
    using assms by (simp add: putReply_def sampleServices_def Put_def request_def demoBucket_def sampleArtefact_def HasPrefix_def)
qed

lemma sample_stores: "storesAs sampleAgent readyLease (storedByAPI readyLease)"
proof -
  have id: "leaseID readyLease = ''att_1''" by (simp add: leaseID_def readyLease_def)
  have x: "tc_Exchange sampleTransport (apiCall sampleTransport ''PUT'' (attemptPath readyLease (''/objects/'' @ name)) data lease) s =
      (if validObjectName name then (Inr (201, name), s) else (Inr (400, []), s))" for name data lease s
  proof -
    have u: "ac_URL (apiCall sampleTransport ''PUT'' (attemptPath readyLease (''/objects/'' @ name)) data lease) =
        ''http://ci/v1/attempts/att_1/objects/'' @ name"
      by (simp add: apiCall_def sampleTransport_def attemptPath_def id)
    have m: "ac_Method (apiCall sampleTransport ''PUT'' (attemptPath readyLease (''/objects/'' @ name)) data lease) = ''PUT''"
      by (simp add: apiCall_def)
    have e: "tc_Exchange sampleTransport call s =
        (let name = TrimPrefix (ac_URL call) ''http://ci/v1/attempts/att_1/objects/'' in
         if ac_Method call = ''PUT'' then if validObjectName name then (Inr (201, name), s) else (Inr (400, []), s)
         else (Inr (200, []), s))" for call
      by (simp add: sampleTransport_def)
    show ?thesis unfolding e u m TrimPrefix_append Let_def by (simp only: simp_thms if_True)
  qed
  have "validObjectName name \<and> a = sampleArtefact name"
    if r: "Raw (ag_Client sampleAgent) ''PUT'' (attemptPath readyLease (''/objects/'' @ name)) data lease
          (ag_DecodeArtefact sampleAgent) s = (Inr a, s')" for name data lease s a s'
  proof -
    have c: "ag_Client sampleAgent = sampleTransport" "\<And>method url. tc_Invalid sampleTransport method url = None"
      "\<And>b. ag_DecodeArtefact sampleAgent b = Inr (sampleArtefact b)"
      by (simp_all add: sampleAgent_def sampleTransport_def)
    have v: "validObjectName name" using r unfolding Raw_def c x by (cases "validObjectName name") simp_all
    then have "length name \<le> 100" by (auto simp: validObjectName_def)
    with v r show ?thesis unfolding Raw_def c x by (simp add: maxReply_def)
  qed
  then show ?thesis
    unfolding storesAs_def storedByAPI_def id using sample_put by blast
qed


theorem completion_accepted_witness:
  "\<exists>es. acts sampleAgent 0 es (executeLease sampleAgent readyLease 0) \<and>
     (\<forall>call. Request call \<in> set es \<and> isComplete sampleAgent readyLease call \<longrightarrow>
        (\<exists>result artifacts logKey. ac_Body call = JsonBody (completePayload readyLease result artifacts logKey)))"
  using completion_accepted [OF sample_stores, of 0] by blast

end
