(* ===== verification/Controller.thy ===== *)
theory Controller
  imports Preview Transport Api "HOL-Library.Sublist"
begin

text \<open>
  The preview controller process, \<open>cmd/controller/main.go\<close>: a tick reconciles every preview the API
  lists, reports what changed, and cleans up the namespaces of jobs that are over. \<open>cleanup\<close> works
  on the interface \<open>kubectlClient\<close>, a pair of operations; the locale of the same name states what
  it may rely on, and \<open>internal/kube\<close>'s client is its interpretation. Logging is omitted; the
  encoding of an observation and the decoders are \<open>encoding/json\<close>.
\<close>

section \<open>The process\<close>

record NamespaceItem =
  ni_Name :: string
  ni_Labels :: "(string, string) gomap"
  ni_Created :: time

record 'w Controller =
  ct_API :: "'w Transport"
  ct_Preview :: "'w PreviewController"
  ct_Previews :: "string \<Rightarrow> string + Preview list"
  ct_AttemptIDs :: "string \<Rightarrow> string + string list"
  ct_Namespaces :: "string \<Rightarrow> string + NamespaceItem list"
  ct_Observation :: "observation \<Rightarrow> Value"      \<comment> \<open>the JSON object of an observation\<close>
  ct_Now :: "'w \<Rightarrow> time"

definition controllerConfig :: "(string \<Rightarrow> string) \<Rightarrow> 'w PreviewController \<Rightarrow> 'w PreviewController" where
  \<comment> \<open>the settings of \<open>run\<close>, put into a controller with the given client and decoder\<close>
  "controllerConfig getenv pc =
     pc\<lparr>pc_Domain := getenv ''PREVIEW_DOMAIN'',
        pc_IngressClass := if getenv ''INGRESS_CLASS'' = [] then ''nginx'' else getenv ''INGRESS_CLASS'',
        pc_TLSSecret := getenv ''PREVIEW_TLS_SECRET'',
        pc_PullSecret := getenv ''PREVIEW_PULL_SECRET'',
        pc_PlatformNamespace := getenv ''PLATFORM_NAMESPACE''\<rparr>"

definition observationOf :: "Preview \<Rightarrow> observed \<Rightarrow> observation" where
  "observationOf p r =
     (case r of (actual, url, e) \<Rightarrow>
        \<lparr>obs_Preview = p, obs_Actual = actual, obs_URL = url,
         obs_Error = (if e \<noteq> None then ''Kubernetes reconciliation failed; inspect controller logs'' else [])\<rparr>)"

definition unchanged :: "Preview \<Rightarrow> observation \<Rightarrow> bool" where
  "unchanged p ob \<longleftrightarrow> obs_Actual ob = pv_Actual p \<and> obs_URL ob = pv_URL p \<and> obs_Error ob = pv_LastError p"

definition reconcileOne :: "'w Controller \<Rightarrow> Preview \<Rightarrow> 'w \<Rightarrow> 'w" where
  "reconcileOne ct p s =
     (let (r, s1) = ReconcilePreview (ct_Preview ct) p s;
          ob = observationOf p r
      in if unchanged p ob then s1
         else snd (Do (ct_API ct) ''POST'' ''/v1/internal/previews/observe'' (Some (ct_Observation ct ob)) nil s1))"

fun reconcileAll :: "'w Controller \<Rightarrow> Preview list \<Rightarrow> 'w \<Rightarrow> 'w" where
  "reconcileAll ct [] s = s"
| "reconcileAll ct (p # ps) s = reconcileAll ct ps (reconcileOne ct p s)"

section \<open>Cleaning up\<close>

definition listArgs :: "string list" where
  "listArgs = [''get'', ''namespaces'', ''-l'', ''ci-preview/kind=job'', ''-o'', ''json'']"

definition orphan :: "(string, bool) gomap \<Rightarrow> NamespaceItem \<Rightarrow> time \<Rightarrow> bool" where
  "orphan keep n now \<longleftrightarrow>
     (let owner = getd [] (ni_Labels n) ''ci-preview/owner''
      in owner \<noteq> [] \<and> \<not> getd False keep owner \<and> timeSub now (ni_Created n) > 90 * Second)"

fun deleteOrphans :: "(string \<Rightarrow> string \<Rightarrow> 'w \<Rightarrow> string option \<times> 'w) \<Rightarrow> ('w \<Rightarrow> time) \<Rightarrow> (string, bool) gomap
    \<Rightarrow> NamespaceItem list \<Rightarrow> 'w \<Rightarrow> string option \<times> 'w" where
  "deleteOrphans delete now keep [] s = (None, s)"
| "deleteOrphans delete now keep (n # ns) s =
     (if orphan keep n (now s) then
        case delete (ni_Name n) (getd [] (ni_Labels n) ''ci-preview/owner'') s of
          (Some e, s') \<Rightarrow> (Some e, s')
        | (None, s') \<Rightarrow> deleteOrphans delete now keep ns s'
      else deleteOrphans delete now keep ns s)"

fun keepIDs :: "string list \<Rightarrow> (string, bool) gomap" where
  "keepIDs [] = []"
| "keepIDs (i # ids) = AList.update i True (keepIDs ids)"

definition cleanup :: "'w Controller \<Rightarrow> (Value option \<Rightarrow> string list \<Rightarrow> 'w \<Rightarrow> (string \<times> string option) \<times> 'w)
    \<Rightarrow> (string \<Rightarrow> string \<Rightarrow> 'w \<Rightarrow> string option \<times> 'w) \<Rightarrow> 'w \<Rightarrow> string option \<times> 'w" where
  "cleanup ct run delete s =
     (case Do (ct_API ct) ''GET'' ''/v1/internal/active-attempts'' None (ct_AttemptIDs ct) s of
        (Inl e, s1) \<Rightarrow> (Some (clientMessage e), s1)
      | (Inr ids, s1) \<Rightarrow>
          let ((raw, e), s2) = run None listArgs s1 in
          if e \<noteq> None then (e, s2)
          else case ct_Namespaces ct raw of
                 Inl e \<Rightarrow> (Some e, s2)
               | Inr items \<Rightarrow> deleteOrphans delete (ct_Now ct) (keepIDs ids) items s2)"

definition controllerTick :: "'w Controller \<Rightarrow> 'w \<Rightarrow> 'w" where
  "controllerTick ct s =
     (case Do (ct_API ct) ''GET'' ''/v1/internal/previews'' None (ct_Previews ct) s of
        (Inl _, s1) \<Rightarrow> s1
      | (Inr ps, s1) \<Rightarrow>
          let s2 = reconcileAll ct ps s1; c = pc_Client (ct_Preview ct)
          in snd (cleanup ct (Run c) (DeleteNamespace c) s2))"

section \<open>The interface of the clean-up\<close>

text \<open>An orphan among the listed namespaces: it carries the label of an owner that is not among the
  attempts \<open>ids\<close> the API listed, and was created more than 90 seconds before \<open>now\<close>.\<close>

definition orphaned :: "string list \<Rightarrow> NamespaceItem \<Rightarrow> time \<Rightarrow> string \<Rightarrow> bool" where
  "orphaned ids n now owner \<longleftrightarrow>
     map_of (ni_Labels n) ''ci-preview/owner'' = Some owner \<and> owner \<noteq> [] \<and> owner \<notin> set ids \<and>
     ni_Created n + 90 * Second < now"

text \<open>What a clean-up may invoke: after the invocations \<open>pre\<close> from \<open>s\<close>, a read of a listed namespace
  that is an orphan by now, or, right after that read, its deletion when its owner owns it.\<close>

definition cleans :: "('w \<Rightarrow> command list \<Rightarrow> 'w \<Rightarrow> bool) \<Rightarrow> (string \<Rightarrow> string \<Rightarrow> 'w \<Rightarrow> bool) \<Rightarrow> 'w Controller
    \<Rightarrow> string list \<Rightarrow> NamespaceItem list \<Rightarrow> 'w \<Rightarrow> command list \<Rightarrow> command \<Rightarrow> bool" where
  "cleans traced owns ct ids items s pre cmd \<longleftrightarrow>
     (\<exists>n \<in> set items. \<exists>owner before t. traced s before t \<and> orphaned ids n (ct_Now ct t) owner \<and>
        (cmd = (getArgs ''namespace'' [] (ni_Name n), None) \<and> pre = before \<or>
         cmd = (deleteArgs (ni_Name n), None) \<and> pre = before @ [(getArgs ''namespace'' [] (ni_Name n), None)] \<and>
           owns (ni_Name n) owner t))"

definition sweep :: "('w \<Rightarrow> command list \<Rightarrow> 'w \<Rightarrow> bool) \<Rightarrow> (string \<Rightarrow> string \<Rightarrow> 'w \<Rightarrow> bool) \<Rightarrow> 'w Controller
    \<Rightarrow> string list \<Rightarrow> NamespaceItem list \<Rightarrow> 'w \<Rightarrow> command list \<Rightarrow> bool" where
  "sweep traced owns ct ids items s cs \<longleftrightarrow>
     (\<forall>pre cmd post. cs = pre @ cmd # post \<longrightarrow> cleans traced owns ct ids items s pre cmd)"

text \<open>What a clean-up must do about a namespace: the invocations reach a moment at which the namespace,
  if it is an orphan then, is read and deleted, unless it is already gone.\<close>

definition cleaned :: "('w \<Rightarrow> command list \<Rightarrow> 'w \<Rightarrow> bool) \<Rightarrow> (string \<Rightarrow> string \<Rightarrow> 'w \<Rightarrow> bool) \<Rightarrow> (string \<Rightarrow> 'w \<Rightarrow> bool)
    \<Rightarrow> 'w Controller \<Rightarrow> string list \<Rightarrow> 'w \<Rightarrow> command list \<Rightarrow> 'w \<Rightarrow> NamespaceItem \<Rightarrow> bool" where
  "cleaned traced owns absent ct ids s cs s' n \<longleftrightarrow>
     (\<exists>pre t post. cs = pre @ post \<and> traced s pre t \<and> traced t post s' \<and>
        (\<forall>owner. orphaned ids n (ct_Now ct t) owner \<longrightarrow>
           owns (ni_Name n) owner t \<and>
             prefix [(getArgs ''namespace'' [] (ni_Name n), None), (deleteArgs (ni_Name n), None)] post \<or>
           absent (ni_Name n) t \<and> prefix [(getArgs ''namespace'' [] (ni_Name n), None)] post))"

lemma sweep_Nil: "sweep traced owns ct ids items s []"
  by (simp add: sweep_def)

lemma sweep_read:
  assumes "n \<in> set items" "traced s [] s" "orphaned ids n (ct_Now ct s) owner"
  shows "sweep traced owns ct ids items s [(getArgs ''namespace'' [] (ni_Name n), None)]"
  using assms by (auto simp: sweep_def cleans_def Cons_eq_append_conv)

lemma sweep_delete:
  assumes "n \<in> set items" "traced s [] s" "orphaned ids n (ct_Now ct s) owner" "owns (ni_Name n) owner s"
  shows "sweep traced owns ct ids items s [(getArgs ''namespace'' [] (ni_Name n), None), (deleteArgs (ni_Name n), None)]"
  using assms by (auto simp: sweep_def cleans_def Cons_eq_append_conv)

lemma sweep_append:
  assumes "sweep traced owns ct ids items s cs" "traced s cs s1" "sweep traced owns ct ids items s1 ds"
    and "\<And>pre t. traced s1 pre t \<Longrightarrow> traced s (cs @ pre) t"
  shows "sweep traced owns ct ids items s (cs @ ds)"
  unfolding sweep_def
proof (intro allI impI)
  fix pre cmd post
  assume "cs @ ds = pre @ cmd # post"
  then consider us where "cs = pre @ cmd # us" | us where "pre = cs @ us" "ds = us @ cmd # post"
    by (auto simp: append_eq_append_conv2 append_eq_Cons_conv Cons_eq_append_conv)
  then show "cleans traced owns ct ids items s pre cmd"
  proof cases
    case 1
    with assms(1) show ?thesis unfolding sweep_def by blast
  next
    case 2
    with assms(3) have "cleans traced owns ct ids items s1 us cmd" unfolding sweep_def by blast
    with assms(4) show ?thesis unfolding cleans_def 2(1) by (metis append_assoc)
  qed
qed

lemma cleaned_later:
  assumes "cleaned traced owns absent ct ids s1 ds s' n" "\<And>pre t. traced s1 pre t \<Longrightarrow> traced s (cs @ pre) t"
  shows "cleaned traced owns absent ct ids s (cs @ ds) s' n"
proof -
  from assms(1) obtain pre t post where p: "ds = pre @ post" "traced s1 pre t" "traced t post s'"
      "\<forall>owner. orphaned ids n (ct_Now ct t) owner \<longrightarrow>
           owns (ni_Name n) owner t \<and>
             prefix [(getArgs ''namespace'' [] (ni_Name n), None), (deleteArgs (ni_Name n), None)] post \<or>
           absent (ni_Name n) t \<and> prefix [(getArgs ''namespace'' [] (ni_Name n), None)] post"
    unfolding cleaned_def by blast
  with assms(2) [OF p(2)] show ?thesis
    unfolding cleaned_def by (intro exI [of _ "cs @ pre"] exI [of _ t] exI [of _ post]) simp
qed

lemma getd_keepIDs: "getd False (keepIDs ids) i \<longleftrightarrow> i \<in> set ids"
  by (induction ids) auto

lemma orphan_orphaned:
  "orphan (keepIDs ids) n now \<longleftrightarrow> orphaned ids n now (getd [] (ni_Labels n) ''ci-preview/owner'')"
proof (cases "map_of (ni_Labels n) ''ci-preview/owner''")
  case None
  then show ?thesis by (simp add: orphan_def orphaned_def Let_def getd_def)
next
  case (Some owner)
  have "90 * Second < timeSub now (ni_Created n) \<longleftrightarrow> ni_Created n + 90 * Second < now"
    by (auto simp: timeSub_def Second_def)
  with Some show ?thesis by (simp add: orphan_def orphaned_def Let_def getd_keepIDs) (simp add: getd_def)
qed

lemma orphaned_owner: "orphaned ids n now owner \<Longrightarrow> owner = getd [] (ni_Labels n) ''ci-preview/owner''"
  by (simp add: orphaned_def getd_def)

text \<open>
  What the clean-up relies on: the invocations of \<open>delete\<close> can be traced, it deletes only the named
  namespace, after it has read it and found it owned, and when it reports no error, the namespace was
  deleted or not there.
\<close>

locale kubectl_client =
  fixes run :: "Value option \<Rightarrow> string list \<Rightarrow> 'w \<Rightarrow> (string \<times> string option) \<times> 'w"
    and delete :: "string \<Rightarrow> string \<Rightarrow> 'w \<Rightarrow> string option \<times> 'w"
    and traced :: "'w \<Rightarrow> command list \<Rightarrow> 'w \<Rightarrow> bool"
    and owns :: "string \<Rightarrow> string \<Rightarrow> 'w \<Rightarrow> bool"
    and absent :: "string \<Rightarrow> 'w \<Rightarrow> bool"
  assumes traced_nil: "traced s [] s"
    and traced_append: "traced s cs s' \<Longrightarrow> traced s' ds s'' \<Longrightarrow> traced s (cs @ ds) s''"
    and delete_traced: "delete name owner s = (e, s') \<Longrightarrow>
      traced s [(getArgs ''namespace'' [] name, None)] s' \<and> (e = None \<longrightarrow> absent name s) \<or>
      owns name owner s \<and> traced s [(getArgs ''namespace'' [] name, None), (deleteArgs name, None)] s'"
begin

lemma delete_cleans:
  assumes d: "delete (ni_Name n) owner s = (e, s')" and n: "n \<in> set items" and o: "orphaned ids n (ct_Now ct s) owner"
  obtains cs where "traced s cs s'" "sweep traced owns ct ids items s cs"
    "e = None \<Longrightarrow> traced s' ds s'' \<Longrightarrow> cleaned traced owns absent ct ids s (cs @ ds) s'' n"
proof -
  let ?read = "(getArgs ''namespace'' [] (ni_Name n), None)" and ?delete = "(deleteArgs (ni_Name n), None)"
  have once: "owner' = owner" if "orphaned ids n (ct_Now ct s) owner'" for owner'
    using that o by (simp add: orphaned_def)
  note result = that
  have goal: thesis if cs: "traced s cs s'" "sweep traced owns ct ids items s cs"
      and p: "e = None \<Longrightarrow> owns (ni_Name n) owner s \<and> cs = [?read, ?delete] \<or> absent (ni_Name n) s \<and> cs = [?read]" for cs
  proof (rule result [OF cs])
    assume e: "e = None" and ds: "traced s' ds s''"
    show "cleaned traced owns absent ct ids s (cs @ ds) s'' n"
      unfolding cleaned_def using p [OF e] once traced_append [OF cs(1) ds]
      by (intro exI [of _ "[]"] exI [of _ s] exI [of _ "cs @ ds"]) (auto intro: traced_nil)
  qed
  from delete_traced [OF d] show thesis
  proof (elim disjE conjE)
    assume "traced s [?read] s'" "e = None \<longrightarrow> absent (ni_Name n) s"
    then show thesis using sweep_read [of n items traced s ids ct owner owns, OF n traced_nil o] by (intro goal [of "[?read]"]) auto
  next
    assume "owns (ni_Name n) owner s" "traced s [?read, ?delete] s'"
    then show thesis using sweep_delete [of n items traced s ids ct owner owns, OF n traced_nil o] by (intro goal [of "[?read, ?delete]"]) auto
  qed
qed

lemma deleteOrphans_traced:
  assumes "deleteOrphans delete (ct_Now ct) (keepIDs ids) items s = (e, s')" "set items \<subseteq> set all"
  shows "\<exists>cs. traced s cs s' \<and> sweep traced owns ct ids all s cs \<and>
    (e = None \<longrightarrow> (\<forall>n \<in> set items. cleaned traced owns absent ct ids s cs s' n))"
  using assms
proof (induction items arbitrary: s)
  case Nil
  then show ?case by (auto intro: traced_nil sweep_Nil exI [of _ "[]"])
next
  case (Cons n ns)
  let ?owner = "getd [] (ni_Labels n) ''ci-preview/owner''"
  have mem: "n \<in> set all" "set ns \<subseteq> set all" using Cons.prems(2) by simp_all
  show ?case
  proof (cases "orphan (keepIDs ids) n (ct_Now ct s)")
    case False
    with Cons.prems have "deleteOrphans delete (ct_Now ct) (keepIDs ids) ns s = (e, s')" by simp
    from Cons.IH [OF this mem(2)] obtain cs where cs: "traced s cs s'" "sweep traced owns ct ids all s cs"
      "e = None \<longrightarrow> (\<forall>n \<in> set ns. cleaned traced owns absent ct ids s cs s' n)" by blast
    have "\<not> orphaned ids n (ct_Now ct s) owner" for owner
      using False orphaned_owner [of ids n _ owner] by (auto simp: orphan_orphaned)
    with cs(1) traced_nil have "cleaned traced owns absent ct ids s cs s' n"
      unfolding cleaned_def by (intro exI [of _ "[]"] exI [of _ s] exI [of _ cs]) simp
    with cs show ?thesis by auto
  next
    case True
    obtain d s1 where d: "delete (ni_Name n) ?owner s = (d, s1)" by fastforce
    note o = True [unfolded orphan_orphaned]
    show ?thesis
    proof (cases d)
      case (Some x)
      with Cons.prems True d have "e = Some x" "s' = s1" by simp_all
      moreover obtain cs where "traced s cs s1" "sweep traced owns ct ids all s cs"
        by (rule delete_cleans [OF d mem(1) o, where ds = "[]" and s'' = s1]) (rule that)
      ultimately show ?thesis by blast
    next
      case None
      with Cons.prems True d have "deleteOrphans delete (ct_Now ct) (keepIDs ids) ns s1 = (e, s')" by simp
      from Cons.IH [OF this mem(2)] obtain ds where ds: "traced s1 ds s'" "sweep traced owns ct ids all s1 ds"
        "e = None \<longrightarrow> (\<forall>n \<in> set ns. cleaned traced owns absent ct ids s1 ds s' n)" by blast
      obtain cs where cs: "traced s cs s1" "sweep traced owns ct ids all s cs"
        "cleaned traced owns absent ct ids s (cs @ ds) s' n"
        by (rule delete_cleans [OF d mem(1) o, where ds = ds and s'' = s']) (use None ds(1) in blast)
      have "sweep traced owns ct ids all s (cs @ ds)" by (rule sweep_append [OF cs(2,1) ds(2) traced_append [OF cs(1)]])
      moreover have "cleaned traced owns absent ct ids s (cs @ ds) s' m" if "e = None" "m \<in> set ns" for m
        by (rule cleaned_later) (use traced_append [OF cs(1)] ds(3) that in auto)
      ultimately show ?thesis using traced_append [OF cs(1) ds(1)] cs(3) by auto
    qed
  qed
qed

lemma cleanup_traced:
  assumes "cleanup ct run delete s = (e, s')"
  obtains (unavailable) err where "Do (ct_API ct) ''GET'' ''/v1/internal/active-attempts'' None (ct_AttemptIDs ct) s = (Inl err, s')"
      "e = Some (clientMessage err)"
  | (unlisted) ids s1 raw err where
      "Do (ct_API ct) ''GET'' ''/v1/internal/active-attempts'' None (ct_AttemptIDs ct) s = (Inr ids, s1)"
      "run None listArgs s1 = ((raw, err), s')" "e = err" "e \<noteq> None"
  | (unread) ids s1 raw err where
      "Do (ct_API ct) ''GET'' ''/v1/internal/active-attempts'' None (ct_AttemptIDs ct) s = (Inr ids, s1)"
      "run None listArgs s1 = ((raw, None), s')" "ct_Namespaces ct raw = Inl err" "e = Some err"
  | (swept) ids s1 raw s2 items cs where
      "Do (ct_API ct) ''GET'' ''/v1/internal/active-attempts'' None (ct_AttemptIDs ct) s = (Inr ids, s1)"
      "run None listArgs s1 = ((raw, None), s2)" "ct_Namespaces ct raw = Inr items" "traced s2 cs s'"
      "sweep traced owns ct ids items s2 cs"
      "e = None \<longrightarrow> (\<forall>n \<in> set items. cleaned traced owns absent ct ids s2 cs s' n)"
proof -
  obtain r s1 where d: "Do (ct_API ct) ''GET'' ''/v1/internal/active-attempts'' None (ct_AttemptIDs ct) s = (r, s1)" by fastforce
  show ?thesis
  proof (cases r)
    case (Inl err)
    with assms d unavailable show ?thesis by (auto simp: cleanup_def)
  next
    case (Inr ids)
    obtain raw e1 s2 where l: "run None listArgs s1 = ((raw, e1), s2)" by (metis prod.exhaust)
    show ?thesis
    proof (cases e1)
      case (Some x)
      with assms d Inr l have "s' = s2" "e = e1" "e \<noteq> None" by (auto simp: cleanup_def)
      with unlisted d Inr l show ?thesis by simp
    next
      case None
      show ?thesis
      proof (cases "ct_Namespaces ct raw")
        case (Inl err)
        with assms d Inr l None have "s' = s2" "e = Some err" by (auto simp: cleanup_def)
        with unread d Inr l None Inl show ?thesis by simp
      next
        case (Inr items)
        with assms d \<open>r = Inr ids\<close> l None have "deleteOrphans delete (ct_Now ct) (keepIDs ids) items s2 = (e, s')"
          by (simp add: cleanup_def)
        from deleteOrphans_traced [OF this subset_refl] swept [OF d [unfolded \<open>r = Inr ids\<close>] l [unfolded None] Inr]
        show ?thesis by blast
      qed
    qed
  qed
qed

end

lemma DeleteNamespace_none:
  assumes "DeleteNamespace c name owner s = (None, s')" "\<not> owned c name owner s"
  shows "fst (GetResource c ''namespace'' [] name s) = Inr None"
  using assms
  by (auto simp: DeleteNamespace_def OwnedNamespace_def owned_def Let_def split: prod.splits sum.splits option.splits if_splits)

interpretation kubectl: kubectl_client "Run c" "DeleteNamespace c" "runs c" "owned c"
  "\<lambda>name s. fst (GetResource c ''namespace'' [] name s) = Inr None" for c
proof unfold_locales
  show "runs c s [] s" for s by (rule runs_Nil)
  show "runs c s (cs @ ds) s''" if "runs c s cs s'" "runs c s' ds s''" for s cs s' ds s''
    using that by (rule runs_append)
  show "runs c s [(getArgs ''namespace'' [] name, None)] s' \<and>
        (e = None \<longrightarrow> fst (GetResource c ''namespace'' [] name s) = Inr None) \<or>
      owned c name owner s \<and> runs c s [(getArgs ''namespace'' [] name, None), (deleteArgs name, None)] s'"
    if "DeleteNamespace c name owner s = (e, s')" for name owner s e s'
    using that
  proof (cases rule: DeleteNamespace_runs)
    case 2
    with DeleteNamespace_none [of c name owner s s'] that show ?thesis by auto
  qed blast
qed

text \<open>C26: the clean-up deletes exactly the orphans. When the API cannot list the active attempts, no
  kubectl command runs; otherwise the clean-up lists the job namespaces, and does nothing more when
  that fails. Of the listed namespaces it reads only orphans, those whose owner label is not empty and
  not among the active attempts and which were created more than 90 seconds before, and it deletes only
  those that it has just read and found to carry that owner's label: the namespace of an active attempt
  is never deleted. And when it reports no error, every listed namespace was considered: if it was an
  orphan at that moment, it was read and, unless it was gone, deleted.\<close>

theorem cleanup_orphans:
  assumes "cleanup ct (Run c) (DeleteNamespace c) s = (e, s')"
  shows "(\<exists>err. Do (ct_API ct) ''GET'' ''/v1/internal/active-attempts'' None (ct_AttemptIDs ct) s = (Inl err, s') \<and>
      e = Some (clientMessage err)) \<or>
    (\<exists>ids s1 raw err s2. Do (ct_API ct) ''GET'' ''/v1/internal/active-attempts'' None (ct_AttemptIDs ct) s = (Inr ids, s1) \<and>
      Run c None [''get'', ''namespaces'', ''-l'', ''ci-preview/kind=job'', ''-o'', ''json''] s1 = ((raw, err), s2) \<and>
      (case err of
         Some _ \<Rightarrow> e = err \<and> s' = s2
       | None \<Rightarrow>
           (case ct_Namespaces ct raw of
              Inl m \<Rightarrow> e = Some m \<and> s' = s2
            | Inr items \<Rightarrow>
                \<exists>cs. runs c s2 cs s' \<and> sweep (runs c) (owned c) ct ids items s2 cs \<and>
                  (e = None \<longrightarrow> (\<forall>n \<in> set items.
                     cleaned (runs c) (owned c) (\<lambda>name t. fst (GetResource c ''namespace'' [] name t) = Inr None)
                       ct ids s2 cs s' n)))))"
  using assms
proof (cases rule: kubectl.cleanup_traced)
  case (unlisted ids s1 raw err)
  then show ?thesis unfolding listArgs_def by fastforce
next
  case (unread ids s1 raw err)
  then show ?thesis unfolding listArgs_def by fastforce
next
  case (swept ids s1 raw s2 items cs)
  then show ?thesis
    unfolding listArgs_def by (intro disjI2 exI [of _ ids] exI [of _ s1] exI [of _ raw] exI [of _ None] exI [of _ s2]) auto
qed blast

text \<open>The controller and the API agree on observations. Whatever the reconciliation of a preview
  returned, the observation the controller reports passes the API's input checks.\<close>

lemma observation_accepted:
  assumes "ReconcilePreview pc p s = (r, s')"
    and "Api.decode (de_Observation de) (rq_Body q) = Some (observationOf p r)"
  shows "readObservation de q = Inr (InObservation (observationOf p r))"
proof -
  obtain st url e where r: "r = (st, url, e)" by (cases r)
  have "st \<in> {StateActive, StatePending, StateDeleted}"
    using ReconcilePreview_state [OF assms(1) [unfolded r]] .
  with assms(2) show ?thesis by (auto simp: readObservation_def observationOf_def r)
qed

section \<open>A sample controller\<close>

text \<open>A cluster with one job namespace, that of attempt \<open>att_1\<close>, which is not active any more.\<close>

definition orphanClient :: "nat Client" where
  "orphanClient = readyClient
     \<lparr>kc_Exec := (\<lambda>_ _ _ s. (\<lparr>pr_Stdout = [''{}''], pr_Stderr = [], pr_Error = None\<rparr>, Suc s)),
      kc_Parse := (\<lambda>_. Inr (Some [(''metadata'', VMap [(''labels'', VMap [(''ci-preview/owner'', VStr ''att_1'')])])]))\<rparr>"

definition sampleController :: "nat Controller" where
  "sampleController = \<lparr>
     ct_API = \<lparr>tc_URL = ''http://ci'', tc_Token = ''tok'', tc_Invalid = (\<lambda>_ _. None), tc_Exchange = (\<lambda>_ s. (Inr (200, []), s))\<rparr>,
     ct_Preview = readyController, ct_Previews = (\<lambda>_. Inr []), ct_AttemptIDs = (\<lambda>_. Inr [''att_2'']),
     ct_Namespaces = (\<lambda>_. Inr [\<lparr>ni_Name = ''ci-job-att-1'', ni_Labels = [(''ci-preview/owner'', ''att_1'')], ni_Created = 0\<rparr>]),
     ct_Observation = (\<lambda>_. VNull), ct_Now = (\<lambda>_. 91 * Second)\<rparr>"

lemma sampleController_namespaces: "ct_Namespaces sampleController raw =
    Inr [\<lparr>ni_Name = ''ci-job-att-1'', ni_Labels = [(''ci-preview/owner'', ''att_1'')], ni_Created = 0\<rparr>]"
  by (simp add: sampleController_def)

lemma orphanRun: "Run orphanClient input args s = ((''{}'', None), Suc s)"
  by (auto simp: Run_def spawn_def orphanClient_def readyClient_def writeAll_take maxOutput_def)

lemma orphanRead: "GetResource orphanClient kind ns name s =
    (Inr (Some [(''metadata'', VMap [(''labels'', VMap [(''ci-preview/owner'', VStr ''att_1'')])])]), Suc s)"
  by (simp add: GetResource_def orphanRun blank_simps) (simp add: orphanClient_def)

lemma sample_cleanup: "cleanup sampleController (Run orphanClient) (DeleteNamespace orphanClient) 0 = (None, 3)"
  by (simp add: cleanup_def sampleController_def Do_def Raw_def apiCall_def orphanRun orphan_def timeSub_def
    Second_def getd_def DeleteNamespace_def OwnedNamespace_def orphanRead ownerOf_def index_def)

theorem cleanup_orphans_witness:
  "\<exists>pre t post. runs orphanClient 1 (pre @ post) 3 \<and> runs orphanClient 1 pre t \<and> runs orphanClient t post 3 \<and>
     prefix [(getArgs ''namespace'' [] ''ci-job-att-1'', None), (deleteArgs ''ci-job-att-1'', None)] post"
proof -
  have "Do (ct_API sampleController) ''GET'' ''/v1/internal/active-attempts'' None (ct_AttemptIDs sampleController) 0 =
      (Inr [''att_2''], 0)"
    by (simp add: sampleController_def Do_def Raw_def)
  with cleanup_orphans [OF sample_cleanup] obtain cs where cs: "runs orphanClient 1 cs 3"
    "cleaned (runs orphanClient) (owned orphanClient) (\<lambda>name t. fst (GetResource orphanClient ''namespace'' [] name t) = Inr None)
       sampleController [''att_2''] 1 cs 3
       \<lparr>ni_Name = ''ci-job-att-1'', ni_Labels = [(''ci-preview/owner'', ''att_1'')], ni_Created = 0\<rparr>"
    by (auto simp: orphanRun sampleController_namespaces)
  moreover have "orphaned [''att_2''] \<lparr>ni_Name = ''ci-job-att-1'', ni_Labels = [(''ci-preview/owner'', ''att_1'')], ni_Created = 0\<rparr>
      (ct_Now sampleController t) ''att_1''" for t
    by (simp add: orphaned_def sampleController_def Second_def)
  ultimately show ?thesis unfolding cleaned_def orphanRead by simp metis
qed

lemma observation_accepted_sample:
  "readObservation \<lparr>de_Submission = (\<lambda>_. None), de_Completion = (\<lambda>_. None),
     de_Observation = (\<lambda>_. Some (observationOf readyPreview (StateActive, ''http://preview-r-7.example.org'', None)))\<rparr>
     \<lparr>rq_Method = ''POST'', rq_Path = [], rq_Headers = [], rq_Body = []\<rparr> =
   Inr (InObservation (observationOf readyPreview (StateActive, ''http://preview-r-7.example.org'', None)))"
  by (rule observation_accepted [OF ready_reconcile(1)]) (simp add: Api.decode_def)

end
