(* ===== verification/Cictl.thy ===== *)
theory Cictl
  imports Transport Base64 Webhook
begin

text \<open>
  The command-line tool, \<open>cmd/cictl/main.go\<close>: the request each command makes, the secret that
  \<open>init\<close> prints, and \<open>saveArtifact\<close>. The parsing of flags by package \<open>flag\<close>, files, random draws
  and the JSON encoder are parameters; the printing of replies is omitted.
\<close>

section \<open>Initialisation\<close>

definition initPolicy :: "string \<Rightarrow> string \<Rightarrow> string \<Rightarrow> string \<Rightarrow> string \<Rightarrow> AccessConfig" where
  "initPolicy admin tenant worker controller repo =
     \<lparr>acc_Principals =
        [\<lparr>prin_Token = admin, prin_Role = ''admin'', prin_Tenant = [], prin_Worker = None\<rparr>,
         \<lparr>prin_Token = tenant, prin_Role = ''tenant'', prin_Tenant = ''default'', prin_Worker = None\<rparr>,
         \<lparr>prin_Token = worker, prin_Role = ''worker'', prin_Tenant = [],
          prin_Worker = Some \<lparr>wk_ID = ''worker-untrusted-1'', wk_Pool = ''untrusted'',
            wk_Capabilities = [(''linux-amd64'', True)], wk_Capacity = 2, wk_Trusted = False,
            wk_Resources = \<lparr>res_CPU = 4, res_Memory = 4096\<rparr>, wk_Heartbeat = 0\<rparr>\<rparr>,
         \<lparr>prin_Token = controller, prin_Role = ''controller'', prin_Tenant = [], prin_Worker = None\<rparr>],
      acc_Repositories =
        [(repo, \<lparr>repo_Tenant = ''default'', repo_Trusted = False, repo_AllowForks = False, repo_InstallationID = 0,
                 repo_ImagePrefix = []\<rparr>)]\<rparr>"

definition initValues :: "(AccessConfig \<Rightarrow> string) \<Rightarrow> (nat \<Rightarrow> string) \<Rightarrow> string \<Rightarrow> string \<Rightarrow> (string \<times> string) list" where
  \<comment> \<open>the draws of \<open>random\<close> are numbered in the order of the calls\<close>
  "initValues marshal rnd release repo =
     (let admin = rnd 0; tenant = rnd 1; worker = rnd 2; controller = rnd 3; password = rnd 4
      in [(''auth.json'', marshal (initPolicy admin tenant worker controller repo)), (''state-key'', rnd 5),
          (''admin-token'', admin), (''tenant-token'', tenant), (''worker-token'', worker),
          (''controller-token'', controller), (''postgres-password'', password),
          (''database-url'', ''postgres://ci:'' @ password @ ''@'' @ release @ ''-postgres:5432/ci?sslmode=disable''),
          (''s3-access-key'', ''ci'' @ take 16 (rnd 6)), (''s3-secret-key'', rnd 7), (''webhook-secret'', rnd 8)])"

definition initialize :: "(AccessConfig \<Rightarrow> string) \<Rightarrow> (nat \<Rightarrow> string) \<Rightarrow> string + string \<times> string \<times> string \<Rightarrow> string + Value" where
  \<comment> \<open>the third argument is the outcome of \<open>f.Parse\<close>: namespace, release and repository\<close>
  "initialize marshal rnd flags =
     (case flags of
        Inl e \<Rightarrow> Inl e
      | Inr (namespace, release, repo) \<Rightarrow>
          if \<not> namePattern namespace \<or> \<not> namePattern release \<or> \<not> RepositoryPattern repo
          then Inl ''invalid namespace, release or repository''
          else Inr (VMap
            [(''apiVersion'', VStr ''v1''), (''kind'', VStr ''Secret''),
             (''metadata'', VMap [(''name'', VStr ''ci-secrets''), (''namespace'', VStr namespace)]),
             (''type'', VStr ''Opaque''),
             (''data'', VMap (map (\<lambda>(k, v). (k, VStr (base64Encode v))) (initValues marshal rnd release repo)))]))"

section \<open>Commands\<close>

record SubmitFlags =
  sf_File :: string
  sf_Repo :: string
  sf_SHA :: string
  sf_PR :: int
  sf_Key :: string
  sf_Rerun :: bool

record CliEnv =
  ce_Args :: "string list"                                  \<comment> \<open>\<open>os.Args[1:]\<close>\<close>
  ce_Transport :: "string + string \<times> string"               \<comment> \<open>\<open>transport.Env\<close>: base URL and token\<close>
  ce_SubmitFlags :: "string list \<Rightarrow> string + SubmitFlags"
  ce_ArtifactFlags :: "string list \<Rightarrow> string + string \<times> nat"   \<comment> \<open>the output file and \<open>NArg\<close>\<close>
  ce_ReadFile :: "string \<Rightarrow> string + u8 list"
  ce_Yaml :: "u8 list \<Rightarrow> PipelineSpec option"
  ce_Random :: string

record Plan =
  plan_Method :: string
  plan_Path :: string
  plan_Payload :: "Submission option"
  plan_Key :: string
  plan_Raw :: bool
  plan_Output :: string

datatype Command = ShowHelp | ShowVersion | Initialize "string list" | Send string string Plan

abbreviation plainPlan :: "string \<Rightarrow> string \<Rightarrow> Plan" where
  "plainPlan method path \<equiv>
     \<lparr>plan_Method = method, plan_Path = path, plan_Payload = None, plan_Key = [], plan_Raw = False, plan_Output = []\<rparr>"

definition cliSubmission :: "SubmitFlags \<Rightarrow> PipelineSpec \<Rightarrow> Submission" where
  "cliSubmission f spec =
     \<lparr>sub_RequestID = [], sub_Tenant = [], sub_Repo = sf_Repo f, sub_SourceRepo = [], sub_CommitSHA = sf_SHA f,
      sub_Trigger = [], sub_PRNumber = sf_PR f, sub_Fork = False, sub_Rerun = sf_Rerun f, sub_Closed = False,
      sub_EventTime = 0, sub_InstallationID = 0, sub_Spec = spec\<rparr>"

definition submitPlan :: "CliEnv \<Rightarrow> string list \<Rightarrow> string + Plan" where
  "submitPlan env args =
     (case ce_SubmitFlags env args of
        Inl e \<Rightarrow> Inl e
      | Inr f \<Rightarrow>
          (case ce_ReadFile env (sf_File f) of
             Inl e \<Rightarrow> Inl e
           | Inr b \<Rightarrow>
               (case Parse (ce_Yaml env) b of
                  None \<Rightarrow> Inl ''invalid pipeline configuration''
                | Some spec \<Rightarrow>
                    if \<not> RepositoryPattern (sf_Repo f) \<or> \<not> CommitPattern (sf_SHA f)
                    then Inl ''--repo and --sha are required''
                    else Inr ((plainPlan ''POST'' ''/v1/pipelines'')
                      \<lparr>plan_Payload := Some (cliSubmission f spec),
                       plan_Key := if sf_Key f = [] then ce_Random env else sf_Key f\<rparr>))))"

definition resourcePlan :: "CliEnv \<Rightarrow> string \<Rightarrow> string list \<Rightarrow> string + Plan" where
  \<comment> \<open>the commands that take a resource ID; \<open>args\<close> are the arguments after the mode\<close>
  "resourcePlan env mode args =
     (case args of
        [] \<Rightarrow> Inl ''resource ID is required''
      | i # rest \<Rightarrow>
          if ContainsAny i ''/?.'' then Inl ''invalid resource ID''
          else if mode = ''show'' then Inr (plainPlan ''GET'' (''/v1/pipelines/'' @ i))
          else if mode = ''cancel'' then Inr (plainPlan ''POST'' (''/v1/pipelines/'' @ i @ ''/cancel''))
          else if mode = ''logs'' then Inr ((plainPlan ''GET'' (''/v1/attempts/'' @ i @ ''/objects/logs''))\<lparr>plan_Raw := True\<rparr>)
          else if rest = [] \<or> ContainsAny (hd rest) ''/?'' then
            Inl ''artifact requires an attempt ID and a valid artifact name''
          else (case ce_ArtifactFlags env (tl rest) of
                  Inl e \<Rightarrow> Inl e
                | Inr (output, n) \<Rightarrow>
                    if n \<noteq> 0 then Inl ''unexpected artifact arguments''
                    else Inr ((plainPlan ''GET'' (''/v1/attempts/'' @ i @ ''/objects/'' @ hd rest))
                                \<lparr>plan_Raw := True, plan_Output := output\<rparr>)))"

definition modePlan :: "CliEnv \<Rightarrow> string \<Rightarrow> string list \<Rightarrow> string + Plan" where
  "modePlan env mode args =
     (if mode = ''submit'' then submitPlan env args
      else if mode = ''pipelines'' then Inr (plainPlan ''GET'' ''/v1/pipelines'')
      else if mode = ''previews'' then Inr (plainPlan ''GET'' ''/v1/previews'')
      else if mode \<in> {''show'', ''cancel'', ''logs'', ''artifact''} then resourcePlan env mode args
      else Inl ''unknown command'')"

definition cliRun :: "CliEnv \<Rightarrow> string + Command" where
  \<comment> \<open>\<open>run\<close> up to the request\<close>
  "cliRun env =
     (if \<exists>a \<in> set (ce_Args env). a = ''--help'' \<or> a = ''-h'' \<or> a = ''help'' then Inr ShowHelp
      else if ce_Args env = [''version''] then Inr ShowVersion
      else case ce_Args env of
        [] \<Rightarrow> Inl ''usage: cictl init|submit|pipelines|show|cancel|previews|logs|artifact''
      | mode # args \<Rightarrow>
          if mode = ''init'' then Inr (Initialize args)
          else case ce_Transport env of
            Inl e \<Rightarrow> Inl e
          | Inr (url, token) \<Rightarrow>
              (case modePlan env mode args of
                 Inl e \<Rightarrow> Inl e
               | Inr plan \<Rightarrow> Inr (Send url token plan)))"

section \<open>Saving an artifact\<close>

datatype fileCall = OpenNew string | WriteAll string | CloseFile | RemoveFile string

definition saveArtifact :: "string \<Rightarrow> string + string \<Rightarrow> string option \<Rightarrow> string option \<Rightarrow> string option
    \<Rightarrow> string option \<times> fileCall list" where
  \<comment> \<open>the body read so far or the error of reading it, and the errors of opening, writing and closing
    the file; the calls made on the file system\<close>
  "saveArtifact path body openError writeError closeError =
     (case body of
        Inl e \<Rightarrow> (Some e, [])
      | Inr b \<Rightarrow>
          let data = take (16 * 2 ^ 20 + 1) b in
          if length data > 16 * 2 ^ 20 then (Some ''artifact exceeds 16 MiB'', [])
          else (case openError of
                  Some e \<Rightarrow> (Some e, [OpenNew path])
                | None \<Rightarrow>
                    let e = (if writeError = None then closeError else writeError)
                    in (e, [OpenNew path, WriteAll data, CloseFile] @ (if e \<noteq> None then [RemoveFile path] else []))))"

section \<open>Sending the request\<close>

record CliOutput =
  co_Error :: "string option"
  co_Stdout :: string
  co_Files :: "fileCall list"

definition cliFail :: "string \<Rightarrow> CliOutput" where
  "cliFail e = \<lparr>co_Error = Some e, co_Stdout = [], co_Files = []\<rparr>"

definition cliCall :: "(Submission \<Rightarrow> Value) \<Rightarrow> string \<Rightarrow> string \<Rightarrow> Plan \<Rightarrow> ApiCall" where
  "cliCall marshal url token plan =
     \<lparr>ac_Method = plan_Method plan, ac_URL = url @ plan_Path plan,
      ac_Headers = [(''Authorization'', ''Bearer '' @ token), (''Content-Type'', ''application/json''),
                    (''Idempotency-Key'', plan_Key plan)],
      ac_Body = JsonBody (case plan_Payload plan of None \<Rightarrow> VNull | Some sub \<Rightarrow> marshal sub)\<rparr>"

definition cliReply :: "(string \<Rightarrow> string + string) \<Rightarrow> (string option \<times> string option \<times> string option) \<Rightarrow> Plan
    \<Rightarrow> int \<Rightarrow> string \<Rightarrow> CliOutput" where
  \<comment> \<open>\<open>indent\<close> decodes a JSON text and prints it again; then the errors of the file system\<close>
  "cliReply indent errors plan status body =
     (if status < 200 \<or> status \<ge> 300 then cliFail (''HTTP '' @ itoa status @ '': '' @ take 4096 body)
      else if plan_Raw plan then
        if plan_Output plan \<noteq> [] then
          let (openError, writeError, closeError) = errors;
              (e, calls) = saveArtifact (plan_Output plan) (Inr body) openError writeError closeError
          in \<lparr>co_Error = e, co_Stdout = [], co_Files = calls\<rparr>
        else \<lparr>co_Error = None, co_Stdout = take (17 * 2 ^ 20) body, co_Files = []\<rparr>
      else case indent body of
             Inl e \<Rightarrow> cliFail e
           | Inr text \<Rightarrow> \<lparr>co_Error = None, co_Stdout = text, co_Files = []\<rparr>)"

definition cliSend :: "'w Transport \<Rightarrow> (Submission \<Rightarrow> Value) \<Rightarrow> (string \<Rightarrow> string + string)
    \<Rightarrow> (string option \<times> string option \<times> string option) \<Rightarrow> Plan \<Rightarrow> 'w \<Rightarrow> CliOutput \<times> 'w" where
  \<comment> \<open>\<open>run\<close> from the request on\<close>
  "cliSend tc marshal indent errors plan s =
     (case tc_Invalid tc (plan_Method plan) (tc_URL tc @ plan_Path plan) of
        Some e \<Rightarrow> (cliFail e, s)
      | None \<Rightarrow>
          (case tc_Exchange tc (cliCall marshal (tc_URL tc) (tc_Token tc) plan) s of
             (Inl e, s1) \<Rightarrow> (cliFail e, s1)
           | (Inr (status, body), s1) \<Rightarrow> (cliReply indent errors plan status body, s1)))"

section \<open>Properties\<close>

text \<open>
  The route of the API that a plan is for. \<open>http.NewRequest\<close> parses the path as a part of an URL: a
  fragment or a query is cut off, escapes are decoded (\<open>plainArg\<close> excludes them) and the multiplexer
  redirects dot segments.
\<close>

definition pathParts :: "string \<Rightarrow> string list" where
  "pathParts p = tl (Split (takeWhile (\<lambda>c. c \<noteq> CHR ''#'' \<and> c \<noteq> CHR ''?'') p) (CHR ''/''))"

definition plainArg :: "string \<Rightarrow> bool" where
  "plainArg a \<longleftrightarrow> a \<noteq> [] \<and> a \<noteq> ''.'' \<and> a \<noteq> ''..'' \<and> CHR ''#'' \<notin> set a \<and> CHR ''%'' \<notin> set a"

definition planRoute :: "Plan \<Rightarrow> (Route \<times> (string \<times> string) list) option" where
  "planRoute plan =
     findRoute \<lparr>rq_Method = plan_Method plan, rq_Path = pathParts (plan_Path plan), rq_Headers = [], rq_Body = []\<rparr>"

lemma takeWhile_skip: "\<forall>c \<in> set w. P c \<Longrightarrow> takeWhile P (w @ s) = w @ takeWhile P s"
  by (induction w) auto

definition segment :: "string \<Rightarrow> bool" where
  "segment a \<longleftrightarrow> (\<forall>c \<in> set a. c \<noteq> CHR ''/'' \<and> c \<noteq> CHR ''#'' \<and> c \<noteq> CHR ''?'')"

lemma Split_one: "segment a \<Longrightarrow> Split a (CHR ''/'') = [a]"
  by (auto simp: segment_def intro!: Split_no_sep)

lemma Split_segment: "segment a \<Longrightarrow> Split a (CHR ''/'') = [a]"
  "segment a \<Longrightarrow> Split (a @ CHR ''/'' # s) (CHR ''/'') = a # Split s (CHR ''/'')"
  by (simp_all only: Split_append_sep Split_one append_Cons append_Nil)

lemma segment_take: "segment a \<Longrightarrow> takeWhile (\<lambda>c. c \<noteq> CHR ''#'' \<and> c \<noteq> CHR ''?'') (a @ s) =
    a @ takeWhile (\<lambda>c. c \<noteq> CHR ''#'' \<and> c \<noteq> CHR ''?'') s"
  by (rule takeWhile_skip) (auto simp: segment_def)

lemma pathParts_simps:
  assumes "segment i" "segment n"
  shows "pathParts ''/v1/pipelines'' = [''v1'', ''pipelines'']" "pathParts ''/v1/previews'' = [''v1'', ''previews'']"
    "pathParts (''/v1/pipelines/'' @ i) = [''v1'', ''pipelines'', i]"
    "pathParts (''/v1/pipelines/'' @ i @ ''/cancel'') = [''v1'', ''pipelines'', i, ''cancel'']"
    "pathParts (''/v1/attempts/'' @ i @ ''/objects/'' @ n) = [''v1'', ''attempts'', i, ''objects'', n]"
    "pathParts (''/v1/attempts/'' @ i @ ''/objects/logs'') = [''v1'', ''attempts'', i, ''objects'', ''logs'']"
  using assms segment_take [OF assms(1), of "[]"] segment_take [OF assms(2), of "[]"]
  by (simp_all add: pathParts_def segment_take Split_segment del: takeWhile_eq_all_conv)

lemma route_simps:
  "findRoute \<lparr>rq_Method = ''GET'', rq_Path = [''v1'', ''pipelines''], rq_Headers = h, rq_Body = b\<rparr> = Some (ListPipelines, [])"
  "findRoute \<lparr>rq_Method = ''POST'', rq_Path = [''v1'', ''pipelines''], rq_Headers = h, rq_Body = b\<rparr> = Some (SubmitPipeline, [])"
  "findRoute \<lparr>rq_Method = ''GET'', rq_Path = [''v1'', ''previews''], rq_Headers = h, rq_Body = b\<rparr> = Some (ListPreviews, [])"
  "i \<noteq> [] \<Longrightarrow> findRoute \<lparr>rq_Method = ''GET'', rq_Path = [''v1'', ''pipelines'', i], rq_Headers = h, rq_Body = b\<rparr> =
     Some (ShowPipeline, [(''id'', i)])"
  "i \<noteq> [] \<Longrightarrow> findRoute \<lparr>rq_Method = ''POST'', rq_Path = [''v1'', ''pipelines'', i, ''cancel''], rq_Headers = h, rq_Body = b\<rparr> =
     Some (CancelPipeline, [(''id'', i)])"
  "i \<noteq> [] \<Longrightarrow> n \<noteq> [] \<Longrightarrow>
     findRoute \<lparr>rq_Method = ''GET'', rq_Path = [''v1'', ''attempts'', i, ''objects'', n], rq_Headers = h, rq_Body = b\<rparr> =
     Some (GetObject, [(''id'', i), (''name'', n)])"
  by (simp_all add: findRoute_def routes_def matchRoute_def HasPrefix_def TrimByte_def)

lemma cliRun_Send:
  assumes "cliRun env = Inr (Send url token plan)"
  shows "\<exists>mode args. ce_Args env = mode # args \<and> modePlan env mode args = Inr plan"
proof -
  obtain mode args where a: "ce_Args env = mode # args"
    using assms by (cases "ce_Args env") (simp_all add: cliRun_def)
  obtain c where c: "ce_Transport env = Inr c"
    using assms a by (cases "ce_Transport env") (simp_all add: cliRun_def split: if_splits)
  obtain url' token' where c': "c = (url', token')" by (cases c)
  have "modePlan env mode args = Inr plan"
    using assms a c c' by (cases "modePlan env mode args") (simp_all add: cliRun_def split: if_splits)
  with a show ?thesis by blast
qed

lemma modePlan_cases:
  assumes "modePlan env mode args = Inr plan"
  obtains (submit) "mode = ''submit''" "submitPlan env args = Inr plan"
  | (list) "mode = ''pipelines''" "plan = plainPlan ''GET'' ''/v1/pipelines''"
  | (previews) "mode = ''previews''" "plan = plainPlan ''GET'' ''/v1/previews''"
  | (resource) "mode \<in> {''show'', ''cancel'', ''logs'', ''artifact''}" "resourcePlan env mode args = Inr plan"
  using assms unfolding modePlan_def by (simp split: if_splits)

text \<open>The plans of the commands that name a resource.\<close>

lemma resourcePlan_cases:
  assumes "mode \<in> {''show'', ''cancel'', ''logs'', ''artifact''}" "resourcePlan env mode args = Inr plan"
    and "\<forall>a \<in> set (take 2 args). plainArg a"
  obtains (plain) i rest where "mode = ''show''" "args = i # rest" "segment i" "i \<noteq> []"
      "plan = plainPlan ''GET'' (''/v1/pipelines/'' @ i)"
  | (cancel) i rest where "mode = ''cancel''" "args = i # rest" "segment i" "i \<noteq> []"
      "plan = plainPlan ''POST'' (''/v1/pipelines/'' @ i @ ''/cancel'')"
  | (logs) i rest where "mode = ''logs''" "args = i # rest" "segment i" "i \<noteq> []"
      "plan = (plainPlan ''GET'' (''/v1/attempts/'' @ i @ ''/objects/logs''))\<lparr>plan_Raw := True\<rparr>"
  | (artifact) i n rest out where "mode = ''artifact''" "args = i # n # rest" "segment i" "i \<noteq> []" "segment n" "n \<noteq> []"
      "plan = (plainPlan ''GET'' (''/v1/attempts/'' @ i @ ''/objects/'' @ n))\<lparr>plan_Raw := True, plan_Output := out\<rparr>"
proof -
  from assms(2) obtain i rest where args: "args = i # rest" "\<not> ContainsAny i ''/?.''"
    by (auto simp: resourcePlan_def split: list.splits if_splits)
  then have i: "segment i" "i \<noteq> []" using assms(3) by (auto simp: ContainsAny_def segment_def plainArg_def)
  consider "mode = ''show''" | "mode = ''cancel''" | "mode = ''logs''" | "mode = ''artifact''" using assms(1) by blast
  then show ?thesis
  proof cases
    case 1
    with assms(2) args plain [OF _ args(1) i] show ?thesis by (simp add: resourcePlan_def)
  next
    case 2
    with assms(2) args cancel [OF _ args(1) i] show ?thesis by (simp add: resourcePlan_def)
  next
    case 3
    with assms(2) args logs [OF _ args(1) i] show ?thesis by (simp add: resourcePlan_def)
  next
    case 4
    with assms(2) args obtain n more out where n: "rest = n # more" "\<not> ContainsAny n ''/?''"
        "plan = (plainPlan ''GET'' (''/v1/attempts/'' @ i @ ''/objects/'' @ n))\<lparr>plan_Raw := True, plan_Output := out\<rparr>"
      by (cases rest) (auto simp: resourcePlan_def split: if_splits sum.splits prod.splits)
    then have "segment n" "n \<noteq> []" using assms(3) args by (auto simp: ContainsAny_def segment_def plainArg_def)
    with n 4 args artifact [OF _ _ i] show ?thesis by simp
  qed
qed

text \<open>C39: every command reaches the route it is meant for. If the arguments that name a resource
  need no URL escaping, the request that \<open>run\<close> sends is matched by the API with the route of its command
  and with the arguments of the command line as the route's parameters: \<open>pipelines\<close> and \<open>previews\<close> list,
  \<open>submit\<close> submits, \<open>show\<close> and \<open>cancel\<close> are for the pipeline named first, \<open>logs\<close> and \<open>artifact\<close> fetch the
  object \<open>logs\<close> or the object named second of the attempt named first, so that a slash, a query or a dot
  in an argument cannot redirect the request to another resource; every such route is open to tenants;
  a submission is sent by \<open>submit\<close> alone and names the repository and the commit given by the flags, a
  valid repository and a full commit, and carries an idempotency key when the random draw is not empty.\<close>

theorem cliRun_routes:
  assumes "cliRun env = Inr (Send url token plan)" "\<forall>a \<in> set (take 2 (tl (ce_Args env))). plainArg a"
  shows "let mode = hd (ce_Args env); id = (''id'', ce_Args env ! 1) in
    mode \<in> {''pipelines'', ''previews'', ''submit'', ''show'', ''cancel'', ''logs'', ''artifact''} \<and>
    planRoute plan =
      Some (if mode = ''pipelines'' then (ListPipelines, [])
            else if mode = ''previews'' then (ListPreviews, [])
            else if mode = ''submit'' then (SubmitPipeline, [])
            else if mode = ''show'' then (ShowPipeline, [id])
            else if mode = ''cancel'' then (CancelPipeline, [id])
            else if mode = ''logs'' then (GetObject, [id, (''name'', ''logs'')])
            else (GetObject, [id, (''name'', ce_Args env ! 2)])) \<and>
    roles (fst (the (planRoute plan))) = ''admin tenant'' \<and>
    (plan_Raw plan \<longleftrightarrow> mode \<in> {''logs'', ''artifact''}) \<and>
    (plan_Payload plan \<noteq> None \<longleftrightarrow> mode = ''submit'') \<and>
    (\<forall>sub. plan_Payload plan = Some sub \<longrightarrow>
       (\<exists>f. ce_SubmitFlags env (tl (ce_Args env)) = Inr f \<and> sub_Repo sub = sf_Repo f \<and> sub_CommitSHA sub = sf_SHA f) \<and>
       RepositoryPattern (sub_Repo sub) \<and> CommitPattern (sub_CommitSHA sub) \<and>
       (ce_Random env \<noteq> [] \<longrightarrow> plan_Key plan \<noteq> []))"
proof -
  obtain mode args where a: "ce_Args env = mode # args" and p: "modePlan env mode args = Inr plan"
    using cliRun_Send [OF assms(1)] by blast
  have roles: "roles ListPipelines = ''admin tenant''" "roles SubmitPipeline = ''admin tenant''"
    "roles ListPreviews = ''admin tenant''" "roles ShowPipeline = ''admin tenant''"
    "roles CancelPipeline = ''admin tenant''" "roles GetObject = ''admin tenant''"
    by (simp_all add: roles_def routes_def)
  have nil: "segment []" by (simp add: segment_def)
  note fixed = pathParts_simps(1,2) [OF nil nil]
  from p show ?thesis
  proof (cases rule: modePlan_cases)
    case submit
    then obtain f spec where "ce_SubmitFlags env args = Inr f" "RepositoryPattern (sf_Repo f)" "CommitPattern (sf_SHA f)"
      "plan = (plainPlan ''POST'' ''/v1/pipelines'')
         \<lparr>plan_Payload := Some (cliSubmission f spec), plan_Key := if sf_Key f = [] then ce_Random env else sf_Key f\<rparr>"
      by (auto simp: submitPlan_def split: sum.splits option.splits if_splits)
    with submit(1) show ?thesis
      by (simp add: Let_def a planRoute_def fixed route_simps roles cliSubmission_def)
  next
    case list
    then show ?thesis by (simp add: Let_def a planRoute_def fixed route_simps roles)
  next
    case previews
    then show ?thesis by (simp add: Let_def a planRoute_def fixed route_simps roles)
  next
    case resource
    have "\<forall>b \<in> set (take 2 args). plainArg b" using assms(2) a by simp
    with resource show ?thesis
    proof (cases rule: resourcePlan_cases)
      case (artifact i n rest out)
      then show ?thesis
        by (simp add: Let_def a planRoute_def pathParts_simps [OF artifact(3,5), simplified] route_simps roles)
    qed (simp_all add: Let_def a planRoute_def pathParts_simps [OF _ nil, simplified] route_simps roles)
  qed
qed

text \<open>A fragment is let through: \<open>cancel x#\<close> posts to the pipeline's path without \<open>/cancel\<close>, which no
  route answers, and \<open>show x#y\<close> shows \<open>x\<close>.\<close>

lemma fragment_lost:
  "planRoute (plainPlan ''POST'' (''/v1/pipelines/'' @ ''pl_1#'' @ ''/cancel'')) = None"
  "planRoute (plainPlan ''GET'' (''/v1/pipelines/'' @ ''pl_1#y'')) = Some (ShowPipeline, [(''id'', ''pl_1'')])"
  by code_simp+

text \<open>What \<open>init\<close> generates, the platform accepts: when it prints a secret and its random draws are
  distinct and long enough, the access file in the secret passes the API's validation, and each value
  of the secret decodes to the value it stands for.\<close>

lemma initialize_valid:
  assumes "initialize marshal rnd flags = Inr secret" "inj_on rnd {..<9}" "\<forall>n < 9. 32 \<le> length (rnd n)"
  shows "\<exists>release repo data. index (asMap secret) ''data'' = VMap data \<and>
    (\<forall>(k, v) \<in> set (initValues marshal rnd release repo). map_of data k = Some (VStr (base64Encode v)) \<and>
       base64Decode (base64Encode v) = Some v) \<and>
    map_of (initValues marshal rnd release repo) ''auth.json'' =
      Some (marshal (initPolicy (rnd 0) (rnd 1) (rnd 2) (rnd 3) repo)) \<and>
    ValidateAccess (initPolicy (rnd 0) (rnd 1) (rnd 2) (rnd 3) repo) = None"
proof -
  obtain namespace release repo where f: "flags = Inr (namespace, release, repo)" "RepositoryPattern repo"
    using assms(1) by (auto simp: initialize_def split: sum.splits prod.splits if_splits)
  let ?vs = "initValues marshal rnd release repo"
  have sec: "index (asMap secret) ''data'' = VMap (map (\<lambda>(k, v). (k, VStr (base64Encode v))) ?vs)"
    using assms(1) f by (auto simp: initialize_def index_def getd_def split: if_splits)
  have dist: "distinct (keys ?vs)" by (simp add: initValues_def Let_def)
  have data: "map_of (map (\<lambda>(k, v). (k, VStr (base64Encode v))) ?vs) k = map_option (\<lambda>v. VStr (base64Encode v)) (map_of ?vs k)" for k
    by (induction ?vs) (simp_all add: map_of_map)
  have ne: "rnd m \<noteq> rnd n" if "m < 9" "n < 9" "m \<noteq> n" for m n
    using that assms(2) by (auto simp: inj_on_def)
  have len: "32 \<le> length (rnd n)" if "n < 9" for n using assms(3) that by blast
  have "ValidateAccess (initPolicy (rnd 0) (rnd 1) (rnd 2) (rnd 3) repo) = None"
    using ne [of 0 1] ne [of 0 2] ne [of 0 3] ne [of 1 2] ne [of 1 3] ne [of 2 3] len [of 0] len [of 1] len [of 2] len [of 3] f(2)
    by (simp add: ValidateAccess_def initPolicy_def Let_def not_less)
  moreover have "map_of ?vs ''auth.json'' = Some (marshal (initPolicy (rnd 0) (rnd 1) (rnd 2) (rnd 3) repo))"
    by (simp add: initValues_def Let_def)
  moreover have "\<forall>(k, v) \<in> set ?vs. map_of (map (\<lambda>(k, v). (k, VStr (base64Encode v))) ?vs) k = Some (VStr (base64Encode v)) \<and>
       base64Decode (base64Encode v) = Some v"
    using dist by (auto simp: data base64_roundtrip map_of_is_SomeI)
  ultimately show ?thesis using sec by blast
qed

lemma saveArtifact_safe:
  assumes "saveArtifact path body openError writeError closeError = (e, calls)"
  shows "(\<forall>data. WriteAll data \<in> set calls \<longrightarrow> length data \<le> 16 * 2 ^ 20 \<and> body = Inr data) \<and>
    (e = None \<longleftrightarrow> (\<exists>data. body = Inr data \<and> calls = [OpenNew path, WriteAll data, CloseFile])) \<and>
    (e \<noteq> None \<and> openError = None \<and> calls \<noteq> [] \<longrightarrow> last calls = RemoveFile path)"
  using assms by (auto simp: saveArtifact_def Let_def split: sum.splits if_splits option.splits)

text \<open>An artifact file is written only with the whole body of a successful reply, and is removed when
  writing fails; a failed command prints nothing.\<close>

lemma cliReply_safe:
  assumes "cliReply indent errors plan status body = out"
  shows "(\<forall>data. WriteAll data \<in> set (co_Files out) \<longrightarrow> data = body \<and> 200 \<le> status \<and> status < 300 \<and> plan_Raw plan) \<and>
    (co_Error out \<noteq> None \<longrightarrow> co_Stdout out = [] \<and> (WriteAll body \<in> set (co_Files out) \<longrightarrow> last (co_Files out) = RemoveFile (plan_Output plan)))"
  using assms
  by (auto simp: cliReply_def cliFail_def saveArtifact_def Let_def split: prod.splits if_splits sum.splits option.splits)

section \<open>Samples\<close>

definition sampleCli :: CliEnv where
  "sampleCli = \<lparr>ce_Args = [''cancel'', ''pl_1''], ce_Transport = Inr (''http://ci'', ''tok''), ce_SubmitFlags = (\<lambda>_. Inl []),
     ce_ArtifactFlags = (\<lambda>_. Inl []), ce_ReadFile = (\<lambda>_. Inl []), ce_Yaml = (\<lambda>_. None), ce_Random = []\<rparr>"

lemma sampleCli_run: "cliRun sampleCli = Inr (Send ''http://ci'' ''tok'' (plainPlan ''POST'' ''/v1/pipelines/pl_1/cancel''))"
  by (simp add: cliRun_def sampleCli_def modePlan_def resourcePlan_def ContainsAny_def)

theorem cliRun_routes_witness:
  "planRoute (plainPlan ''POST'' ''/v1/pipelines/pl_1/cancel'') = Some (CancelPipeline, [(''id'', ''pl_1'')])"
  using cliRun_routes [OF sampleCli_run] by (simp add: sampleCli_def plainArg_def Let_def)

definition sampleDraw :: "nat \<Rightarrow> string" where
  "sampleDraw n = replicate (32 + n) (CHR ''a'')"

lemma sample_initialize:
  "\<exists>secret. initialize (\<lambda>_. []) sampleDraw (Inr (''ci'', ''ci'', ''o/r'')) = Inr secret"
  by (simp add: initialize_def namePattern_def RepositoryPattern_def isLower_def isUpper_def isNumber_def less_eq_char_def)

lemma initialize_valid_sample:
  "\<exists>repo. ValidateAccess (initPolicy (sampleDraw 0) (sampleDraw 1) (sampleDraw 2) (sampleDraw 3) repo) = None"
proof -
  have "inj_on sampleDraw {..<9}" by (auto simp: inj_on_def sampleDraw_def replicate_eq_replicate)
  moreover have "\<forall>n < 9. 32 \<le> length (sampleDraw n)" by (simp add: sampleDraw_def)
  moreover obtain secret where "initialize (\<lambda>_. []) sampleDraw (Inr (''ci'', ''ci'', ''o/r'')) = Inr secret"
    using sample_initialize by blast
  ultimately show ?thesis using initialize_valid by blast
qed

end
