(* ===== verification/Spec2Isabelle.thy ===== *)
theory Spec2Isabelle
  imports System Startup Report Controller App Cictl Findings
begin

text \<open>
  A verification development of the CI preview platform: a control plane that turns GitHub deliveries
  and API submissions into pipelines, schedules their jobs on workers, and keeps a preview environment
  per pull request.

  \<^bold>\<open>The program.\<close> The control plane (\<open>cmd/api\<close>) holds one \<open>control.Store\<close>, stored encrypted as a single row of
  Postgres (\<open>internal/persistence\<close>). Every request of the HTTP API (\<open>internal/api\<close>), every tick of the
  scheduler and every report of a GitHub check is one transaction on it. Worker processes (\<open>cmd/worker\<close>)
  poll for leases, run each in a namespace of its own through kubectl (\<open>internal/kube\<close>), upload logs and
  artifacts and report the result. The controller process (\<open>cmd/controller\<close>) reconciles previews with the
  cluster and deletes orphaned job namespaces. \<open>cmd/cictl\<close> is the command-line client.

  \<^bold>\<open>The theories.\<close>
  \<^item> \<open>Prelude\<close>, \<open>GoStrings\<close>, \<open>Paths\<close>, \<open>Sha256\<close>, \<open>Base64\<close>: the Go fragments all components share: maps as
    association lists with distinct keys, 64-bit wrap-around, \<open>strings\<close>, \<open>path\<close>, hashing, HMAC and base64,
    with the lemmas the components use (confinement of cleaned paths, round trips).
  \<^item> \<open>Domain\<close>, \<open>Planner\<close>, \<open>Runtime\<close>: the records of \<open>internal/domain\<close>, \<open>planner.Validate\<close> and
    \<open>planner.Executable\<close>, with the iteration orders of maps as arguments: acceptance exactly of the
    well-formed acyclic specifications, topological plans, independence of the map order.
  \<^item> \<open>Store\<close>, \<open>Scheduler\<close>, \<open>Leases\<close>, \<open>Workflow\<close>: \<open>control.Store\<close> as a record and every operation of
    \<open>store.go\<close> and \<open>workflow.go\<close> as a function on it. A nil dereference is \<open>None\<close>; a Go error is the left
    of a sum; random identifiers and map orders are the \<open>World\<close> of a call.
  \<^item> \<open>Invariant\<close>, \<open>LeaseSafety\<close>, \<open>ScheduleSafety\<close>, \<open>Dispatch\<close>, \<open>Intake\<close>, \<open>Upkeep\<close>: the invariant of the store
    and that every operation keeps it and never panics. \<open>Machine\<close>: the locale \<open>store_operation\<close>, its
    interpretation for every operation, and the reachable states of the store as a step relation.
  \<^item> \<open>Demo\<close>, \<open>Results\<close>, \<open>Intents\<close>, \<open>Scheduling\<close>, \<open>Protocol\<close>, \<open>Delivery\<close>, \<open>Lifecycle\<close>, \<open>Bounds\<close>, \<open>Quota\<close>: the
    properties of the store, over all reachable states: no double execution, results committed once,
    dead work recovered, fair and complete scheduling, bounded queues and quotas, events that take
    effect once and supersede. \<open>Demo\<close> is a run evaluated in the kernel, from which witnesses are taken.
  \<^item> \<open>Access\<close>, \<open>Guards\<close>, \<open>Objects\<close>, \<open>Persist\<close>, \<open>Api\<close>, \<open>Webhook\<close>: access file, webhook signature, archive
    entries, S3 client, both backends (locale \<open>backend\<close>, interpreted for the memory and the Postgres
    backend, and the refinement between them), routing and handlers.
  \<^item> \<open>Policy\<close>, \<open>Submissions\<close>, \<open>ControlPlane\<close>, \<open>Isolation\<close>, \<open>Service\<close>, \<open>System\<close>, \<open>Startup\<close>: the composition. Requests that the
    access file admits, transactions that may fail or lose their answer, and restarts keep the stored
    state reachable under the operator's policy; tenants and workers are isolated (\<open>Submissions\<close> keeps the
    history of submissions, because the store itself only keeps their digests); the scheduler tick
    ends; a process that starts does so from a valid configuration.
  \<^item> \<open>Kubectl\<close>, \<open>Boundary\<close>, \<open>Preview\<close>, \<open>Runner\<close>: \<open>client.go\<close>, \<open>preview.go\<close> and \<open>runner.go\<close> of \<open>internal/kube\<close>.
    Manifests are values of the datatype \<open>Value\<close>; what an operation does to the cluster is the list of
    its kubectl invocations (\<open>runs\<close>). \<open>Boundary\<close> reads all the network policies that apply to a pod as
    Kubernetes documents them, and checks the types of pods; \<open>Runner\<close> resolves a pod's references.
  \<^item> \<open>Transport\<close>, \<open>Worker\<close>, \<open>Report\<close>, \<open>Controller\<close>, \<open>App\<close>, \<open>Cictl\<close>: the client processes. \<open>Report\<close> states the
    effects of one execution as a trace of kubectl invocations and API requests and proves that its
    completion passes the API's checks; \<open>Controller\<close> has the locale \<open>kubectl_client\<close> for the interface of
    the same name in the code, interpreted on the kubectl client.
  \<^item> \<open>Findings\<close>: facts about inputs that two parts of the program treat differently.

  \<^bold>\<open>Parameters.\<close> Code outside the repository is an argument of the definitions that use it: \<open>encoding/gob\<close>
  and the AEAD cipher (hypotheses \<open>lossless\<close> and \<open>opens\<close>: decoding inverts encoding), the database's
  failures (\<open>PgEnv\<close>), HTTP exchanges, JSON, YAML, PEM, PKCS and RSA, flag parsing, kubectl and the cluster,
  the file system and the clock. Fresh identifiers (\<open>fresh\<close>) are not already in the store, and where a
  replayed delivery is answered they are not named by an older delivery either (\<open>unissued\<close>); a submission
  has no SHA-256 digest in common with an earlier one of another tenant (\<open>separated\<close>). No property
  depends on a particular order of Go's map iteration.

  \<^bold>\<open>Bounds.\<close> Loops are structural recursions. The scheduler tick makes 64 leases, the code's own bound, and
  takes a world per call; \<open>kahn\<close>, \<open>utoa\<close> and the cleaning of paths terminate by measures. \<open>Execute\<close> polls
  until its context ends: the number of polls before that is an argument of \<open>awaitPod\<close>, so its theorems
  hold for every number. The completion loop makes three attempts, as in the code. Machine integers
  wrap around at 64 bits where the code adds unbounded numbers (\<open>wrap64\<close>); elsewhere the validated ranges
  keep them small, which the quota theorem proves for the scheduler's sums.

  \<^bold>\<open>Concurrency.\<close> The store's mutex and the row lock of the database make each operation one step; requests,
  ticks, reports and restarts interleave arbitrarily (\<open>running\<close>). A worker's executions interleave with its
  polls through its claims (\<open>working\<close>); the goroutine that renews a lease is \<open>renewLoop\<close>, and its effect on
  an execution, cancelling the context, is \<open>ag_Ended\<close> and \<open>ag_Ticks\<close>, which are arbitrary.

  \<^bold>\<open>Not modelled.\<close> Logging, signals, HTTP server time-outs and TLS, the connection pool's settings,
  \<open>Ping\<close> and \<open>Close\<close> of the backends, the \<open>hold\<close> helper (a sleep) and the help text: they keep no state and
  decide nothing. Temporary files of the in-cluster kubeconfig are represented by the document passed to
  kubectl. Tests, the Helm chart and the scripts are not code of the program.
\<close>

end
